(* ===== verification/Prelude.thy ===== *)
theory Prelude
  imports Main "HOL-Library.Word" "HOL-Library.List_Lexorder" "HOL-Library.Char_ord"
begin

unbundle bit_operations_syntax

text \<open>
  Shared vocabulary of the development.

  \<^item> Machine integers: Go's \<open>uint8 .. uint64\<close> are words of that width; Go's \<open>int\<close> (64 bit on
    every supported platform) is \<^typ>\<open>int\<close> where it only holds indices and sizes that the code
    bounds far below \<open>2 ^ 63\<close>.
  \<^item> Go maps are partial functions \<open>'k \<rightharpoonup> 'v\<close>; \<open>delete(m, k)\<close> is \<open>map_del\<close>, \<open>len(m)\<close> is
    \<open>map_len\<close>. A loop that ranges over a map takes the order in which the run time enumerates
    the keys as an argument, constrained by \<open>enumerates\<close>, because Go leaves that order open.
  \<^item> Strings are byte strings, so a \<^typ>\<open>string\<close> (a list of 8 bit characters) is exact.
  \<^item> The collections \<open>net_simps\<close> and \<open>bm_simps\<close> gather the rewrite rules that the component
    proofs share.
\<close>

type_synonym u8 = "8 word"
type_synonym u16 = "16 word"
type_synonym u32 = "32 word"
type_synonym u64 = "64 word"

named_theorems net_simps \<open>rewrite rules for addresses and networks\<close>
named_theorems bm_simps \<open>rewrite rules for allocation bitmaps\<close>

section \<open>Go maps\<close>

definition map_del :: "('k \<rightharpoonup> 'v) \<Rightarrow> 'k \<Rightarrow> ('k \<rightharpoonup> 'v)" where
  "map_del m k = m(k := None)"

definition map_len :: "('k \<rightharpoonup> 'v) \<Rightarrow> nat" where
  "map_len m = card (dom m)"

definition enumerates :: "'k list \<Rightarrow> ('k \<rightharpoonup> 'v) \<Rightarrow> bool" where
  "enumerates ks m \<longleftrightarrow> distinct ks \<and> set ks = dom m"

lemma map_del_apply [simp]: "map_del m k x = (if x = k then None else m x)"
  by (simp add: map_del_def)

lemma dom_map_del [simp]: "dom (map_del m k) = dom m - {k}"
  by (simp add: map_del_def)

lemma map_del_upd_same [simp]: "map_del (m(k \<mapsto> v)) k = map_del m k"
  by (simp add: map_del_def)

lemma map_del_notin: "k \<notin> dom m \<Longrightarrow> map_del m k = m"
  by (auto simp: map_del_def domIff fun_upd_idem)

lemma map_len_upd_new:
  "finite (dom m) \<Longrightarrow> m k = None \<Longrightarrow> map_len (m(k \<mapsto> v)) = Suc (map_len m)"
  by (simp add: map_len_def domIff)

lemma map_len_upd_old:
  "m k = Some w \<Longrightarrow> map_len (m(k \<mapsto> v)) = map_len m"
  by (simp add: map_len_def insert_absorb domIff)

lemma map_len_del:
  "finite (dom m) \<Longrightarrow> m k = Some w \<Longrightarrow> Suc (map_len (map_del m k)) = map_len m"
  unfolding map_len_def dom_map_del by (rule card_Suc_Diff1) (auto simp: domIff)

lemma enumerates_finite: "enumerates ks m \<Longrightarrow> finite (dom m)"
  unfolding enumerates_def by (metis List.finite_set)

lemma enumerates_length: "enumerates ks m \<Longrightarrow> map_len m = length ks"
  unfolding enumerates_def map_len_def by (metis distinct_card)

section \<open>Lists\<close>

text \<open>\<open>strings.Join\<close>.\<close>

fun str_join :: "'a list \<Rightarrow> 'a list list \<Rightarrow> 'a list" where
  "str_join sep [] = []"
| "str_join sep [x] = x"
| "str_join sep (x # y # ys) = x @ sep @ str_join sep (y # ys)"

lemma set_str_join: "set (str_join sep ps) \<subseteq> set sep \<union> (\<Union>p \<in> set ps. set p)"
  by (induction sep ps rule: str_join.induct) auto

text \<open>\<open>strings.ReplaceAll\<close> for a single byte.\<close>

definition replace_byte :: "char \<Rightarrow> char \<Rightarrow> string \<Rightarrow> string" where
  "replace_byte a b s = map (\<lambda>c. if c = a then b else c) s"

text \<open>Splitting at every occurrence of one separator element; the inverse of \<^const>\<open>str_join\<close>
  on pieces that do not contain it.\<close>

fun split_on :: "'a \<Rightarrow> 'a list \<Rightarrow> 'a list list" where
  "split_on c [] = [[]]"
| "split_on c (x # xs) =
     (if x = c then [] # split_on c xs
      else (case split_on c xs of [] \<Rightarrow> [[x]] | p # ps \<Rightarrow> (x # p) # ps))"

lemma split_on_not_Nil [simp]: "split_on c xs \<noteq> []"
  by (induction xs) (auto split: list.splits)

lemma split_on_clean: "c \<notin> set xs \<Longrightarrow> split_on c xs = [xs]"
  by (induction xs) auto

lemma split_on_sep: "c \<notin> set xs \<Longrightarrow> split_on c (xs @ c # ys) = xs # split_on c ys"
  by (induction xs) auto

lemma split_on_join:
  "ps \<noteq> [] \<Longrightarrow> \<forall>p \<in> set ps. c \<notin> set p \<Longrightarrow> split_on c (str_join [c] ps) = ps"
proof (induction "[c]" ps rule: str_join.induct)
  case (3 x y ys)
  then show ?case by (simp add: split_on_sep)
qed (auto simp: split_on_clean)

lemma str_join_inject:
  assumes "ps \<noteq> []" "qs \<noteq> []"
    and "\<forall>p \<in> set ps. c \<notin> set p" "\<forall>q \<in> set qs. c \<notin> set q"
    and "str_join [c] ps = str_join [c] qs"
  shows "ps = qs"
  using assms by (metis split_on_join)

text \<open>\<open>hash/fnv\<close>: the 64 bit FNV-1a hash.\<close>

definition fnv64a :: "string \<Rightarrow> u64" where
  "fnv64a s = foldl (\<lambda>h c. (h XOR of_char c) * 1099511628211) 14695981039346656037 s"

lemma last_conv_snoc: "xs \<noteq> [] \<Longrightarrow> xs = butlast xs @ [last xs]"
  by simp

end
