(* ===== verification/GoNet.thy ===== *)
theory GoNet
  imports Prelude
begin

unbundle bit_operations_syntax

text \<open>
  What the program uses of Go's standard packages \<open>net\<close>, \<open>net/netip\<close> and \<open>math/big\<close>: addresses
  as byte slices with \<open>To4\<close>, \<open>To16\<close> and \<open>String\<close>, the textual parsers \<open>ParseIP\<close> and
  \<open>ParseCIDR\<close> (dotted decimal, RFC 4291 text with \<open>::\<close> and an embedded dotted quad, zones),
  prefix masks, and network membership. The facts the allocators need are at the end: big endian
  values, printing is injective, parsing inverts printing, and a network contains exactly the
  addresses whose value lies in one aligned block.
\<close>

section \<open>Addresses\<close>

type_synonym IP = "u8 list"

definition v4InV6Prefix :: "u8 list" where
  "v4InV6Prefix = [0, 0, 0, 0, 0, 0, 0, 0, 0, 0, 255, 255]"

definition IP_To4 :: "IP \<Rightarrow> IP option" where
  "IP_To4 ip =
     (if length ip = 4 then Some ip
      else if length ip = 16 \<and> take 12 ip = v4InV6Prefix then Some (drop 12 ip)
      else None)"

definition IP_To16 :: "IP \<Rightarrow> IP option" where
  "IP_To16 ip =
     (if length ip = 4 then Some (v4InV6Prefix @ ip)
      else if length ip = 16 then Some ip
      else None)"

section \<open>Printing\<close>

definition digit_char :: "nat \<Rightarrow> char" where
  "digit_char n = (if n < 10 then char_of (48 + n) else char_of (87 + n))"

fun base_str :: "nat \<Rightarrow> nat \<Rightarrow> string" where
  "base_str b n =
     (if b < 2 \<or> n < b then [digit_char n] else base_str b (n div b) @ [digit_char (n mod b)])"

declare base_str.simps [simp del]

definition dec_str :: "nat \<Rightarrow> string" where
  "dec_str n = base_str 10 n"

definition hex_str :: "nat \<Rightarrow> string" where
  "hex_str n = base_str 16 n"

definition string4 :: "IP \<Rightarrow> string" where
  "string4 ip = str_join ''.'' (map (\<lambda>b. dec_str (unat b)) ip)"

text \<open>The eight 16 bit groups of an IPv6 address.\<close>

fun groups16 :: "IP \<Rightarrow> nat list" where
  "groups16 (a # b # bs) = (256 * unat a + unat b) # groups16 bs"
| "groups16 _ = []"

text \<open>The length of the run of zero groups that starts a list, and the search for the longest
  run of at least two groups (the first one wins).\<close>

fun zero_run :: "nat list \<Rightarrow> nat" where
  "zero_run (g # gs) = (if g = 0 then Suc (zero_run gs) else 0)"
| "zero_run [] = 0"

fun longest_zero_run :: "nat \<Rightarrow> nat list \<Rightarrow> nat \<times> nat \<Rightarrow> nat \<times> nat" where
  "longest_zero_run i [] best = best"
| "longest_zero_run i (g # gs) (start, stop) =
     longest_zero_run (Suc i) gs
       (let l = zero_run (g # gs)
        in if 2 \<le> l \<and> stop - start < l then (i, i + l) else (start, stop))"

definition string6 :: "IP \<Rightarrow> string" where
  "string6 ip =
     (let gs = groups16 ip; (start, stop) = longest_zero_run 0 gs (255, 255);
          txt = (\<lambda>xs. str_join '':'' (map hex_str xs))
      in if start = 255 then txt gs
         else txt (take start gs) @ ''::'' @ txt (drop stop gs))"

definition hexString :: "IP \<Rightarrow> string" where
  "hexString ip = concat (map (\<lambda>b. [digit_char (unat b div 16), digit_char (unat b mod 16)]) ip)"

definition IP_String :: "IP \<Rightarrow> string" where
  "IP_String ip =
     (if length ip = 0 then ''<nil>''
      else if length ip \<noteq> 4 \<and> length ip \<noteq> 16 then ''?'' @ hexString ip
      else (case IP_To4 ip of Some p4 \<Rightarrow> string4 p4 | None \<Rightarrow> string6 ip))"

section \<open>Parsing\<close>

definition dec_val :: "char \<Rightarrow> nat option" where
  "dec_val c = (let n = of_char c in if 48 \<le> n \<and> n \<le> 57 then Some (n - 48) else None)"

definition hex_val :: "char \<Rightarrow> nat option" where
  "hex_val c =
     (let n = of_char c
      in if 48 \<le> n \<and> n \<le> 57 then Some (n - 48)
         else if 97 \<le> n \<and> n \<le> 102 then Some (n - 87)
         else if 65 \<le> n \<and> n \<le> 70 then Some (n - 55)
         else None)"

text \<open>\<open>parseIPv4Fields\<close>: the arguments are the previous byte, the value and the number of digits
  of the current field, and the fields read so far.\<close>

fun parseIPv4Fields :: "char option \<Rightarrow> nat \<Rightarrow> nat \<Rightarrow> u8 list \<Rightarrow> string \<Rightarrow> u8 list option" where
  "parseIPv4Fields prev val digLen fields [] =
     (if length fields < 3 then None else Some (fields @ [of_nat val]))"
| "parseIPv4Fields prev val digLen fields (c # cs) =
     (case dec_val c of
        Some d \<Rightarrow>
          if digLen = 1 \<and> val = 0 then None
          else if 255 < val * 10 + d then None
          else parseIPv4Fields (Some c) (val * 10 + d) (Suc digLen) fields cs
      | None \<Rightarrow>
          if c = CHR ''.'' then
            if prev = None \<or> cs = [] \<or> prev = Some (CHR ''.'') then None
            else if length fields = 3 then None
            else parseIPv4Fields (Some c) 0 0 (fields @ [of_nat val]) cs
          else None)"

text \<open>One hexadecimal group: the number of digits, the value and the rest of the text.\<close>

fun hex_scan :: "nat \<Rightarrow> nat \<Rightarrow> string \<Rightarrow> (nat \<times> nat \<times> string) option" where
  "hex_scan off acc [] = Some (off, acc, [])"
| "hex_scan off acc (c # cs) =
     (case hex_val c of
        None \<Rightarrow> Some (off, acc, c # cs)
      | Some d \<Rightarrow>
          if 3 < off then None
          else if 65535 < acc * 16 + d then None
          else hex_scan (Suc off) (acc * 16 + d) cs)"

text \<open>The loop of \<open>parseIPv6\<close>. \<open>ip\<close> holds the bytes written so far (the loop index \<open>i\<close> is its
  length) and \<open>ell\<close> the position of the ellipsis.\<close>

function parseIPv6_loop :: "string \<Rightarrow> nat option \<Rightarrow> IP \<Rightarrow> (string \<times> nat option \<times> IP) option" where
  "parseIPv6_loop s ell ip =
     (if length ip < 16 then
        (case hex_scan 0 0 s of
           None \<Rightarrow> None
         | Some (off, acc, r) \<Rightarrow>
             if off = 0 then None
             else if r \<noteq> [] \<and> hd r = CHR ''.'' then
               if ell = None \<and> length ip \<noteq> 12 then None
               else if 16 < length ip + 4 then None
               else (case parseIPv4Fields None 0 0 [] s of
                       None \<Rightarrow> None
                     | Some f \<Rightarrow> Some ([], ell, ip @ f))
             else
               let ip' = ip @ [of_nat (acc div 256), of_nat (acc mod 256)]
               in (case r of
                     [] \<Rightarrow> Some ([], ell, ip')
                   | c # r' \<Rightarrow>
                       if c \<noteq> CHR '':'' \<or> r' = [] then None
                       else if hd r' = CHR '':'' then
                         if ell \<noteq> None then None
                         else if tl r' = [] then Some ([], Some (length ip'), ip')
                         else parseIPv6_loop (tl r') (Some (length ip')) ip'
                       else parseIPv6_loop r' ell ip'))
      else Some (s, ell, ip))"
  by pat_completeness auto
termination
  by (relation "measure (\<lambda>(s, ell, ip). 16 - length ip)") auto

declare parseIPv6_loop.simps [simp del]

definition expand_ellipsis :: "string \<times> nat option \<times> IP \<Rightarrow> IP option" where
  "expand_ellipsis = (\<lambda>(s, ell, ip).
     if s \<noteq> [] then None
     else if length ip < 16 then
       (case ell of
          None \<Rightarrow> None
        | Some e \<Rightarrow> Some (take e ip @ replicate (16 - length ip) 0 @ drop e ip))
     else if ell \<noteq> None then None
     else Some ip)"

definition parseIPv6_body :: "string \<Rightarrow> IP option" where
  "parseIPv6_body s =
     (if take 2 s = ''::'' then
        if drop 2 s = [] then Some (replicate 16 0)
        else Option.bind (parseIPv6_loop (drop 2 s) (Some 0) []) expand_ellipsis
      else Option.bind (parseIPv6_loop s None []) expand_ellipsis)"

datatype Addr = Addr4 IP | Addr6 IP string

definition parseIPv6 :: "string \<Rightarrow> Addr option" where
  "parseIPv6 s =
     (if CHR ''%'' \<in> set s then
        let zone = tl (dropWhile (\<lambda>c. c \<noteq> CHR ''%'') s)
        in if zone = [] then None
           else map_option (\<lambda>ip. Addr6 ip zone) (parseIPv6_body (takeWhile (\<lambda>c. c \<noteq> CHR ''%'') s))
      else map_option (\<lambda>ip. Addr6 ip []) (parseIPv6_body s))"

fun ParseAddr_scan :: "string \<Rightarrow> string \<Rightarrow> Addr option" where
  "ParseAddr_scan s [] = None"
| "ParseAddr_scan s (c # cs) =
     (if c = CHR ''.'' then map_option Addr4 (parseIPv4Fields None 0 0 [] s)
      else if c = CHR '':'' then parseIPv6 s
      else if c = CHR ''%'' then None
      else ParseAddr_scan s cs)"

definition ParseAddr :: "string \<Rightarrow> Addr option" where
  "ParseAddr s = ParseAddr_scan s s"

fun Addr_As16 :: "Addr \<Rightarrow> IP" where
  "Addr_As16 (Addr4 ip) = v4InV6Prefix @ ip"
| "Addr_As16 (Addr6 ip z) = ip"

fun Addr_Zone :: "Addr \<Rightarrow> string" where
  "Addr_Zone (Addr4 ip) = []"
| "Addr_Zone (Addr6 ip z) = z"

fun Addr_BitLen :: "Addr \<Rightarrow> nat" where
  "Addr_BitLen (Addr4 ip) = 32"
| "Addr_BitLen (Addr6 ip z) = 128"

definition ParseIP :: "string \<Rightarrow> IP option" where
  "ParseIP s =
     (case ParseAddr s of
        None \<Rightarrow> None
      | Some a \<Rightarrow> if Addr_Zone a \<noteq> [] then None else Some (Addr_As16 a))"

section \<open>Networks\<close>

record IPNet =
  net_IP :: IP
  net_Mask :: "u8 list"

definition CIDRMask :: "nat \<Rightarrow> nat \<Rightarrow> u8 list" where
  "CIDRMask ones nbits =
     map (\<lambda>j. let n = ones - 8 * j in if 8 \<le> n then 255 else NOT (drop_bit n 255)) [0..<nbits div 8]"

text \<open>The number of leading one bits of a byte, when all one bits are leading.\<close>

definition leading_ones :: "u8 \<Rightarrow> nat option" where
  "leading_ones v = List.find (\<lambda>n. v = NOT (drop_bit n 255)) [0..<8]"

fun simpleMaskLength :: "u8 list \<Rightarrow> nat option" where
  "simpleMaskLength [] = Some 0"
| "simpleMaskLength (v # vs) =
     (if v = 255 then map_option (\<lambda>n. 8 + n) (simpleMaskLength vs)
      else if (\<forall>w \<in> set vs. w = 0) then leading_ones v
      else None)"

text \<open>\<open>IPMask.Size\<close>: the number of leading ones and of bits; \<open>(0, 0)\<close> for a mask that is not a
  prefix mask.\<close>

definition Mask_Size :: "u8 list \<Rightarrow> nat \<times> nat" where
  "Mask_Size m = (case simpleMaskLength m of None \<Rightarrow> (0, 0) | Some n \<Rightarrow> (n, length m * 8))"

definition and_bytes :: "u8 list \<Rightarrow> u8 list \<Rightarrow> u8 list" where
  "and_bytes xs ys = map2 (\<lambda>a b. a AND b) xs ys"

definition IP_Mask :: "IP \<Rightarrow> u8 list \<Rightarrow> IP" where
  "IP_Mask ip m =
     (let m' = (if length m = 16 \<and> length ip = 4 \<and> (\<forall>b \<in> set (take 12 m). b = 255) then drop 12 m else m);
          ip' = (if length m' = 4 \<and> length ip = 16 \<and> take 12 ip = v4InV6Prefix then drop 12 ip else ip)
      in if length ip' \<noteq> length m' then [] else and_bytes ip' m')"

definition networkNumberAndMask :: "IPNet \<Rightarrow> (IP \<times> u8 list) option" where
  "networkNumberAndMask n =
     (case IP_To4 (net_IP n) of
        Some ip \<Rightarrow>
          if length (net_Mask n) = 4 then Some (ip, net_Mask n)
          else if length (net_Mask n) = 16 then Some (ip, drop 12 (net_Mask n))
          else None
      | None \<Rightarrow>
          if length (net_IP n) = 16 \<and> length (net_Mask n) = 16 then Some (net_IP n, net_Mask n)
          else None)"

definition IPNet_Contains :: "IPNet \<Rightarrow> IP \<Rightarrow> bool" where
  "IPNet_Contains n ip =
     (let ip' = (case IP_To4 ip of Some x \<Rightarrow> x | None \<Rightarrow> ip)
      in case networkNumberAndMask n of
           None \<Rightarrow> ip' = []
         | Some (nn, m) \<Rightarrow> length ip' = length nn \<and> and_bytes nn m = and_bytes ip' m)"

text \<open>\<open>dtoi\<close> applied to a whole string: the value of a non-empty run of digits below \<open>0xFFFFFF\<close>.\<close>

fun dtoi_all :: "nat \<Rightarrow> string \<Rightarrow> nat option" where
  "dtoi_all n [] = Some n"
| "dtoi_all n (c # cs) =
     (case dec_val c of
        None \<Rightarrow> None
      | Some d \<Rightarrow> if 16777215 \<le> n * 10 + d then None else dtoi_all (n * 10 + d) cs)"

definition ParseCIDR :: "string \<Rightarrow> (IP \<times> IPNet) option" where
  "ParseCIDR s =
     (if CHR ''/'' \<in> set s then
        let addr = takeWhile (\<lambda>c. c \<noteq> CHR ''/'') s;
            mask = tl (dropWhile (\<lambda>c. c \<noteq> CHR ''/'') s)
        in (case ParseAddr addr of
              None \<Rightarrow> None
            | Some a \<Rightarrow>
                if Addr_Zone a \<noteq> [] \<or> mask = [] then None
                else (case dtoi_all 0 mask of
                        None \<Rightarrow> None
                      | Some n \<Rightarrow>
                          if Addr_BitLen a < n then None
                          else let m = CIDRMask n (Addr_BitLen a)
                               in Some (Addr_As16 a,
                                    \<lparr>net_IP = IP_Mask (Addr_As16 a) m, net_Mask = m\<rparr>)))
      else None)"

section \<open>Big endian numbers\<close>

definition be_nat :: "u8 list \<Rightarrow> nat" where
  "be_nat bs = foldl (\<lambda>a b. a * 256 + unat b) 0 bs"

fun nat_be :: "nat \<Rightarrow> nat \<Rightarrow> u8 list" where
  "nat_be 0 n = []"
| "nat_be (Suc k) n = nat_be k (n div 256) @ [of_nat (n mod 256)]"

text \<open>\<open>big.Int.Bytes\<close>: the shortest big endian representation.\<close>

fun big_Bytes :: "nat \<Rightarrow> u8 list" where
  "big_Bytes n = (if n = 0 then [] else big_Bytes (n div 256) @ [of_nat (n mod 256)])"

declare big_Bytes.simps [simp del]

lemma be_nat_snoc [net_simps]: "be_nat (bs @ [b]) = be_nat bs * 256 + unat b"
  by (simp add: be_nat_def)

lemma be_nat_Nil [net_simps]: "be_nat [] = 0"
  by (simp add: be_nat_def)

lemma be_nat_append: "be_nat (xs @ ys) = be_nat xs * 256 ^ length ys + be_nat ys"
proof (induction ys rule: rev_induct)
  case (snoc y ys)
  have "be_nat (xs @ ys @ [y]) = be_nat (xs @ ys) * 256 + unat y"
    using be_nat_snoc [of "xs @ ys" y] by simp
  with snoc show ?case by (simp add: be_nat_snoc algebra_simps)
qed (simp add: net_simps)

lemma be_nat_Cons: "be_nat (x # xs) = unat x * 256 ^ length xs + be_nat xs"
  using be_nat_append [of "[x]" xs] by (simp add: be_nat_def)

lemma unat_u8_lt: "unat (b :: u8) < 256"
  using unsigned_less [of b, where ?'a = nat] by simp

lemma be_nat_lt: "be_nat bs < 256 ^ length bs"
proof (induction bs rule: rev_induct)
  case (snoc b bs)
  have "be_nat bs * 256 + unat b < (be_nat bs + 1) * 256"
    using unat_u8_lt [of b] by simp
  also have "\<dots> \<le> 256 ^ length bs * 256"
    using snoc by (intro mult_right_mono) auto
  finally show ?case by (simp add: be_nat_snoc)
qed (simp add: net_simps)

lemma length_nat_be [simp]: "length (nat_be k n) = k"
  by (induction k arbitrary: n) auto

lemma be_nat_nat_be: "n < 256 ^ k \<Longrightarrow> be_nat (nat_be k n) = n"
proof (induction k arbitrary: n)
  case (Suc k)
  then have "n div 256 < 256 ^ k" by (simp add: less_mult_imp_div_less mult.commute)
  moreover have "unat (of_nat (n mod 256) :: u8) = n mod 256" by (simp add: unat_of_nat)
  ultimately show ?case using Suc.IH by (simp add: be_nat_snoc)
qed (simp add: net_simps)

lemma nat_be_be_nat: "nat_be (length bs) (be_nat bs) = bs"
proof (induction bs rule: rev_induct)
  case (snoc b bs)
  have "(be_nat bs * 256 + unat b) div 256 = be_nat bs"
    using unat_u8_lt [of b] by simp
  moreover have "(be_nat bs * 256 + unat b) mod 256 = unat b"
    using unat_u8_lt [of b] by simp
  ultimately show ?case using snoc by (simp add: be_nat_snoc)
qed simp

lemma be_nat_inject: "length a = length b \<Longrightarrow> be_nat a = be_nat b \<longleftrightarrow> a = b"
  by (metis nat_be_be_nat)

lemma be_nat_zeros: "be_nat (replicate k 0) = 0"
  by (induction k) (simp_all add: be_nat_Cons net_simps)

lemma big_Bytes_0 [simp]: "big_Bytes 0 = []"
  by (simp add: big_Bytes.simps)

lemma be_nat_big_Bytes: "be_nat (big_Bytes n) = n"
proof (induction n rule: big_Bytes.induct)
  case (1 n)
  have "unat (of_nat (n mod 256) :: u8) = n mod 256" by (simp add: unat_of_nat)
  with 1 show ?case
    by (cases "n = 0") (simp_all add: big_Bytes.simps [of n] be_nat_snoc net_simps)
qed

lemma length_big_Bytes: "n < 256 ^ k \<Longrightarrow> length (big_Bytes n) \<le> k"
proof (induction n arbitrary: k rule: big_Bytes.induct)
  case (1 n)
  show ?case
  proof (cases "n = 0")
    case False
    with 1 obtain j where k: "k = Suc j" by (cases k) auto
    with 1 have "n div 256 < 256 ^ j" by (simp add: less_mult_imp_div_less mult.commute)
    with 1 False k show ?thesis by (simp add: big_Bytes.simps [of n])
  qed simp
qed

text \<open>Right-aligning \<open>Bytes()\<close> in a slice of \<open>k\<close> zero bytes gives the \<open>k\<close> byte representation.\<close>

lemma nat_be_big_Bytes:
  assumes "n < 256 ^ k"
  shows "replicate (k - length (big_Bytes n)) 0 @ big_Bytes n = nat_be k n"
proof -
  have "length (replicate (k - length (big_Bytes n)) 0 @ big_Bytes n) = length (nat_be k n)"
    using length_big_Bytes [OF assms] by simp
  then show ?thesis
    using be_nat_inject be_nat_nat_be [OF assms] be_nat_big_Bytes
    by (metis add_0 be_nat_append be_nat_zeros mult_0)
qed

section \<open>Prefix masks and blocks of addresses\<close>

lemma length_CIDRMask [simp]: "length (CIDRMask ones nbits) = nbits div 8"
  by (simp add: CIDRMask_def)

lemma CIDRMask_Suc:
  "CIDRMask ones (8 * Suc n) =
     (if 8 \<le> ones then 255 else NOT (drop_bit ones 255)) # CIDRMask (ones - 8) (8 * n)"
proof -
  have "[0..<Suc n] = 0 # map Suc [0..<n]"
    by (metis map_Suc_upt upt_conv_Cons zero_less_Suc)
  then show ?thesis
    by (simp add: CIDRMask_def Let_def diff_diff_left comp_def algebra_simps del: upt_Suc)
qed

lemma drop_bit_255:
  assumes "n \<le> 8"
  shows "drop_bit n (255 :: u8) = mask (8 - n)"
proof -
  have "(255 :: u8) = mask 8" by (simp add: mask_eq_exp_minus_1)
  then have b: "bit (255 :: u8) k \<longleftrightarrow> k < 8" for k
    by (simp only: bit_mask_iff) simp
  show ?thesis
  proof (rule bit_word_eqI)
    fix k :: nat
    show "bit (drop_bit n (255 :: u8)) k \<longleftrightarrow> bit (mask (8 - n) :: u8) k"
      using assms by (simp only: bit_drop_bit_eq bit_mask_iff comp_apply b) auto
  qed
qed

lemma unat_and_not_mask: "unat (x AND NOT (mask n) :: u8) = unat x div 2 ^ n * 2 ^ n"
proof -
  have "x AND NOT (mask n) = push_bit n (drop_bit n x)"
    by (rule bit_word_eqI) (auto simp: bit_simps)
  moreover have "unat x div 2 ^ n * 2 ^ n < 256"
    using unat_u8_lt [of x] by (metis div_times_less_eq_dividend le_less_trans)
  moreover have "unat x mod 256 = unat x"
    using unat_u8_lt [of x] by simp
  ultimately show ?thesis
    by (simp only: unsigned_push_bit_eq unsigned_drop_bit_eq)
       (simp add: take_bit_eq_mod drop_bit_eq_div push_bit_eq_mult)
qed

lemma and_255 [simp]: "x AND 255 = (x :: u8)"
proof -
  have "(255 :: u8) = - 1" by simp
  then show ?thesis by (simp only: and.right_neutral)
qed

lemma and_bytes_Cons: "and_bytes (x # xs) (y # ys) = (x AND y) # and_bytes xs ys"
  by (simp add: and_bytes_def)

lemma not_255: "NOT (255 :: u8) = 0"
proof -
  have "(255 :: u8) = - 1" by simp
  then show ?thesis by (simp only: bit.compl_one)
qed

lemma and_bytes_CIDRMask_0: "length xs = n \<Longrightarrow> and_bytes xs (CIDRMask 0 (8 * n)) = replicate n 0"
proof (induction n arbitrary: xs)
  case 0
  then show ?case by (simp add: and_bytes_def)
next
  case (Suc n)
  then obtain y ys where "xs = y # ys" "length ys = n" by (cases xs) auto
  moreover have "CIDRMask 0 (8 * Suc n) = 0 # CIDRMask 0 (8 * n)"
    by (simp only: CIDRMask_Suc) (simp add: not_255)
  ultimately show ?case using Suc.IH [of ys] by (simp only: and_bytes_Cons) simp
qed

text \<open>Masking an address with a prefix mask rounds its value down to a multiple of the block size.\<close>

lemma be_nat_and_mask:
  "length a = n \<Longrightarrow> ones \<le> 8 * n \<Longrightarrow>
   be_nat (and_bytes a (CIDRMask ones (8 * n))) = be_nat a div 2 ^ (8 * n - ones) * 2 ^ (8 * n - ones)"
proof (induction n arbitrary: a ones)
  case 0
  then show ?case by (simp add: and_bytes_def net_simps)
next
  case (Suc n)
  then obtain x xs where a: "a = x # xs" "length xs = n" by (cases a) auto
  let ?m = "CIDRMask (ones - 8) (8 * n)"
  have len: "length (and_bytes xs ?m) = n" using a by (simp add: and_bytes_def)
  have pow: "(256 :: nat) ^ n = 2 ^ (8 * n)" by (simp add: power_mult)
  show ?case
  proof (cases "8 \<le> ones")
    case True
    define h where "h = 8 * Suc n - ones"
    have h: "h = 8 * n - (ones - 8)" "h \<le> 8 * n" using True Suc.prems by (auto simp: h_def)
    have "and_bytes a (CIDRMask ones (8 * Suc n)) = x # and_bytes xs ?m"
      using True a by (simp only: CIDRMask_Suc and_bytes_Cons and_255 if_True)
    then have "be_nat (and_bytes a (CIDRMask ones (8 * Suc n))) =
        unat x * 2 ^ (8 * n) + be_nat xs div 2 ^ h * 2 ^ h"
      using len Suc.IH [of xs "ones - 8"] a Suc.prems h by (simp add: be_nat_Cons pow)
    moreover have p: "(2 :: nat) ^ (8 * n) = 2 ^ (8 * n - h) * 2 ^ h"
      using h by (simp flip: power_add)
    moreover have "be_nat a = be_nat xs + (unat x * 2 ^ (8 * n - h)) * 2 ^ h"
      using a p by (simp add: be_nat_Cons pow)
    then have "be_nat a div 2 ^ h = be_nat xs div 2 ^ h + unat x * 2 ^ (8 * n - h)"
      by (simp only: div_mult_self1 [of "2 ^ h"] power_eq_0_iff) simp
    ultimately show ?thesis
      unfolding h_def [symmetric] by (simp add: add_mult_distrib)
  next
    case False
    define k where "k = 8 - ones"
    have "CIDRMask ones (8 * Suc n) = NOT (mask k) # CIDRMask 0 (8 * n)"
      using False unfolding CIDRMask_Suc k_def by (simp only: drop_bit_255 if_False) simp
    then have "and_bytes a (CIDRMask ones (8 * Suc n)) = (x AND NOT (mask k)) # replicate n 0"
      using a and_bytes_CIDRMask_0 by (simp only: and_bytes_Cons)
    then have l: "be_nat (and_bytes a (CIDRMask ones (8 * Suc n))) = unat x div 2 ^ k * 2 ^ k * 2 ^ (8 * n)"
      by (simp add: be_nat_Cons be_nat_zeros unat_and_not_mask pow)
    have h: "8 * Suc n - ones = 8 * n + k" using False by (simp add: k_def)
    have "be_nat a div 2 ^ (8 * n) = unat x"
      using a be_nat_lt [of xs] by (simp add: be_nat_Cons pow)
    then show ?thesis unfolding l h power_add by (simp add: div_mult2_eq)
  qed
qed

lemma and_mask_eq_iff:
  assumes "length a = n" "length b = n" "ones \<le> 8 * n"
  shows "and_bytes a (CIDRMask ones (8 * n)) = and_bytes b (CIDRMask ones (8 * n)) \<longleftrightarrow>
     be_nat a div 2 ^ (8 * n - ones) = be_nat b div 2 ^ (8 * n - ones)"
proof -
  let ?m = "CIDRMask ones (8 * n)"
  have "length (and_bytes a ?m) = length (and_bytes b ?m)"
    using assms by (simp add: and_bytes_def)
  then have "and_bytes a ?m = and_bytes b ?m \<longleftrightarrow> be_nat (and_bytes a ?m) = be_nat (and_bytes b ?m)"
    by (simp add: be_nat_inject)
  then show ?thesis
    using assms be_nat_and_mask [of a n ones] be_nat_and_mask [of b n ones] by simp
qed

section \<open>What parsing a prefix yields\<close>

lemma length_v4InV6Prefix [simp]: "length v4InV6Prefix = 12"
  by (simp add: v4InV6Prefix_def)

lemma length_parseIPv4Fields:
  "parseIPv4Fields prev val digLen fs s = Some f \<Longrightarrow> length fs \<le> 3 \<Longrightarrow> length f = 4"
  by (induction prev val digLen fs s rule: parseIPv4Fields.induct)
     (auto split: if_splits option.splits)

lemma parseIPv6_loop_bounds:
  assumes "parseIPv6_loop s ell ip = Some (r, e, out)"
    and "even (length ip)" "length ip \<le> 16" "\<forall>x. ell = Some x \<longrightarrow> x \<le> length ip"
  shows "length out \<le> 16 \<and> (\<forall>x. e = Some x \<longrightarrow> x \<le> length out)"
  using assms
proof (induction s ell ip rule: parseIPv6_loop.induct)
  case (1 s ell ip)
  show ?case
  proof (cases "length ip < 16")
    case False
    with 1 show ?thesis by (simp add: parseIPv6_loop.simps [of s])
  next
    case True
    then obtain off acc rest where scan: "hex_scan 0 0 s = Some (off, acc, rest)" and off: "off \<noteq> 0"
      using "1.prems"(1) by (auto simp: parseIPv6_loop.simps [of s] split: option.splits if_splits)
    let ?ip = "ip @ [of_nat (acc div 256), of_nat (acc mod 256)]"
    have len: "even (length ?ip)" "length ?ip \<le> 16"
      using True "1.prems"(2) by (auto elim: evenE)
    note IH = "1.IH" [OF True scan refl refl off]
    show ?thesis
    proof (cases "rest \<noteq> [] \<and> hd rest = CHR ''.''")
      case dot: True
      then obtain f where "parseIPv4Fields None 0 0 [] s = Some f" "out = ip @ f" "e = ell" "length ip + 4 \<le> 16"
        using True scan off "1.prems"(1)
        by (auto simp: parseIPv6_loop.simps [of s] split: option.splits if_splits)
      moreover from this have "length f = 4" using length_parseIPv4Fields by fastforce
      ultimately show ?thesis using "1.prems"(4) by auto
    next
      case False
      with True scan off "1.prems" len IH [OF False refl] show ?thesis
        by (fastforce simp: parseIPv6_loop.simps [of s] Let_def split: list.splits if_splits)
    qed
  qed
qed

lemma length_expand_ellipsis:
  "expand_ellipsis (s, e, ip) = Some out \<Longrightarrow> length ip \<le> 16 \<Longrightarrow> (\<forall>x. e = Some x \<longrightarrow> x \<le> length ip) \<Longrightarrow>
   length out = 16"
  by (auto simp: expand_ellipsis_def split: if_splits option.splits)

lemma length_parseIPv6_body: "parseIPv6_body s = Some ip \<Longrightarrow> length ip = 16"
  by (auto simp: parseIPv6_body_def bind_eq_Some_conv split: if_splits
      dest!: parseIPv6_loop_bounds length_expand_ellipsis)

definition wf_Addr :: "Addr \<Rightarrow> bool" where
  "wf_Addr a = (case a of Addr4 ip \<Rightarrow> length ip = 4 | Addr6 ip z \<Rightarrow> length ip = 16)"

lemma wf_ParseAddr: "ParseAddr s = Some a \<Longrightarrow> wf_Addr a"
proof -
  have "ParseAddr_scan s t = Some a \<Longrightarrow> wf_Addr a" for t
    by (induction t)
       (auto simp: wf_Addr_def parseIPv6_def Let_def length_parseIPv6_body
          split: if_splits dest: length_parseIPv4Fields)
  then show "ParseAddr s = Some a \<Longrightarrow> wf_Addr a" by (simp add: ParseAddr_def)
qed

lemma length_ParseIP: "ParseIP s = Some ip \<Longrightarrow> length ip = 16"
  by (auto simp: ParseIP_def wf_Addr_def split: option.splits if_splits Addr.splits dest!: wf_ParseAddr)

text \<open>A network made of a prefix mask and an aligned base address of \<open>L\<close> bytes.\<close>

definition prefix_net :: "nat \<Rightarrow> nat \<Rightarrow> IPNet \<Rightarrow> bool" where
  "prefix_net L ones n \<longleftrightarrow>
     (L = 4 \<or> L = 16) \<and> ones \<le> 8 * L \<and> length (net_IP n) = L \<and> net_Mask n = CIDRMask ones (8 * L) \<and>
     be_nat (net_IP n) mod 2 ^ (8 * L - ones) = 0"

lemma prefix_net_and_bytes:
  assumes "length ip = L" "L = 4 \<or> L = 16" "ones \<le> 8 * L"
  shows "prefix_net L ones \<lparr>net_IP = and_bytes ip (CIDRMask ones (8 * L)), net_Mask = CIDRMask ones (8 * L)\<rparr>"
  using assms be_nat_and_mask [of ip L ones] by (auto simp: prefix_net_def and_bytes_def)

lemma ParseCIDR_prefix_net:
  assumes "ParseCIDR s = Some (ip, n)"
  shows "\<exists>L ones. prefix_net L ones n \<and> length ip = 16"
proof -
  obtain a m where a: "ParseAddr (takeWhile (\<lambda>c. c \<noteq> CHR ''/'') s) = Some a" "m \<le> Addr_BitLen a"
    and ip: "ip = Addr_As16 a"
    and n: "n = \<lparr>net_IP = IP_Mask ip (CIDRMask m (Addr_BitLen a)), net_Mask = CIDRMask m (Addr_BitLen a)\<rparr>"
    using assms by (fastforce simp: ParseCIDR_def Let_def not_less split: if_splits option.splits)
  have wf: "wf_Addr a" by (rule wf_ParseAddr [OF a(1)])
  show ?thesis
  proof (cases a)
    case (Addr4 x)
    with wf ip n have "length x = 4" "n = \<lparr>net_IP = and_bytes x (CIDRMask m (8 * 4)), net_Mask = CIDRMask m (8 * 4)\<rparr>"
      by (simp_all add: wf_Addr_def IP_Mask_def Let_def)
    with Addr4 ip a(2) show ?thesis using prefix_net_and_bytes [of x 4 m] by auto
  next
    case (Addr6 x z)
    with wf ip n have "length x = 16" "n = \<lparr>net_IP = and_bytes x (CIDRMask m (8 * 16)), net_Mask = CIDRMask m (8 * 16)\<rparr>"
      by (simp_all add: wf_Addr_def IP_Mask_def Let_def)
    with Addr6 ip a(2) show ?thesis using prefix_net_and_bytes [of x 16 m] by auto
  qed
qed

lemma less_8_cases: "(n::nat) < 8 \<Longrightarrow> n = 0 \<or> n = 1 \<or> n = 2 \<or> n = 3 \<or> n = 4 \<or> n = 5 \<or> n = 6 \<or> n = 7"
  by arith

lemma leading_ones_mask: "n < 8 \<Longrightarrow> leading_ones (NOT (drop_bit n 255)) = Some n \<and> NOT (drop_bit n (255 :: u8)) \<noteq> 255"
  by (elim less_8_cases [elim_format] disjE) (simp_all add: leading_ones_def upt_rec)

lemma CIDRMask_0_zero: "w \<in> set (CIDRMask 0 nb) \<Longrightarrow> w = 0"
  by (auto simp: CIDRMask_def not_255)

lemma simpleMaskLength_CIDRMask:
  "ones \<le> 8 * L \<Longrightarrow> simpleMaskLength (CIDRMask ones (8 * L)) = Some ones"
proof (induction L arbitrary: ones)
  case 0
  then show ?case by (simp add: CIDRMask_def)
next
  case (Suc L)
  show ?case
  proof (cases "8 \<le> ones")
    case True
    with Suc.prems Suc.IH [of "ones - 8"] show ?thesis unfolding CIDRMask_Suc by simp
  next
    case False
    then have "ones - 8 = 0" "ones < 8" by simp_all
    with False leading_ones_mask [of ones] show ?thesis
      unfolding CIDRMask_Suc by (auto dest: CIDRMask_0_zero)
  qed
qed

lemma Mask_Size_prefix_net: "prefix_net L ones n \<Longrightarrow> Mask_Size (net_Mask n) = (ones, 8 * L)"
  by (auto simp: Mask_Size_def prefix_net_def simpleMaskLength_CIDRMask length_CIDRMask)

text \<open>The number of an address in the address space of \<open>L\<close> byte addresses: IPv4 addresses have a number
  in both spaces, IPv6 addresses only in the larger one.\<close>

definition IP_num :: "nat \<Rightarrow> IP \<Rightarrow> nat option" where
  "IP_num L ip = map_option be_nat (if L = 4 then IP_To4 ip else IP_To16 ip)"

lemma be_nat_v4_prefix: "be_nat (v4InV6Prefix @ a) = 65535 * 256 ^ length a + be_nat a"
  by (simp add: be_nat_append v4InV6Prefix_def be_nat_Cons)

lemma take12_v4_iff:
  assumes "length ip = 16"
  shows "take 12 ip = v4InV6Prefix \<longleftrightarrow> be_nat ip div 2 ^ 32 = 65535"
proof -
  have "be_nat ip = be_nat (take 12 ip) * 256 ^ 4 + be_nat (drop 12 ip)"
    using be_nat_append [of "take 12 ip" "drop 12 ip"] assms by simp
  moreover have "be_nat (drop 12 ip) < 256 ^ 4"
    using be_nat_lt [of "drop 12 ip"] assms by simp
  ultimately have "be_nat ip div 2 ^ 32 = be_nat (take 12 ip)"
    by (simp add: div_eq_dividend_iff)
  moreover have "be_nat v4InV6Prefix = 65535" by (simp add: v4InV6Prefix_def be_nat_Cons be_nat_Nil)
  ultimately show ?thesis
    using be_nat_inject [of "take 12 ip" v4InV6Prefix] assms by auto
qed

lemma drop_CIDRMask: "drop k (CIDRMask ones (8 * (k + n))) = CIDRMask (ones - 8 * k) (8 * n)"
proof (induction k arbitrary: ones)
  case (Suc k)
  have "drop (Suc k) (CIDRMask ones (8 * Suc (k + n))) = drop k (CIDRMask (ones - 8) (8 * (k + n)))"
    unfolding CIDRMask_Suc by simp
  also have "\<dots> = CIDRMask (ones - 8 * Suc k) (8 * n)" using Suc.IH [of "ones - 8"] by (simp add: diff_diff_left)
  finally show ?case by simp
qed simp

lemma length_IP_To4: "IP_To4 ip = Some x \<Longrightarrow> length x = 4"
  by (auto simp: IP_To4_def split: if_splits)

lemma length_IP_To16: "IP_To16 ip = Some x \<Longrightarrow> length x = 16"
  by (auto simp: IP_To16_def split: if_splits)

lemma IP_To4_iff_num:
  assumes "IP_To16 ip = Some y"
  shows "IP_To4 ip = (if be_nat y div 2 ^ 32 = 65535 then Some (drop 12 y) else None)"
proof (cases "length ip = 4")
  case True
  with assms have "y = v4InV6Prefix @ ip" "length y = 16" by (auto simp: IP_To16_def)
  with True show ?thesis using take12_v4_iff [of y] by (simp add: IP_To4_def)
next
  case False
  with assms have "y = ip" "length ip = 16" by (auto simp: IP_To16_def split: if_splits)
  with take12_v4_iff [of ip] show ?thesis by (auto simp: IP_To4_def)
qed

lemma IP_To4_None16: "IP_To16 ip = None \<Longrightarrow> IP_To4 ip = None"
  by (auto simp: IP_To4_def IP_To16_def split: if_splits)

lemma div_pow_mono:
  assumes "(a::nat) div 2 ^ h = b div 2 ^ h" "h \<le> k"
  shows "a div 2 ^ k = b div 2 ^ k"
proof -
  obtain d where "k = h + d" using assms(2) le_Suc_ex by blast
  with assms(1) show ?thesis by (simp add: power_add div_mult2_eq)
qed

lemma div_pow_add_high:
  assumes "h \<le> k"
  shows "(c * 2 ^ k + a) div 2 ^ h = (c * 2 ^ k + b) div (2 ^ h :: nat) \<longleftrightarrow> a div 2 ^ h = b div 2 ^ h"
proof -
  obtain d where k: "k = h + d" using assms le_Suc_ex by blast
  have "(c * 2 ^ k + x) div 2 ^ h = c * 2 ^ d + x div (2 ^ h :: nat)" for x
    using div_mult_self4 [of "2 ^ h" "c * 2 ^ d" x] by (simp add: k power_add ac_simps)
  then show ?thesis by simp
qed

lemma be_nat_split12:
  assumes "length y = 16" "be_nat y div 2 ^ 32 = 65535"
  shows "be_nat y = 65535 * 2 ^ 32 + be_nat (drop 12 y)"
proof -
  have "y = v4InV6Prefix @ drop 12 y"
    using assms take12_v4_iff [of y] by (metis append_take_drop_id)
  then have "be_nat y = be_nat (v4InV6Prefix @ drop 12 y)" by simp
  also have "\<dots> = 65535 * 256 ^ 4 + be_nat (drop 12 y)"
    using assms(1) by (subst be_nat_v4_prefix) simp
  finally show ?thesis by simp
qed

lemma IPNet_Contains_4:
  assumes "prefix_net 4 ones n"
  shows "IPNet_Contains n ip \<longleftrightarrow>
    (\<exists>v. IP_num 4 ip = Some v \<and> v div 2 ^ (32 - ones) = be_nat (net_IP n) div 2 ^ (32 - ones))"
proof -
  have n: "networkNumberAndMask n = Some (net_IP n, CIDRMask ones (8 * 4))" "length (net_IP n) = 4" "ones \<le> 8 * 4"
    using assms by (auto simp: prefix_net_def networkNumberAndMask_def IP_To4_def length_CIDRMask)
  show ?thesis
  proof (cases "IP_To4 ip")
    case None
    then have "length ip \<noteq> 4" by (auto simp: IP_To4_def)
    with None n show ?thesis by (simp add: IPNet_Contains_def IP_num_def)
  next
    case (Some x)
    with n and_mask_eq_iff [OF n(2) length_IP_To4 [OF Some] n(3)] length_IP_To4 [OF Some]
    show ?thesis by (auto simp: IPNet_Contains_def IP_num_def)
  qed
qed

lemma contains_same_kind:
  assumes "IPNet_Contains n ip" "length (net_IP n) = 16" "length (net_Mask n) = 16" "IP_To16 ip = Some y"
  shows "IP_To4 ip = None \<longleftrightarrow> IP_To4 (net_IP n) = None"
proof (cases "IP_To4 ip")
  case None
  then have "length ip = 16" using assms(4) by (auto simp: IP_To16_def IP_To4_def split: if_splits)
  with None assms show ?thesis
    by (auto simp: IPNet_Contains_def networkNumberAndMask_def dest: length_IP_To4 split: option.splits)
next
  case (Some x)
  with length_IP_To4 [OF Some] assms show ?thesis
    by (auto simp: IPNet_Contains_def networkNumberAndMask_def split: option.splits)
qed

lemma IPNet_Contains_16:
  assumes pn: "prefix_net 16 ones n" and h: "128 - ones \<le> 32"
  shows "IPNet_Contains n ip \<longleftrightarrow>
    (\<exists>v. IP_num 16 ip = Some v \<and> v div 2 ^ (128 - ones) = be_nat (net_IP n) div 2 ^ (128 - ones))"
proof (cases "IP_To16 ip")
  case None
  have "length ip \<noteq> 4 \<and> length ip \<noteq> 16" using None by (auto simp: IP_To16_def split: if_splits)
  moreover have "\<exists>nn m. networkNumberAndMask n = Some (nn, m) \<and> (length nn = 4 \<or> length nn = 16)"
    using pn by (auto simp: prefix_net_def networkNumberAndMask_def length_CIDRMask length_IP_To4 split: option.split)
  ultimately show ?thesis using None by (auto simp: IPNet_Contains_def IP_num_def IP_To4_None16)
next
  case (Some y)
  let ?b = "net_IP n" and ?h = "128 - ones"
  have b: "length ?b = 16" "net_Mask n = CIDRMask ones (8 * 16)" "ones \<le> 8 * 16" "IP_To16 ?b = Some ?b"
    using pn by (auto simp: prefix_net_def IP_To16_def)
  have y: "length y = 16" by (rule length_IP_To16 [OF Some])
  have high: "be_nat y div 2 ^ 32 = be_nat ?b div 2 ^ 32" if "be_nat y div 2 ^ ?h = be_nat ?b div 2 ^ ?h"
    by (rule div_pow_mono [OF that h])
  note t4 = IP_To4_iff_num [OF b(4)] IP_To4_iff_num [OF Some]
  have d12: "drop 12 (CIDRMask ones 128) = CIDRMask (ones - 96) (8 * 4)"
    using drop_CIDRMask [of 12 ones 4] by simp
  consider (neq) "be_nat y div 2 ^ 32 = 65535 \<longleftrightarrow> be_nat ?b div 2 ^ 32 \<noteq> 65535"
    | (v4) "be_nat y div 2 ^ 32 = 65535" "be_nat ?b div 2 ^ 32 = 65535"
    | (v6) "be_nat y div 2 ^ 32 \<noteq> 65535" "be_nat ?b div 2 ^ 32 \<noteq> 65535" by blast
  then show ?thesis
  proof cases
    case neq
    then have "be_nat y div 2 ^ ?h \<noteq> be_nat ?b div 2 ^ ?h" using high by auto
    moreover have "\<not> IPNet_Contains n ip"
      using contains_same_kind [of n ip y] neq b y t4 Some by auto
    ultimately show ?thesis using Some by (simp add: IP_num_def)
  next
    case v4
    have "IPNet_Contains n ip \<longleftrightarrow> and_bytes (drop 12 ?b) (CIDRMask (ones - 96) (8 * 4)) = and_bytes (drop 12 y) (CIDRMask (ones - 96) (8 * 4))"
      using v4 b y t4 d12 by (simp add: IPNet_Contains_def networkNumberAndMask_def length_CIDRMask)
    also have "\<dots> \<longleftrightarrow> be_nat (drop 12 ?b) div 2 ^ ?h = be_nat (drop 12 y) div 2 ^ ?h"
      using and_mask_eq_iff [of "drop 12 ?b" 4 "drop 12 y" "ones - 96"] b(1,3) y h by simp
    also have "\<dots> \<longleftrightarrow> be_nat ?b div 2 ^ ?h = be_nat y div 2 ^ ?h"
      unfolding be_nat_split12 [OF b(1) v4(2)] be_nat_split12 [OF y v4(1)] by (rule div_pow_add_high [OF h, symmetric])
    finally show ?thesis using Some by (auto simp: IP_num_def)
  next
    case v6
    have "y = ip" using v6 t4 Some by (auto simp: IP_To16_def IP_To4_def split: if_splits)
    then have "IPNet_Contains n ip \<longleftrightarrow> and_bytes ?b (CIDRMask ones (8 * 16)) = and_bytes y (CIDRMask ones (8 * 16))"
      using v6 b y t4 by (simp add: IPNet_Contains_def networkNumberAndMask_def length_CIDRMask)
    with and_mask_eq_iff [OF b(1) y b(3)] Some show ?thesis by (auto simp: IP_num_def)
  qed
qed

lemma pos_pow2: "(0::nat) < 2 ^ h"
  by simp

lemma div_eq_block:
  assumes "(0::nat) < m"
  shows "v div m = q \<longleftrightarrow> q * m \<le> v \<and> v < q * m + m"
proof
  assume q: "v div m = q"
  show "q * m \<le> v \<and> v < q * m + m"
    unfolding q [symmetric] using div_mult_mod_eq [of v m] mod_less_divisor [OF assms, of v]
    by (intro conjI) linarith+
next
  assume "q * m \<le> v \<and> v < q * m + m"
  then show "v div m = q" by (intro div_nat_eqI) (simp_all add: algebra_simps)
qed

lemma IPNet_Contains_prefix_net:
  assumes "prefix_net L ones n" "8 * L - ones \<le> 32"
  shows "IPNet_Contains n ip \<longleftrightarrow>
    (\<exists>v. IP_num L ip = Some v \<and> be_nat (net_IP n) \<le> v \<and> v < be_nat (net_IP n) + 2 ^ (8 * L - ones))"
proof -
  let ?h = "8 * L - ones" and ?b = "be_nat (net_IP n)"
  have L: "L = 4 \<or> L = 16" and al: "?b mod 2 ^ ?h = 0" using assms(1) by (simp_all add: prefix_net_def)
  have *: "IPNet_Contains n ip \<longleftrightarrow> (\<exists>v. IP_num L ip = Some v \<and> v div 2 ^ ?h = ?b div 2 ^ ?h)"
    using L
  proof
    assume "L = 4"
    with assms(1) show ?thesis using IPNet_Contains_4 [of ones n ip] by simp
  next
    assume "L = 16"
    with assms show ?thesis using IPNet_Contains_16 [of ones n ip] by simp
  qed
  have "?b div 2 ^ ?h * 2 ^ ?h = ?b" using div_mult_mod_eq [of ?b "2 ^ ?h"] al by linarith
  then show ?thesis unfolding * by (simp only: div_eq_block [OF pos_pow2])
qed

section \<open>Reading back a printed address\<close>

lemma digit_char_vals:
  "d < 10 \<Longrightarrow> dec_val (digit_char d) = Some d"
  "d < 16 \<Longrightarrow> hex_val (digit_char d) = Some d"
  by (simp_all add: dec_val_def hex_val_def digit_char_def)

lemma sep_vals [simp]:
  "dec_val (CHR ''.'') = None" "hex_val (CHR '':'') = None" "hex_val (CHR ''.'') = None" "hex_val (CHR ''%'') = None"
  by (simp_all add: dec_val_def hex_val_def)

lemma dec_imp_hex: "dec_val c = Some d \<Longrightarrow> hex_val c = Some d"
  by (auto simp: dec_val_def hex_val_def Let_def split: if_splits)

lemma base_str_digits: "2 \<le> b \<Longrightarrow> c \<in> set (base_str b n) \<Longrightarrow> \<exists>d < b. c = digit_char d"
proof (induction b n rule: base_str.induct)
  case (1 b n)
  from "1.prems"(2) have "c \<in> set (if b < 2 \<or> n < b then [digit_char n] else base_str b (n div b) @ [digit_char (n mod b)])"
    by (simp only: base_str.simps [of b n])
  moreover have "n mod b < b" using "1.prems"(1) by simp
  ultimately show ?case using 1 by (fastforce split: if_splits)
qed

lemma base_str_not_Nil: "base_str b n \<noteq> []"
  by (subst base_str.simps) simp

lemma hex_str_hex: "c \<in> set (hex_str n) \<Longrightarrow> hex_val c \<noteq> None"
  using base_str_digits [of 16 c n] digit_char_vals(2) by (auto simp: hex_str_def)

lemma dec_str_hex: "c \<in> set (dec_str n) \<Longrightarrow> hex_val c \<noteq> None"
  using base_str_digits [of 10 c n] digit_char_vals(2) by (fastforce simp: dec_str_def)

lemma dec_str_cases:
  assumes "n < 256"
  obtains "n < 10" "dec_str n = [digit_char n]"
  | "10 \<le> n" "n < 100" "dec_str n = [digit_char (n div 10), digit_char (n mod 10)]"
  | "100 \<le> n" "dec_str n = [digit_char (n div 100), digit_char (n div 10 mod 10), digit_char (n mod 10)]"
proof -
  have step: "base_str 10 m = (if m < 10 then [digit_char m] else base_str 10 (m div 10) @ [digit_char (m mod 10)])" for m
    by (subst base_str.simps) simp
  have "n div 10 div 10 = n div 100" by (simp add: div_mult2_eq [symmetric])
  moreover have "n div 100 < 10" using assms by simp
  moreover have "n div 10 < 10 \<longleftrightarrow> n < 100" by (simp add: div_less_iff_less_mult)
  ultimately show thesis
    using that step [of n] step [of "n div 10"] step [of "n div 100"]
    by (cases "n < 10"; cases "n < 100") (simp_all add: dec_str_def)
qed

lemma parseIPv4_digit:
  assumes "d < 10" "\<not> (k = 1 \<and> v = 0)" "v * 10 + d \<le> 255"
  shows "parseIPv4Fields prev v k fs (digit_char d # cs) = parseIPv4Fields (Some (digit_char d)) (v * 10 + d) (Suc k) fs cs"
  using assms digit_char_vals(1) [OF assms(1)] by auto

lemma parseIPv4_field:
  assumes "n < 256"
  shows "\<exists>p k. p \<noteq> CHR ''.'' \<and>
    parseIPv4Fields prev 0 0 fs (dec_str n @ cs) = parseIPv4Fields (Some p) n k fs cs"
proof -
  have dot: "d < 10 \<Longrightarrow> digit_char d \<noteq> CHR ''.''" for d
    using digit_char_vals(1) [of d] by auto
  show ?thesis
  proof (rule dec_str_cases [OF assms])
    assume n: "n < 10" "dec_str n = [digit_char n]"
    have "parseIPv4Fields prev 0 0 fs (dec_str n @ cs) = parseIPv4Fields (Some (digit_char n)) n (Suc 0) fs cs"
      using parseIPv4_digit [of n 0 0 prev fs cs] n by simp
    with dot [OF n(1)] show ?thesis by blast
  next
    assume n: "10 \<le> n" "n < 100" "dec_str n = [digit_char (n div 10), digit_char (n mod 10)]"
    have d: "n div 10 < 10" "n mod 10 < 10" "n div 10 * 10 + n mod 10 = n" "n div 10 \<noteq> 0" "n div 10 \<le> 255" "n \<le> 255"
      using n(1,2) by simp_all
    have "parseIPv4Fields prev 0 0 fs (dec_str n @ cs) =
        parseIPv4Fields (Some (digit_char (n mod 10))) n (Suc (Suc 0)) fs cs"
      using parseIPv4_digit [of "n div 10" 0 0 prev fs "digit_char (n mod 10) # cs"]
        parseIPv4_digit [of "n mod 10" "Suc 0" "n div 10" "Some (digit_char (n div 10))" fs cs]
      unfolding n(3) append_Cons append_Nil d(3) using d(1,2,4,5,6) by simp
    with dot [OF d(2)] show ?thesis by blast
  next
    assume n: "100 \<le> n" "dec_str n = [digit_char (n div 100), digit_char (n div 10 mod 10), digit_char (n mod 10)]"
    have d: "n div 100 < 10" "n div 10 mod 10 < 10" "n mod 10 < 10" "n div 100 \<noteq> 0" "n \<le> 255" "n div 100 \<le> 255" "n div 10 \<le> 255"
      using n(1) assms by simp_all
    have e: "n div 100 * 10 + n div 10 mod 10 = n div 10"
      using div_mult_mod_eq [of "n div 10" 10] by (simp add: div_mult2_eq [symmetric])
    have f: "n div 10 * 10 + n mod 10 = n" by simp
    have "parseIPv4Fields prev 0 0 fs (dec_str n @ cs) =
        parseIPv4Fields (Some (digit_char (n mod 10))) n (Suc (Suc (Suc 0))) fs cs"
      using parseIPv4_digit [of "n div 100" 0 0 prev fs "digit_char (n div 10 mod 10) # digit_char (n mod 10) # cs"]
        parseIPv4_digit [of "n div 10 mod 10" "Suc 0" "n div 100" "Some (digit_char (n div 100))" fs "digit_char (n mod 10) # cs"]
        parseIPv4_digit [of "n mod 10" "Suc (Suc 0)" "n div 10" "Some (digit_char (n div 10 mod 10))" fs cs]
      unfolding n(2) append_Cons append_Nil e f using d by simp
    with dot [OF d(3)] show ?thesis by blast
  qed
qed

lemma parseIPv4_string4:
  assumes "length ip = 4"
  shows "parseIPv4Fields None 0 0 [] (string4 ip) = Some ip"
proof -
  obtain a b c d where ip: "ip = [a, b, c, d]"
    using assms by (auto simp: numeral_eq_Suc length_Suc_conv)
  have ne: "dec_str n \<noteq> []" for n by (simp add: dec_str_def base_str_not_Nil)
  note field = parseIPv4_field [OF unat_u8_lt]
  have last: "parseIPv4Fields p 0 0 [x, y, z] (dec_str (unat d)) = Some [x, y, z, d]" for p x y z
    using field [of p "[x, y, z]" d "[]"] by auto
  have next_f: "length fs < 3 \<Longrightarrow> cs \<noteq> [] \<Longrightarrow> \<exists>q. parseIPv4Fields p 0 0 fs (dec_str (unat w) @ CHR ''.'' # cs) =
      parseIPv4Fields q 0 0 (fs @ [w]) cs" for p fs w cs
    using field [of p fs w "CHR ''.'' # cs"] by auto
  have "string4 ip = dec_str (unat a) @ CHR ''.'' # dec_str (unat b) @ CHR ''.'' # dec_str (unat c) @ CHR ''.'' # dec_str (unat d)"
    by (simp add: string4_def ip)
  then show ?thesis
    using next_f [of "[]" "dec_str (unat b) @ CHR ''.'' # dec_str (unat c) @ CHR ''.'' # dec_str (unat d)" None a]
      next_f [of "[a]" "dec_str (unat c) @ CHR ''.'' # dec_str (unat d)" _ b]
      next_f [of "[a, b]" "dec_str (unat d)" _ c] last ne ip by fastforce
qed

lemma ParseAddr_scan_skip:
  "(\<And>c. c \<in> set xs \<Longrightarrow> hex_val c \<noteq> None) \<Longrightarrow> ParseAddr_scan s (xs @ ys) = ParseAddr_scan s ys"
proof (induction xs)
  case (Cons c xs)
  then have "hex_val c \<noteq> None" by simp
  then have "c \<noteq> CHR ''.''" "c \<noteq> CHR '':''" "c \<noteq> CHR ''%''" using sep_vals by metis+
  with Cons show ?case by simp
qed simp

lemma ParseAddr_string4: "length ip = 4 \<Longrightarrow> ParseAddr (string4 ip) = Some (Addr4 ip)"
proof -
  assume len: "length ip = 4"
  then obtain a r where "ip = a # r" "r \<noteq> []" by (cases ip; cases "tl ip") auto
  then obtain rest where "string4 ip = dec_str (unat a) @ CHR ''.'' # rest"
    by (cases r) (auto simp: string4_def)
  then have "ParseAddr (string4 ip) = map_option Addr4 (parseIPv4Fields None 0 0 [] (string4 ip))"
    using ParseAddr_scan_skip [of "dec_str (unat a)"] dec_str_hex by (fastforce simp: ParseAddr_def)
  with parseIPv4_string4 [OF len] show ?thesis by simp
qed

subsection \<open>IPv6 groups\<close>

lemma hex_str_step:
  "hex_str n = (if n < 16 then [digit_char n] else hex_str (n div 16) @ [digit_char (n mod 16)])"
  unfolding hex_str_def by (subst base_str.simps) simp

lemma hex_scan_digit:
  assumes "d < 16" "off \<le> 3" "acc * 16 + d \<le> 65535"
  shows "hex_scan off acc (digit_char d # cs) = hex_scan (Suc off) (acc * 16 + d) cs"
  using assms digit_char_vals(2) [OF assms(1)] by simp

lemma hex_scan_stop: "r = [] \<or> hex_val (hd r) = None \<Longrightarrow> hex_scan off acc r = Some (off, acc, r)"
  by (cases r) auto

lemma hex_scan_hex_str_aux:
  "n < 16 ^ Suc k \<Longrightarrow> k < 4 \<Longrightarrow> \<exists>off. 0 < off \<and> off \<le> Suc k \<and> (\<forall>cs. hex_scan 0 0 (hex_str n @ cs) = hex_scan off n cs)"
proof (induction k arbitrary: n)
  case 0
  then have "hex_scan 0 0 (hex_str n @ cs) = hex_scan 1 n cs" for cs
    using hex_scan_digit [of n 0 0 cs] hex_str_step [of n] by simp
  then show ?case by (intro exI [of _ 1]) simp
next
  case (Suc k)
  show ?case
  proof (cases "n < 16")
    case True
    then have "hex_scan 0 0 (hex_str n @ cs) = hex_scan 1 n cs" for cs
      using hex_scan_digit [of n 0 0 cs] hex_str_step [of n] by simp
    then show ?thesis by (intro exI [of _ 1]) simp
  next
    case False
    have "n div 16 < 16 ^ Suc k" using Suc.prems(1) by (simp add: div_less_iff_less_mult mult.commute)
    then obtain off where off: "0 < off" "off \<le> Suc k" "\<And>cs. hex_scan 0 0 (hex_str (n div 16) @ cs) = hex_scan off (n div 16) cs"
      using Suc.IH [of "n div 16"] Suc.prems(2) by auto
    have "(16::nat) ^ Suc (Suc k) \<le> 16 ^ 4" using Suc.prems(2) by (intro power_increasing) auto
    with Suc.prems(1) have n: "n \<le> 65535" by simp
    have dm: "n div 16 * 16 + n mod 16 = n" "n mod 16 < 16" by simp_all
    have "hex_scan 0 0 (hex_str n @ cs) = hex_scan (Suc off) n cs" for cs
    proof -
      have "hex_scan 0 0 (hex_str n @ cs) = hex_scan off (n div 16) (digit_char (n mod 16) # cs)"
        using False off(3) [of "digit_char (n mod 16) # cs"] hex_str_step [of n] by simp
      also have "\<dots> = hex_scan (Suc off) n cs"
        using hex_scan_digit [of "n mod 16" off "n div 16" cs] off(2) Suc.prems(2) n unfolding dm(1) by simp
      finally show ?thesis .
    qed
    then show ?thesis using off(2) by (intro exI [of _ "Suc off"]) simp
  qed
qed

lemma hex_scan_hex_str:
  assumes "n < 65536" "r = [] \<or> hex_val (hd r) = None"
  shows "\<exists>off. 0 < off \<and> hex_scan 0 0 (hex_str n @ r) = Some (off, n, r)"
  using hex_scan_hex_str_aux [of n 3] hex_scan_stop [OF assms(2)] assms(1) by auto

definition group_bytes :: "nat list \<Rightarrow> IP" where
  "group_bytes gs = concat (map (\<lambda>g. [of_nat (g div 256), of_nat (g mod 256)]) gs)"

lemma group_bytes_simps [simp]:
  "group_bytes [] = []"
  "group_bytes (g # gs) = of_nat (g div 256) # of_nat (g mod 256) # group_bytes gs"
  "group_bytes (xs @ ys) = group_bytes xs @ group_bytes ys"
  "group_bytes (replicate k 0) = replicate (2 * k) 0"
  "length (group_bytes gs) = 2 * length gs"
proof -
  show "group_bytes (replicate k 0) = replicate (2 * k) 0"
    by (induction k) (auto simp: group_bytes_def)
  show "length (group_bytes gs) = 2 * length gs"
    by (induction gs) (auto simp: group_bytes_def)
qed (simp_all add: group_bytes_def)

lemma groups16_props:
  "even (length ip) \<Longrightarrow> group_bytes (groups16 ip) = ip \<and> 2 * length (groups16 ip) = length ip \<and> (\<forall>g \<in> set (groups16 ip). g < 65536)"
proof (induction ip rule: groups16.induct)
  case (1 a b bs)
  have lt: "unat a < 256" "unat b < 256" by (rule unat_u8_lt)+
  then have "(256 * unat a + unat b) div 256 = unat a" "(256 * unat a + unat b) mod 256 = unat b" "256 * unat a + unat b < 65536"
    by simp_all
  with 1 show ?case by simp
qed auto

lemma parseIPv6_group:
  assumes "g < 65536" "length ip < 16" "r = [] \<or> hd r = CHR '':''"
  shows "parseIPv6_loop (hex_str g @ r) ell ip =
    (let ip' = ip @ [of_nat (g div 256), of_nat (g mod 256)]
     in (case r of
           [] \<Rightarrow> Some ([], ell, ip')
         | c # r' \<Rightarrow>
             if r' = [] then None
             else if hd r' = CHR '':'' then
               if ell \<noteq> None then None
               else if tl r' = [] then Some ([], Some (length ip'), ip')
               else parseIPv6_loop (tl r') (Some (length ip')) ip'
             else parseIPv6_loop r' ell ip'))"
proof -
  have "r = [] \<or> hex_val (hd r) = None" using assms(3) by auto
  then obtain off where "0 < off" "hex_scan 0 0 (hex_str g @ r) = Some (off, g, r)"
    using hex_scan_hex_str [OF assms(1)] by blast
  with assms(2,3) show ?thesis
    by (subst parseIPv6_loop.simps) (auto simp: Let_def split: list.split)
qed

abbreviation group_text :: "nat list \<Rightarrow> string" where
  "group_text gs \<equiv> str_join '':'' (map hex_str gs)"

lemma hex_str_hd: "hex_str g \<noteq> [] \<and> hex_val (hd (hex_str g)) \<noteq> None"
  using hex_str_hex [of "hd (hex_str g)" g] by (simp add: hex_str_def base_str_not_Nil)

lemma group_text_hd: "gs \<noteq> [] \<Longrightarrow> group_text gs \<noteq> [] \<and> hd (group_text gs) \<noteq> CHR '':''"
proof (cases gs)
  case (Cons g rest)
  have "hd (hex_str g) \<noteq> CHR '':''" using hex_str_hd [of g] sep_vals(2) by metis
  with Cons hex_str_hd [of g] show ?thesis by (cases rest) auto
qed simp

lemma parseIPv6_groups:
  "gs \<noteq> [] \<Longrightarrow> \<forall>g \<in> set gs. g < 65536 \<Longrightarrow> length ip + 2 * length gs \<le> 16 \<Longrightarrow>
   parseIPv6_loop (group_text gs) ell ip = Some ([], ell, ip @ group_bytes gs)"
proof (induction gs arbitrary: ip)
  case (Cons g gs)
  show ?case
  proof (cases gs)
    case Nil
    with Cons.prems parseIPv6_group [of g ip "[]" ell] show ?thesis by simp
  next
    case (Cons h hs)
    with Cons.prems Cons.IH [of "ip @ [of_nat (g div 256), of_nat (g mod 256)]"] group_text_hd [of gs]
      parseIPv6_group [of g ip "CHR '':'' # group_text gs" ell]
    show ?thesis by simp
  qed
qed simp

lemma parseIPv6_groups_ellipsis:
  "gs \<noteq> [] \<Longrightarrow> \<forall>g \<in> set (gs @ hs). g < 65536 \<Longrightarrow> length ip + 2 * length gs + 2 * length hs < 16 \<Longrightarrow>
   parseIPv6_loop (group_text gs @ ''::'' @ group_text hs) None ip =
     Some ([], Some (length ip + 2 * length gs), ip @ group_bytes gs @ group_bytes hs)"
proof (induction gs arbitrary: ip)
  case (Cons g gs)
  show ?case
  proof (cases gs)
    case Nil
    with Cons.prems parseIPv6_group [of g ip "''::'' @ group_text hs" None] group_text_hd [of hs]
      parseIPv6_groups [of hs "ip @ [of_nat (g div 256), of_nat (g mod 256)]" "Some (length ip + 2)"]
    show ?thesis by (cases "hs = []") auto
  next
    case (Cons h hs')
    with Cons.prems Cons.IH [of "ip @ [of_nat (g div 256), of_nat (g mod 256)]"] group_text_hd [of gs]
      parseIPv6_group [of g ip "CHR '':'' # group_text gs @ ''::'' @ group_text hs" None]
    show ?thesis by simp
  qed
qed simp

lemma zero_run_prefix: "\<exists>ys. xs = replicate (zero_run xs) 0 @ ys"
  by (induction xs rule: zero_run.induct) auto

definition zero_block :: "nat list \<Rightarrow> nat \<times> nat \<Rightarrow> bool" where
  "zero_block gs r \<longleftrightarrow> (case r of (start, stop) \<Rightarrow>
     start = 255 \<or> (start + 2 \<le> stop \<and> (\<exists>xs ys. gs = xs @ replicate (stop - start) 0 @ ys \<and> length xs = start)))"

lemma longest_zero_run_block:
  "zero_block (pre @ gs) best \<Longrightarrow> zero_block (pre @ gs) (longest_zero_run (length pre) gs best)"
proof (induction gs arbitrary: pre best)
  case (Cons g gs)
  obtain s t where best: "best = (s, t)" by (cases best)
  let ?l = "zero_run (g # gs)"
  let ?new = "if 2 \<le> ?l \<and> t - s < ?l then (length pre, length pre + ?l) else (s, t)"
  obtain ys where "g # gs = replicate ?l 0 @ ys" using zero_run_prefix by blast
  then have "zero_block (pre @ g # gs) (length pre, length pre + ?l)" if "2 \<le> ?l"
    unfolding zero_block_def prod.case using that
    by (intro disjI2 conjI exI [of _ pre] exI [of _ ys]) (simp_all del: zero_run.simps)
  then have "zero_block (pre @ g # gs) ?new" using Cons.prems best by simp
  with Cons.IH [of "pre @ [g]" ?new] show ?case by (simp add: best Let_def del: zero_run.simps)
qed simp

lemma parseIPv6_body_string6:
  assumes len: "length ip = 16"
  shows "parseIPv6_body (string6 ip) = Some ip"
proof -
  let ?gs = "groups16 ip"
  have g: "group_bytes ?gs = ip" "length ?gs = 8" "\<forall>g \<in> set ?gs. g < 65536"
    using groups16_props [of ip] len by auto
  obtain start stop where r: "longest_zero_run 0 ?gs (255, 255) = (start, stop)" by (cases "longest_zero_run 0 ?gs (255, 255)")
  have blk: "zero_block ?gs (start, stop)"
    using longest_zero_run_block [of "[]" ?gs "(255, 255)"] r by (simp add: zero_block_def)
  have not_colon: "take 2 (group_text xs @ rest) \<noteq> ''::''" if "xs \<noteq> []" for xs rest
    using group_text_hd [OF that] by (cases "group_text xs") auto
  show ?thesis
  proof (cases "start = 255")
    case True
    have "?gs \<noteq> []" using g(2) by auto
    with True r g not_colon [of ?gs "[]"] len parseIPv6_groups [of ?gs "[]" None] show ?thesis
      by (simp add: string6_def parseIPv6_body_def expand_ellipsis_def)
  next
    case False
    then obtain xs ys where s: "start + 2 \<le> stop" "?gs = xs @ replicate (stop - start) 0 @ ys" "length xs = start"
      using blk by (auto simp: zero_block_def)
    have ys: "drop stop ?gs = ys" "take start ?gs = xs" using s by auto
    have total: "length xs + (stop - start) + length ys = 8" using s(2) g(2) by (metis add.assoc length_append length_replicate)
    have str: "string6 ip = group_text xs @ ''::'' @ group_text ys"
      using False r by (simp add: string6_def ys)
    have small: "\<forall>g \<in> set (xs @ ys). g < 65536" using g(3) unfolding s(2) by auto
    have ip: "ip = group_bytes xs @ replicate (2 * (stop - start)) 0 @ group_bytes ys"
      using g(1) unfolding s(2) by simp
    show ?thesis
    proof (cases "xs = []")
      case True
      show ?thesis
      proof (cases "ys = []")
        case True
        with \<open>xs = []\<close> total ip str show ?thesis by (simp add: parseIPv6_body_def)
      next
        case False
        with \<open>xs = []\<close> str small total s(1) parseIPv6_groups [of ys "[]" "Some 0"] group_text_hd [OF False]
        have "parseIPv6_body (string6 ip) = expand_ellipsis ([], Some 0, group_bytes ys)"
          by (simp add: parseIPv6_body_def)
        moreover have "16 - 2 * length ys = 2 * (stop - start)" "length ys < 8"
          using total s(1) \<open>xs = []\<close> by auto
        ultimately show ?thesis using \<open>xs = []\<close> ip by (simp add: expand_ellipsis_def)
      qed
    next
      case False
      have "parseIPv6_body (string6 ip) = expand_ellipsis ([], Some (2 * length xs), group_bytes xs @ group_bytes ys)"
        using False not_colon [OF False, of "''::'' @ group_text ys"] total s(1) small
          parseIPv6_groups_ellipsis [OF False, of ys "[]"]
        by (simp add: parseIPv6_body_def str)
      moreover have "16 - (2 * length xs + 2 * length ys) = 2 * (stop - start)" using total by linarith
      ultimately show ?thesis using total s(1) ip by (simp add: expand_ellipsis_def)
    qed
  qed
qed

lemma string6_chars: "c \<in> set (string6 ip) \<Longrightarrow> c = CHR '':'' \<or> hex_val c \<noteq> None"
proof -
  have chars: "c \<in> set (group_text xs) \<Longrightarrow> c = CHR '':'' \<or> hex_val c \<noteq> None" for xs
    using set_str_join [of "'':''" "map hex_str xs"] by (auto dest: hex_str_hex)
  show "c \<in> set (string6 ip) \<Longrightarrow> c = CHR '':'' \<or> hex_val c \<noteq> None"
    by (auto simp: string6_def Let_def split: prod.splits if_splits dest: chars)
qed

lemma ParseAddr_scan_colon:
  "CHR '':'' \<in> set xs \<Longrightarrow> (\<And>c. c \<in> set xs \<Longrightarrow> c = CHR '':'' \<or> hex_val c \<noteq> None) \<Longrightarrow> ParseAddr_scan s xs = parseIPv6 s"
proof (induction xs)
  case (Cons c xs)
  then have "c = CHR '':'' \<or> hex_val c \<noteq> None" by simp
  then have "c = CHR '':'' \<or> (c \<noteq> CHR ''.'' \<and> c \<noteq> CHR '':'' \<and> c \<noteq> CHR ''%'')" using sep_vals by metis
  with Cons show ?case by auto
qed simp

lemma string6_colon: "length ip = 16 \<Longrightarrow> CHR '':'' \<in> set (string6 ip)"
proof -
  assume "length ip = 16"
  then have "length (groups16 ip) = 8" using groups16_props [of ip] by auto
  then obtain g h gs where "groups16 ip = g # h # gs" by (cases "groups16 ip"; cases "tl (groups16 ip)") auto
  then have "CHR '':'' \<in> set (group_text (groups16 ip))" by simp
  then show ?thesis
    by (cases "longest_zero_run 0 (groups16 ip) (255, 255)") (simp add: string6_def Let_def)
qed

lemma ParseAddr_string6: "length ip = 16 \<Longrightarrow> ParseAddr (string6 ip) = Some (Addr6 ip [])"
proof -
  assume len: "length ip = 16"
  have "CHR ''%'' \<notin> set (string6 ip)" using string6_chars [of "CHR ''%''" ip] sep_vals by auto
  then have "parseIPv6 (string6 ip) = Some (Addr6 ip [])"
    by (simp add: parseIPv6_def parseIPv6_body_string6 [OF len])
  then show ?thesis
    using ParseAddr_scan_colon [OF string6_colon [OF len]] string6_chars by (simp add: ParseAddr_def)
qed

lemma ParseIP_IP_String:
  assumes "length ip = 4 \<or> length ip = 16"
  shows "ParseIP (IP_String ip) = IP_To16 ip"
proof (cases "IP_To4 ip")
  case None
  with assms have "length ip = 16" by (auto simp: IP_To4_def)
  with None show ?thesis by (simp add: IP_String_def ParseIP_def ParseAddr_string6 IP_To16_def)
next
  case (Some p)
  then have p: "length p = 4" "IP_To16 ip = Some (v4InV6Prefix @ p)"
    by (auto simp: IP_To4_def IP_To16_def split: if_splits) (metis append_take_drop_id)
  from assms have "IP_String ip = string4 p" using Some by (auto simp: IP_String_def)
  with p show ?thesis by (simp add: ParseIP_def ParseAddr_string4)
qed

end
