(* ===== verification/IPBitmap.thy ===== *)
theory IPBitmap
  imports Prelude
begin

unbundle bit_operations_syntax

text \<open>
  The two allocation bitmaps: \<open>Bitmap\<close> of \<open>internal/ipam/bitmap.go\<close> and \<open>lbBitmap\<close> of
  \<open>internal/lbipam/allocator.go\<close>. Both are a slice of 64 bit words and a size in bits. A slice
  access out of range panics in Go, so the operations that index the slice return an option and
  \<^const>\<open>None\<close> is the panic. Indices are natural numbers: every caller has excluded negative
  ones. The locale \<open>bitset\<close> is the interface the allocators rely on; it is interpreted on both
  implementations, so the fast \<open>TrailingZeros64\<close> scan and the bit by bit scan are shown to be the
  same function.
\<close>

section \<open>Words as sets of bits\<close>

definition bit64 :: "nat \<Rightarrow> u64" where
  "bit64 k = push_bit k 1"

lemma bit_bit64: "bit (bit64 k) n \<longleftrightarrow> n = k \<and> k < 64"
  by (auto simp: bit64_def bit_simps)

section \<open>internal/ipam/bitmap.go\<close>

record Bitmap =
  bm_words :: "u64 list"
  bm_size :: nat

definition NewBitmap :: "nat \<Rightarrow> Bitmap" where
  "NewBitmap sz = \<lparr>bm_words = replicate ((sz + 63) div 64) 0, bm_size = sz\<rparr>"

definition Bitmap_Set :: "Bitmap \<Rightarrow> nat \<Rightarrow> Bitmap option" where
  "Bitmap_Set b idx =
     (let word = idx div 64; k = idx mod 64
      in if word < length (bm_words b)
         then Some (b\<lparr>bm_words := (bm_words b)[word := (bm_words b ! word) OR bit64 k]\<rparr>)
         else None)"

definition Bitmap_Clear :: "Bitmap \<Rightarrow> nat \<Rightarrow> Bitmap option" where
  "Bitmap_Clear b idx =
     (let word = idx div 64; k = idx mod 64
      in if word < length (bm_words b)
         then Some (b\<lparr>bm_words := (bm_words b)[word := (bm_words b ! word) AND NOT (bit64 k)]\<rparr>)
         else None)"

definition Bitmap_Get :: "Bitmap \<Rightarrow> nat \<Rightarrow> bool option" where
  "Bitmap_Get b idx =
     (let word = idx div 64; k = idx mod 64
      in if word < length (bm_words b)
         then Some ((bm_words b ! word) AND bit64 k \<noteq> 0)
         else None)"

text \<open>The inner loop over the 64 bits of one word: \<open>Some r\<close> is a \<open>return r\<close>, \<^const>\<open>None\<close>
  means that the loop ran to its end.\<close>

function FindFree_bits :: "nat \<Rightarrow> u64 \<Rightarrow> nat \<Rightarrow> nat \<Rightarrow> int option" where
  "FindFree_bits sz word i k =
     (if k < 64 then
        let idx = i * 64 + k
        in if sz \<le> idx then Some (- 1)
           else if word AND bit64 k = 0 then Some (int idx)
           else FindFree_bits sz word i (Suc k)
      else None)"
  by pat_completeness auto
termination
  by (relation "measure (\<lambda>(sz, word, i, k). 64 - k)") auto

declare FindFree_bits.simps [simp del]

fun FindFree_words :: "nat \<Rightarrow> nat \<Rightarrow> u64 list \<Rightarrow> int" where
  "FindFree_words sz i [] = - 1"
| "FindFree_words sz i (word # ws) =
     (if word = NOT 0 then FindFree_words sz (Suc i) ws
      else (case FindFree_bits sz word i 0 of
              Some r \<Rightarrow> r
            | None \<Rightarrow> FindFree_words sz (Suc i) ws))"

definition Bitmap_FindFree :: "Bitmap \<Rightarrow> int" where
  "Bitmap_FindFree b = FindFree_words (bm_size b) 0 (bm_words b)"

section \<open>lbBitmap of internal/lbipam/allocator.go\<close>

record lbBitmap =
  lb_words :: "u64 list"
  lb_size :: nat

definition newLBBitmap :: "nat \<Rightarrow> lbBitmap" where
  "newLBBitmap sz = \<lparr>lb_words = replicate ((sz + 63) div 64) 0, lb_size = sz\<rparr>"

definition lbBitmap_set :: "lbBitmap \<Rightarrow> nat \<Rightarrow> lbBitmap option" where
  "lbBitmap_set b idx =
     (if idx div 64 < length (lb_words b)
      then Some (b\<lparr>lb_words := (lb_words b)[idx div 64 := (lb_words b ! (idx div 64)) OR bit64 (idx mod 64)]\<rparr>)
      else None)"

definition lbBitmap_clear :: "lbBitmap \<Rightarrow> nat \<Rightarrow> lbBitmap option" where
  "lbBitmap_clear b idx =
     (if idx div 64 < length (lb_words b)
      then Some (b\<lparr>lb_words := (lb_words b)[idx div 64 := (lb_words b ! (idx div 64)) AND NOT (bit64 (idx mod 64))]\<rparr>)
      else None)"

text \<open>\<open>math/bits.TrailingZeros64\<close>: the position of the lowest set bit, 64 for zero.\<close>

fun trailing_zeros_from :: "nat \<Rightarrow> nat \<Rightarrow> u64 \<Rightarrow> nat" where
  "trailing_zeros_from 0 k w = k"
| "trailing_zeros_from (Suc n) k w = (if bit w k then k else trailing_zeros_from n (Suc k) w)"

definition TrailingZeros64 :: "u64 \<Rightarrow> nat" where
  "TrailingZeros64 w = trailing_zeros_from 64 0 w"

fun lb_findFree_words :: "nat \<Rightarrow> nat \<Rightarrow> u64 list \<Rightarrow> int" where
  "lb_findFree_words sz i [] = - 1"
| "lb_findFree_words sz i (w # ws) =
     (let inv = NOT w
      in if inv = 0 then lb_findFree_words sz (Suc i) ws
         else (let idx = i * 64 + TrailingZeros64 inv
               in if sz \<le> idx then - 1 else int idx))"

definition lbBitmap_findFree :: "lbBitmap \<Rightarrow> int" where
  "lbBitmap_findFree b = lb_findFree_words (lb_size b) 0 (lb_words b)"

section \<open>The set of allocated indices\<close>

definition word_bits :: "u64 list \<Rightarrow> nat set" where
  "word_bits ws = {i. i div 64 < length ws \<and> bit (ws ! (i div 64)) (i mod 64)}"

definition Bitmap_wf :: "Bitmap \<Rightarrow> bool" where
  "Bitmap_wf b \<longleftrightarrow> length (bm_words b) = (bm_size b + 63) div 64"

definition lbBitmap_wf :: "lbBitmap \<Rightarrow> bool" where
  "lbBitmap_wf b \<longleftrightarrow> length (lb_words b) = (lb_size b + 63) div 64"

lemma word_and_bit64:
  assumes "k < 64"
  shows "(w AND bit64 k \<noteq> 0) \<longleftrightarrow> bit w k"
proof
  assume "w AND bit64 k \<noteq> 0"
  then obtain n where "bit (w AND bit64 k) n"
    using bit_eqI [of "w AND bit64 k" 0] by auto
  then show "bit w k" by (auto simp: bit_and_iff bit_bit64)
next
  assume "bit w k"
  then have "bit (w AND bit64 k) k" using assms by (simp add: bit_and_iff bit_bit64)
  then show "w AND bit64 k \<noteq> 0" by auto
qed

lemma word_bits_replicate_zero [bm_simps]: "word_bits (replicate n 0) = {}"
  by (auto simp: word_bits_def)

lemma index_in_words: "i < sz \<Longrightarrow> i div 64 < (sz + 63) div 64" for i sz :: nat
  by linarith

lemma eq_iff_div_mod_64: "x = i \<longleftrightarrow> x div 64 = i div 64 \<and> x mod 64 = i mod 64" for x i :: nat
  by (metis div_mult_mod_eq)

lemma word_bits_set [bm_simps]:
  assumes "i div 64 < length ws"
  shows "word_bits (ws[i div 64 := (ws ! (i div 64)) OR bit64 (i mod 64)]) = insert i (word_bits ws)"
proof (rule set_eqI)
  fix x
  show "x \<in> word_bits (ws[i div 64 := (ws ! (i div 64)) OR bit64 (i mod 64)]) \<longleftrightarrow> x \<in> insert i (word_bits ws)"
    using assms eq_iff_div_mod_64 [of x i]
    by (cases "x div 64 = i div 64") (auto simp: word_bits_def bit_or_iff bit_bit64)
qed

lemma word_bits_clear [bm_simps]:
  assumes "i div 64 < length ws"
  shows "word_bits (ws[i div 64 := (ws ! (i div 64)) AND NOT (bit64 (i mod 64))]) = word_bits ws - {i}"
proof (rule set_eqI)
  fix x :: nat
  have "x mod 64 < 64" by simp
  then show "x \<in> word_bits (ws[i div 64 := (ws ! (i div 64)) AND NOT (bit64 (i mod 64))]) \<longleftrightarrow> x \<in> word_bits ws - {i}"
    using assms eq_iff_div_mod_64 [of x i]
    by (cases "x div 64 = i div 64") (auto simp: word_bits_def bit_and_iff bit_not_iff bit_bit64)
qed

section \<open>The two scans agree\<close>

lemma trailing_zeros_from_ge: "k \<le> trailing_zeros_from n k w"
proof (induction n arbitrary: k)
  case (Suc n)
  from Suc [of "Suc k"] show ?case by simp
qed simp

lemma trailing_zeros_from_hit:
  "trailing_zeros_from n k w < k + n \<Longrightarrow> bit w (trailing_zeros_from n k w)"
proof (induction n arbitrary: k)
  case (Suc n)
  from Suc.IH [of "Suc k"] Suc.prems show ?case by (auto split: if_splits)
qed simp

lemma trailing_zeros_from_miss:
  "k \<le> j \<Longrightarrow> j < trailing_zeros_from n k w \<Longrightarrow> \<not> bit w j"
proof (induction n arbitrary: k)
  case (Suc n)
  then have "\<not> bit w k" "j < trailing_zeros_from n (Suc k) w"
    by (auto split: if_splits)
  with Suc.IH [of "Suc k"] Suc.prems show ?case by (cases "j = k") auto
qed auto

lemma TrailingZeros64_spec:
  assumes "w \<noteq> 0"
  shows "TrailingZeros64 w < 64" "bit w (TrailingZeros64 w)" "j < TrailingZeros64 w \<Longrightarrow> \<not> bit w j"
proof -
  obtain n where n: "bit w n" "n < 64"
    using assms bit_word_eqI [of w 0] by auto
  show lt: "TrailingZeros64 w < 64"
  proof (rule ccontr)
    assume "\<not> ?thesis"
    with n show False
      using trailing_zeros_from_miss [of 0 n 64 w] by (simp add: TrailingZeros64_def)
  qed
  show "bit w (TrailingZeros64 w)"
    using lt trailing_zeros_from_hit [of 64 0 w] by (simp add: TrailingZeros64_def)
  show "j < TrailingZeros64 w \<Longrightarrow> \<not> bit w j"
    using trailing_zeros_from_miss [of 0 j 64 w] by (simp add: TrailingZeros64_def)
qed

lemma FindFree_bits_eq:
  "k \<le> 64 \<Longrightarrow> FindFree_bits sz w i k =
     (let t = trailing_zeros_from (64 - k) k (NOT w)
      in if t < 64 then Some (if sz \<le> i * 64 + t then - 1 else int (i * 64 + t))
         else if k < 64 \<and> sz \<le> i * 64 + 63 then Some (- 1) else None)"
proof (induction "64 - k" arbitrary: k)
  case 0
  then show ?case by (simp add: FindFree_bits.simps [of sz w i 64])
next
  case (Suc n)
  then have k: "k < 64" and n: "64 - k = Suc n" "64 - Suc k = n" by auto
  have IH: "FindFree_bits sz w i (Suc k) =
     (let t = trailing_zeros_from n (Suc k) (NOT w)
      in if t < 64 then Some (if sz \<le> i * 64 + t then - 1 else int (i * 64 + t))
         else if Suc k < 64 \<and> sz \<le> i * 64 + 63 then Some (- 1) else None)"
    using Suc.hyps(1) [of "Suc k"] k n by simp
  have "(w AND bit64 k = 0) \<longleftrightarrow> bit (NOT w) k"
    using word_and_bit64 [OF k, of w] k by (auto simp: bit_not_iff)
  moreover have "Suc k \<le> trailing_zeros_from n (Suc k) (NOT w)"
    by (rule trailing_zeros_from_ge)
  ultimately show ?case
    unfolding FindFree_bits.simps [of sz w i k] n trailing_zeros_from.simps
    using k IH by (auto simp: Let_def)
qed

lemma FindFree_words_eq: "FindFree_words sz i ws = lb_findFree_words sz i ws"
proof (induction ws arbitrary: i)
  case (Cons w ws)
  have "FindFree_bits sz w i 0 =
      Some (if sz \<le> i * 64 + TrailingZeros64 (NOT w) then - 1 else int (i * 64 + TrailingZeros64 (NOT w)))"
    if "w \<noteq> NOT 0"
  proof -
    have "NOT w \<noteq> 0" using that by (metis bit.double_compl)
    from TrailingZeros64_spec(1) [OF this] show ?thesis
      by (simp add: FindFree_bits_eq TrailingZeros64_def [symmetric] Let_def)
  qed
  moreover have "NOT w = 0 \<longleftrightarrow> w = NOT 0"
    by (metis bit.double_compl)
  ultimately show ?case using Cons.IH by (simp add: Let_def)
qed simp

section \<open>The scan finds the first free index\<close>

definition first_free :: "nat \<Rightarrow> nat set \<Rightarrow> int \<Rightarrow> bool" where
  "first_free sz A r \<longleftrightarrow>
     (if r < 0 then r = - 1 \<and> {..<sz} \<subseteq> A
      else nat r < sz \<and> nat r \<notin> A \<and> {..<nat r} \<subseteq> A)"

lemma first_free_int: "first_free sz A (int n) \<longleftrightarrow> n < sz \<and> n \<notin> A \<and> {..<n} \<subseteq> A"
  by (simp add: first_free_def)

lemma first_free_none: "first_free sz A (- 1) \<longleftrightarrow> {..<sz} \<subseteq> A"
  by (simp add: first_free_def)

lemma lb_findFree_words_spec:
  assumes "\<forall>j < i * 64. j \<in> A"
    and "\<forall>j. i * 64 \<le> j \<longrightarrow> j < (i + length ws) * 64 \<longrightarrow> (j \<in> A \<longleftrightarrow> bit (ws ! (j div 64 - i)) (j mod 64))"
    and "sz \<le> (i + length ws) * 64"
  shows "first_free sz A (lb_findFree_words sz i ws)"
  using assms
proof (induction ws arbitrary: i)
  case Nil
  then show ?case by (auto simp: first_free_def)
next
  case (Cons w ws)
  have w: "j \<in> A \<longleftrightarrow> bit w (j mod 64)" if "i * 64 \<le> j" "j < Suc i * 64" for j
  proof -
    have "j div 64 = i" using that by auto
    with that Cons.prems(2) show ?thesis by (auto dest: spec [of _ j])
  qed
  show ?case
  proof (cases "NOT w = 0")
    case True
    then have ones: "bit w n" if "n < 64" for n
      using that bit_not_iff [of w n] by auto
    have "\<forall>j < Suc i * 64. j \<in> A"
      using w ones Cons.prems(1) by (simp add: not_less [symmetric]) blast
    moreover have "\<forall>j. Suc i * 64 \<le> j \<longrightarrow> j < (Suc i + length ws) * 64 \<longrightarrow>
        (j \<in> A \<longleftrightarrow> bit (ws ! (j div 64 - Suc i)) (j mod 64))"
      using Cons.prems(2) by auto
    ultimately show ?thesis using Cons.IH [of "Suc i"] Cons.prems(3) True by simp
  next
    case False
    note tz = TrailingZeros64_spec [OF False]
    let ?t = "TrailingZeros64 (NOT w)"
    have below: "j \<in> A" if j: "j < i * 64 + ?t" for j
    proof (cases "j < i * 64")
      case True
      with Cons.prems(1) show ?thesis by blast
    next
      case False
      then obtain d where d: "j = i * 64 + d" "d < ?t"
        using j by (metis add_less_cancel_left le_Suc_ex linorder_not_less)
      then show ?thesis using tz(1) tz(3) [of d] w [of j] by (auto simp: bit_not_iff)
    qed
    have "i * 64 + ?t \<notin> A"
      using w [of "i * 64 + ?t"] tz(1,2) by (simp add: bit_not_iff)
    then show ?thesis
      unfolding lb_findFree_words.simps Let_def using False below
      by (cases "sz \<le> i * 64 + ?t") (auto simp only: if_False if_True first_free_int first_free_none)
  qed
qed

lemma word_bits_findFree:
  assumes "length ws = (sz + 63) div 64"
  shows "first_free sz (word_bits ws) (lb_findFree_words sz 0 ws)"
proof (rule lb_findFree_words_spec)
  have "(sz + 63) div 64 * 64 + (sz + 63) mod 64 = sz + 63" "(sz + 63) mod 64 < 64"
    by simp_all
  then show "sz \<le> (0 + length ws) * 64" unfolding assms add_0 by linarith
  show "\<forall>j. 0 * 64 \<le> j \<longrightarrow> j < (0 + length ws) * 64 \<longrightarrow>
      (j \<in> word_bits ws) = bit (ws ! (j div 64 - 0)) (j mod 64)"
    by (simp add: word_bits_def less_mult_imp_div_less)
qed simp

section \<open>The interface of an allocation bitmap\<close>

text \<open>
  What the allocators rely on: an abstraction to the set of allocated indices, an update and a
  clear that never panic inside the range, and a search that returns the least free index or
  \<open>-1\<close> when there is none.
\<close>

locale bitset =
  fixes new :: "nat \<Rightarrow> 'b"
    and setb :: "'b \<Rightarrow> nat \<Rightarrow> 'b option"
    and clearb :: "'b \<Rightarrow> nat \<Rightarrow> 'b option"
    and find :: "'b \<Rightarrow> int"
    and cap :: "'b \<Rightarrow> nat"
    and bits :: "'b \<Rightarrow> nat set"
    and invar :: "'b \<Rightarrow> bool"
  assumes new_invar: "invar (new n)"
    and new_cap: "cap (new n) = n"
    and new_bits: "bits (new n) = {}"
    and set_ok: "invar b \<Longrightarrow> i < cap b \<Longrightarrow>
      \<exists>b'. setb b i = Some b' \<and> invar b' \<and> cap b' = cap b \<and> bits b' = insert i (bits b)"
    and clear_ok: "invar b \<Longrightarrow> i < cap b \<Longrightarrow>
      \<exists>b'. clearb b i = Some b' \<and> invar b' \<and> cap b' = cap b \<and> bits b' = bits b - {i}"
    and find_ok: "invar b \<Longrightarrow> first_free (cap b) (bits b) (find b)"
begin

lemma set_SomeD:
  assumes "invar b" "i < cap b" "setb b i = Some b'"
  shows "invar b'" "cap b' = cap b" "bits b' = insert i (bits b)"
  using set_ok [OF assms(1,2)] assms(3) by auto

lemma clear_SomeD:
  assumes "invar b" "i < cap b" "clearb b i = Some b'"
  shows "invar b'" "cap b' = cap b" "bits b' = bits b - {i}"
  using clear_ok [OF assms(1,2)] assms(3) by auto

lemma set_not_None: "invar b \<Longrightarrow> i < cap b \<Longrightarrow> setb b i \<noteq> None"
  using set_ok by fastforce

lemma clear_not_None: "invar b \<Longrightarrow> i < cap b \<Longrightarrow> clearb b i \<noteq> None"
  using clear_ok by fastforce

lemma find_free:
  assumes "invar b" "0 \<le> find b"
  shows "nat (find b) < cap b" "nat (find b) \<notin> bits b"
  using find_ok [OF assms(1)] assms(2) by (auto simp: first_free_def)

lemma find_full_iff: "invar b \<Longrightarrow> find b < 0 \<longleftrightarrow> {..<cap b} \<subseteq> bits b"
  using find_ok [of b] by (auto simp: first_free_def subset_iff split: if_splits)

lemma find_least: "invar b \<Longrightarrow> 0 \<le> find b \<Longrightarrow> i < nat (find b) \<Longrightarrow> i \<in> bits b"
  using find_ok [of b] by (auto simp: first_free_def subset_iff)

text \<open>Clearing undoes setting a free index: the roll back of a failed allocation.\<close>

lemma set_clear_bits:
  assumes "invar b" "i < cap b" "i \<notin> bits b" "setb b i = Some b'" "clearb b' i = Some b''"
  shows "invar b''" "cap b'' = cap b" "bits b'' = bits b"
proof -
  note s = set_SomeD [OF assms(1,2,4)]
  have "i < cap b'" using s assms(2) by simp
  note c = clear_SomeD [OF s(1) this assms(5)]
  show "invar b''" "cap b'' = cap b" "bits b'' = bits b"
    using s c assms(3) by auto
qed

end

text \<open>Both implementations provide the interface.\<close>

interpretation bm: bitset NewBitmap Bitmap_Set Bitmap_Clear Bitmap_FindFree bm_size
  "\<lambda>b. word_bits (bm_words b)" Bitmap_wf
proof unfold_locales
  fix b i
  assume wf: "Bitmap_wf b" and i: "i < bm_size b"
  then have lt: "i div 64 < length (bm_words b)"
    by (simp add: Bitmap_wf_def index_in_words)
  show "\<exists>b'. Bitmap_Set b i = Some b' \<and> Bitmap_wf b' \<and> bm_size b' = bm_size b \<and>
      word_bits (bm_words b') = insert i (word_bits (bm_words b))"
    using wf lt by (simp add: Bitmap_Set_def Bitmap_wf_def bm_simps Let_def)
  show "\<exists>b'. Bitmap_Clear b i = Some b' \<and> Bitmap_wf b' \<and> bm_size b' = bm_size b \<and>
      word_bits (bm_words b') = word_bits (bm_words b) - {i}"
    using wf lt by (simp add: Bitmap_Clear_def Bitmap_wf_def bm_simps Let_def)
qed (simp_all add: NewBitmap_def Bitmap_wf_def bm_simps Bitmap_FindFree_def FindFree_words_eq word_bits_findFree)

interpretation lbm: bitset newLBBitmap lbBitmap_set lbBitmap_clear lbBitmap_findFree lb_size
  "\<lambda>b. word_bits (lb_words b)" lbBitmap_wf
proof unfold_locales
  fix b i
  assume wf: "lbBitmap_wf b" and i: "i < lb_size b"
  then have lt: "i div 64 < length (lb_words b)"
    by (simp add: lbBitmap_wf_def index_in_words)
  show "\<exists>b'. lbBitmap_set b i = Some b' \<and> lbBitmap_wf b' \<and> lb_size b' = lb_size b \<and>
      word_bits (lb_words b') = insert i (word_bits (lb_words b))"
    using wf lt by (simp add: lbBitmap_set_def lbBitmap_wf_def bm_simps)
  show "\<exists>b'. lbBitmap_clear b i = Some b' \<and> lbBitmap_wf b' \<and> lb_size b' = lb_size b \<and>
      word_bits (lb_words b') = word_bits (lb_words b) - {i}"
    using wf lt by (simp add: lbBitmap_clear_def lbBitmap_wf_def bm_simps)
qed (simp_all add: newLBBitmap_def lbBitmap_wf_def bm_simps lbBitmap_findFree_def word_bits_findFree)

lemma Bitmap_Get_bits:
  "Bitmap_wf b \<Longrightarrow> i < bm_size b \<Longrightarrow> Bitmap_Get b i = Some (i \<in> word_bits (bm_words b))"
  using index_in_words [of i "bm_size b"]
  by (simp add: Bitmap_Get_def Bitmap_wf_def word_bits_def word_and_bit64 Let_def)

lemma word_bits_inject:
  assumes "length ws = length vs" "word_bits ws = word_bits vs"
  shows "ws = vs"
proof (rule nth_equalityI)
  show "length ws = length vs" by (rule assms(1))
  fix i
  assume i: "i < length ws"
  show "ws ! i = vs ! i"
  proof (rule bit_word_eqI)
    fix k
    assume "k < LENGTH(64)"
    then have "(i * 64 + k) div 64 = i" "(i * 64 + k) mod 64 = k" by simp_all
    moreover have "i * 64 + k \<in> word_bits ws \<longleftrightarrow> i * 64 + k \<in> word_bits vs" using assms(2) by simp
    ultimately show "bit (ws ! i) k = bit (vs ! i) k"
      using i assms(1) by (simp add: word_bits_def)
  qed
qed

lemma Bitmap_eqI:
  assumes "Bitmap_wf b" "Bitmap_wf c" "bm_size b = bm_size c" "word_bits (bm_words b) = word_bits (bm_words c)"
  shows "b = c"
  using assms word_bits_inject [of "bm_words b" "bm_words c"] by (simp add: Bitmap_wf_def)

end
