(* ===== verification/IPAM_Allocator.thy ===== *)
theory IPAM_Allocator
  imports GoNet IPBitmap
begin

text \<open>
  The pod address allocator of one node, \<open>internal/ipam/allocator.go\<close>, with the three address helpers
  it shares with \<open>internal/ipam/pool.go\<close>.

  The allocator record has the fields of the Go struct (without the mutex, which every method holds
  for its whole body, and without the logger). The state directory is the map from the names in it
  to whether they are directories; the outcome of every file system call is an argument of the
  operation that makes it, so the theorems hold for every pattern of failures. An out of range
  slice access is the error \<open>RuntimePanic\<close>; the theorems show that it does not occur.
\<close>

section \<open>Errors\<close>

datatype IpamError =
    ErrParseCIDR
  | ErrCIDRTooSmall
  | ErrNoFreeAddresses
  | ErrIPOutsideCIDR
  | ErrIPOutOfRange
  | ErrIPAlreadyAlloc
  | ErrIPNotAllocated
  | ErrReleaseNetwork
  | ErrReleaseGateway
  | ErrReleaseBroadcast
  | ErrCIDRTooLarge
  | ErrInvalidIPAddress
  | ErrPersist
  | ErrStateDir
  | RuntimePanic

section \<open>Addresses and indices (pool.go)\<close>

definition normalizeIP :: "IP \<Rightarrow> IP" where
  "normalizeIP ip =
     (case IP_To4 ip of
        Some ip4 \<Rightarrow> ip4
      | None \<Rightarrow> (case IP_To16 ip of Some ip16 \<Rightarrow> ip16 | None \<Rightarrow> []))"

text \<open>\<open>copy(ip[ipLen-len(b):], b)\<close> panics when \<open>b\<close> is longer than \<open>ip\<close>.\<close>

definition indexToIP :: "IP \<Rightarrow> int \<Rightarrow> nat \<Rightarrow> IP option" where
  "indexToIP baseIP idx ipLen =
     (let base = int (be_nat baseIP);
          result = base + idx;
          b = big_Bytes (nat (abs result))
      in if length b \<le> ipLen then Some (replicate (ipLen - length b) 0 @ b) else None)"

text \<open>\<open>big.Int.Int64\<close> keeps the low 64 bits.\<close>

definition big_Int64 :: "int \<Rightarrow> int" where
  "big_Int64 z = sint (word_of_int z :: u64)"

definition ipToIndex :: "IP \<Rightarrow> IP \<Rightarrow> nat \<Rightarrow> int" where
  "ipToIndex baseIP ip ipLen =
     (let (baseBytes, ipBytes) =
            (if ipLen = 4 then (IP_To4 baseIP, IP_To4 ip) else (IP_To16 baseIP, IP_To16 ip))
      in (case (baseBytes, ipBytes) of
            (Some base, Some addr) \<Rightarrow> big_Int64 (int (be_nat addr) - int (be_nat base))
          | _ \<Rightarrow> - 1))"

section \<open>The allocator\<close>

record Allocator =
  al_network :: IPNet
  al_baseIP :: IP
  al_size :: nat
  al_bitmap :: Bitmap
  al_used :: int
  al_prefixLen :: nat
  al_ipLen :: nat
  al_isIPv4 :: bool
  al_stateDir :: string

definition allocatorIPToIndex :: "Allocator \<Rightarrow> IP \<Rightarrow> int" where
  "allocatorIPToIndex a ip = ipToIndex (al_baseIP a) ip (al_ipLen a)"

definition allocatorIndexToIP :: "Allocator \<Rightarrow> int \<Rightarrow> IP option" where
  "allocatorIndexToIP a idx = indexToIP (al_baseIP a) idx (al_ipLen a)"

subsection \<open>The state directory\<close>

type_synonym StateDir = "string \<rightharpoonup> bool"

datatype WriteOutcome = WriteOK | WriteErr bool

text \<open>\<open>saveIP\<close>: the new directory and whether \<open>os.WriteFile\<close> succeeded. A failing call may or may
  not have created the file (\<open>WriteErr True\<close>), and writing over a directory fails.\<close>

definition saveIP :: "WriteOutcome \<Rightarrow> IP \<Rightarrow> StateDir \<Rightarrow> StateDir \<times> bool" where
  "saveIP w ip d =
     (let name = IP_String ip
      in (case w of
            WriteOK \<Rightarrow> if d name = Some True then (d, False) else (d(name \<mapsto> False), True)
          | WriteErr left \<Rightarrow> (if left \<and> d name = None then d(name \<mapsto> False) else d, False)))"

text \<open>\<open>removeIP\<close>: a failing \<open>os.Remove\<close> is only logged.\<close>

definition removeIP :: "bool \<Rightarrow> IP \<Rightarrow> StateDir \<Rightarrow> StateDir" where
  "removeIP ok ip d = (if ok then map_del d (IP_String ip) else d)"

text \<open>\<open>loadState\<close> over the entries that \<open>os.ReadDir\<close> returned.\<close>

fun loadState_entries :: "(string \<times> bool) list \<Rightarrow> Allocator \<Rightarrow> Allocator option" where
  "loadState_entries [] a = Some a"
| "loadState_entries ((name, isDir) # es) a =
     (if isDir then loadState_entries es a
      else (case ParseIP name of
              None \<Rightarrow> loadState_entries es a
            | Some ip \<Rightarrow>
                let ipNorm = normalizeIP ip
                in if \<not> IPNet_Contains (al_network a) ipNorm then loadState_entries es a
                   else let idx = allocatorIPToIndex a ipNorm
                        in if idx < 0 \<or> int (al_size a) \<le> idx then loadState_entries es a
                           else (case Bitmap_Get (al_bitmap a) (nat idx) of
                                   None \<Rightarrow> None
                                 | Some True \<Rightarrow> loadState_entries es a
                                 | Some False \<Rightarrow>
                                     (case Bitmap_Set (al_bitmap a) (nat idx) of
                                        None \<Rightarrow> None
                                      | Some bm \<Rightarrow>
                                          loadState_entries es
                                            (a\<lparr>al_bitmap := bm, al_used := al_used a + 1\<rparr>)))))"

definition loadState :: "(string \<times> bool) list option \<Rightarrow> Allocator \<Rightarrow> IpamError + Allocator" where
  "loadState entries a =
     (case entries of
        None \<Rightarrow> Inl ErrStateDir
      | Some es \<Rightarrow> (case loadState_entries es a of None \<Rightarrow> Inl RuntimePanic | Some a' \<Rightarrow> Inr a'))"

subsection \<open>Construction\<close>

text \<open>The reserved addresses: \<open>Set\<close> for each index in turn.\<close>

fun set_all :: "Bitmap \<Rightarrow> nat list \<Rightarrow> Bitmap option" where
  "set_all b [] = Some b"
| "set_all b (i # is) = (case Bitmap_Set b i of None \<Rightarrow> None | Some b' \<Rightarrow> set_all b' is)"

definition newAllocatorBase :: "IPNet \<Rightarrow> string \<Rightarrow> IpamError + Allocator" where
  "newAllocatorBase network stateDir =
     (let (ones, nbits) = Mask_Size (net_Mask network);
          hostBits = nbits - ones
      in if 20 < hostBits then Inl ErrCIDRTooLarge
         else
           let sz = 2 ^ hostBits; isIPv4 = (nbits = 32)
           in if isIPv4 \<and> sz < 4 then Inl ErrCIDRTooSmall
              else if \<not> isIPv4 \<and> sz < 2 then Inl ErrCIDRTooSmall
              else
                let baseIP = (case (if isIPv4 then IP_To4 (net_IP network) else IP_To16 (net_IP network)) of
                                Some ip \<Rightarrow> ip | None \<Rightarrow> []);
                    reserved = (if isIPv4 then [0, 1] @ (if 2 < sz then [sz - 1] else []) else [0])
                in (case set_all (NewBitmap sz) reserved of
                      None \<Rightarrow> Inl RuntimePanic
                    | Some bm \<Rightarrow>
                        Inr \<lparr>al_network = network, al_baseIP = baseIP, al_size = sz, al_bitmap = bm,
                             al_used = int (length reserved), al_prefixLen = ones,
                             al_ipLen = (if isIPv4 then 4 else 16), al_isIPv4 = isIPv4,
                             al_stateDir = stateDir\<rparr>))"

text \<open>\<open>NewAllocatorWithStateDir\<close>: \<open>mkdirOK\<close> is the outcome of \<open>os.MkdirAll\<close> and \<open>entries\<close> the result
  of \<open>os.ReadDir\<close>, \<^const>\<open>None\<close> being its failure.\<close>

definition NewAllocatorWithStateDir ::
    "string \<Rightarrow> string \<Rightarrow> bool \<Rightarrow> (string \<times> bool) list option \<Rightarrow> IpamError + Allocator" where
  "NewAllocatorWithStateDir podCIDR stateDir mkdirOK entries =
     (case ParseCIDR podCIDR of
        None \<Rightarrow> Inl ErrParseCIDR
      | Some (_, network) \<Rightarrow>
          (case newAllocatorBase network stateDir of
             Inl e \<Rightarrow> Inl e
           | Inr a \<Rightarrow>
               if stateDir \<noteq> [] then
                 if \<not> mkdirOK then Inl ErrStateDir else loadState entries a
               else Inr a))"

definition NewAllocator :: "string \<Rightarrow> IpamError + Allocator" where
  "NewAllocator podCIDR = NewAllocatorWithStateDir podCIDR [] True None"

subsection \<open>Operations\<close>

definition Allocator_Allocate ::
    "WriteOutcome \<Rightarrow> Allocator \<Rightarrow> StateDir \<Rightarrow> (IpamError + IP) \<times> Allocator \<times> StateDir" where
  "Allocator_Allocate w a d =
     (let idx = Bitmap_FindFree (al_bitmap a)
      in if idx < 0 then (Inl ErrNoFreeAddresses, a, d)
         else (case Bitmap_Set (al_bitmap a) (nat idx) of
                 None \<Rightarrow> (Inl RuntimePanic, a, d)
               | Some bm \<Rightarrow>
                   let a1 = a\<lparr>al_bitmap := bm, al_used := al_used a + 1\<rparr>
                   in (case allocatorIndexToIP a1 idx of
                         None \<Rightarrow> (Inl RuntimePanic, a1, d)
                       | Some ip \<Rightarrow>
                           if al_stateDir a \<noteq> [] then
                             (let (d', ok) = saveIP w ip d
                              in if \<not> ok then
                                   (case Bitmap_Clear bm (nat idx) of
                                      None \<Rightarrow> (Inl RuntimePanic, a1, d')
                                    | Some bm' \<Rightarrow>
                                        (Inl ErrPersist, a1\<lparr>al_bitmap := bm', al_used := al_used a1 - 1\<rparr>, d'))
                                 else (Inr ip, a1, d'))
                           else (Inr ip, a1, d))))"

definition Allocator_AllocateSpecific ::
    "WriteOutcome \<Rightarrow> IP \<Rightarrow> Allocator \<Rightarrow> StateDir \<Rightarrow> IpamError option \<times> Allocator \<times> StateDir" where
  "Allocator_AllocateSpecific w ip a d =
     (let ipNorm = normalizeIP ip
      in if \<not> IPNet_Contains (al_network a) ipNorm then (Some ErrIPOutsideCIDR, a, d)
         else
           let idx = allocatorIPToIndex a ipNorm
           in if idx < 0 \<or> int (al_size a) \<le> idx then (Some ErrIPOutOfRange, a, d)
              else (case Bitmap_Get (al_bitmap a) (nat idx) of
                      None \<Rightarrow> (Some RuntimePanic, a, d)
                    | Some True \<Rightarrow> (Some ErrIPAlreadyAlloc, a, d)
                    | Some False \<Rightarrow>
                        (case Bitmap_Set (al_bitmap a) (nat idx) of
                           None \<Rightarrow> (Some RuntimePanic, a, d)
                         | Some bm \<Rightarrow>
                             let a1 = a\<lparr>al_bitmap := bm, al_used := al_used a + 1\<rparr>
                             in if al_stateDir a \<noteq> [] then
                                  (let (d', ok) = saveIP w ipNorm d
                                   in if \<not> ok then
                                        (case Bitmap_Clear bm (nat idx) of
                                           None \<Rightarrow> (Some RuntimePanic, a1, d')
                                         | Some bm' \<Rightarrow>
                                             (Some ErrPersist, a1\<lparr>al_bitmap := bm', al_used := al_used a1 - 1\<rparr>, d'))
                                      else (None, a1, d'))
                                else (None, a1, d))))"

definition Allocator_Release ::
    "bool \<Rightarrow> IP \<Rightarrow> Allocator \<Rightarrow> StateDir \<Rightarrow> IpamError option \<times> Allocator \<times> StateDir" where
  "Allocator_Release rmOK ip a d =
     (let ipNorm = normalizeIP ip
      in if \<not> IPNet_Contains (al_network a) ipNorm then (Some ErrIPOutsideCIDR, a, d)
         else
           let idx = allocatorIPToIndex a ipNorm
           in if idx < 0 \<or> int (al_size a) \<le> idx then (Some ErrIPOutOfRange, a, d)
              else if idx = 0 then (Some ErrReleaseNetwork, a, d)
              else if al_isIPv4 a \<and> idx = 1 then (Some ErrReleaseGateway, a, d)
              else if al_isIPv4 a \<and> idx = int (al_size a) - 1 then (Some ErrReleaseBroadcast, a, d)
              else (case Bitmap_Get (al_bitmap a) (nat idx) of
                      None \<Rightarrow> (Some RuntimePanic, a, d)
                    | Some False \<Rightarrow> (Some ErrIPNotAllocated, a, d)
                    | Some True \<Rightarrow>
                        (case Bitmap_Clear (al_bitmap a) (nat idx) of
                           None \<Rightarrow> (Some RuntimePanic, a, d)
                         | Some bm \<Rightarrow>
                             (None, a\<lparr>al_bitmap := bm, al_used := al_used a - 1\<rparr>,
                              if al_stateDir a \<noteq> [] then removeIP rmOK ipNorm d else d))))"

definition Allocator_Used :: "Allocator \<Rightarrow> int" where
  "Allocator_Used a = al_used a"

definition Allocator_Available :: "Allocator \<Rightarrow> int" where
  "Allocator_Available a = int (al_size a) - al_used a"

definition Allocator_Gateway :: "Allocator \<Rightarrow> IP option" where
  "Allocator_Gateway a = allocatorIndexToIP a 1"

definition Allocator_PrefixLength :: "Allocator \<Rightarrow> nat" where
  "Allocator_PrefixLength a = al_prefixLen a"

section \<open>Index arithmetic of an address block\<close>

text \<open>The index of an address in a block of \<open>sz\<close> addresses from \<open>base\<close>, and the address of an index.\<close>

definition block_index :: "IP \<Rightarrow> nat \<Rightarrow> nat \<Rightarrow> IP \<Rightarrow> nat option" where
  "block_index base sz L ip =
     (case IP_num L ip of
        None \<Rightarrow> None
      | Some v \<Rightarrow> if be_nat base \<le> v \<and> v < be_nat base + sz then Some (v - be_nat base) else None)"

definition block_addr :: "IP \<Rightarrow> nat \<Rightarrow> nat \<Rightarrow> IP" where
  "block_addr base L i = nat_be L (be_nat base + i)"

definition addr_block :: "IPNet \<Rightarrow> IP \<Rightarrow> nat \<Rightarrow> nat \<Rightarrow> bool" where
  "addr_block n base sz L \<longleftrightarrow>
     (\<exists>ones. prefix_net L ones n \<and> 8 * L - ones \<le> 20 \<and> base = net_IP n \<and> sz = 2 ^ (8 * L - ones))"

lemma IP_num_normalizeIP: "IP_num L (normalizeIP ip) = IP_num L ip"
proof (cases "IP_To4 ip")
  case (Some x)
  then have "length x = 4" by (rule length_IP_To4)
  with Some show ?thesis
    by (auto simp: IP_num_def normalizeIP_def IP_To4_def IP_To16_def split: if_splits)
       (metis append_take_drop_id)+
next
  case None
  then show ?thesis
    by (auto simp: IP_num_def normalizeIP_def IP_To16_def IP_To4_def split: option.splits if_splits)
qed

lemma addr_block_props:
  assumes "addr_block n base sz L"
  shows "L = 4 \<or> L = 16" "length base = L" "0 < sz" "sz \<le> 2 ^ 20" "i < sz \<Longrightarrow> be_nat base + i < 256 ^ L"
proof -
  obtain ones where o: "prefix_net L ones n" "8 * L - ones \<le> 20" "base = net_IP n" "sz = 2 ^ (8 * L - ones)"
    using assms by (auto simp: addr_block_def)
  show "L = 4 \<or> L = 16" "length base = L" "0 < sz" using o by (auto simp: prefix_net_def)
  show "sz \<le> 2 ^ 20" unfolding o(4) using o(2) by (intro power_increasing) auto
  assume i: "i < sz"
  let ?h = "8 * L - ones"
  have "(256::nat) ^ L = 2 ^ (8 * L)" by (simp add: power_mult)
  also have "\<dots> = 2 ^ ones * 2 ^ ?h" using o(1) by (simp add: prefix_net_def flip: power_add)
  finally have pow: "(256::nat) ^ L = 2 ^ ones * 2 ^ ?h" .
  have "be_nat base < 256 ^ L" using be_nat_lt [of base] \<open>length base = L\<close> by simp
  then have "be_nat base div 2 ^ ?h < 2 ^ ones" unfolding pow by (simp add: less_mult_imp_div_less)
  then have "(be_nat base div 2 ^ ?h + 1) * 2 ^ ?h \<le> 2 ^ ones * 2 ^ ?h" by (intro mult_right_mono) auto
  moreover have "be_nat base div 2 ^ ?h * 2 ^ ?h = be_nat base"
    using o(1,3) div_mult_mod_eq [of "be_nat base" "2 ^ ?h"] by (simp add: prefix_net_def)
  ultimately show "be_nat base + i < 256 ^ L" using i unfolding pow o(4) by simp
qed

lemma length_block_addr [simp]: "length (block_addr base L i) = L"
  by (simp add: block_addr_def length_nat_be)

lemma indexToIP_block:
  assumes "addr_block n base sz L" "i < sz"
  shows "indexToIP base (int i) L = Some (block_addr base L i)"
proof -
  have lt: "be_nat base + i < 256 ^ L" by (rule addr_block_props(5) [OF assms])
  have "nat (abs (int (be_nat base) + int i)) = be_nat base + i" by simp
  then show ?thesis
    using length_big_Bytes [OF lt] nat_be_big_Bytes [OF lt] by (simp add: indexToIP_def block_addr_def Let_def)
qed

lemma IP_num_num:
  "length ip = L \<Longrightarrow> L = 4 \<or> L = 16 \<Longrightarrow> IP_num L ip = Some (be_nat ip)"
  by (auto simp: IP_num_def IP_To4_def IP_To16_def)

lemma block_index_addr:
  assumes "addr_block n base sz L" "i < sz"
  shows "block_index base sz L (block_addr base L i) = Some i"
proof -
  have "be_nat (block_addr base L i) = be_nat base + i"
    unfolding block_addr_def by (rule be_nat_nat_be [OF addr_block_props(5) [OF assms]])
  with IP_num_num [OF length_block_addr addr_block_props(1) [OF assms(1)]] assms(2)
  show ?thesis by (simp add: block_index_def)
qed

lemma block_index_normalizeIP [simp]: "block_index base sz L (normalizeIP ip) = block_index base sz L ip"
  by (simp add: block_index_def IP_num_normalizeIP)

lemma block_index_lt: "block_index base sz L ip = Some i \<Longrightarrow> i < sz"
  by (auto simp: block_index_def split: option.splits if_splits)

lemma block_contains:
  assumes "addr_block n base sz L"
  shows "IPNet_Contains n ip \<longleftrightarrow> block_index base sz L ip \<noteq> None"
proof -
  obtain ones where o: "prefix_net L ones n" "8 * L - ones \<le> 20" "base = net_IP n" "sz = 2 ^ (8 * L - ones)"
    using assms by (auto simp: addr_block_def)
  have "8 * L - ones \<le> 32" using o(2) by simp
  from IPNet_Contains_prefix_net [OF o(1) this, of ip] show ?thesis
    unfolding block_index_def o(3,4) by (auto split: option.split)
qed

lemma big_Int64_small: "0 \<le> z \<Longrightarrow> z < 2 ^ 20 \<Longrightarrow> big_Int64 z = z"
  unfolding big_Int64_def by transfer (simp add: signed_take_bit_int_eq_self)

lemma ipToIndex_block:
  assumes "addr_block n base sz L" "block_index base sz L ip = Some i"
  shows "ipToIndex base (normalizeIP ip) L = int i"
proof -
  obtain v where v: "IP_num L ip = Some v" "be_nat base \<le> v" "v < be_nat base + sz" "i = v - be_nat base"
    using assms(2) by (auto simp: block_index_def split: option.splits if_splits)
  have "IP_num L (normalizeIP ip) = Some v" "IP_num L base = Some (be_nat base)"
    using v(1) IP_num_num addr_block_props(1,2) [OF assms(1)] by (auto simp: IP_num_normalizeIP)
  moreover have "big_Int64 (int v - int (be_nat base)) = int v - int (be_nat base)"
    using v addr_block_props(4) [OF assms(1)] by (intro big_Int64_small) auto
  ultimately show ?thesis
    using v(2,4) by (auto simp: ipToIndex_def IP_num_def split: if_splits)
qed

lemma IP_String_num:
  assumes "IP_num L ip = Some v" "L = 4 \<or> L = 16"
  shows "IP_String ip = IP_String (nat_be L v)"
proof -
  have undo: "x = nat_be L v" if "v = be_nat x" "length x = L" for x
    using that nat_be_be_nat [of x] by simp
  show ?thesis
  proof (cases "L = 4")
    case True
    then obtain x where x: "IP_To4 ip = Some x" "v = be_nat x" using assms by (auto simp: IP_num_def)
    then have "length x = 4" by (simp add: length_IP_To4)
    with x True undo [of x] have "nat_be L v = x" by simp
    with x \<open>length x = 4\<close> show ?thesis by (auto simp: IP_String_def IP_To4_def split: if_splits)
  next
    case False
    then obtain x where x: "IP_To16 ip = Some x" "v = be_nat x" using assms by (auto simp: IP_num_def)
    then have "length x = 16" by (simp add: length_IP_To16)
    with x False assms(2) undo [of x] have nb: "nat_be L v = x" "IP_To16 x = Some x" by (auto simp: IP_To16_def)
    have "IP_To4 ip = IP_To4 x" using IP_To4_iff_num [OF x(1)] IP_To4_iff_num [OF nb(2)] by simp
    with nb x(1) \<open>length x = 16\<close> show ?thesis
      by (auto simp: IP_String_def IP_To16_def split: if_splits option.splits) (auto simp: IP_To4_def)
  qed
qed

lemma IP_String_block:
  assumes "addr_block n base sz L" "block_index base sz L ip = Some i"
  shows "IP_String ip = IP_String (block_addr base L i)"
proof -
  obtain v where "IP_num L ip = Some v" "v = be_nat base + i"
    using assms(2) by (auto simp: block_index_def split: option.splits if_splits)
  with IP_String_num addr_block_props(1) [OF assms(1)] show ?thesis by (simp add: block_addr_def)
qed

lemma ParseIP_block_name:
  assumes "addr_block n base sz L" "i < sz"
  shows "\<exists>ip. ParseIP (IP_String (block_addr base L i)) = Some ip \<and> block_index base sz L ip = Some i"
proof -
  let ?x = "block_addr base L i"
  have L: "length ?x = 4 \<or> length ?x = 16" using addr_block_props(1) [OF assms(1)] by simp
  then obtain y where y: "IP_To16 ?x = Some y" by (auto simp: IP_To16_def)
  have "IP_num L y = IP_num L ?x"
    using y IP_To4_iff_num [OF y] IP_To4_iff_num [of y y] length_IP_To16 [OF y] addr_block_props(1) [OF assms(1)]
    by (auto simp: IP_num_def IP_To16_def)
  then have "block_index base sz L y = Some i"
    using block_index_addr [OF assms] by (simp add: block_index_def)
  with ParseIP_IP_String [OF L] y show ?thesis by auto
qed

section \<open>Well-formed allocators\<close>

abbreviation al_bits :: "Allocator \<Rightarrow> nat set" where
  "al_bits a \<equiv> word_bits (bm_words (al_bitmap a))"

definition al_reserved :: "Allocator \<Rightarrow> nat set" where
  "al_reserved a = (if al_isIPv4 a then {0, 1, al_size a - 1} else {0})"

definition al_index :: "Allocator \<Rightarrow> IP \<Rightarrow> nat option" where
  "al_index a ip = block_index (al_baseIP a) (al_size a) (al_ipLen a) ip"

definition al_addr :: "Allocator \<Rightarrow> nat \<Rightarrow> IP" where
  "al_addr a i = block_addr (al_baseIP a) (al_ipLen a) i"

text \<open>The invariant of the allocator. The last three conjuncts tie the bitmap to the counter and keep
  the reserved addresses marked.\<close>

definition Allocator_wf :: "Allocator \<Rightarrow> bool" where
  "Allocator_wf a \<longleftrightarrow>
     addr_block (al_network a) (al_baseIP a) (al_size a) (al_ipLen a) \<and>
     al_isIPv4 a = (al_ipLen a = 4) \<and> (if al_isIPv4 a then 4 \<le> al_size a else 2 \<le> al_size a) \<and>
     Bitmap_wf (al_bitmap a) \<and> bm_size (al_bitmap a) = al_size a \<and>
     al_bits a \<subseteq> {..<al_size a} \<and> al_used a = int (card (al_bits a)) \<and> al_reserved a \<subseteq> al_bits a"

text \<open>\<open>al_upd a B a'\<close>: \<open>a'\<close> is the well-formed allocator that differs from \<open>a\<close> only in that exactly the
  indices in \<open>B\<close> are allocated.\<close>

definition al_upd :: "Allocator \<Rightarrow> nat set \<Rightarrow> Allocator \<Rightarrow> bool" where
  "al_upd a B a' \<longleftrightarrow>
     Allocator_wf a' \<and> al_bits a' = B \<and> a' = a\<lparr>al_bitmap := al_bitmap a', al_used := al_used a'\<rparr>"

lemma al_upd_const:
  assumes "al_upd a B a'"
  shows "al_network a' = al_network a" "al_baseIP a' = al_baseIP a" "al_size a' = al_size a"
    "al_prefixLen a' = al_prefixLen a" "al_ipLen a' = al_ipLen a" "al_isIPv4 a' = al_isIPv4 a"
    "al_stateDir a' = al_stateDir a"
proof -
  have "a' = a\<lparr>al_bitmap := al_bitmap a', al_used := al_used a'\<rparr>" using assms by (simp add: al_upd_def)
  then show "al_network a' = al_network a" "al_baseIP a' = al_baseIP a" "al_size a' = al_size a"
    "al_prefixLen a' = al_prefixLen a" "al_ipLen a' = al_ipLen a" "al_isIPv4 a' = al_isIPv4 a"
    "al_stateDir a' = al_stateDir a" by (metis Allocator.select_convs Allocator.surjective Allocator.update_convs)+
qed

lemma al_upd_derived:
  assumes "al_upd a B a'"
  shows "al_reserved a' = al_reserved a" "al_index a' = al_index a" "al_addr a' = al_addr a"
  using al_upd_const [OF assms] by (auto simp: al_reserved_def al_index_def al_addr_def)

lemma al_upd_wf: "al_upd a B a' \<Longrightarrow> Allocator_wf a'" and al_upd_bits: "al_upd a B a' \<Longrightarrow> al_bits a' = B"
  by (simp_all add: al_upd_def)

lemma al_upd_refl: "Allocator_wf a \<Longrightarrow> al_upd a (al_bits a) a"
  by (simp add: al_upd_def)

lemma al_upd_trans: "al_upd a B b \<Longrightarrow> al_upd b C c \<Longrightarrow> al_upd a C c"
proof -
  assume ab: "al_upd a B b" and bc: "al_upd b C c"
  note k = al_upd_const [OF ab] al_upd_const [OF bc]
  show "al_upd a C c" unfolding al_upd_def
    using bc k by (auto simp: al_upd_def intro!: Allocator.equality)
qed

text \<open>The allocated set determines the allocator.\<close>

lemma al_upd_unique:
  assumes "al_upd a B b" "al_upd a B c"
  shows "b = c"
proof -
  note k = al_upd_const [OF assms(1)] al_upd_const [OF assms(2)]
  have "al_bitmap b = al_bitmap c"
    by (rule Bitmap_eqI) (use assms k in \<open>auto simp: al_upd_def Allocator_wf_def\<close>)
  moreover have "al_used b = al_used c" using assms by (simp add: al_upd_def Allocator_wf_def)
  ultimately show ?thesis using k by (intro Allocator.equality) auto
qed

lemma Allocator_wf_bits:
  assumes "Allocator_wf a"
  shows "finite (al_bits a)" "card (al_bits a) \<le> al_size a"
proof -
  have sub: "al_bits a \<subseteq> {..<al_size a}" using assms by (simp add: Allocator_wf_def)
  then show "finite (al_bits a)" by (rule finite_subset) simp
  show "card (al_bits a) \<le> al_size a" using card_mono [OF _ sub] by simp
qed

lemma al_upd_set:
  assumes wf: "Allocator_wf a" and i: "i < al_size a" "i \<notin> al_bits a" and bm: "Bitmap_Set (al_bitmap a) i = Some b"
  shows "al_upd a (insert i (al_bits a)) (a\<lparr>al_bitmap := b, al_used := al_used a + 1\<rparr>)"
proof -
  have b: "Bitmap_wf b" "bm_size b = al_size a" "word_bits (bm_words b) = insert i (al_bits a)"
    using bm.set_SomeD [of "al_bitmap a" i b] wf i bm by (auto simp: Allocator_wf_def)
  show ?thesis
    using wf b i Allocator_wf_bits(1) [OF wf]
    by (auto simp: al_upd_def Allocator_wf_def al_reserved_def card_insert_disjoint)
qed

lemma al_upd_clear:
  assumes wf: "Allocator_wf a" and i: "i \<in> al_bits a" "i \<notin> al_reserved a" and bm: "Bitmap_Clear (al_bitmap a) i = Some b"
  shows "al_upd a (al_bits a - {i}) (a\<lparr>al_bitmap := b, al_used := al_used a - 1\<rparr>)"
proof -
  have "i < al_size a" using wf i(1) by (auto simp: Allocator_wf_def)
  then have b: "Bitmap_wf b" "bm_size b = al_size a" "word_bits (bm_words b) = al_bits a - {i}"
    using bm.clear_SomeD [of "al_bitmap a" i b] wf bm by (auto simp: Allocator_wf_def)
  have "card (al_bits a) = Suc (card (al_bits a - {i}))"
    using i(1) Allocator_wf_bits(1) [OF wf] by (metis card_Suc_Diff1)
  then show ?thesis
    using wf b i by (auto simp: al_upd_def Allocator_wf_def al_reserved_def)
qed

text \<open>Rolling back a failed allocation restores the allocator exactly.\<close>

lemma al_rollback:
  assumes wf: "Allocator_wf a" and i: "i < al_size a" "i \<notin> al_bits a"
    and bm: "Bitmap_Set (al_bitmap a) i = Some b" "Bitmap_Clear b i = Some c"
  shows "a\<lparr>al_bitmap := c, al_used := al_used a + 1 - 1\<rparr> = a"
proof -
  have "Bitmap_wf c" "bm_size c = al_size a" "word_bits (bm_words c) = al_bits a"
    using bm.set_clear_bits [of "al_bitmap a" i b c] wf i bm by (auto simp: Allocator_wf_def)
  then have "c = al_bitmap a" using wf by (intro Bitmap_eqI) (auto simp: Allocator_wf_def)
  then show ?thesis by simp
qed

section \<open>The operations\<close>

lemma wf_block: "Allocator_wf a \<Longrightarrow> addr_block (al_network a) (al_baseIP a) (al_size a) (al_ipLen a)"
  by (simp add: Allocator_wf_def)

lemma al_contains: "Allocator_wf a \<Longrightarrow> IPNet_Contains (al_network a) (normalizeIP ip) \<longleftrightarrow> al_index a ip \<noteq> None"
  by (simp add: block_contains [OF wf_block] al_index_def)

lemma al_ipToIndex: "Allocator_wf a \<Longrightarrow> al_index a ip = Some i \<Longrightarrow> allocatorIPToIndex a (normalizeIP ip) = int i"
  by (simp add: allocatorIPToIndex_def al_index_def ipToIndex_block [OF wf_block])

lemma al_index_lt: "al_index a ip = Some i \<Longrightarrow> i < al_size a"
  by (simp add: al_index_def block_index_lt)

lemma al_index_addr: "Allocator_wf a \<Longrightarrow> i < al_size a \<Longrightarrow> al_index a (al_addr a i) = Some i"
  by (simp add: al_index_def al_addr_def block_index_addr [OF wf_block])

lemma al_name: "Allocator_wf a \<Longrightarrow> al_index a ip = Some i \<Longrightarrow> IP_String (normalizeIP ip) = IP_String (al_addr a i)"
  using IP_String_block [OF wf_block, of a "normalizeIP ip" i] by (simp add: al_index_def al_addr_def)

lemma al_get: "Allocator_wf a \<Longrightarrow> i < al_size a \<Longrightarrow> Bitmap_Get (al_bitmap a) i = Some (i \<in> al_bits a)"
  by (simp add: Bitmap_Get_bits Allocator_wf_def)

lemma al_set: "Allocator_wf a \<Longrightarrow> i < al_size a \<Longrightarrow> \<exists>b. Bitmap_Set (al_bitmap a) i = Some b"
  using bm.set_ok [of "al_bitmap a" i] by (auto simp: Allocator_wf_def)

lemma al_clear: "Allocator_wf a \<Longrightarrow> i < al_size a \<Longrightarrow> \<exists>b. Bitmap_Clear (al_bitmap a) i = Some b"
  using bm.clear_ok [of "al_bitmap a" i] by (auto simp: Allocator_wf_def)

lemma al_set_clear:
  assumes "Allocator_wf a" "i < al_size a" "Bitmap_Set (al_bitmap a) i = Some b"
  shows "\<exists>c. Bitmap_Clear b i = Some c"
  using bm.set_SomeD [of "al_bitmap a" i b] bm.clear_ok [of b i] assms by (auto simp: Allocator_wf_def)

text \<open>What claiming the free index \<open>i\<close> under the file name of \<open>i\<close> does, with and without a state
  directory: the common tail of \<open>Allocate\<close> and \<open>AllocateSpecific\<close>.\<close>

definition claims :: "WriteOutcome \<Rightarrow> Allocator \<Rightarrow> StateDir \<Rightarrow> nat \<Rightarrow> bool \<Rightarrow> Allocator \<Rightarrow> StateDir \<Rightarrow> bool" where
  "claims w a d i ok a' d' \<longleftrightarrow>
     i < al_size a \<and> i \<notin> al_bits a \<and>
     (if al_stateDir a = [] then ok \<and> d' = d else (d', ok) = saveIP w (al_addr a i) d) \<and>
     (if ok then al_upd a (insert i (al_bits a)) a' else a' = a)"

lemma saveIP_name: "IP_String x = IP_String y \<Longrightarrow> saveIP w x d = saveIP w y d"
  by (simp add: saveIP_def)

lemma Allocate_full:
  assumes "Allocator_wf a" "al_bits a = {..<al_size a}"
  shows "Allocator_Allocate w a d = (Inl ErrNoFreeAddresses, a, d)"
  using bm.find_full_iff [of "al_bitmap a"] assms by (simp add: Allocator_Allocate_def Allocator_wf_def)

lemma Allocate_not_full:
  assumes wf: "Allocator_wf a" and free: "al_bits a \<noteq> {..<al_size a}"
  shows "\<exists>i ok a' d'. claims w a d i ok a' d' \<and> {..<i} \<subseteq> al_bits a \<and>
    Allocator_Allocate w a d = (if ok then Inr (al_addr a i) else Inl ErrPersist, a', d')"
proof -
  have bw: "Bitmap_wf (al_bitmap a)" "bm_size (al_bitmap a) = al_size a" "al_bits a \<subseteq> {..<al_size a}"
    using wf by (auto simp: Allocator_wf_def)
  have pos: "0 \<le> Bitmap_FindFree (al_bitmap a)"
    using bm.find_full_iff [OF bw(1)] bw free by (auto simp: not_less [symmetric])
  then obtain i where i: "Bitmap_FindFree (al_bitmap a) = int i" using nonneg_int_cases by blast
  have lt: "i < al_size a" and free_i: "i \<notin> al_bits a" and least: "{..<i} \<subseteq> al_bits a"
    using bm.find_free [OF bw(1) pos] bm.find_least [OF bw(1) pos] bw(2) i by auto
  obtain b where b: "Bitmap_Set (al_bitmap a) i = Some b" using al_set [OF wf lt] by blast
  obtain c where c: "Bitmap_Clear b i = Some c" using al_set_clear [OF wf lt b] by blast
  let ?a1 = "a\<lparr>al_bitmap := b, al_used := al_used a + 1\<rparr>"
  have upd: "al_upd a (insert i (al_bits a)) ?a1" by (rule al_upd_set [OF wf lt free_i b])
  have ip: "allocatorIndexToIP ?a1 (int i) = Some (al_addr a i)"
    using indexToIP_block [OF wf_block [OF wf] lt] by (simp add: allocatorIndexToIP_def al_addr_def)
  obtain d' ok where save: "saveIP w (al_addr a i) d = (d', ok)" by (cases "saveIP w (al_addr a i) d")
  show ?thesis
  proof (cases "al_stateDir a = []")
    case True
    then show ?thesis
      using i b ip upd lt free_i least
      by (intro exI [of _ i] exI [of _ True] exI [of _ ?a1] exI [of _ d]) (simp add: Allocator_Allocate_def claims_def)
  next
    case False
    then show ?thesis
      using i b c ip upd lt free_i least save al_rollback [OF wf lt free_i b c]
      by (intro exI [of _ i] exI [of _ ok] exI [of _ "if ok then ?a1 else a"] exI [of _ d'])
         (simp add: Allocator_Allocate_def claims_def)
  qed
qed

lemma AllocateSpecific_outside:
  "Allocator_wf a \<Longrightarrow> al_index a ip = None \<Longrightarrow>
   Allocator_AllocateSpecific w ip a d = (Some ErrIPOutsideCIDR, a, d)"
  by (simp add: Allocator_AllocateSpecific_def al_contains)

lemma AllocateSpecific_taken:
  "Allocator_wf a \<Longrightarrow> al_index a ip = Some i \<Longrightarrow> i \<in> al_bits a \<Longrightarrow>
   Allocator_AllocateSpecific w ip a d = (Some ErrIPAlreadyAlloc, a, d)"
  using al_index_lt [of a ip i] by (simp add: Allocator_AllocateSpecific_def al_contains al_ipToIndex al_get)

lemma AllocateSpecific_free:
  assumes wf: "Allocator_wf a" and idx: "al_index a ip = Some i" and free: "i \<notin> al_bits a"
  shows "\<exists>ok a' d'. claims w a d i ok a' d' \<and>
    Allocator_AllocateSpecific w ip a d = (if ok then None else Some ErrPersist, a', d')"
proof -
  have lt: "i < al_size a" by (rule al_index_lt [OF idx])
  obtain b where b: "Bitmap_Set (al_bitmap a) i = Some b" using al_set [OF wf lt] by blast
  obtain c where c: "Bitmap_Clear b i = Some c" using al_set_clear [OF wf lt b] by blast
  let ?a1 = "a\<lparr>al_bitmap := b, al_used := al_used a + 1\<rparr>"
  have upd: "al_upd a (insert i (al_bits a)) ?a1" by (rule al_upd_set [OF wf lt free b])
  have name: "saveIP w (normalizeIP ip) d = saveIP w (al_addr a i) d"
    by (rule saveIP_name [OF al_name [OF wf idx]])
  obtain d' ok where save: "saveIP w (al_addr a i) d = (d', ok)" by (cases "saveIP w (al_addr a i) d")
  note simps = al_contains [OF wf] idx al_ipToIndex [OF wf idx] al_get [OF wf lt] lt lt [unfolded not_le [symmetric]] free b c name
  show ?thesis
  proof (cases "al_stateDir a = []")
    case True
    then show ?thesis using upd lt
      by (intro exI [of _ True] exI [of _ ?a1] exI [of _ d])
         (simp add: simps Allocator_AllocateSpecific_def claims_def Let_def)
  next
    case False
    then show ?thesis using upd lt save al_rollback [OF wf lt free b c]
      by (intro exI [of _ ok] exI [of _ "if ok then ?a1 else a"] exI [of _ d'])
         (simp add: simps Allocator_AllocateSpecific_def claims_def Let_def)
  qed
qed

lemma Release_outside:
  "Allocator_wf a \<Longrightarrow> al_index a ip = None \<Longrightarrow> Allocator_Release r ip a d = (Some ErrIPOutsideCIDR, a, d)"
  by (simp add: Allocator_Release_def al_contains)

lemma Release_reserved:
  assumes wf: "Allocator_wf a" and idx: "al_index a ip = Some i" and "i \<in> al_reserved a"
  shows "Allocator_Release r ip a d =
    (Some (if i = 0 then ErrReleaseNetwork else if i = 1 then ErrReleaseGateway else ErrReleaseBroadcast), a, d)"
  using assms al_index_lt [OF idx]
  by (auto simp: Allocator_Release_def al_contains al_ipToIndex al_reserved_def of_nat_diff split: if_splits)

lemma Release_not_reserved:
  assumes wf: "Allocator_wf a" and idx: "al_index a ip = Some i" and nr: "i \<notin> al_reserved a"
  shows "Allocator_Release r ip a d =
    (case Bitmap_Get (al_bitmap a) i of
       None \<Rightarrow> (Some RuntimePanic, a, d)
     | Some False \<Rightarrow> (Some ErrIPNotAllocated, a, d)
     | Some True \<Rightarrow>
         (case Bitmap_Clear (al_bitmap a) i of
            None \<Rightarrow> (Some RuntimePanic, a, d)
          | Some bm \<Rightarrow>
              (None, a\<lparr>al_bitmap := bm, al_used := al_used a - 1\<rparr>,
               if al_stateDir a \<noteq> [] then removeIP r (al_addr a i) d else d)))"
proof -
  have lt: "i < al_size a" by (rule al_index_lt [OF idx])
  have "i \<noteq> 0" "al_isIPv4 a \<Longrightarrow> i \<noteq> 1" "al_isIPv4 a \<Longrightarrow> int i \<noteq> int (al_size a) - 1"
    using nr lt by (auto simp: al_reserved_def split: if_splits)
  moreover have "removeIP r (normalizeIP ip) d = removeIP r (al_addr a i) d"
    using al_name [OF wf idx] by (simp add: removeIP_def)
  ultimately show ?thesis
    using lt by (auto simp: Allocator_Release_def al_contains [OF wf] idx al_ipToIndex [OF wf idx] Let_def
        split: option.split bool.split)
qed

lemma Release_free:
  "Allocator_wf a \<Longrightarrow> al_index a ip = Some i \<Longrightarrow> i \<notin> al_bits a \<Longrightarrow>
   Allocator_Release r ip a d = (Some ErrIPNotAllocated, a, d)"
  using al_index_lt [of a ip i] by (subst Release_not_reserved) (auto simp: al_get Allocator_wf_def)

lemma Release_allocated:
  assumes wf: "Allocator_wf a" and idx: "al_index a ip = Some i" and i: "i \<in> al_bits a" "i \<notin> al_reserved a"
  shows "\<exists>a'. Allocator_Release r ip a d =
      (None, a', if al_stateDir a = [] then d else removeIP r (al_addr a i) d) \<and>
    al_upd a (al_bits a - {i}) a'"
proof -
  have lt: "i < al_size a" by (rule al_index_lt [OF idx])
  obtain b where b: "Bitmap_Clear (al_bitmap a) i = Some b" using al_clear [OF wf lt] by blast
  from al_upd_clear [OF wf i b] show ?thesis
    using b i(1) al_get [OF wf lt] by (simp add: Release_not_reserved [OF wf idx i(2)])
qed

section \<open>Construction and recovery\<close>

lemma set_all_ok:
  "Bitmap_wf b \<Longrightarrow> \<forall>i \<in> set is. i < bm_size b \<Longrightarrow>
   \<exists>b'. set_all b is = Some b' \<and> Bitmap_wf b' \<and> bm_size b' = bm_size b \<and>
     word_bits (bm_words b') = set is \<union> word_bits (bm_words b)"
proof (induction "is" arbitrary: b)
  case (Cons i "is")
  then obtain c where c: "Bitmap_Set b i = Some c" "Bitmap_wf c" "bm_size c = bm_size b"
      "word_bits (bm_words c) = insert i (word_bits (bm_words b))"
    using bm.set_ok [of b i] by auto
  with Cons.IH [of c] Cons.prems(2) show ?case by auto
qed simp

lemma newAllocatorBase_wf:
  assumes "prefix_net L ones n" "newAllocatorBase n sd = Inr a"
  shows "Allocator_wf a" "al_bits a = al_reserved a" "al_network a = n" "al_stateDir a = sd" "al_prefixLen a = ones"
proof -
  let ?sz = "2 ^ (8 * L - ones) :: nat" and ?v4 = "8 * L = 32"
  let ?res = "if ?v4 then [0, 1] @ (if 2 < ?sz then [?sz - 1] else []) else [0 :: nat]"
  have L: "L = 4 \<or> L = 16" "length (net_IP n) = L" using assms(1) by (auto simp: prefix_net_def)
  have ms: "Mask_Size (net_Mask n) = (ones, 8 * L)" by (rule Mask_Size_prefix_net [OF assms(1)])
  have ok: "8 * L - ones \<le> 20" "?v4 \<Longrightarrow> 4 \<le> ?sz" "\<not> ?v4 \<Longrightarrow> 2 \<le> ?sz"
    using assms(2) by (auto simp: newAllocatorBase_def ms Let_def not_less split: if_splits)
  have rs: "\<forall>i \<in> set ?res. i < ?sz" "distinct ?res" using ok(2,3) by (auto split: if_splits)
  obtain b where b: "set_all (NewBitmap ?sz) ?res = Some b" "Bitmap_wf b" "bm_size b = ?sz" "word_bits (bm_words b) = set ?res"
    using set_all_ok [of "NewBitmap ?sz" ?res] rs(1) bm.new_invar [of ?sz] bm.new_cap [of ?sz] bm.new_bits [of ?sz] by auto
  have base: "(case (if ?v4 then IP_To4 (net_IP n) else IP_To16 (net_IP n)) of Some ip \<Rightarrow> ip | None \<Rightarrow> []) = net_IP n"
    using L by (auto simp: IP_To4_def IP_To16_def)
  have a: "a = \<lparr>al_network = n, al_baseIP = net_IP n, al_size = ?sz, al_bitmap = b, al_used = int (length ?res),
      al_prefixLen = ones, al_ipLen = (if ?v4 then 4 else 16), al_isIPv4 = ?v4, al_stateDir = sd\<rparr>"
    using assms(2) ok b(1) unfolding newAllocatorBase_def ms Let_def prod.case base
    by (simp only: not_less [symmetric] if_False if_True option.case sum.inject not_False_eq_True de_Morgan_conj
        simp_thms split: if_splits)
  have res: "al_reserved a = set ?res" using ok(2) by (auto simp: al_reserved_def a)
  show "al_bits a = al_reserved a" by (simp only: res) (simp add: a b(4))
  have "addr_block n (net_IP n) ?sz L" unfolding addr_block_def using assms(1) ok(1) by blast
  moreover have "L = (if ?v4 then 4 else 16)" using L by auto
  ultimately have blk: "addr_block (al_network a) (al_baseIP a) (al_size a) (al_ipLen a)" by (simp add: a)
  have "card (al_bits a) = length ?res" using rs(2) distinct_card by (simp add: a b(4))
  moreover have "al_bits a \<subseteq> {..<al_size a}" using rs(1) by (auto simp: a b(4))
  ultimately show "Allocator_wf a"
    unfolding Allocator_wf_def using blk ok b(2,3) res by (simp add: a b(4))
  show "al_network a = n" "al_stateDir a = sd" "al_prefixLen a = ones" by (simp_all add: a)
qed

text \<open>The indices that the files of a directory listing stand for.\<close>

definition entry_indices :: "Allocator \<Rightarrow> (string \<times> bool) list \<Rightarrow> nat set" where
  "entry_indices a es =
     {i. \<exists>name ip. (name, False) \<in> set es \<and> ParseIP name = Some ip \<and> al_index a ip = Some i}"

lemma entry_indices_Nil [simp]: "entry_indices a [] = {}"
  by (simp add: entry_indices_def)

lemma entry_indices_Cons:
  "entry_indices a ((name, isDir) # es) =
     (if isDir then {} else (case ParseIP name of None \<Rightarrow> {} | Some ip \<Rightarrow> set_option (al_index a ip))) \<union>
     entry_indices a es"
  by (auto simp: entry_indices_def split: option.split)

lemma loadState_entries_upd:
  "Allocator_wf a \<Longrightarrow> \<exists>a'. loadState_entries es a = Some a' \<and> al_upd a (al_bits a \<union> entry_indices a es) a'"
proof (induction es arbitrary: a)
  case Nil
  then show ?case by (simp add: al_upd_refl)
next
  case (Cons e es)
  note wf = Cons.prems
  obtain name isDir where e: "e = (name, isDir)" by (cases e)
  obtain a0 where a0: "loadState_entries es a = Some a0" "al_upd a (al_bits a \<union> entry_indices a es) a0"
    using Cons.IH [OF wf] by blast
  consider (skip) "isDir \<or> ParseIP name = None \<or> (\<exists>ip. ParseIP name = Some ip \<and> al_index a ip = None)"
    | (hit) ip i where "\<not> isDir" "ParseIP name = Some ip" "al_index a ip = Some i" by (cases "ParseIP name") fastforce+
  then show ?case
  proof cases
    case skip
    then have "loadState_entries (e # es) a = loadState_entries es a"
        "entry_indices a (e # es) = entry_indices a es"
      by (auto simp: e al_contains [OF wf] entry_indices_Cons)
    with a0 show ?thesis by simp
  next
    case hit
    note lt = al_index_lt [OF hit(3)]
    note simps = e hit al_contains [OF wf] al_ipToIndex [OF wf hit(3)] al_get [OF wf lt] lt lt [unfolded not_le [symmetric]] Let_def
    have ind: "entry_indices a (e # es) = insert i (entry_indices a es)"
      using hit by (simp add: e entry_indices_Cons)
    show ?thesis
    proof (cases "i \<in> al_bits a")
      case True
      with a0 show ?thesis unfolding ind by (simp add: simps insert_absorb)
    next
      case False
      obtain b where b: "Bitmap_Set (al_bitmap a) i = Some b" using al_set [OF wf lt] by blast
      let ?a1 = "a\<lparr>al_bitmap := b, al_used := al_used a + 1\<rparr>"
      have upd: "al_upd a (insert i (al_bits a)) ?a1" by (rule al_upd_set [OF wf lt False b])
      have "entry_indices ?a1 es = entry_indices a es"
        by (simp only: entry_indices_def al_upd_derived [OF upd])
      with Cons.IH [OF al_upd_wf [OF upd]] al_upd_bits [OF upd]
      obtain a' where a': "loadState_entries es ?a1 = Some a'"
          "al_upd ?a1 (insert i (al_bits a) \<union> entry_indices a es) a'" by auto
      have "loadState_entries (e # es) a = Some a'" using a'(1) False b by (simp add: simps)
      with al_upd_trans [OF upd a'(2)] show ?thesis unfolding ind by (simp add: Un_insert_left)
    qed
  qed
qed

section \<open>Runs of the allocator\<close>

text \<open>
  One operation of the allocator, on the allocator and its state directory. With \<open>faulty\<close> the file
  system calls may fail in any way; without it they succeed.
\<close>

inductive alloc_step :: "bool \<Rightarrow> Allocator \<times> StateDir \<Rightarrow> Allocator \<times> StateDir \<Rightarrow> bool" for faulty :: bool where
  step_Allocate:
    "Allocator_Allocate w a d = (r, a', d') \<Longrightarrow> faulty \<or> w = WriteOK \<Longrightarrow> alloc_step faulty (a, d) (a', d')"
| step_AllocateSpecific:
    "Allocator_AllocateSpecific w ip a d = (e, a', d') \<Longrightarrow> faulty \<or> w = WriteOK \<Longrightarrow> alloc_step faulty (a, d) (a', d')"
| step_Release:
    "Allocator_Release rm ip a d = (e, a', d') \<Longrightarrow> faulty \<or> rm \<Longrightarrow> alloc_step faulty (a, d) (a', d')"

inductive_cases alloc_stepE: "alloc_step faulty (a, d) (a', d')"

definition frees :: "bool \<Rightarrow> Allocator \<Rightarrow> StateDir \<Rightarrow> nat \<Rightarrow> Allocator \<Rightarrow> StateDir \<Rightarrow> bool" where
  "frees rm a d i a' d' \<longleftrightarrow>
     i \<in> al_bits a \<and> i \<notin> al_reserved a \<and> al_upd a (al_bits a - {i}) a' \<and>
     d' = (if al_stateDir a = [] then d else removeIP rm (al_addr a i) d)"

lemma AllocateSpecific_effect:
  assumes "Allocator_wf a" "Allocator_AllocateSpecific w ip a d = (e, a', d')"
  shows "(a', d') = (a, d) \<or> (\<exists>i ok. claims w a d i ok a' d')"
proof (cases "al_index a ip")
  case None
  with AllocateSpecific_outside [OF assms(1)] assms(2) show ?thesis by auto
next
  case (Some i)
  with AllocateSpecific_taken [OF assms(1) Some] AllocateSpecific_free [OF assms(1) Some, of w d] assms(2)
  show ?thesis by (cases "i \<in> al_bits a") fastforce+
qed

lemma Release_effect:
  assumes "Allocator_wf a" "Allocator_Release rm ip a d = (e, a', d')"
  shows "(a', d') = (a, d) \<or> (\<exists>i. frees rm a d i a' d')"
proof (cases "al_index a ip")
  case None
  with Release_outside [OF assms(1)] assms(2) show ?thesis by auto
next
  case (Some i)
  consider "i \<in> al_reserved a" | "i \<notin> al_bits a" | "i \<notin> al_reserved a" "i \<in> al_bits a" by blast
  then show ?thesis
  proof cases
    case 3
    with Release_allocated [OF assms(1) Some 3(2,1), of rm d] assms(2) show ?thesis by (auto simp: frees_def)
  qed (use Release_reserved [OF assms(1) Some] Release_free [OF assms(1) Some] assms(2) in auto)
qed

lemma Allocate_effect:
  assumes "Allocator_wf a" "Allocator_Allocate w a d = (r, a', d')"
  shows "(a', d') = (a, d) \<or> (\<exists>i ok. claims w a d i ok a' d')"
  using Allocate_full [OF assms(1)] Allocate_not_full [OF assms(1), of w d] assms(2)
  by (cases "al_bits a = {..<al_size a}") fastforce+

lemma alloc_step_effect:
  assumes "alloc_step faulty (a, d) (a', d')" "Allocator_wf a"
  shows "(a', d') = (a, d) \<or> (\<exists>w i ok. claims w a d i ok a' d' \<and> (faulty \<or> w = WriteOK)) \<or>
    (\<exists>rm i. frees rm a d i a' d' \<and> (faulty \<or> rm))"
proof (rule alloc_stepE [OF assms(1)])
  fix w r
  assume op: "Allocator_Allocate w a d = (r, a', d')" "faulty \<or> w = WriteOK"
  with Allocate_effect [OF assms(2) op(1)] show ?thesis by blast
next
  fix w ip e
  assume op: "Allocator_AllocateSpecific w ip a d = (e, a', d')" "faulty \<or> w = WriteOK"
  with AllocateSpecific_effect [OF assms(2) op(1)] show ?thesis by blast
next
  fix rm ip e
  assume op: "Allocator_Release rm ip a d = (e, a', d')" "faulty \<or> rm"
  with Release_effect [OF assms(2) op(1)] show ?thesis by blast
qed

text \<open>The index that a file name stands for and the indices recorded by the files of a directory.\<close>

definition file_index :: "Allocator \<Rightarrow> string \<Rightarrow> nat option" where
  "file_index a name = Option.bind (ParseIP name) (al_index a)"

definition dir_indices :: "Allocator \<Rightarrow> StateDir \<Rightarrow> nat set" where
  "dir_indices a d = {i. \<exists>name. d name = Some False \<and> file_index a name = Some i}"

definition dir_listing :: "(string \<times> bool) list \<Rightarrow> StateDir \<Rightarrow> bool" where
  "dir_listing es d \<longleftrightarrow> distinct (map fst es) \<and> map_of es = d"

definition canonical_dir :: "StateDir \<Rightarrow> bool" where
  "canonical_dir d \<longleftrightarrow> (\<forall>name ip. d name = Some False \<longrightarrow> ParseIP name = Some ip \<longrightarrow> name = IP_String ip)"

lemma dir_listing_indices:
  assumes "dir_listing es d"
  shows "entry_indices a es = dir_indices a d"
proof -
  have "(name, False) \<in> set es \<longleftrightarrow> d name = Some False" for name
    using assms by (auto simp: dir_listing_def)
  then show ?thesis by (auto simp: entry_indices_def dir_indices_def file_index_def bind_eq_Some_conv)
qed

lemma file_index_addr:
  "Allocator_wf a \<Longrightarrow> i < al_size a \<Longrightarrow> file_index a (IP_String (al_addr a i)) = Some i"
  using ParseIP_block_name [OF wf_block, of a i] by (auto simp: al_addr_def al_index_def file_index_def)

lemma file_index_canonical:
  assumes "Allocator_wf a" "canonical_dir d" "d name = Some False" "file_index a name = Some i"
  shows "name = IP_String (al_addr a i)"
proof -
  obtain ip where ip: "ParseIP name = Some ip" "al_index a ip = Some i"
    using assms(4) by (auto simp: file_index_def bind_eq_Some_conv)
  then have "name = IP_String ip" using assms(2,3) by (auto simp: canonical_dir_def)
  with IP_String_block [OF wf_block [OF assms(1)]] ip(2) show ?thesis by (simp add: al_index_def al_addr_def)
qed

lemma dir_indices_add:
  assumes "file_index a name = Some i" "d name \<noteq> Some True"
  shows "dir_indices a (d(name \<mapsto> False)) = insert i (dir_indices a d)"
  unfolding dir_indices_def using assms(1) by (auto split: if_splits) (metis option.inject)

lemma dir_indices_del:
  assumes "file_index a name = Some i"
  shows "dir_indices a d - {i} \<subseteq> dir_indices a (map_del d name)" "dir_indices a (map_del d name) \<subseteq> dir_indices a d"
proof -
  show "dir_indices a d - {i} \<subseteq> dir_indices a (map_del d name)"
  proof
    fix j
    assume "j \<in> dir_indices a d - {i}"
    then obtain n where "d n = Some False" "file_index a n = Some j" "j \<noteq> i" by (auto simp: dir_indices_def)
    moreover from this assms have "n \<noteq> name" by auto
    ultimately show "j \<in> dir_indices a (map_del d name)" by (auto simp: dir_indices_def)
  qed
  show "dir_indices a (map_del d name) \<subseteq> dir_indices a d" by (auto simp: dir_indices_def split: if_splits)
qed

lemma dir_indices_del_canonical:
  assumes "Allocator_wf a" "i < al_size a" "canonical_dir d"
  shows "dir_indices a (map_del d (IP_String (al_addr a i))) = dir_indices a d - {i}"
proof -
  let ?nm = "IP_String (al_addr a i)"
  have "i \<notin> dir_indices a (map_del d ?nm)"
    using file_index_canonical [OF assms(1,3)] by (auto simp: dir_indices_def split: if_splits)
  with dir_indices_del [OF file_index_addr [OF assms(1,2)], of d] show ?thesis by blast
qed

lemma dir_indices_upd: "al_upd a B a' \<Longrightarrow> dir_indices a' d = dir_indices a d"
  by (simp only: dir_indices_def file_index_def al_upd_derived)

lemma canonical_dir_add:
  assumes "Allocator_wf a" "i < al_size a" "canonical_dir d"
  shows "canonical_dir (d(IP_String (al_addr a i) \<mapsto> False))"
proof -
  have "IP_String (al_addr a i) = IP_String ip" if "ParseIP (IP_String (al_addr a i)) = Some ip" for ip
    using file_index_addr [OF assms(1,2)] that IP_String_block [OF wf_block [OF assms(1)], of ip i]
    by (simp add: file_index_def al_index_def al_addr_def)
  then show ?thesis using assms(3) by (simp add: canonical_dir_def)
qed

lemma canonical_dir_del: "canonical_dir d \<Longrightarrow> canonical_dir (map_del d n)"
  by (auto simp: canonical_dir_def split: if_splits)

section \<open>Invariants of runs\<close>

text \<open>Every allocated address that is not reserved has its file, so a restart cannot forget it; with a
  directory of canonical names and no failing call nothing else has one.\<close>

definition persisted :: "Allocator \<Rightarrow> StateDir \<Rightarrow> bool" where
  "persisted a d \<longleftrightarrow> al_bits a \<subseteq> al_reserved a \<union> dir_indices a d"

definition in_sync :: "Allocator \<Rightarrow> StateDir \<Rightarrow> bool" where
  "in_sync a d \<longleftrightarrow> canonical_dir d \<and> al_bits a = al_reserved a \<union> dir_indices a d"

lemma claims_upd: "Allocator_wf a \<Longrightarrow> claims w a d i ok a' d' \<Longrightarrow> \<exists>B. al_upd a B a'"
  using al_upd_refl by (auto simp: claims_def split: if_splits)

lemma alloc_step_upd:
  assumes "alloc_step faulty (a, d) (a', d')" "Allocator_wf a"
  shows "\<exists>B. al_upd a B a'"
  using alloc_step_effect [OF assms] claims_upd [OF assms(2)] al_upd_refl [OF assms(2)] by (auto simp: frees_def)

lemma saveIP_dir:
  assumes "file_index a (IP_String x) = Some i" "(d', ok) = saveIP w x d"
  shows "dir_indices a d \<subseteq> dir_indices a d'" "ok \<Longrightarrow> i \<in> dir_indices a d'"
    "w = WriteOK \<Longrightarrow> ok \<Longrightarrow> d (IP_String x) \<noteq> Some True \<and> d' = d(IP_String x \<mapsto> False)" "w = WriteOK \<Longrightarrow> \<not> ok \<Longrightarrow> d' = d"
  using assms dir_indices_add [OF assms(1), of d]
  by (auto simp: saveIP_def Let_def split: WriteOutcome.splits if_splits)

lemma claims_persisted:
  assumes wf: "Allocator_wf a" and p: "persisted a d" and c: "claims w a d i ok a' d'" and sd: "al_stateDir a \<noteq> []"
  shows "persisted a' d'"
proof -
  have i: "i < al_size a" and sv: "(d', ok) = saveIP w (al_addr a i) d"
    using c sd by (auto simp: claims_def)
  note s = saveIP_dir [OF file_index_addr [OF wf i] sv]
  show ?thesis
  proof (cases ok)
    case True
    then have u: "al_upd a (insert i (al_bits a)) a'" using c by (simp add: claims_def)
    from p s(1) s(2) [OF True] show ?thesis
      unfolding persisted_def al_upd_bits [OF u] dir_indices_upd [OF u] al_upd_derived [OF u] by blast
  next
    case False
    with c have "a' = a" by (simp add: claims_def)
    with p s(1) show ?thesis by (auto simp: persisted_def)
  qed
qed

lemma frees_persisted:
  assumes wf: "Allocator_wf a" and p: "persisted a d" and f: "frees rm a d i a' d'" and sd: "al_stateDir a \<noteq> []"
  shows "persisted a' d'"
proof -
  have i: "i < al_size a" and u: "al_upd a (al_bits a - {i}) a'" and d': "d' = removeIP rm (al_addr a i) d"
    using f sd wf by (auto simp: frees_def Allocator_wf_def)
  have "dir_indices a d - {i} \<subseteq> dir_indices a d'"
    using dir_indices_del(1) [OF file_index_addr [OF wf i], of d] by (auto simp: d' removeIP_def)
  with p show ?thesis
    unfolding persisted_def al_upd_bits [OF u] dir_indices_upd [OF u] al_upd_derived [OF u] by blast
qed

lemma claims_in_sync:
  assumes wf: "Allocator_wf a" and p: "in_sync a d" and c: "claims WriteOK a d i ok a' d'" and sd: "al_stateDir a \<noteq> []"
  shows "in_sync a' d'"
proof -
  have i: "i < al_size a" and sv: "(d', ok) = saveIP WriteOK (al_addr a i) d"
    using c sd by (auto simp: claims_def)
  note s = saveIP_dir [OF file_index_addr [OF wf i] sv]
  show ?thesis
  proof (cases ok)
    case True
    then have u: "al_upd a (insert i (al_bits a)) a'" using c by (simp add: claims_def)
    have d': "d' = d(IP_String (al_addr a i) \<mapsto> False)" "d (IP_String (al_addr a i)) \<noteq> Some True" using s(3) True by auto
    have "canonical_dir d'" using canonical_dir_add [OF wf i] p by (simp add: d' in_sync_def)
    moreover have "dir_indices a d' = insert i (dir_indices a d)"
      using dir_indices_add [OF file_index_addr [OF wf i], of d] d'(2) by (simp add: d'(1))
    ultimately show ?thesis using p
      unfolding in_sync_def al_upd_bits [OF u] dir_indices_upd [OF u] al_upd_derived [OF u] by simp
  next
    case False
    with c s(4) p show ?thesis by (simp add: claims_def)
  qed
qed

lemma frees_in_sync:
  assumes wf: "Allocator_wf a" and p: "in_sync a d" and f: "frees True a d i a' d'" and sd: "al_stateDir a \<noteq> []"
  shows "in_sync a' d'"
proof -
  have i: "i < al_size a" "i \<notin> al_reserved a" and u: "al_upd a (al_bits a - {i}) a'"
    and d': "d' = map_del d (IP_String (al_addr a i))"
    using f sd wf by (auto simp: frees_def Allocator_wf_def removeIP_def)
  have can: "canonical_dir d" using p by (simp add: in_sync_def)
  have "canonical_dir d'" "dir_indices a d' = dir_indices a d - {i}"
    using canonical_dir_del [OF can] dir_indices_del_canonical [OF wf i(1) can] by (simp_all add: d')
  with p i(2) show ?thesis
    unfolding in_sync_def al_upd_bits [OF u] dir_indices_upd [OF u] al_upd_derived [OF u] by auto
qed

lemma alloc_step_persisted:
  assumes "alloc_step faulty (a, d) (a', d')" "Allocator_wf a" "persisted a d" "al_stateDir a \<noteq> []"
  shows "persisted a' d'"
  using alloc_step_effect [OF assms(1,2)] claims_persisted [OF assms(2,3)] frees_persisted [OF assms(2,3)] assms(3,4)
  by blast

lemma alloc_step_in_sync:
  assumes "alloc_step False (a, d) (a', d')" "Allocator_wf a" "in_sync a d" "al_stateDir a \<noteq> []"
  shows "in_sync a' d'"
  using alloc_step_effect [OF assms(1,2)] claims_in_sync [OF assms(2,3)] frees_in_sync [OF assms(2,3)] assms(3,4)
  by auto

abbreviation alloc_run :: "bool \<Rightarrow> Allocator \<times> StateDir \<Rightarrow> Allocator \<times> StateDir \<Rightarrow> bool" where
  "alloc_run faulty \<equiv> (alloc_step faulty)\<^sup>*\<^sup>*"

lemma alloc_run_upd:
  assumes "alloc_run faulty (a, d) (a', d')" "Allocator_wf a"
  shows "\<exists>B. al_upd a B a'"
  using assms
proof (induction "(a', d')" arbitrary: a' d' rule: rtranclp_induct)
  case base
  then show ?case using al_upd_refl by blast
next
  case (step y)
  obtain a1 d1 where y: "y = (a1, d1)" by (cases y)
  with step obtain B where B: "al_upd a B a1" by blast
  from alloc_step_upd [OF step(2) [unfolded y] al_upd_wf [OF B]] obtain C where "al_upd a1 C a'" by blast
  with al_upd_trans [OF B] show ?case by blast
qed

lemma alloc_run_keeps:
  assumes run: "alloc_run faulty (a, d) (a', d')" and wf: "Allocator_wf a" and sd: "al_stateDir a \<noteq> []"
    and P: "P a d"
    and step: "\<And>b e b' e'. alloc_step faulty (b, e) (b', e') \<Longrightarrow> Allocator_wf b \<Longrightarrow> al_stateDir b \<noteq> [] \<Longrightarrow> P b e \<Longrightarrow> P b' e'"
  shows "P a' d'"
  using run
proof (induction "(a', d')" arbitrary: a' d' rule: rtranclp_induct)
  case base
  then show ?case using P by simp
next
  case (step y)
  obtain a1 d1 where y: "y = (a1, d1)" by (cases y)
  with step have run1: "alloc_run faulty (a, d) (a1, d1)" and P1: "P a1 d1" by auto
  obtain B where B: "al_upd a B a1" using alloc_run_upd [OF run1 wf] by blast
  from assms(5) [OF step(2) [unfolded y] al_upd_wf [OF B] _ P1] sd show ?case
    by (simp add: al_upd_const [OF B])
qed

section \<open>Construction followed by a run\<close>

lemma NewAllocator_load:
  assumes new: "NewAllocatorWithStateDir cidr sd True (Some es) = Inr a" and sd: "sd \<noteq> []"
  shows "\<exists>net b. ParseCIDR cidr = Some net \<and> newAllocatorBase (snd net) sd = Inr b \<and> Allocator_wf b \<and>
    al_bits b = al_reserved b \<and> al_stateDir b = sd \<and> al_upd b (al_bits b \<union> entry_indices b es) a"
proof -
  obtain ip n b where n: "ParseCIDR cidr = Some (ip, n)" "newAllocatorBase n sd = Inr b" "loadState (Some es) b = Inr a"
    using new sd by (auto simp: NewAllocatorWithStateDir_def split: option.splits sum.splits)
  obtain L ones where "prefix_net L ones n" using ParseCIDR_prefix_net [OF n(1)] by blast
  note b = newAllocatorBase_wf [OF this n(2)]
  from loadState_entries_upd [OF b(1), of es] n(3) have "al_upd b (al_bits b \<union> entry_indices b es) a"
    by (auto simp: loadState_def)
  with n b show ?thesis by (intro exI [of _ "(ip, n)"] exI [of _ b]) simp
qed

lemma NewAllocator_reload:
  assumes "ParseCIDR cidr = Some net" "newAllocatorBase (snd net) sd = Inr b" "Allocator_wf b" "sd \<noteq> []"
  shows "\<exists>a. NewAllocatorWithStateDir cidr sd True (Some es) = Inr a \<and> al_upd b (al_bits b \<union> entry_indices b es) a"
  using loadState_entries_upd [OF assms(3), of es] assms
  by (cases net) (auto simp: NewAllocatorWithStateDir_def loadState_def)

text \<open>What a restart finds: the allocator that the run left, up to the recorded indices.\<close>

lemma restart_upd:
  assumes new: "NewAllocatorWithStateDir cidr sd True (Some es0) = Inr a0" and sd: "sd \<noteq> []"
    and run: "alloc_run faulty (a0, d0) (a, d)" and l0: "dir_listing es0 d0" and l: "dir_listing es d"
  shows "\<exists>b a'. Allocator_wf a0 \<and> al_stateDir a0 = sd \<and> al_bits a0 = al_reserved a0 \<union> dir_indices a0 d0 \<and>
    al_upd b (al_bits a) a \<and> NewAllocatorWithStateDir cidr sd True (Some es) = Inr a' \<and>
    al_upd b (al_reserved a \<union> dir_indices a d) a'"
proof -
  obtain net b where b: "ParseCIDR cidr = Some net" "newAllocatorBase (snd net) sd = Inr b" "Allocator_wf b"
      "al_bits b = al_reserved b" "al_stateDir b = sd" "al_upd b (al_bits b \<union> entry_indices b es0) a0"
    using NewAllocator_load [OF new sd] by blast
  obtain B where "al_upd a0 B a" using alloc_run_upd [OF run al_upd_wf [OF b(6)]] by blast
  with b(6) have u: "al_upd b (al_bits a) a" using al_upd_trans al_upd_bits by blast
  obtain a' where a': "NewAllocatorWithStateDir cidr sd True (Some es) = Inr a'" "al_upd b (al_bits b \<union> entry_indices b es) a'"
    using NewAllocator_reload [OF b(1,2,3) sd] by blast
  have "al_bits a0 = al_reserved a0 \<union> dir_indices a0 d0"
    using b(4) al_upd_bits [OF b(6)] dir_indices_upd [OF b(6)] al_upd_derived [OF b(6)] dir_listing_indices [OF l0] by simp
  moreover have "al_bits b \<union> entry_indices b es = al_reserved a \<union> dir_indices a d"
    using b(4) dir_indices_upd [OF u] al_upd_derived [OF u] dir_listing_indices [OF l] by simp
  ultimately show ?thesis
    using u a' al_upd_wf [OF b(6)] al_upd_const [OF b(6)] b(5) by auto
qed

definition ex_alloc :: Allocator where
  "ex_alloc = \<lparr>al_network = \<lparr>net_IP = [10, 0, 0, 0], net_Mask = [255, 255, 255, 252]\<rparr>, al_baseIP = [10, 0, 0, 0],
     al_size = 4, al_bitmap = \<lparr>bm_words = [11], bm_size = 4\<rparr>, al_used = 3, al_prefixLen = 30, al_ipLen = 4,
     al_isIPv4 = True, al_stateDir = ''ipam''\<rparr>"

definition ex_alloc_full :: Allocator where
  "ex_alloc_full = ex_alloc\<lparr>al_bitmap := \<lparr>bm_words = [15], bm_size = 4\<rparr>, al_used := 4\<rparr>"

lemma ex_ParseCIDR: "ParseCIDR ''10.0.0.0/30'' =
    Some ([0, 0, 0, 0, 0, 0, 0, 0, 0, 0, 255, 255, 10, 0, 0, 0], \<lparr>net_IP = [10, 0, 0, 0], net_Mask = [255, 255, 255, 252]\<rparr>)"
  by (simp add: ParseCIDR_def ParseAddr_def dec_val_def CIDRMask_def IP_Mask_def and_bytes_def v4InV6Prefix_def upt_rec Let_def)

lemma ex_mask: "Mask_Size [255, 255, 255, 252 :: u8] = (30, 32)"
  by (simp add: Mask_Size_def leading_ones_def upt_rec)

lemma ex_new: "newAllocatorBase \<lparr>net_IP = [10, 0, 0, 0], net_Mask = [255, 255, 255, 252]\<rparr> ''ipam'' = Inr ex_alloc"
  by (simp add: newAllocatorBase_def ex_mask ex_alloc_def Let_def NewBitmap_def Bitmap_Set_def bit64_def IP_To4_def)

lemma ex_NewAllocator: "NewAllocatorWithStateDir ''10.0.0.0/30'' ''ipam'' True (Some []) = Inr ex_alloc"
  by (simp add: NewAllocatorWithStateDir_def ex_ParseCIDR ex_new loadState_def)

lemma ex_Allocate:
  "Allocator_Allocate WriteOK ex_alloc Map.empty = (Inr [10, 0, 0, 2], ex_alloc_full, [''10.0.0.2'' \<mapsto> False])"
  by (simp add: Allocator_Allocate_def ex_alloc_def ex_alloc_full_def Bitmap_FindFree_def FindFree_bits.simps
      Bitmap_Set_def bit64_def allocatorIndexToIP_def indexToIP_def be_nat_def saveIP_def IP_String_def IP_To4_def
      string4_def dec_str_def base_str.simps digit_char_def char_of_def bit_0 big_Bytes.simps Let_def)

lemma ex_run: "alloc_run faulty (ex_alloc, Map.empty) (ex_alloc_full, [''10.0.0.2'' \<mapsto> False])"
  using step_Allocate [OF ex_Allocate] by blast

lemma Allocate_success:
  assumes wf: "Allocator_wf a" and op: "Allocator_Allocate w a d = (Inr ip, a', d')"
  shows "\<exists>i. i < al_size a \<and> i \<notin> al_bits a \<and> ip = al_addr a i \<and> al_upd a (insert i (al_bits a)) a'"
proof -
  have "al_bits a \<noteq> {..<al_size a}" using op Allocate_full [OF wf, of w d] by auto
  then obtain i ok b e where i: "claims w a d i ok b e"
      "Allocator_Allocate w a d = (if ok then Inr (al_addr a i) else Inl ErrPersist, b, e)"
    using Allocate_not_full [OF wf, of w d] by blast
  then have "ok" "ip = al_addr a i" "b = a'" using op by (simp_all split: if_splits)
  with i(1) show ?thesis by (auto simp: claims_def)
qed

lemma NewAllocator_wf:
  assumes "NewAllocatorWithStateDir cidr sd mk es = Inr a"
  shows "Allocator_wf a"
proof (cases "sd = []")
  case True
  with assms obtain ip n where n: "ParseCIDR cidr = Some (ip, n)" "newAllocatorBase n sd = Inr a"
    by (auto simp: NewAllocatorWithStateDir_def split: option.splits sum.splits)
  with ParseCIDR_prefix_net [OF n(1)] newAllocatorBase_wf(1) show ?thesis by blast
next
  case False
  with assms obtain l where "mk" "es = Some l"
    by (auto simp: NewAllocatorWithStateDir_def loadState_def split: option.splits sum.splits if_splits)
  with assms have "NewAllocatorWithStateDir cidr sd True (Some l) = Inr a" by simp
  from NewAllocator_load [OF this False] al_upd_wf show ?thesis by blast
qed

lemma ex_wf: "Allocator_wf ex_alloc"
  by (rule NewAllocator_wf [OF ex_NewAllocator])

lemma Available_card:
  assumes "Allocator_wf a"
  shows "Allocator_Available a = int (card ({..<al_size a} - al_bits a))"
proof -
  have sub: "al_bits a \<subseteq> {..<al_size a}" using assms by (simp add: Allocator_wf_def)
  then have "card ({..<al_size a} - al_bits a) = al_size a - card (al_bits a)"
    using card_Diff_subset [OF Allocator_wf_bits(1) [OF assms] sub] by simp
  then show ?thesis
    using assms Allocator_wf_bits(2) [OF assms] by (simp add: Allocator_Available_def Allocator_wf_def of_nat_diff)
qed

lemma Available_0_iff: "Allocator_wf a \<Longrightarrow> Allocator_Available a = 0 \<longleftrightarrow> al_bits a = {..<al_size a}"
  by (auto simp: Available_card Allocator_wf_def)

section \<open>Properties\<close>

text \<open>
  (C8) A restart is lossless: when an allocator with a state directory has run any sequence of operations
  and no file system call failed, constructing the allocator again from the listing of the directory
  gives back exactly the same allocator. The directory the first allocator started from may hold
  anything as long as files whose names are addresses have the printed form of that address.
\<close>

theorem allocator_restart_exact:
  assumes "NewAllocatorWithStateDir cidr sd True (Some es0) = Inr a0" and "sd \<noteq> []"
    and "dir_listing es0 d0" and "canonical_dir d0"
    and "alloc_run False (a0, d0) (a, d)" and "dir_listing es d"
  shows "NewAllocatorWithStateDir cidr sd True (Some es) = Inr a"
proof -
  obtain b a' where b: "Allocator_wf a0" "al_stateDir a0 = sd" "al_bits a0 = al_reserved a0 \<union> dir_indices a0 d0"
      "al_upd b (al_bits a) a" "NewAllocatorWithStateDir cidr sd True (Some es) = Inr a'"
      "al_upd b (al_reserved a \<union> dir_indices a d) a'"
    using restart_upd [OF assms(1,2,5,3,6)] by blast
  have "in_sync a0 d0" using b(3) assms(4) by (simp add: in_sync_def)
  then have "in_sync a d"
    using alloc_run_keeps [OF assms(5) b(1), of in_sync] alloc_step_in_sync assms(2) b(2) by blast
  then have "al_upd b (al_bits a) a'" using b(6) by (simp add: in_sync_def)
  with al_upd_unique [OF b(4)] b(5) show ?thesis by blast
qed

theorem allocator_restart_exact_witness:
  "NewAllocatorWithStateDir ''10.0.0.0/30'' ''ipam'' True (Some [(''10.0.0.2'', False)]) = Inr ex_alloc_full"
proof (rule allocator_restart_exact [OF ex_NewAllocator _ _ _ ex_run])
  show "canonical_dir Map.empty" by (simp add: canonical_dir_def)
qed (auto simp: dir_listing_def)

text \<open>
  (C18) A restart is safe whatever fails: after any run, with any pattern of failing writes and removals,
  the restarted allocator still has every address allocated that was allocated before, so the next
  \<open>Allocate\<close> cannot hand out an address that is in use.
\<close>

theorem allocator_restart_safe:
  assumes "NewAllocatorWithStateDir cidr sd True (Some es0) = Inr a0" and "sd \<noteq> []"
    and "dir_listing es0 d0" and "alloc_run True (a0, d0) (a, d)" and "dir_listing es d"
  shows "\<exists>a'. NewAllocatorWithStateDir cidr sd True (Some es) = Inr a' \<and> al_bits a \<subseteq> al_bits a' \<and>
    (\<forall>w ip a'' d''. Allocator_Allocate w a' d = (Inr ip, a'', d'') \<longrightarrow>
       (\<exists>i. al_index a ip = Some i \<and> i \<notin> al_bits a))"
proof -
  obtain b a' where b: "Allocator_wf a0" "al_stateDir a0 = sd" "al_bits a0 = al_reserved a0 \<union> dir_indices a0 d0"
      "al_upd b (al_bits a) a" "NewAllocatorWithStateDir cidr sd True (Some es) = Inr a'"
      "al_upd b (al_reserved a \<union> dir_indices a d) a'"
    using restart_upd [OF assms(1,2,4,3,5)] by blast
  have "persisted a0 d0" using b(3) by (simp add: persisted_def)
  then have "persisted a d"
    using alloc_run_keeps [OF assms(4) b(1), of persisted] alloc_step_persisted assms(2) b(2) by blast
  then have sub: "al_bits a \<subseteq> al_bits a'" using al_upd_bits [OF b(6)] by (simp add: persisted_def)
  have wf: "Allocator_wf a'" and ix: "al_index a' = al_index a" "al_addr a' = al_addr a"
    using al_upd_wf [OF b(6)] al_upd_derived [OF b(4)] al_upd_derived [OF b(6)] by simp_all
  have "\<exists>i. al_index a ip = Some i \<and> i \<notin> al_bits a"
    if "Allocator_Allocate w a' d = (Inr ip, a'', d'')" for w ip a'' d''
  proof -
    from Allocate_success [OF wf that]
    obtain i where i: "i < al_size a'" "i \<notin> al_bits a'" "ip = al_addr a' i" by blast
    with al_index_addr [OF wf i(1)] sub ix show ?thesis by auto
  qed
  with sub b(5) show ?thesis by blast
qed

theorem allocator_restart_safe_witness:
  "\<exists>a'. NewAllocatorWithStateDir ''10.0.0.0/30'' ''ipam'' True (Some [(''10.0.0.2'', False)]) = Inr a' \<and>
     al_bits ex_alloc_full \<subseteq> al_bits a'"
  using allocator_restart_safe [OF ex_NewAllocator _ _ ex_run, of "[(''10.0.0.2'', False)]"]
  by (auto simp: dir_listing_def)

text \<open>
  (C25) \<open>Allocate\<close> on a well-formed allocator: it fails with \<open>ErrNoFreeAddresses\<close> and changes nothing
  exactly when no address is available; otherwise it claims the address of the least free index. When
  the state file cannot be written the error is returned and the allocator is exactly as before.
\<close>

theorem allocator_allocate:
  assumes "Allocator_wf a"
  shows "if Allocator_Available a = 0 then Allocator_Allocate w a d = (Inl ErrNoFreeAddresses, a, d)
    else \<exists>i ok a' d'. i < al_size a \<and> i \<notin> al_bits a \<and> {..<i} \<subseteq> al_bits a \<and>
      Allocator_Allocate w a d = (if ok then Inr (al_addr a i) else Inl ErrPersist, a', d') \<and>
      (if al_stateDir a = [] then ok \<and> d' = d else saveIP w (al_addr a i) d = (d', ok)) \<and>
      (if ok then Allocator_wf a' \<and> al_bits a' = insert i (al_bits a) \<and>
            Allocator_Used a' = Allocator_Used a + 1 \<and> al_index a' (al_addr a i) = Some i
       else a' = a)"
proof (cases "al_bits a = {..<al_size a}")
  case True
  with Allocate_full [OF assms] Available_0_iff [OF assms] show ?thesis by simp
next
  case False
  then obtain i ok a' d' where c: "claims w a d i ok a' d'" "{..<i} \<subseteq> al_bits a"
      "Allocator_Allocate w a d = (if ok then Inr (al_addr a i) else Inl ErrPersist, a', d')"
    using Allocate_not_full [OF assms, of w d] by blast
  have i: "i < al_size a" "i \<notin> al_bits a" using c(1) by (auto simp: claims_def)
  have "Allocator_wf a' \<and> al_bits a' = insert i (al_bits a) \<and> Allocator_Used a' = Allocator_Used a + 1 \<and>
      al_index a' (al_addr a i) = Some i" if ok
  proof -
    have u: "al_upd a (insert i (al_bits a)) a'" using c(1) that by (simp add: claims_def)
    moreover have "Allocator_Used a' = Allocator_Used a + 1"
      using al_upd_wf [OF u] al_upd_bits [OF u] assms i(2) Allocator_wf_bits(1) [OF assms]
      by (simp add: Allocator_Used_def Allocator_wf_def)
    ultimately show ?thesis
      using al_upd_wf al_upd_bits al_upd_derived [OF u] al_index_addr [OF assms i(1)] by simp
  qed
  with c i Available_0_iff [OF assms] False show ?thesis by (auto simp: claims_def split: if_splits)
qed

theorem allocator_allocate_witness:
  "\<exists>i ok a' d'. i < 4 \<and> Allocator_Allocate (WriteErr True) ex_alloc Map.empty =
     (if ok then Inr (al_addr ex_alloc i) else Inl ErrPersist, a', d') \<and> (\<not> ok \<longrightarrow> a' = ex_alloc)"
  using allocator_allocate [OF ex_wf, of "WriteErr True" Map.empty]
  by (auto simp: ex_alloc_def Allocator_Available_def split: if_splits)

text \<open>
  \<open>AllocateSpecific\<close> on a well-formed allocator, on every branch: an address outside the network,
  an address already taken, and a free address, which becomes allocated unless its file cannot be
  written, in which case the allocator is as before. IPv4 addresses in their four and sixteen byte
  forms are the same address.
\<close>

theorem allocator_allocate_specific:
  assumes "Allocator_wf a"
  shows "case al_index a ip of
      None \<Rightarrow> Allocator_AllocateSpecific w ip a d = (Some ErrIPOutsideCIDR, a, d)
    | Some i \<Rightarrow>
        if i \<in> al_bits a then Allocator_AllocateSpecific w ip a d = (Some ErrIPAlreadyAlloc, a, d)
        else \<exists>ok a' d'. Allocator_AllocateSpecific w ip a d = (if ok then None else Some ErrPersist, a', d') \<and>
          (if al_stateDir a = [] then ok \<and> d' = d else saveIP w (al_addr a i) d = (d', ok)) \<and>
          (if ok then Allocator_wf a' \<and> al_bits a' = insert i (al_bits a) else a' = a)"
proof (cases "al_index a ip")
  case None
  with AllocateSpecific_outside [OF assms] show ?thesis by simp
next
  case (Some i)
  show ?thesis
  proof (cases "i \<in> al_bits a")
    case True
    with Some AllocateSpecific_taken [OF assms Some] show ?thesis by simp
  next
    case False
    obtain ok a' d' where c: "claims w a d i ok a' d'"
        "Allocator_AllocateSpecific w ip a d = (if ok then None else Some ErrPersist, a', d')"
      using AllocateSpecific_free [OF assms Some False, of w d] by blast
    then have "if al_stateDir a = [] then ok \<and> d' = d else saveIP w (al_addr a i) d = (d', ok)"
        "if ok then Allocator_wf a' \<and> al_bits a' = insert i (al_bits a) else a' = a"
      by (auto simp: claims_def al_upd_wf al_upd_bits split: if_splits)
    with Some False c(2) show ?thesis by auto
  qed
qed

theorem allocator_allocate_specific_witness:
  "Allocator_AllocateSpecific WriteOK [10, 0, 1, 0] ex_alloc Map.empty = (Some ErrIPOutsideCIDR, ex_alloc, Map.empty)"
proof -
  have "al_index ex_alloc [10, 0, 1, 0] = None"
    by (simp add: al_index_def block_index_def IP_num_def IP_To4_def be_nat_def ex_alloc_def)
  with allocator_allocate_specific [OF ex_wf, where ip = "[10, 0, 1, 0]"] show ?thesis by simp
qed

text \<open>
  (C26) \<open>Release\<close> on a well-formed allocator, on every branch: addresses outside the network, the
  reserved network, gateway and broadcast addresses, addresses that are not allocated, and allocated
  addresses, which become free again. A reserved address is never freed.
\<close>

theorem allocator_release:
  assumes "Allocator_wf a"
  shows "case al_index a ip of
      None \<Rightarrow> Allocator_Release rm ip a d = (Some ErrIPOutsideCIDR, a, d)
    | Some i \<Rightarrow>
        if i \<in> al_reserved a then
          Allocator_Release rm ip a d =
            (Some (if i = 0 then ErrReleaseNetwork else if i = 1 then ErrReleaseGateway else ErrReleaseBroadcast), a, d)
        else if i \<notin> al_bits a then Allocator_Release rm ip a d = (Some ErrIPNotAllocated, a, d)
        else \<exists>a'. Allocator_Release rm ip a d =
            (None, a', if al_stateDir a = [] then d else removeIP rm (al_addr a i) d) \<and>
          Allocator_wf a' \<and> al_bits a' = al_bits a - {i} \<and> Allocator_Used a' = Allocator_Used a - 1"
proof (cases "al_index a ip")
  case None
  with Release_outside [OF assms] show ?thesis by simp
next
  case (Some i)
  have "\<exists>a'. Allocator_Release rm ip a d = (None, a', if al_stateDir a = [] then d else removeIP rm (al_addr a i) d) \<and>
      Allocator_wf a' \<and> al_bits a' = al_bits a - {i} \<and> Allocator_Used a' = Allocator_Used a - 1"
    if i: "i \<in> al_bits a" "i \<notin> al_reserved a"
  proof -
    obtain a' where a': "Allocator_Release rm ip a d = (None, a', if al_stateDir a = [] then d else removeIP rm (al_addr a i) d)"
        "al_upd a (al_bits a - {i}) a'"
      using Release_allocated [OF assms Some i] by blast
    have "card (al_bits a) = Suc (card (al_bits a - {i}))"
      using i(1) Allocator_wf_bits(1) [OF assms] by (metis card_Suc_Diff1)
    then have "Allocator_Used a' = Allocator_Used a - 1"
      using al_upd_wf [OF a'(2)] al_upd_bits [OF a'(2)] assms by (simp add: Allocator_Used_def Allocator_wf_def)
    with a' al_upd_wf al_upd_bits show ?thesis by blast
  qed
  with Some Release_reserved [OF assms Some] Release_free [OF assms Some] show ?thesis by auto
qed

theorem allocator_release_witness:
  "Allocator_Release True [10, 0, 0, 1] ex_alloc Map.empty = (Some ErrReleaseGateway, ex_alloc, Map.empty)"
proof -
  have "al_index ex_alloc [10, 0, 0, 1] = Some 1"
    by (simp add: al_index_def block_index_def IP_num_def IP_To4_def be_nat_def ex_alloc_def)
  moreover have "1 \<in> al_reserved ex_alloc" by (simp add: al_reserved_def ex_alloc_def)
  ultimately show ?thesis using allocator_release [OF ex_wf, where ip = "[10, 0, 0, 1]"] by simp
qed

text \<open>
  (C27) The allocator never panics: in every state that construction and any run of operations can
  reach, with any failing file system calls, no operation indexes the bitmap or an address out of
  range, the used counter is the number of allocated addresses and the available count the number of
  free ones.
\<close>

theorem allocator_no_panic:
  assumes "NewAllocatorWithStateDir cidr sd mk es = Inr a0" and "alloc_run True (a0, d0) (a, d)"
  shows "Allocator_wf a \<and> fst (Allocator_Allocate w a d) \<noteq> Inl RuntimePanic \<and>
    fst (Allocator_AllocateSpecific w ip a d) \<noteq> Some RuntimePanic \<and>
    fst (Allocator_Release rm ip a d) \<noteq> Some RuntimePanic \<and>
    Allocator_Gateway a = Some (al_addr a 1) \<and> Allocator_Used a = int (card (al_bits a)) \<and>
    Allocator_Available a = int (card ({..<al_size a} - al_bits a))"
proof -
  have wf: "Allocator_wf a"
    using alloc_run_upd [OF assms(2) NewAllocator_wf [OF assms(1)]] al_upd_wf by blast
  have "fst (Allocator_Allocate w a d) \<noteq> Inl RuntimePanic"
  proof (cases "al_bits a = {..<al_size a}")
    case True
    with Allocate_full [OF wf, of w d] show ?thesis by simp
  next
    case False
    with Allocate_not_full [OF wf, of w d] show ?thesis by (auto split: if_splits)
  qed
  moreover have "fst (Allocator_AllocateSpecific w ip a d) \<noteq> Some RuntimePanic \<and> fst (Allocator_Release rm ip a d) \<noteq> Some RuntimePanic"
  proof (cases "al_index a ip")
    case None
    with AllocateSpecific_outside [OF wf, of ip w d] Release_outside [OF wf, of ip rm d] show ?thesis by simp
  next
    case (Some i)
    have "fst (Allocator_AllocateSpecific w ip a d) \<noteq> Some RuntimePanic"
      using AllocateSpecific_taken [OF wf Some, of w d] AllocateSpecific_free [OF wf Some, of w d]
      by (cases "i \<in> al_bits a") (auto split: if_splits)
    moreover have "fst (Allocator_Release rm ip a d) \<noteq> Some RuntimePanic"
      using Release_reserved [OF wf Some, of rm d] Release_free [OF wf Some, of rm d]
        Release_allocated [OF wf Some, of rm d] by (cases "i \<in> al_reserved a"; cases "i \<in> al_bits a") auto
    ultimately show ?thesis by simp
  qed
  moreover have "Allocator_Gateway a = Some (al_addr a 1)"
    using indexToIP_block [OF wf_block [OF wf], of 1] wf
    by (simp add: Allocator_Gateway_def allocatorIndexToIP_def al_addr_def Allocator_wf_def split: if_splits)
  ultimately show ?thesis
    using wf Available_card [OF wf] by (simp add: Allocator_Used_def Allocator_wf_def)
qed

theorem allocator_no_panic_witness:
  "Allocator_Gateway ex_alloc_full = Some (al_addr ex_alloc_full 1) \<and> Allocator_Available ex_alloc_full = 0"
  using allocator_no_panic [OF ex_NewAllocator ex_run] by (simp add: Allocator_Available_def ex_alloc_full_def ex_alloc_def)

end
