(* ===== verification/IPAM_Pool.thy ===== *)
theory IPAM_Pool
  imports IPAM_Allocator
begin

text \<open>
  IP pools, \<open>internal/ipam/pool.go\<close> and \<open>internal/ipam/types.go\<close>: a pool hands out addresses of CIDR
  ranges, each with a bitmap, and of a set of discrete addresses, and records every allocation under
  the printed address. \<open>time.Now()\<close> is an argument of the operations that call it and the order in
  which \<open>Allocate\<close> ranges over the map of discrete addresses is an argument too.

  The locale \<open>address_pool\<close> is what the pool promises its clients in terms of the names it owns and
  the allocations it has recorded; it is interpreted on the model of the Go code for pools whose
  sources do not overlap. For overlapping sources the promise is broken, which is shown as well.
\<close>

section \<open>Types\<close>

type_synonym PoolType = string

definition PoolTypeLoadBalancerVIP :: PoolType where "PoolTypeLoadBalancerVIP = ''LoadBalancerVIP''"
definition PoolTypeIngressIP :: PoolType where "PoolTypeIngressIP = ''IngressIP''"
definition PoolTypePodCIDR :: PoolType where "PoolTypePodCIDR = ''PodCIDR''"
definition PoolTypeServiceClusterIP :: PoolType where "PoolTypeServiceClusterIP = ''ServiceClusterIP''"
definition PoolTypeCustom :: PoolType where "PoolTypeCustom = ''Custom''"

record PoolConfig =
  pc_Name :: string
  pc_Type :: PoolType
  pc_CIDRs :: "string list"
  pc_Addresses :: "string list"
  pc_AutoAssign :: bool
  pc_Owner :: string

record AllocationInfo =
  ai_IP :: IP
  ai_Owner :: string
  ai_Resource :: string
  ai_Timestamp :: int

record PoolStatus =
  ps_Name :: string
  ps_Type :: PoolType
  ps_Allocated :: int
  ps_Total :: int
  ps_Available :: int
  ps_Allocations :: "AllocationInfo list"

record cidrRange =
  cr_network :: IPNet
  cr_baseIP :: IP
  cr_size :: nat
  cr_bitmap :: Bitmap
  cr_prefixLen :: nat
  cr_ipLen :: nat

record Pool =
  p_name :: string
  p_poolType :: PoolType
  p_autoAssign :: bool
  p_owner :: string
  p_ranges :: "cidrRange list"
  p_discreteAddrs :: "string \<rightharpoonup> bool"
  p_allocations :: "string \<rightharpoonup> AllocationInfo"

section \<open>Construction\<close>

definition parseCIDRRange :: "string \<Rightarrow> IpamError + cidrRange" where
  "parseCIDRRange cidr =
     (case ParseCIDR cidr of
        None \<Rightarrow> Inl ErrParseCIDR
      | Some (_, network) \<Rightarrow>
          let (ones, nbits) = Mask_Size (net_Mask network);
              hostBits = nbits - ones
          in if 20 < hostBits then Inl ErrCIDRTooLarge
             else
               let sz = 2 ^ hostBits;
                   baseIP = (case (if nbits = 128 then IP_To16 (net_IP network) else IP_To4 (net_IP network)) of
                               Some ip \<Rightarrow> ip | None \<Rightarrow> []);
                   ipLen = (if nbits = 128 then 16 else 4)
               in Inr \<lparr>cr_network = network, cr_baseIP = baseIP, cr_size = sz, cr_bitmap = NewBitmap sz,
                       cr_prefixLen = ones, cr_ipLen = ipLen\<rparr>)"

fun parse_ranges :: "string list \<Rightarrow> IpamError + cidrRange list" where
  "parse_ranges [] = Inr []"
| "parse_ranges (c # cs) =
     (case parseCIDRRange c of
        Inl e \<Rightarrow> Inl e
      | Inr cr \<Rightarrow> (case parse_ranges cs of Inl e \<Rightarrow> Inl e | Inr crs \<Rightarrow> Inr (cr # crs)))"

fun parse_addresses :: "string list \<Rightarrow> (string \<rightharpoonup> bool) \<Rightarrow> IpamError + (string \<rightharpoonup> bool)" where
  "parse_addresses [] m = Inr m"
| "parse_addresses (addr # as) m =
     (case ParseIP addr of
        None \<Rightarrow> Inl ErrInvalidIPAddress
      | Some ip \<Rightarrow> parse_addresses as (m(IP_String ip \<mapsto> False)))"

definition NewPool :: "PoolConfig \<Rightarrow> IpamError + Pool" where
  "NewPool cfg =
     (case parse_ranges (pc_CIDRs cfg) of
        Inl e \<Rightarrow> Inl e
      | Inr crs \<Rightarrow>
          (case parse_addresses (pc_Addresses cfg) Map.empty of
             Inl e \<Rightarrow> Inl e
           | Inr m \<Rightarrow>
               Inr \<lparr>p_name = pc_Name cfg, p_poolType = pc_Type cfg, p_autoAssign = pc_AutoAssign cfg,
                    p_owner = pc_Owner cfg, p_ranges = crs, p_discreteAddrs = m, p_allocations = Map.empty\<rparr>))"

section \<open>Operations\<close>

text \<open>The loop over the ranges in \<open>Allocate\<close>: \<^const>\<open>None\<close> is a panic, \<open>Some None\<close> that no range has a
  free address.\<close>

fun Allocate_ranges :: "cidrRange list \<Rightarrow> (IP \<times> cidrRange list) option option" where
  "Allocate_ranges [] = Some None"
| "Allocate_ranges (cr # crs) =
     (let idx = Bitmap_FindFree (cr_bitmap cr)
      in if idx < 0 then map_option (map_option (\<lambda>(ip, crs'). (ip, cr # crs'))) (Allocate_ranges crs)
         else (case Bitmap_Set (cr_bitmap cr) (nat idx) of
                 None \<Rightarrow> None
               | Some bm \<Rightarrow>
                   (case indexToIP (cr_baseIP cr) idx (cr_ipLen cr) of
                      None \<Rightarrow> None
                    | Some ip \<Rightarrow> Some (Some (ip, cr\<lparr>cr_bitmap := bm\<rparr> # crs)))))"

fun first_unallocated :: "string list \<Rightarrow> (string \<rightharpoonup> bool) \<Rightarrow> string option" where
  "first_unallocated [] m = None"
| "first_unallocated (addr # as) m = (if m addr = Some False then Some addr else first_unallocated as m)"

definition Pool_Allocate ::
    "string list \<Rightarrow> int \<Rightarrow> string \<Rightarrow> string \<Rightarrow> Pool \<Rightarrow> (IpamError + IP) \<times> Pool" where
  "Pool_Allocate ks now owner resource p =
     (case Allocate_ranges (p_ranges p) of
        None \<Rightarrow> (Inl RuntimePanic, p)
      | Some (Some (ip, crs)) \<Rightarrow>
          (Inr ip, p\<lparr>p_ranges := crs, p_allocations := (p_allocations p)(IP_String ip \<mapsto>
             \<lparr>ai_IP = ip, ai_Owner = owner, ai_Resource = resource, ai_Timestamp = now\<rparr>)\<rparr>)
      | Some None \<Rightarrow>
          (case first_unallocated ks (p_discreteAddrs p) of
             Some addr \<Rightarrow>
               let ip = (case ParseIP addr of Some ip \<Rightarrow> ip | None \<Rightarrow> [])
               in (Inr ip, p\<lparr>p_discreteAddrs := (p_discreteAddrs p)(addr \<mapsto> True),
                    p_allocations := (p_allocations p)(addr \<mapsto>
                      \<lparr>ai_IP = ip, ai_Owner = owner, ai_Resource = resource, ai_Timestamp = now\<rparr>)\<rparr>)
           | None \<Rightarrow> (Inl ErrNoFreeAddresses, p)))"

fun AllocateSpecific_ranges :: "IP \<Rightarrow> cidrRange list \<Rightarrow> IpamError + cidrRange list" where
  "AllocateSpecific_ranges ip [] = Inl ErrIPOutsideCIDR"
| "AllocateSpecific_ranges ip (cr # crs) =
     (if \<not> IPNet_Contains (cr_network cr) ip then
        (case AllocateSpecific_ranges ip crs of Inl e \<Rightarrow> Inl e | Inr crs' \<Rightarrow> Inr (cr # crs'))
      else
        let idx = ipToIndex (cr_baseIP cr) ip (cr_ipLen cr)
        in if idx < 0 \<or> int (cr_size cr) \<le> idx then Inl ErrIPOutOfRange
           else (case Bitmap_Get (cr_bitmap cr) (nat idx) of
                   None \<Rightarrow> Inl RuntimePanic
                 | Some True \<Rightarrow> Inl ErrIPAlreadyAlloc
                 | Some False \<Rightarrow>
                     (case Bitmap_Set (cr_bitmap cr) (nat idx) of
                        None \<Rightarrow> Inl RuntimePanic
                      | Some bm \<Rightarrow> Inr (cr\<lparr>cr_bitmap := bm\<rparr> # crs))))"

definition Pool_AllocateSpecific ::
    "IP \<Rightarrow> int \<Rightarrow> string \<Rightarrow> string \<Rightarrow> Pool \<Rightarrow> IpamError option \<times> Pool" where
  "Pool_AllocateSpecific ip now owner resource p =
     (let ipNorm = normalizeIP ip; ipStr = IP_String ipNorm;
          info = \<lparr>ai_IP = ipNorm, ai_Owner = owner, ai_Resource = resource, ai_Timestamp = now\<rparr>
      in (case p_discreteAddrs p ipStr of
            Some allocated \<Rightarrow>
              if allocated then (Some ErrIPAlreadyAlloc, p)
              else (None, p\<lparr>p_discreteAddrs := (p_discreteAddrs p)(ipStr \<mapsto> True),
                            p_allocations := (p_allocations p)(ipStr \<mapsto> info)\<rparr>)
          | None \<Rightarrow>
              (case AllocateSpecific_ranges ipNorm (p_ranges p) of
                 Inl e \<Rightarrow> (Some e, p)
               | Inr crs \<Rightarrow>
                   (None, p\<lparr>p_ranges := crs, p_allocations := (p_allocations p)(ipStr \<mapsto> info)\<rparr>))))"

text \<open>The loop over the ranges in \<open>Release\<close>: the first range that contains the address clears its bit;
  the allocation record is deleted whether or not there is such a range.\<close>

fun Release_ranges :: "IP \<Rightarrow> cidrRange list \<Rightarrow> cidrRange list option" where
  "Release_ranges ip [] = Some []"
| "Release_ranges ip (cr # crs) =
     (if \<not> IPNet_Contains (cr_network cr) ip then map_option ((#) cr) (Release_ranges ip crs)
      else
        let idx = ipToIndex (cr_baseIP cr) ip (cr_ipLen cr)
        in if 0 \<le> idx \<and> idx < int (cr_size cr) then
             (case Bitmap_Clear (cr_bitmap cr) (nat idx) of
                None \<Rightarrow> None
              | Some bm \<Rightarrow> Some (cr\<lparr>cr_bitmap := bm\<rparr> # crs))
           else map_option ((#) cr) (Release_ranges ip crs))"

definition Pool_Release :: "IP \<Rightarrow> Pool \<Rightarrow> IpamError option \<times> Pool" where
  "Pool_Release ip p =
     (let ipNorm = normalizeIP ip; ipStr = IP_String ipNorm
      in if p_allocations p ipStr = None then (Some ErrIPNotAllocated, p)
         else if p_discreteAddrs p ipStr \<noteq> None then
           (None, p\<lparr>p_discreteAddrs := (p_discreteAddrs p)(ipStr \<mapsto> False),
                    p_allocations := map_del (p_allocations p) ipStr\<rparr>)
         else (case Release_ranges ipNorm (p_ranges p) of
                 None \<Rightarrow> (Some RuntimePanic, p)
               | Some crs \<Rightarrow>
                   (None, p\<lparr>p_ranges := crs, p_allocations := map_del (p_allocations p) ipStr\<rparr>)))"

fun IsAvailable_ranges :: "IP \<Rightarrow> cidrRange list \<Rightarrow> bool option" where
  "IsAvailable_ranges ip [] = Some False"
| "IsAvailable_ranges ip (cr # crs) =
     (if \<not> IPNet_Contains (cr_network cr) ip then IsAvailable_ranges ip crs
      else
        let idx = ipToIndex (cr_baseIP cr) ip (cr_ipLen cr)
        in if 0 \<le> idx \<and> idx < int (cr_size cr) then map_option Not (Bitmap_Get (cr_bitmap cr) (nat idx))
           else IsAvailable_ranges ip crs)"

definition Pool_IsAvailable :: "IP \<Rightarrow> Pool \<Rightarrow> bool option" where
  "Pool_IsAvailable ip p =
     (let ipNorm = normalizeIP ip
      in (case p_discreteAddrs p (IP_String ipNorm) of
            Some allocated \<Rightarrow> Some (\<not> allocated)
          | None \<Rightarrow> IsAvailable_ranges ipNorm (p_ranges p)))"

definition Pool_Contains :: "IP \<Rightarrow> Pool \<Rightarrow> bool" where
  "Pool_Contains ip p =
     (let ipNorm = normalizeIP ip
      in p_discreteAddrs p (IP_String ipNorm) \<noteq> None \<or>
         list_ex (\<lambda>cr. IPNet_Contains (cr_network cr) ipNorm) (p_ranges p))"

definition Pool_Status :: "string list \<Rightarrow> Pool \<Rightarrow> PoolStatus" where
  "Pool_Status ks p =
     (let total = foldl (\<lambda>t cr. t + int (cr_size cr)) (int (map_len (p_discreteAddrs p))) (p_ranges p);
          allocated = int (map_len (p_allocations p))
      in \<lparr>ps_Name = p_name p, ps_Type = p_poolType p, ps_Allocated = allocated, ps_Total = total,
          ps_Available = total - allocated, ps_Allocations = map (the \<circ> p_allocations p) ks\<rparr>)"

section \<open>Names of addresses\<close>

definition pname :: "IP \<Rightarrow> string" where
  "pname ip = IP_String (normalizeIP ip)"

lemma ParseIP_pname: "ParseIP (pname ip) = IP_To16 ip"
proof (cases "IP_To16 ip")
  case None
  then have "normalizeIP ip = []" by (simp add: normalizeIP_def IP_To4_None16)
  with None show ?thesis by (simp add: pname_def IP_String_def ParseIP_def ParseAddr_def)
next
  case (Some y)
  then have n: "length (normalizeIP ip) = 4 \<or> length (normalizeIP ip) = 16"
    by (auto simp: normalizeIP_def length_IP_To16 length_IP_To4 split: option.split)
  have "IP_num 16 (normalizeIP ip) = IP_num 16 ip" by (rule IP_num_normalizeIP)
  then obtain z where z: "IP_To16 (normalizeIP ip) = Some z" "be_nat z = be_nat y"
    using Some by (auto simp: IP_num_def)
  then have "z = y" using be_nat_inject [of z y] length_IP_To16 Some by metis
  with ParseIP_IP_String [OF n] z Some show ?thesis by (simp add: pname_def)
qed

lemma pname_eq_iff: "pname ip = pname ip' \<longleftrightarrow> IP_To16 ip = IP_To16 ip'"
proof
  assume "pname ip = pname ip'"
  then show "IP_To16 ip = IP_To16 ip'" using ParseIP_pname by metis
next
  assume eq: "IP_To16 ip = IP_To16 ip'"
  show "pname ip = pname ip'"
  proof (cases "IP_To16 ip")
    case None
    with eq show ?thesis by (simp add: pname_def normalizeIP_def IP_To4_None16)
  next
    case (Some y)
    with eq IP_To4_iff_num [of ip y] IP_To4_iff_num [of ip' y] show ?thesis
      by (simp add: pname_def normalizeIP_def)
  qed
qed

lemma pname_block_index:
  assumes "pname ip = pname ip'"
  shows "block_index base sz L ip = block_index base sz L ip'"
proof -
  have eq: "IP_To16 ip = IP_To16 ip'" using assms by (simp add: pname_eq_iff)
  then have "IP_To4 ip = IP_To4 ip'"
    using IP_To4_None16 IP_To4_iff_num by (cases "IP_To16 ip") (auto, metis)
  with eq show ?thesis by (simp add: block_index_def IP_num_def)
qed

lemma IP_String_pname: "length ip = 4 \<or> length ip = 16 \<Longrightarrow> IP_String ip = pname ip"
  by (auto simp: pname_def normalizeIP_def IP_String_def IP_To4_def IP_To16_def split: option.split if_splits)

lemma block_index_pname:
  assumes "addr_block n base sz L" "block_index base sz L ip = Some i" "block_index base sz L ip' = Some i"
  shows "pname ip = pname ip'"
  using IP_String_block [OF assms(1), of "normalizeIP ip" i] IP_String_block [OF assms(1), of "normalizeIP ip'" i] assms
  by (simp add: pname_def)

section \<open>The ranges of a pool\<close>

abbreviation cr_bits :: "cidrRange \<Rightarrow> nat set" where
  "cr_bits cr \<equiv> word_bits (bm_words (cr_bitmap cr))"

definition cr_index :: "cidrRange \<Rightarrow> IP \<Rightarrow> nat option" where
  "cr_index cr ip = block_index (cr_baseIP cr) (cr_size cr) (cr_ipLen cr) ip"

definition range_wf :: "cidrRange \<Rightarrow> bool" where
  "range_wf cr \<longleftrightarrow>
     addr_block (cr_network cr) (cr_baseIP cr) (cr_size cr) (cr_ipLen cr) \<and>
     Bitmap_wf (cr_bitmap cr) \<and> bm_size (cr_bitmap cr) = cr_size cr"

text \<open>The state of an address in the ranges: \<^const>\<open>None\<close> when no range contains it, otherwise whether
  the first range that contains it has it allocated.\<close>

fun ranges_state :: "cidrRange list \<Rightarrow> IP \<Rightarrow> bool option" where
  "ranges_state [] ip = None"
| "ranges_state (cr # crs) ip =
     (case cr_index cr ip of Some i \<Rightarrow> Some (i \<in> cr_bits cr) | None \<Rightarrow> ranges_state crs ip)"

definition ranges_disjoint :: "cidrRange list \<Rightarrow> bool" where
  "ranges_disjoint crs \<longleftrightarrow> sorted_wrt (\<lambda>c d. \<forall>ip. cr_index c ip = None \<or> cr_index d ip = None) crs"

text \<open>\<open>ranges_upd crs ip b crs'\<close>: the ranges \<open>crs'\<close> differ from \<open>crs\<close> only in the state of \<open>ip\<close>.\<close>

definition ranges_upd :: "cidrRange list \<Rightarrow> IP \<Rightarrow> bool \<Rightarrow> cidrRange list \<Rightarrow> bool" where
  "ranges_upd crs ip b crs' \<longleftrightarrow>
     list_all range_wf crs' \<and> map cr_index crs' = map cr_index crs \<and>
     (\<forall>ip'. ranges_state crs' ip' = (if pname ip' = pname ip then Some b else ranges_state crs ip'))"

lemma ranges_disjoint_index: "map cr_index crs' = map cr_index crs \<Longrightarrow> ranges_disjoint crs' = ranges_disjoint crs"
proof -
  assume "map cr_index crs' = map cr_index crs"
  moreover have "ranges_disjoint xs = sorted_wrt (\<lambda>f g. \<forall>ip. f ip = None \<or> g ip = None) (map cr_index xs)" for xs
    by (simp add: ranges_disjoint_def sorted_wrt_map)
  ultimately show ?thesis by simp
qed

lemma cr_index_update [simp]: "cr_index (cr\<lparr>cr_bitmap := bm\<rparr>) = cr_index cr"
  by (simp add: cr_index_def fun_eq_iff)

lemma cr_index_normalizeIP [simp]: "cr_index cr (normalizeIP ip) = cr_index cr ip"
  by (simp add: cr_index_def)

lemma range_contains: "range_wf cr \<Longrightarrow> IPNet_Contains (cr_network cr) ip \<longleftrightarrow> cr_index cr ip \<noteq> None"
  using block_contains [of "cr_network cr" "cr_baseIP cr" "cr_size cr" "cr_ipLen cr" ip]
  by (simp add: range_wf_def cr_index_def)

lemma range_ipToIndex:
  "range_wf cr \<Longrightarrow> cr_index cr ip = Some i \<Longrightarrow> ipToIndex (cr_baseIP cr) (normalizeIP ip) (cr_ipLen cr) = int i"
  by (auto simp: range_wf_def cr_index_def ipToIndex_block)

lemma cr_index_lt: "cr_index cr ip = Some i \<Longrightarrow> i < cr_size cr"
  by (simp add: cr_index_def block_index_lt)

lemma range_get: "range_wf cr \<Longrightarrow> i < cr_size cr \<Longrightarrow> Bitmap_Get (cr_bitmap cr) i = Some (i \<in> cr_bits cr)"
  by (simp add: range_wf_def Bitmap_Get_bits)

lemma range_set:
  "range_wf cr \<Longrightarrow> i < cr_size cr \<Longrightarrow>
   \<exists>bm. Bitmap_Set (cr_bitmap cr) i = Some bm \<and> range_wf (cr\<lparr>cr_bitmap := bm\<rparr>) \<and> word_bits (bm_words bm) = insert i (cr_bits cr)"
  using bm.set_ok [of "cr_bitmap cr" i] by (auto simp: range_wf_def)

lemma range_clear:
  "range_wf cr \<Longrightarrow> i < cr_size cr \<Longrightarrow>
   \<exists>bm. Bitmap_Clear (cr_bitmap cr) i = Some bm \<and> range_wf (cr\<lparr>cr_bitmap := bm\<rparr>) \<and> word_bits (bm_words bm) = cr_bits cr - {i}"
  using bm.clear_ok [of "cr_bitmap cr" i] by (auto simp: range_wf_def)

lemma cr_index_pname: "range_wf cr \<Longrightarrow> cr_index cr ip = Some i \<Longrightarrow> cr_index cr ip' = Some i \<longleftrightarrow> pname ip' = pname ip"
  using block_index_pname [of "cr_network cr" "cr_baseIP cr" "cr_size cr" "cr_ipLen cr" ip i ip'] pname_block_index [of ip' ip]
  by (auto simp: range_wf_def cr_index_def)

text \<open>Writing the bit of \<open>ip\<close> in the first range that contains it, and passing over a range that does
  not contain \<open>ip\<close>.\<close>

lemma ranges_upd_here:
  assumes "range_wf cr" "list_all range_wf crs" "cr_index cr ip = Some i" "range_wf (cr\<lparr>cr_bitmap := bm\<rparr>)"
    and "\<And>j. j \<in> word_bits (bm_words bm) \<longleftrightarrow> (if j = i then b else j \<in> cr_bits cr)"
  shows "ranges_upd (cr # crs) ip b (cr\<lparr>cr_bitmap := bm\<rparr> # crs)"
proof -
  have "ranges_state (cr\<lparr>cr_bitmap := bm\<rparr> # crs) ip' = (if pname ip' = pname ip then Some b else ranges_state (cr # crs) ip')" for ip'
    using cr_index_pname [OF assms(1,3), of ip'] assms(5) by (auto split: option.split)
  with assms(2,4) show ?thesis by (simp add: ranges_upd_def)
qed

lemma ranges_upd_there:
  assumes "range_wf cr" "cr_index cr ip = None" "ranges_upd crs ip b crs'"
  shows "ranges_upd (cr # crs) ip b (cr # crs')"
proof -
  have "cr_index cr ip' = None" if "pname ip' = pname ip" for ip'
    using pname_block_index [OF that] assms(2) by (simp add: cr_index_def)
  then have "ranges_state (cr # crs') ip' = (if pname ip' = pname ip then Some b else ranges_state (cr # crs) ip')" for ip'
    using assms(3) by (auto simp: ranges_upd_def split: option.split)
  with assms(1,3) show ?thesis by (simp add: ranges_upd_def)
qed

lemma IsAvailable_ranges_state:
  "list_all range_wf crs \<Longrightarrow> IsAvailable_ranges (normalizeIP ip) crs = Some (ranges_state crs ip = Some False)"
proof (induction crs)
  case (Cons cr crs)
  then have wf: "range_wf cr" by simp
  show ?case
  proof (cases "cr_index cr ip")
    case None
    with Cons show ?thesis by (simp add: range_contains [OF wf])
  next
    case (Some i)
    with cr_index_lt [OF Some] show ?thesis
      by (simp add: range_contains [OF wf] range_ipToIndex [OF wf Some] range_get [OF wf])
  qed
qed simp

lemma Contains_ranges_state:
  "list_all range_wf crs \<Longrightarrow> list_ex (\<lambda>cr. IPNet_Contains (cr_network cr) (normalizeIP ip)) crs \<longleftrightarrow> ranges_state crs ip \<noteq> None"
  by (induction crs) (auto simp: range_contains split: option.split)

lemma AllocateSpecific_ranges_state:
  assumes "list_all range_wf crs"
  shows "case ranges_state crs ip of
      None \<Rightarrow> AllocateSpecific_ranges (normalizeIP ip) crs = Inl ErrIPOutsideCIDR
    | Some True \<Rightarrow> AllocateSpecific_ranges (normalizeIP ip) crs = Inl ErrIPAlreadyAlloc
    | Some False \<Rightarrow> \<exists>crs'. AllocateSpecific_ranges (normalizeIP ip) crs = Inr crs' \<and> ranges_upd crs ip True crs'"
  using assms
proof (induction crs)
  case (Cons cr crs)
  then have wf: "range_wf cr" "list_all range_wf crs" by simp_all
  show ?case
  proof (cases "cr_index cr ip")
    case None
    have skip: "AllocateSpecific_ranges (normalizeIP ip) (cr # crs) =
        (case AllocateSpecific_ranges (normalizeIP ip) crs of Inl e \<Rightarrow> Inl e | Inr crs' \<Rightarrow> Inr (cr # crs'))"
      using None by (simp add: range_contains [OF wf(1)])
    from Cons.IH [OF wf(2)] None ranges_upd_there [OF wf(1) None] show ?thesis
      unfolding skip by (auto split: option.splits bool.splits)
  next
    case (Some i)
    note lt = cr_index_lt [OF Some]
    obtain b where b: "Bitmap_Set (cr_bitmap cr) i = Some b" "range_wf (cr\<lparr>cr_bitmap := b\<rparr>)"
        "word_bits (bm_words b) = insert i (cr_bits cr)"
      using range_set [OF wf(1) lt] by blast
    have "ranges_upd (cr # crs) ip True (cr\<lparr>cr_bitmap := b\<rparr> # crs)"
      by (rule ranges_upd_here [OF wf Some b(2)]) (simp add: b(3))
    with lt b(1) Some show ?thesis
      by (cases "i \<in> cr_bits cr") (simp_all add: range_contains [OF wf(1)] range_ipToIndex [OF wf(1) Some] range_get [OF wf(1)])
  qed
qed simp

lemma Release_ranges_state:
  assumes "list_all range_wf crs"
  shows "case ranges_state crs ip of
      None \<Rightarrow> Release_ranges (normalizeIP ip) crs = Some crs
    | Some _ \<Rightarrow> \<exists>crs'. Release_ranges (normalizeIP ip) crs = Some crs' \<and> ranges_upd crs ip False crs'"
  using assms
proof (induction crs)
  case (Cons cr crs)
  then have wf: "range_wf cr" "list_all range_wf crs" by simp_all
  show ?case
  proof (cases "cr_index cr ip")
    case None
    have skip: "Release_ranges (normalizeIP ip) (cr # crs) = map_option ((#) cr) (Release_ranges (normalizeIP ip) crs)"
      using None by (simp add: range_contains [OF wf(1)])
    from Cons.IH [OF wf(2)] None ranges_upd_there [OF wf(1) None] show ?thesis
      unfolding skip by (auto split: option.splits)
  next
    case (Some i)
    note lt = cr_index_lt [OF Some]
    obtain b where b: "Bitmap_Clear (cr_bitmap cr) i = Some b" "range_wf (cr\<lparr>cr_bitmap := b\<rparr>)"
        "word_bits (bm_words b) = cr_bits cr - {i}"
      using range_clear [OF wf(1) lt] by blast
    have "ranges_upd (cr # crs) ip False (cr\<lparr>cr_bitmap := b\<rparr> # crs)"
      by (rule ranges_upd_here [OF wf Some b(2)]) (simp add: b(3))
    with lt b(1) Some show ?thesis
      by (simp add: range_contains [OF wf(1)] range_ipToIndex [OF wf(1) Some])
  qed
qed simp

lemma ranges_state_member: "ranges_state crs ip \<noteq> None \<Longrightarrow> \<exists>c \<in> set crs. cr_index c ip \<noteq> None"
  by (induction crs) (auto split: option.splits)

lemma Allocate_ranges_state:
  assumes "list_all range_wf crs" "ranges_disjoint crs"
  shows "(Allocate_ranges crs = Some None \<and> (\<forall>ip. ranges_state crs ip \<noteq> Some False)) \<or>
    (\<exists>ip crs'. Allocate_ranges crs = Some (Some (ip, crs')) \<and> (length ip = 4 \<or> length ip = 16) \<and>
       ranges_state crs ip = Some False \<and> ranges_upd crs ip True crs')"
  using assms
proof (induction crs)
  case (Cons cr crs)
  then have wf: "range_wf cr" "list_all range_wf crs" and dj: "ranges_disjoint crs"
    and sep: "\<forall>c \<in> set crs. \<forall>ip. cr_index cr ip = None \<or> cr_index c ip = None"
    by (simp_all add: ranges_disjoint_def)
  have bw: "Bitmap_wf (cr_bitmap cr)" "bm_size (cr_bitmap cr) = cr_size cr" using wf(1) by (auto simp: range_wf_def)
  show ?case
  proof (cases "Bitmap_FindFree (cr_bitmap cr) < 0")
    case True
    then have full: "{..<cr_size cr} \<subseteq> cr_bits cr" using bm.find_full_iff [OF bw(1)] bw(2) by simp
    have taken: "cr_index cr ip = Some i \<Longrightarrow> i \<in> cr_bits cr" for ip i using full cr_index_lt by blast
    have outside: "cr_index cr ip = None" if "ranges_state crs ip \<noteq> None" for ip
      using ranges_state_member [OF that] sep by metis
    from Cons.IH [OF wf(2) dj] show ?thesis
    proof
      assume "Allocate_ranges crs = Some None \<and> (\<forall>ip. ranges_state crs ip \<noteq> Some False)"
      with True taken show ?thesis by (auto split: option.split)
    next
      assume "\<exists>ip crs'. Allocate_ranges crs = Some (Some (ip, crs')) \<and> (length ip = 4 \<or> length ip = 16) \<and>
        ranges_state crs ip = Some False \<and> ranges_upd crs ip True crs'"
      then obtain ip crs' where a: "Allocate_ranges crs = Some (Some (ip, crs'))" "length ip = 4 \<or> length ip = 16"
          "ranges_state crs ip = Some False" "ranges_upd crs ip True crs'" by blast
      with True outside [of ip] ranges_upd_there [OF wf(1) _ a(4)] show ?thesis
        by (intro disjI2 exI [of _ ip] exI [of _ "cr # crs'"]) simp
    qed
  next
    case False
    then obtain i where i: "Bitmap_FindFree (cr_bitmap cr) = int i" using nonneg_int_cases [of "Bitmap_FindFree (cr_bitmap cr)"] by auto
    have lt: "i < cr_size cr" "i \<notin> cr_bits cr" using bm.find_free [OF bw(1)] i bw(2) by auto
    obtain b where b: "Bitmap_Set (cr_bitmap cr) i = Some b" "range_wf (cr\<lparr>cr_bitmap := b\<rparr>)"
        "word_bits (bm_words b) = insert i (cr_bits cr)"
      using range_set [OF wf(1) lt(1)] by blast
    let ?ip = "block_addr (cr_baseIP cr) (cr_ipLen cr) i"
    have blk: "addr_block (cr_network cr) (cr_baseIP cr) (cr_size cr) (cr_ipLen cr)" using wf(1) by (simp add: range_wf_def)
    have idx: "cr_index cr ?ip = Some i" using block_index_addr [OF blk lt(1)] by (simp add: cr_index_def)
    have "ranges_upd (cr # crs) ?ip True (cr\<lparr>cr_bitmap := b\<rparr> # crs)"
      by (rule ranges_upd_here [OF wf idx b(2)]) (simp add: b(3))
    moreover have "length ?ip = 4 \<or> length ?ip = 16" using addr_block_props(1) [OF blk] by simp
    ultimately show ?thesis
      using i b(1) idx lt indexToIP_block [OF blk lt(1)]
      by (intro disjI2 exI [of _ ?ip] exI [of _ "cr\<lparr>cr_bitmap := b\<rparr> # crs"]) simp
  qed
qed (simp add: ranges_disjoint_def)

section \<open>The promise of a pool\<close>

locale address_pool =
  fixes allocate :: "string list \<Rightarrow> int \<Rightarrow> string \<Rightarrow> string \<Rightarrow> 'p \<Rightarrow> (IpamError + IP) \<times> 'p"
    and specific :: "IP \<Rightarrow> int \<Rightarrow> string \<Rightarrow> string \<Rightarrow> 'p \<Rightarrow> IpamError option \<times> 'p"
    and release :: "IP \<Rightarrow> 'p \<Rightarrow> IpamError option \<times> 'p"
    and available :: "IP \<Rightarrow> 'p \<Rightarrow> bool option"
    and contains :: "IP \<Rightarrow> 'p \<Rightarrow> bool"
    and names :: "'p \<Rightarrow> string set"
    and allocs :: "'p \<Rightarrow> string \<rightharpoonup> AllocationInfo"
    and order_ok :: "string list \<Rightarrow> 'p \<Rightarrow> bool"
    and invar :: "'p \<Rightarrow> bool"
  assumes allocs_names: "invar p \<Longrightarrow> dom (allocs p) \<subseteq> names p"
    and allocate_full: "invar p \<Longrightarrow> order_ok ks p \<Longrightarrow> names p \<subseteq> dom (allocs p) \<Longrightarrow>
      allocate ks now own res p = (Inl ErrNoFreeAddresses, p)"
    and allocate_free: "invar p \<Longrightarrow> order_ok ks p \<Longrightarrow> \<not> names p \<subseteq> dom (allocs p) \<Longrightarrow>
      \<exists>ip p'. allocate ks now own res p = (Inr ip, p') \<and> invar p' \<and> names p' = names p \<and>
        pname ip \<in> names p \<and> pname ip \<notin> dom (allocs p) \<and>
        allocs p' = (allocs p)(pname ip \<mapsto> \<lparr>ai_IP = ip, ai_Owner = own, ai_Resource = res, ai_Timestamp = now\<rparr>)"
    and specific_outside: "invar p \<Longrightarrow> pname ip \<notin> names p \<Longrightarrow>
      specific ip now own res p = (Some ErrIPOutsideCIDR, p)"
    and specific_taken: "invar p \<Longrightarrow> pname ip \<in> dom (allocs p) \<Longrightarrow>
      specific ip now own res p = (Some ErrIPAlreadyAlloc, p)"
    and specific_free: "invar p \<Longrightarrow> pname ip \<in> names p \<Longrightarrow> pname ip \<notin> dom (allocs p) \<Longrightarrow>
      \<exists>p'. specific ip now own res p = (None, p') \<and> invar p' \<and> names p' = names p \<and>
        allocs p' = (allocs p)(pname ip \<mapsto>
          \<lparr>ai_IP = normalizeIP ip, ai_Owner = own, ai_Resource = res, ai_Timestamp = now\<rparr>)"
    and release_unknown: "invar p \<Longrightarrow> pname ip \<notin> dom (allocs p) \<Longrightarrow> release ip p = (Some ErrIPNotAllocated, p)"
    and release_known: "invar p \<Longrightarrow> pname ip \<in> dom (allocs p) \<Longrightarrow>
      \<exists>p'. release ip p = (None, p') \<and> invar p' \<and> names p' = names p \<and> allocs p' = map_del (allocs p) (pname ip)"
    and available_iff: "invar p \<Longrightarrow> available ip p = Some (pname ip \<in> names p \<and> pname ip \<notin> dom (allocs p))"
    and contains_iff: "invar p \<Longrightarrow> contains ip p \<longleftrightarrow> pname ip \<in> names p"
begin

text \<open>What a client can rely on without looking at the implementation.\<close>

lemma allocate_invar:
  assumes "invar p" "order_ok ks p" "allocate ks now own res p = (r, p')"
  shows "invar p'" "names p' = names p"
  using allocate_full [OF assms(1,2), of now own res] allocate_free [OF assms(1,2), of now own res] assms
  by (cases "names p \<subseteq> dom (allocs p)"; auto)+

lemma specific_invar:
  assumes "invar p" "specific ip now own res p = (r, p')"
  shows "invar p'" "names p' = names p"
proof -
  consider "pname ip \<notin> names p" | "pname ip \<in> dom (allocs p)" | "pname ip \<in> names p" "pname ip \<notin> dom (allocs p)" by blast
  then have "invar p' \<and> names p' = names p"
    using specific_outside [OF assms(1), of ip now own res] specific_taken [OF assms(1), of ip now own res]
      specific_free [OF assms(1), of ip now own res] assms by cases auto
  then show "invar p'" "names p' = names p" by simp_all
qed

lemma release_invar:
  assumes "invar p" "release ip p = (r, p')"
  shows "invar p'" "names p' = names p"
  using release_unknown [OF assms(1), of ip] release_known [OF assms(1), of ip] assms
  by (cases "pname ip \<in> dom (allocs p)"; auto)+

lemma allocate_fresh:
  assumes "invar p" "order_ok ks p" "allocate ks now own res p = (Inr ip, p')"
  shows "allocs p (pname ip) = None" "pname ip \<in> names p"
    "allocs p' = (allocs p)(pname ip \<mapsto> \<lparr>ai_IP = ip, ai_Owner = own, ai_Resource = res, ai_Timestamp = now\<rparr>)"
  using allocate_full [OF assms(1,2), of now own res] allocate_free [OF assms(1,2), of now own res] assms
  by (cases "names p \<subseteq> dom (allocs p)"; auto)+

text \<open>An allocated address is refused to everyone else until it is released.\<close>

lemma allocate_then_specific:
  assumes "invar p" "order_ok ks p" "allocate ks now own res p = (Inr ip, p')"
  shows "specific ip now' own' res' p' = (Some ErrIPAlreadyAlloc, p')"
  using specific_taken [OF allocate_invar(1) [OF assms], of ip] allocate_fresh(3) [OF assms] by simp

lemma allocate_then_allocate:
  assumes "invar p" "order_ok ks p" "allocate ks now own res p = (Inr ip, p')"
    and "order_ok ks' p'" "allocate ks' now' own' res' p' = (Inr ip', p'')"
  shows "pname ip' \<noteq> pname ip"
  using allocate_fresh(1) [OF allocate_invar(1) [OF assms(1-3)] assms(4,5)] allocate_fresh(3) [OF assms(1-3)] by auto

text \<open>Releasing what was just allocated gives the recorded allocations back as they were.\<close>

lemma allocate_then_release:
  assumes "invar p" "order_ok ks p" "allocate ks now own res p = (Inr ip, p')"
  shows "\<exists>p''. release ip p' = (None, p'') \<and> invar p'' \<and> names p'' = names p \<and> allocs p'' = allocs p \<and>
    available ip p'' = Some True"
proof -
  note f = allocate_fresh [OF assms] and i = allocate_invar [OF assms]
  have "pname ip \<in> dom (allocs p')" by (simp add: f(3))
  then obtain p'' where p'': "release ip p' = (None, p'')" "invar p''" "names p'' = names p'"
      "allocs p'' = map_del (allocs p') (pname ip)"
    using release_known [OF i(1)] by blast
  have "allocs p'' = allocs p" by (simp add: p''(4) f(1,3) map_del_notin domIff)
  with p'' i f available_iff [OF p''(2), of ip] show ?thesis by (simp add: domIff)
qed

end

section \<open>The invariant of a pool\<close>

definition pool_state :: "Pool \<Rightarrow> IP \<Rightarrow> bool option" where
  "pool_state p ip =
     (case p_discreteAddrs p (pname ip) of Some b \<Rightarrow> Some b | None \<Rightarrow> ranges_state (p_ranges p) ip)"

definition pool_names :: "Pool \<Rightarrow> string set" where
  "pool_names p = {pname ip | ip. pool_state p ip \<noteq> None}"

text \<open>The sources of a pool do not overlap.\<close>

definition sources_disjoint :: "Pool \<Rightarrow> bool" where
  "sources_disjoint p \<longleftrightarrow>
     ranges_disjoint (p_ranges p) \<and>
     (\<forall>ip. p_discreteAddrs p (pname ip) \<noteq> None \<longrightarrow> ranges_state (p_ranges p) ip = None)"

definition Pool_wf :: "Pool \<Rightarrow> bool" where
  "Pool_wf p \<longleftrightarrow>
     list_all range_wf (p_ranges p) \<and> sources_disjoint p \<and>
     (\<forall>k \<in> dom (p_discreteAddrs p). \<exists>ip. ParseIP k = Some ip \<and> k = pname ip) \<and>
     (\<forall>ip. p_allocations p (pname ip) \<noteq> None \<longleftrightarrow> pool_state p ip = Some True) \<and>
     (\<forall>k \<in> dom (p_allocations p). \<exists>ip. k = pname ip)"

abbreviation pool_order :: "string list \<Rightarrow> Pool \<Rightarrow> bool" where
  "pool_order ks p \<equiv> enumerates ks (p_discreteAddrs p)"

lemma ranges_state_pname: "pname ip = pname ip' \<Longrightarrow> ranges_state crs ip = ranges_state crs ip'"
  using pname_block_index [of ip ip'] by (induction crs) (simp_all add: cr_index_def split: option.split)

lemma pool_state_pname: "pname ip = pname ip' \<Longrightarrow> pool_state p ip = pool_state p ip'"
  using ranges_state_pname [of ip ip' "p_ranges p"] by (simp add: pool_state_def split: option.split)

lemma pool_names_iff: "pname ip \<in> pool_names p \<longleftrightarrow> pool_state p ip \<noteq> None"
proof
  assume "pname ip \<in> pool_names p"
  then obtain ip' where "pname ip = pname ip'" "pool_state p ip' \<noteq> None" unfolding pool_names_def by blast
  then show "pool_state p ip \<noteq> None" using pool_state_pname [of ip ip' p] by simp
qed (unfold pool_names_def, blast)

lemma pool_allocs_iff: "Pool_wf p \<Longrightarrow> pname ip \<in> dom (p_allocations p) \<longleftrightarrow> pool_state p ip = Some True"
  by (simp add: Pool_wf_def domIff)

lemma pool_allocs_names: "Pool_wf p \<Longrightarrow> dom (p_allocations p) \<subseteq> pool_names p"
  by (fastforce simp: Pool_wf_def pool_names_def)

text \<open>The two ways to write the state of one address.\<close>

lemma pool_upd_discrete:
  assumes wf: "Pool_wf p" and k: "p_discreteAddrs p (pname ip) \<noteq> None"
    and a: "\<And>k. a k \<noteq> None \<longleftrightarrow> (if k = pname ip then b else p_allocations p k \<noteq> None)"
  shows "Pool_wf (p\<lparr>p_discreteAddrs := (p_discreteAddrs p)(pname ip \<mapsto> b), p_allocations := a\<rparr>)"
    and "pool_names (p\<lparr>p_discreteAddrs := (p_discreteAddrs p)(pname ip \<mapsto> b), p_allocations := a\<rparr>) = pool_names p"
proof -
  let ?p = "p\<lparr>p_discreteAddrs := (p_discreteAddrs p)(pname ip \<mapsto> b), p_allocations := a\<rparr>"
  have st: "pool_state ?p ip' = (if pname ip' = pname ip then Some b else pool_state p ip')" for ip'
    by (simp add: pool_state_def split: option.split)
  have nn: "pool_state ?p ip' \<noteq> None \<longleftrightarrow> pool_state p ip' \<noteq> None" for ip'
    using k by (simp only: st) (auto simp: pool_state_def)
  show "pool_names ?p = pool_names p" unfolding pool_names_def nn by simp
  have "p_allocations ?p (pname ip') \<noteq> None \<longleftrightarrow> pool_state ?p ip' = Some True" for ip'
    using wf a [of "pname ip'"] by (auto simp: st Pool_wf_def)
  moreover have "\<exists>ip'. k' = pname ip'" if "k' \<in> dom a" for k'
    using that a [of k'] wf by (auto simp: Pool_wf_def domIff split: if_splits)
  moreover have "sources_disjoint ?p" using wf k by (auto simp: Pool_wf_def sources_disjoint_def)
  moreover have "\<exists>ip'. ParseIP k' = Some ip' \<and> k' = pname ip'" if "k' \<in> dom (p_discreteAddrs ?p)" for k'
  proof -
    have "k' \<in> dom (p_discreteAddrs p)" using that k by (auto split: if_splits)
    then show ?thesis using wf by (auto simp: Pool_wf_def)
  qed
  ultimately show "Pool_wf ?p" using wf by (simp add: Pool_wf_def)
qed

lemma pool_upd_ranges:
  assumes wf: "Pool_wf p" and k: "p_discreteAddrs p (pname ip) = None"
    and u: "ranges_upd (p_ranges p) ip b crs" and m: "ranges_state (p_ranges p) ip \<noteq> None"
    and a: "\<And>k. a k \<noteq> None \<longleftrightarrow> (if k = pname ip then b else p_allocations p k \<noteq> None)"
  shows "Pool_wf (p\<lparr>p_ranges := crs, p_allocations := a\<rparr>)" "pool_names (p\<lparr>p_ranges := crs, p_allocations := a\<rparr>) = pool_names p"
proof -
  let ?p = "p\<lparr>p_ranges := crs, p_allocations := a\<rparr>"
  have rs: "ranges_state crs ip' = (if pname ip' = pname ip then Some b else ranges_state (p_ranges p) ip')" for ip'
    using u by (simp add: ranges_upd_def)
  have st: "pool_state ?p ip' = (if pname ip' = pname ip then Some b else pool_state p ip')" for ip'
    using k by (simp add: pool_state_def rs split: option.split)
  have nn: "pool_state ?p ip' \<noteq> None \<longleftrightarrow> pool_state p ip' \<noteq> None" for ip'
    using k m pool_state_pname [of ip' ip p] by (simp only: st) (auto simp: pool_state_def)
  show "pool_names ?p = pool_names p" unfolding pool_names_def nn by simp
  have "p_allocations ?p (pname ip') \<noteq> None \<longleftrightarrow> pool_state ?p ip' = Some True" for ip'
    using wf a [of "pname ip'"] by (auto simp: st Pool_wf_def)
  moreover have "\<exists>ip'. k' = pname ip'" if "k' \<in> dom a" for k'
    using that a [of k'] wf by (auto simp: Pool_wf_def domIff split: if_splits)
  moreover have "ranges_disjoint crs"
    using wf u ranges_disjoint_index [of crs "p_ranges p"] by (simp add: Pool_wf_def sources_disjoint_def ranges_upd_def)
  moreover have "p_discreteAddrs p (pname ip') \<noteq> None \<longrightarrow> ranges_state crs ip' = None" for ip'
    using wf k by (auto simp: Pool_wf_def sources_disjoint_def rs)
  ultimately show "Pool_wf ?p" using wf u by (simp add: Pool_wf_def sources_disjoint_def ranges_upd_def)
qed

lemma first_unallocated_Some: "first_unallocated ks m = Some k \<Longrightarrow> k \<in> set ks \<and> m k = Some False"
  by (induction ks) (auto split: if_splits)

lemma first_unallocated_None: "first_unallocated ks m = None \<Longrightarrow> k \<in> set ks \<Longrightarrow> m k \<noteq> Some False"
  by (induction ks) (auto split: if_splits)

lemma pool_full_iff: "Pool_wf p \<Longrightarrow> pool_names p \<subseteq> dom (p_allocations p) \<longleftrightarrow> (\<forall>ip. pool_state p ip \<noteq> Some False)"
proof -
  assume wf: "Pool_wf p"
  have "pool_names p \<subseteq> dom (p_allocations p) \<longleftrightarrow> (\<forall>ip. pool_state p ip \<noteq> None \<longrightarrow> pool_state p ip = Some True)"
    unfolding pool_names_def pool_allocs_iff [OF wf, symmetric] by auto
  moreover have "x \<noteq> Some False \<longleftrightarrow> (x \<noteq> None \<longrightarrow> x = Some True)" for x by (cases x) auto
  ultimately show ?thesis by simp
qed

lemma pool_allocate_result:
  assumes wf: "Pool_wf p" and ks: "pool_order ks p"
  shows "(Pool_Allocate ks now own res p = (Inl ErrNoFreeAddresses, p) \<and> (\<forall>ip. pool_state p ip \<noteq> Some False)) \<or>
    (\<exists>ip p'. Pool_Allocate ks now own res p = (Inr ip, p') \<and> Pool_wf p' \<and> pool_names p' = pool_names p \<and>
       pool_state p ip = Some False \<and> p_allocations p' = (p_allocations p)(pname ip \<mapsto>
         \<lparr>ai_IP = ip, ai_Owner = own, ai_Resource = res, ai_Timestamp = now\<rparr>))"
proof -
  have r: "list_all range_wf (p_ranges p)" "ranges_disjoint (p_ranges p)"
    and sd: "\<And>ip. p_discreteAddrs p (pname ip) \<noteq> None \<Longrightarrow> ranges_state (p_ranges p) ip = None"
    using wf by (auto simp: Pool_wf_def sources_disjoint_def)
  from Allocate_ranges_state [OF r] show ?thesis
  proof
    assume "\<exists>ip crs'. Allocate_ranges (p_ranges p) = Some (Some (ip, crs')) \<and> (length ip = 4 \<or> length ip = 16) \<and>
      ranges_state (p_ranges p) ip = Some False \<and> ranges_upd (p_ranges p) ip True crs'"
    then obtain ip crs where a: "Allocate_ranges (p_ranges p) = Some (Some (ip, crs))" "length ip = 4 \<or> length ip = 16"
        "ranges_state (p_ranges p) ip = Some False" "ranges_upd (p_ranges p) ip True crs" by blast
    have d: "p_discreteAddrs p (pname ip) = None" using sd [of ip] a(3) by (cases "p_discreteAddrs p (pname ip)") auto
    let ?a = "(p_allocations p)(pname ip \<mapsto> \<lparr>ai_IP = ip, ai_Owner = own, ai_Resource = res, ai_Timestamp = now\<rparr>)"
    have "Pool_wf (p\<lparr>p_ranges := crs, p_allocations := ?a\<rparr>)" "pool_names (p\<lparr>p_ranges := crs, p_allocations := ?a\<rparr>) = pool_names p"
      using pool_upd_ranges [OF wf d a(4), of ?a] a(3) by auto
    then show ?thesis using a d by (auto simp: Pool_Allocate_def IP_String_pname pool_state_def)
  next
    assume full: "Allocate_ranges (p_ranges p) = Some None \<and> (\<forall>ip. ranges_state (p_ranges p) ip \<noteq> Some False)"
    show ?thesis
    proof (cases "first_unallocated ks (p_discreteAddrs p)")
      case None
      have "p_discreteAddrs p k \<noteq> Some False" for k
        using first_unallocated_None [OF None] ks by (cases "k \<in> set ks") (auto simp: enumerates_def)
      then have "pool_state p ip \<noteq> Some False" for ip
        using full by (cases "p_discreteAddrs p (pname ip)") (auto simp: pool_state_def, metis (full_types))
      with full None show ?thesis by (simp add: Pool_Allocate_def)
    next
      case (Some k)
      then have k: "p_discreteAddrs p k = Some False" using first_unallocated_Some by blast
      then obtain ip where ip: "ParseIP k = Some ip" "k = pname ip" using wf by (fastforce simp: Pool_wf_def)
      have dk: "p_discreteAddrs p (pname ip) \<noteq> None" using k ip by simp
      let ?a = "(p_allocations p)(pname ip \<mapsto> \<lparr>ai_IP = ip, ai_Owner = own, ai_Resource = res, ai_Timestamp = now\<rparr>)"
      have "Pool_wf (p\<lparr>p_discreteAddrs := (p_discreteAddrs p)(pname ip \<mapsto> True), p_allocations := ?a\<rparr>)"
          "pool_names (p\<lparr>p_discreteAddrs := (p_discreteAddrs p)(pname ip \<mapsto> True), p_allocations := ?a\<rparr>) = pool_names p"
        using pool_upd_discrete [OF wf dk, of ?a True] by auto
      with full Some k ip show ?thesis by (auto simp: Pool_Allocate_def pool_state_def)
    qed
  qed
qed

lemma pool_specific_result:
  assumes wf: "Pool_wf p"
  shows "case pool_state p ip of
      None \<Rightarrow> Pool_AllocateSpecific ip now own res p = (Some ErrIPOutsideCIDR, p)
    | Some True \<Rightarrow> Pool_AllocateSpecific ip now own res p = (Some ErrIPAlreadyAlloc, p)
    | Some False \<Rightarrow> \<exists>p'. Pool_AllocateSpecific ip now own res p = (None, p') \<and> Pool_wf p' \<and> pool_names p' = pool_names p \<and>
        p_allocations p' = (p_allocations p)(pname ip \<mapsto>
          \<lparr>ai_IP = normalizeIP ip, ai_Owner = own, ai_Resource = res, ai_Timestamp = now\<rparr>)"
proof -
  let ?a = "(p_allocations p)(pname ip \<mapsto> \<lparr>ai_IP = normalizeIP ip, ai_Owner = own, ai_Resource = res, ai_Timestamp = now\<rparr>)"
  have r: "list_all range_wf (p_ranges p)" using wf by (simp add: Pool_wf_def)
  show ?thesis
  proof (cases "p_discreteAddrs p (pname ip)")
    case (Some b)
    with pool_upd_discrete [OF wf, of ip ?a True] show ?thesis
      by (cases b) (auto simp: Pool_AllocateSpecific_def pool_state_def pname_def [symmetric] Let_def)
  next
    case None
    have upd: "ranges_upd (p_ranges p) ip True crs \<Longrightarrow> ranges_state (p_ranges p) ip \<noteq> None \<Longrightarrow>
        Pool_wf (p\<lparr>p_ranges := crs, p_allocations := ?a\<rparr>) \<and> pool_names (p\<lparr>p_ranges := crs, p_allocations := ?a\<rparr>) = pool_names p" for crs
      using pool_upd_ranges [OF wf None, of True crs ?a] by auto
    from AllocateSpecific_ranges_state [OF r, of ip] None upd show ?thesis
      by (auto simp: Pool_AllocateSpecific_def pool_state_def pname_def [symmetric] Let_def split: option.splits bool.splits)
  qed
qed

lemma pool_release_result:
  assumes wf: "Pool_wf p" and t: "pool_state p ip = Some True"
  shows "\<exists>p'. Pool_Release ip p = (None, p') \<and> Pool_wf p' \<and> pool_names p' = pool_names p \<and>
    p_allocations p' = map_del (p_allocations p) (pname ip)"
proof -
  let ?a = "map_del (p_allocations p) (pname ip)"
  have r: "list_all range_wf (p_ranges p)" using wf by (simp add: Pool_wf_def)
  have al: "p_allocations p (pname ip) \<noteq> None" using wf t by (simp add: Pool_wf_def)
  show ?thesis
  proof (cases "p_discreteAddrs p (pname ip)")
    case (Some b)
    with pool_upd_discrete [OF wf, of ip ?a False] al show ?thesis
      by (auto simp: Pool_Release_def pname_def [symmetric] Let_def)
  next
    case None
    then have m: "ranges_state (p_ranges p) ip = Some True" using t by (simp add: pool_state_def)
    then obtain crs where crs: "Release_ranges (normalizeIP ip) (p_ranges p) = Some crs" "ranges_upd (p_ranges p) ip False crs"
      using Release_ranges_state [OF r, of ip] by auto
    with pool_upd_ranges [OF wf None crs(2), of ?a] None m al show ?thesis
      by (auto simp: Pool_Release_def pname_def [symmetric] Let_def)
  qed
qed

lemma pool_IsAvailable_state: "Pool_wf p \<Longrightarrow> Pool_IsAvailable ip p = Some (pool_state p ip = Some False)"
  using IsAvailable_ranges_state [of "p_ranges p" ip]
  by (auto simp: Pool_IsAvailable_def pool_state_def pname_def [symmetric] Pool_wf_def Let_def split: option.split)

lemma pool_Contains_state: "Pool_wf p \<Longrightarrow> Pool_Contains ip p \<longleftrightarrow> pool_state p ip \<noteq> None"
  using Contains_ranges_state [of "p_ranges p" ip]
  by (auto simp: Pool_Contains_def pool_state_def pname_def [symmetric] Pool_wf_def Let_def split: option.split)

interpretation pl: address_pool Pool_Allocate Pool_AllocateSpecific Pool_Release Pool_IsAvailable Pool_Contains
  pool_names p_allocations pool_order Pool_wf
proof unfold_locales
  fix p ip ks now own res
  assume wf: "Pool_wf p"
  note iffs = pool_names_iff pool_allocs_iff [OF wf]
  show "dom (p_allocations p) \<subseteq> pool_names p" by (rule pool_allocs_names [OF wf])
  show "Pool_Contains ip p \<longleftrightarrow> pname ip \<in> pool_names p" by (simp add: iffs pool_Contains_state [OF wf])
  show "Pool_IsAvailable ip p = Some (pname ip \<in> pool_names p \<and> pname ip \<notin> dom (p_allocations p))"
    by (cases "pool_state p ip") (auto simp: iffs pool_IsAvailable_state [OF wf])
  note spec = pool_specific_result [OF wf, of ip now own res]
  show "pname ip \<notin> pool_names p \<Longrightarrow> Pool_AllocateSpecific ip now own res p = (Some ErrIPOutsideCIDR, p)"
    using spec by (simp add: iffs)
  show "pname ip \<in> dom (p_allocations p) \<Longrightarrow> Pool_AllocateSpecific ip now own res p = (Some ErrIPAlreadyAlloc, p)"
    using spec by (simp add: iffs)
  show "pname ip \<in> pool_names p \<Longrightarrow> pname ip \<notin> dom (p_allocations p) \<Longrightarrow>
      \<exists>p'. Pool_AllocateSpecific ip now own res p = (None, p') \<and> Pool_wf p' \<and> pool_names p' = pool_names p \<and>
        p_allocations p' = (p_allocations p)(pname ip \<mapsto>
          \<lparr>ai_IP = normalizeIP ip, ai_Owner = own, ai_Resource = res, ai_Timestamp = now\<rparr>)"
    using spec by (auto simp: iffs split: option.splits bool.splits)
  show "pname ip \<notin> dom (p_allocations p) \<Longrightarrow> Pool_Release ip p = (Some ErrIPNotAllocated, p)"
    by (simp add: Pool_Release_def pname_def domIff)
  show "pname ip \<in> dom (p_allocations p) \<Longrightarrow>
      \<exists>p'. Pool_Release ip p = (None, p') \<and> Pool_wf p' \<and> pool_names p' = pool_names p \<and>
        p_allocations p' = map_del (p_allocations p) (pname ip)"
    using pool_release_result [OF wf] by (simp add: iffs)
  assume ks: "pool_order ks p"
  note alc = pool_allocate_result [OF wf ks, of now own res]
  show "pool_names p \<subseteq> dom (p_allocations p) \<Longrightarrow> Pool_Allocate ks now own res p = (Inl ErrNoFreeAddresses, p)"
    using alc by (auto simp: pool_full_iff [OF wf])
  show "\<not> pool_names p \<subseteq> dom (p_allocations p) \<Longrightarrow>
      \<exists>ip p'. Pool_Allocate ks now own res p = (Inr ip, p') \<and> Pool_wf p' \<and> pool_names p' = pool_names p \<and>
        pname ip \<in> pool_names p \<and> pname ip \<notin> dom (p_allocations p) \<and>
        p_allocations p' = (p_allocations p)(pname ip \<mapsto>
          \<lparr>ai_IP = ip, ai_Owner = own, ai_Resource = res, ai_Timestamp = now\<rparr>)"
    using alc by (auto simp: pool_full_iff [OF wf] iffs)
qed

section \<open>Construction and runs\<close>

lemma parseCIDRRange_wf:
  assumes "parseCIDRRange c = Inr cr"
  shows "range_wf cr" "cr_bits cr = {}"
proof -
  obtain ip n where n: "ParseCIDR c = Some (ip, n)" using assms by (auto simp: parseCIDRRange_def split: option.splits)
  obtain L ones where pn: "prefix_net L ones n" using ParseCIDR_prefix_net [OF n] by blast
  have L: "L = 4 \<or> L = 16" "length (net_IP n) = L" using pn by (auto simp: prefix_net_def)
  note ms = Mask_Size_prefix_net [OF pn]
  have h: "8 * L - ones \<le> 20"
    using assms by (auto simp: parseCIDRRange_def n ms Let_def split: if_splits)
  have "cr = \<lparr>cr_network = n, cr_baseIP = net_IP n, cr_size = 2 ^ (8 * L - ones), cr_bitmap = NewBitmap (2 ^ (8 * L - ones)),
      cr_prefixLen = ones, cr_ipLen = L\<rparr>"
    using assms h L by (auto simp: parseCIDRRange_def n ms Let_def IP_To4_def IP_To16_def split: if_splits)
  moreover have "addr_block n (net_IP n) (2 ^ (8 * L - ones)) L" using pn h by (auto simp: addr_block_def)
  ultimately show "range_wf cr" "cr_bits cr = {}" by (simp_all add: range_wf_def bm.new_invar bm.new_cap bm.new_bits)
qed

lemma parse_ranges_wf:
  "parse_ranges cs = Inr crs \<Longrightarrow> list_all range_wf crs \<and> (\<forall>cr \<in> set crs. cr_bits cr = {})"
  by (induction cs arbitrary: crs) (auto simp: parseCIDRRange_wf split: sum.splits)

lemma ranges_state_empty: "\<forall>cr \<in> set crs. cr_bits cr = {} \<Longrightarrow> ranges_state crs ip \<noteq> Some True"
  by (induction crs) (auto split: option.split)

definition fresh_entry :: "string \<Rightarrow> bool \<Rightarrow> bool" where
  "fresh_entry k v \<longleftrightarrow> \<not> v \<and> (\<exists>ip. ParseIP k = Some ip \<and> k = pname ip)"

lemma parse_addresses_wf:
  "parse_addresses as m = Inr m' \<Longrightarrow> (\<And>k v. m k = Some v \<Longrightarrow> fresh_entry k v) \<Longrightarrow> m' k = Some v \<Longrightarrow> fresh_entry k v"
proof (induction as arbitrary: m)
  case (Cons a as)
  then obtain ip where ip: "ParseIP a = Some ip" "parse_addresses as (m(IP_String ip \<mapsto> False)) = Inr m'"
    by (auto split: option.splits)
  have len: "length ip = 16" using length_ParseIP [OF ip(1)] .
  then have "IP_String ip = pname ip" by (simp add: IP_String_pname)
  moreover have "ParseIP (pname ip) = Some ip" using len by (simp add: ParseIP_pname IP_To16_def)
  ultimately have "fresh_entry (IP_String ip) False" by (auto simp: fresh_entry_def)
  then have "\<And>k v. (m(IP_String ip \<mapsto> False)) k = Some v \<Longrightarrow> fresh_entry k v"
    using Cons.prems(2) by (auto split: if_splits)
  from Cons.IH [OF ip(2) this Cons.prems(3)] show ?case .
qed simp

lemma NewPool_wf:
  assumes new: "NewPool cfg = Inr p" and dj: "sources_disjoint p"
  shows "Pool_wf p"
proof -
  obtain crs m where p: "parse_ranges (pc_CIDRs cfg) = Inr crs" "parse_addresses (pc_Addresses cfg) Map.empty = Inr m"
      "p_ranges p = crs" "p_discreteAddrs p = m" "p_allocations p = Map.empty"
    using new by (auto simp: NewPool_def split: sum.splits)
  note r = parse_ranges_wf [OF p(1)]
  have m: "fresh_entry k v" if "m k = Some v" for k v
    using parse_addresses_wf [OF p(2) _ that] by simp
  have "pool_state p ip \<noteq> Some True" for ip
  proof (cases "m (pname ip)")
    case None
    with ranges_state_empty [of crs ip] r show ?thesis by (simp add: pool_state_def p)
  next
    case (Some v)
    with m [OF Some] show ?thesis by (simp add: pool_state_def p fresh_entry_def)
  qed
  moreover have "\<exists>ip. ParseIP k = Some ip \<and> k = pname ip" if "k \<in> dom m" for k
    using m that by (auto simp: fresh_entry_def)
  ultimately show ?thesis using r dj p by (simp add: Pool_wf_def)
qed

text \<open>A check of the separation condition that looks only at the configured addresses.\<close>

lemma sources_disjointI:
  assumes "ranges_disjoint (p_ranges p)"
    and "\<And>k ip. p_discreteAddrs p k \<noteq> None \<Longrightarrow> ParseIP k = Some ip \<Longrightarrow> ranges_state (p_ranges p) ip = None"
    and "\<And>k. p_discreteAddrs p k \<noteq> None \<Longrightarrow> ParseIP k \<noteq> None"
  shows "sources_disjoint p"
proof -
  have "ranges_state (p_ranges p) ip = None" if k: "p_discreteAddrs p (pname ip) \<noteq> None" for ip
  proof -
    obtain y where y: "ParseIP (pname ip) = Some y" using assms(3) [OF k] by blast
    then have "IP_To16 ip = Some y" by (simp add: ParseIP_pname)
    moreover from this have "IP_To16 y = Some y" by (auto simp: IP_To16_def split: if_splits)
    ultimately have "pname ip = pname y" by (simp add: pname_eq_iff)
    with assms(2) [OF k y] ranges_state_pname show ?thesis by metis
  qed
  with assms(1) show ?thesis by (simp add: sources_disjoint_def)
qed

inductive pool_step :: "Pool \<Rightarrow> Pool \<Rightarrow> bool" where
  pool_step_Allocate: "pool_order ks p \<Longrightarrow> Pool_Allocate ks now own res p = (r, p') \<Longrightarrow> pool_step p p'"
| pool_step_AllocateSpecific: "Pool_AllocateSpecific ip now own res p = (e, p') \<Longrightarrow> pool_step p p'"
| pool_step_Release: "Pool_Release ip p = (e, p') \<Longrightarrow> pool_step p p'"

abbreviation pool_run :: "Pool \<Rightarrow> Pool \<Rightarrow> bool" where
  "pool_run \<equiv> pool_step\<^sup>*\<^sup>*"

lemma pool_step_wf: "pool_step p p' \<Longrightarrow> Pool_wf p \<Longrightarrow> Pool_wf p' \<and> pool_names p' = pool_names p"
  by (induction rule: pool_step.induct)
     (auto dest: pl.allocate_invar pl.specific_invar pl.release_invar)

lemma pool_run_wf: "pool_run p p' \<Longrightarrow> Pool_wf p \<Longrightarrow> Pool_wf p' \<and> pool_names p' = pool_names p"
  by (induction rule: rtranclp_induct) (auto dest: pool_step_wf)

section \<open>Counting\<close>

definition range_names :: "cidrRange list \<Rightarrow> string set" where
  "range_names crs = {pname ip | ip. ranges_state crs ip \<noteq> None}"

lemma range_names_Cons:
  assumes "range_wf cr"
  shows "range_names (cr # crs) = (\<lambda>i. pname (block_addr (cr_baseIP cr) (cr_ipLen cr) i)) ` {..<cr_size cr} \<union> range_names crs"
proof -
  have blk: "addr_block (cr_network cr) (cr_baseIP cr) (cr_size cr) (cr_ipLen cr)" using assms by (simp add: range_wf_def)
  have "cr_index cr ip \<noteq> None \<longleftrightarrow> (\<exists>i < cr_size cr. pname ip = pname (block_addr (cr_baseIP cr) (cr_ipLen cr) i))" for ip
  proof
    assume "cr_index cr ip \<noteq> None"
    then obtain i where i: "cr_index cr ip = Some i" by blast
    note lt = cr_index_lt [OF i]
    have "cr_index cr (block_addr (cr_baseIP cr) (cr_ipLen cr) i) = Some i"
      using block_index_addr [OF blk lt] by (simp add: cr_index_def)
    with cr_index_pname [OF assms i] lt show "\<exists>i < cr_size cr. pname ip = pname (block_addr (cr_baseIP cr) (cr_ipLen cr) i)" by metis
  next
    assume "\<exists>i < cr_size cr. pname ip = pname (block_addr (cr_baseIP cr) (cr_ipLen cr) i)"
    then obtain i where i: "i < cr_size cr" "pname ip = pname (block_addr (cr_baseIP cr) (cr_ipLen cr) i)" by blast
    with block_index_addr [OF blk i(1)] pname_block_index [OF i(2)] show "cr_index cr ip \<noteq> None" by (simp add: cr_index_def)
  qed
  moreover have "ranges_state (cr # crs) ip \<noteq> None \<longleftrightarrow> cr_index cr ip \<noteq> None \<or> ranges_state crs ip \<noteq> None" for ip
    by (auto split: option.split)
  ultimately show ?thesis unfolding range_names_def by auto
qed

lemma range_names_card:
  "list_all range_wf crs \<Longrightarrow> ranges_disjoint crs \<Longrightarrow>
   finite (range_names crs) \<and> card (range_names crs) = sum_list (map cr_size crs)"
proof (induction crs)
  case Nil
  then show ?case by (simp add: range_names_def)
next
  case (Cons cr crs)
  then have wf: "range_wf cr" "list_all range_wf crs" and dj: "ranges_disjoint crs"
    and sep: "\<forall>c \<in> set crs. \<forall>ip. cr_index cr ip = None \<or> cr_index c ip = None"
    by (simp_all add: ranges_disjoint_def)
  let ?f = "\<lambda>i. pname (block_addr (cr_baseIP cr) (cr_ipLen cr) i)"
  have blk: "addr_block (cr_network cr) (cr_baseIP cr) (cr_size cr) (cr_ipLen cr)" using wf by (simp add: range_wf_def)
  have ix: "i < cr_size cr \<Longrightarrow> cr_index cr (block_addr (cr_baseIP cr) (cr_ipLen cr) i) = Some i" for i
    using block_index_addr [OF blk] by (simp add: cr_index_def)
  have inj: "inj_on ?f {..<cr_size cr}"
  proof (rule inj_onI)
    fix i j
    assume "i \<in> {..<cr_size cr}" "j \<in> {..<cr_size cr}" "?f i = ?f j"
    with pname_block_index [of "block_addr (cr_baseIP cr) (cr_ipLen cr) i" "block_addr (cr_baseIP cr) (cr_ipLen cr) j"] ix
    show "i = j" unfolding cr_index_def by (metis lessThan_iff option.inject)
  qed
  have "?f i \<notin> range_names crs" if "i < cr_size cr" for i
  proof
    assume "?f i \<in> range_names crs"
    then obtain ip where "?f i = pname ip" "ranges_state crs ip \<noteq> None" by (auto simp: range_names_def)
    then have "ranges_state crs (block_addr (cr_baseIP cr) (cr_ipLen cr) i) \<noteq> None" using ranges_state_pname by metis
    with ranges_state_member sep ix [OF that] show False by (metis option.distinct(1))
  qed
  then have "?f ` {..<cr_size cr} \<inter> range_names crs = {}" by auto
  with Cons.IH [OF wf(2) dj] show ?case
    unfolding range_names_Cons [OF wf(1)] by (simp add: card_Un_disjoint card_image [OF inj])
qed

lemma foldl_sizes: "foldl (\<lambda>t cr. t + int (cr_size cr)) t0 crs = t0 + int (sum_list (map cr_size crs))"
  by (induction crs arbitrary: t0) simp_all

lemma pool_total:
  assumes wf: "Pool_wf p" and fin: "finite (dom (p_discreteAddrs p))"
  shows "finite (pool_names p)" "ps_Total (Pool_Status ks p) = int (card (pool_names p))"
proof -
  have r: "list_all range_wf (p_ranges p)" "ranges_disjoint (p_ranges p)"
    and sd: "\<And>ip. p_discreteAddrs p (pname ip) \<noteq> None \<Longrightarrow> ranges_state (p_ranges p) ip = None"
    and keys: "\<And>k. k \<in> dom (p_discreteAddrs p) \<Longrightarrow> \<exists>ip. k = pname ip"
    using wf by (auto simp: Pool_wf_def sources_disjoint_def)
  have "pool_names p = dom (p_discreteAddrs p) \<union> range_names (p_ranges p)"
    using keys by (fastforce simp: pool_names_def range_names_def pool_state_def split: option.splits)
  moreover have "dom (p_discreteAddrs p) \<inter> range_names (p_ranges p) = {}"
    using sd by (auto simp: range_names_def domIff)
  moreover note range_names_card [OF r]
  ultimately show "finite (pool_names p)" "ps_Total (Pool_Status ks p) = int (card (pool_names p))"
    using fin by (simp_all add: card_Un_disjoint Pool_Status_def foldl_sizes map_len_def Let_def)
qed

section \<open>Properties\<close>

definition ex_cfg :: PoolConfig where
  "ex_cfg = \<lparr>pc_Name = ''lb'', pc_Type = PoolTypeLoadBalancerVIP, pc_CIDRs = [''10.0.0.0/30''], pc_Addresses = [''10.0.1.1''],
     pc_AutoAssign = True, pc_Owner = ''ops''\<rparr>"

definition ex_range :: cidrRange where
  "ex_range = \<lparr>cr_network = \<lparr>net_IP = [10, 0, 0, 0], net_Mask = [255, 255, 255, 252]\<rparr>, cr_baseIP = [10, 0, 0, 0],
     cr_size = 4, cr_bitmap = \<lparr>bm_words = [0], bm_size = 4\<rparr>, cr_prefixLen = 30, cr_ipLen = 4\<rparr>"

definition ex_pool :: Pool where
  "ex_pool = \<lparr>p_name = ''lb'', p_poolType = PoolTypeLoadBalancerVIP, p_autoAssign = True, p_owner = ''ops'',
     p_ranges = [ex_range], p_discreteAddrs = [''10.0.1.1'' \<mapsto> False], p_allocations = Map.empty\<rparr>"

lemmas ip_eval = IP_String_def IP_To4_def IP_To16_def string4_def dec_str_def base_str.simps digit_char_def char_of_def bit_0
  v4InV6Prefix_def dec_val_def ParseAddr_def ParseIP_def

lemma ex_parseCIDRRange: "parseCIDRRange ''10.0.0.0/30'' = Inr ex_range"
  by (simp add: parseCIDRRange_def ex_ParseCIDR ex_mask ex_range_def IP_To4_def NewBitmap_def Let_def)

lemma ex_NewPool: "NewPool ex_cfg = Inr ex_pool"
  by (simp add: NewPool_def ex_cfg_def ex_pool_def ex_parseCIDRRange ip_eval)

lemma ex_disjoint: "sources_disjoint ex_pool"
  by (rule sources_disjointI)
     (auto simp: ex_pool_def ex_range_def ranges_disjoint_def ip_eval cr_index_def block_index_def IP_num_def be_nat_def
       split: if_splits)


lemma ex_order: "pool_order [''10.0.1.1''] ex_pool"
  by (simp add: enumerates_def ex_pool_def)

definition ex_pool1 :: Pool where
  "ex_pool1 = ex_pool\<lparr>p_ranges := [ex_range\<lparr>cr_bitmap := \<lparr>bm_words = [1], bm_size = 4\<rparr>\<rparr>],
     p_allocations := [''10.0.0.0'' \<mapsto> \<lparr>ai_IP = [10, 0, 0, 0], ai_Owner = ''svc'', ai_Resource = ''a'', ai_Timestamp = 7\<rparr>]\<rparr>"

lemma ex_pool_Allocate: "Pool_Allocate [''10.0.1.1''] 7 ''svc'' ''a'' ex_pool = (Inr [10, 0, 0, 0], ex_pool1)"
  by (simp add: Pool_Allocate_def ex_pool1_def ex_pool_def ex_range_def Bitmap_FindFree_def FindFree_bits.simps Bitmap_Set_def
      bit64_def indexToIP_def be_nat_def big_Bytes.simps ip_eval Let_def)


text \<open>
  Allocating and releasing is a round trip: after the release the recorded allocations are what
  they were, and the address is available again.
\<close>

theorem pool_allocate_release:
  assumes "NewPool cfg = Inr p0" and "sources_disjoint p0" and "pool_run p0 p" and "pool_order ks p"
    and "Pool_Allocate ks now own res p = (Inr ip, p')"
  shows "\<exists>p''. Pool_Release ip p' = (None, p'') \<and> p_allocations p'' = p_allocations p \<and>
    Pool_IsAvailable ip p'' = Some True \<and> Pool_IsAvailable ip p' = Some False"
proof -
  have wf: "Pool_wf p" using pool_run_wf [OF assms(3) NewPool_wf [OF assms(1,2)]] by simp
  have "Pool_IsAvailable ip p' = Some False"
    using pl.available_iff [OF pl.allocate_invar(1) [OF wf assms(4,5)], of ip] pl.allocate_fresh(3) [OF wf assms(4,5)] by simp
  with pl.allocate_then_release [OF wf assms(4,5)] show ?thesis by blast
qed

theorem pool_allocate_release_witness:
  "\<exists>p''. Pool_Release [10, 0, 0, 0] ex_pool1 = (None, p'') \<and> p_allocations p'' = p_allocations ex_pool"
  using pool_allocate_release [OF ex_NewPool ex_disjoint _ ex_order ex_pool_Allocate] by blast

text \<open>
  The status of a pool counts addresses: the total is the number of addresses of the pool, the
  available count the number of those without an allocation, and \<open>Allocate\<close> reports that no address
  is free exactly when that count is zero.
\<close>

theorem pool_status_counts:
  assumes "NewPool cfg = Inr p0" and "sources_disjoint p0" and "pool_run p0 p" and "pool_order ks p"
  shows "ps_Total (Pool_Status as p) = int (card (pool_names p)) \<and>
    ps_Available (Pool_Status as p) = int (card (pool_names p - dom (p_allocations p))) \<and>
    (fst (Pool_Allocate ks now own res p) = Inl ErrNoFreeAddresses \<longleftrightarrow> ps_Available (Pool_Status as p) = 0)"
proof -
  have wf: "Pool_wf p" using pool_run_wf [OF assms(3) NewPool_wf [OF assms(1,2)]] by simp
  note t = pool_total(1) [OF wf enumerates_finite [OF assms(4)]] pool_total(2) [OF wf enumerates_finite [OF assms(4)], of as]
  have sub: "dom (p_allocations p) \<subseteq> pool_names p" by (rule pl.allocs_names [OF wf])
  then have fin: "finite (dom (p_allocations p))" using t(1) by (rule finite_subset)
  have av: "ps_Available (Pool_Status as p) = int (card (pool_names p - dom (p_allocations p)))"
    using t(2) card_Diff_subset [OF fin sub] card_mono [OF t(1) sub]
    by (simp add: Pool_Status_def map_len_def Let_def of_nat_diff)
  have "ps_Available (Pool_Status as p) = 0 \<longleftrightarrow> pool_names p \<subseteq> dom (p_allocations p)"
    unfolding av using t(1) by auto
  moreover have "fst (Pool_Allocate ks now own res p) = Inl ErrNoFreeAddresses \<longleftrightarrow> pool_names p \<subseteq> dom (p_allocations p)"
    using pl.allocate_full [OF wf assms(4), of now own res] pl.allocate_free [OF wf assms(4), of now own res] by fastforce
  ultimately show ?thesis using t(2) av by simp
qed

theorem pool_status_counts_witness:
  "ps_Total (Pool_Status [] ex_pool) = int (card (pool_names ex_pool)) \<and> ps_Available (Pool_Status [] ex_pool) = 5"
  using pool_status_counts [OF ex_NewPool ex_disjoint _ ex_order, of "[]"]
  by (simp add: Pool_Status_def map_len_def ex_pool_def ex_range_def Let_def)

definition ex_overlap_cfg :: PoolConfig where
  "ex_overlap_cfg = ex_cfg\<lparr>pc_Addresses := [''10.0.0.0'']\<rparr>"

text \<open>The separation of the sources is needed: a pool with a discrete address in one of its CIDRs hands that
  address out a second time while the first allocation is still recorded.\<close>

lemma ex_overlap_pool:
  "\<exists>p p1 p2. NewPool ex_overlap_cfg = Inr p \<and>
     Pool_Allocate [''10.0.0.0''] 7 ''svc'' ''a'' p = (Inr [10, 0, 0, 0], p1) \<and>
     map_option ai_Owner (p_allocations p1 ''10.0.0.0'') = Some ''svc'' \<and>
     Pool_AllocateSpecific [10, 0, 0, 0] 8 ''other'' ''b'' p1 = (None, p2) \<and>
     map_option ai_Owner (p_allocations p2 ''10.0.0.0'') = Some ''other''"
  by (simp add: NewPool_def ex_overlap_cfg_def ex_cfg_def ex_parseCIDRRange Pool_Allocate_def ex_range_def Bitmap_FindFree_def
      FindFree_bits.simps Bitmap_Set_def bit64_def indexToIP_def be_nat_def big_Bytes.simps ip_eval Let_def
      Pool_AllocateSpecific_def normalizeIP_def)

end
