(* ===== verification/IPAM_Manager.thy ===== *)
theory IPAM_Manager
  imports IPAM_Pool
begin

text \<open>
  The IPAM manager, \<open>internal/ipam/manager.go\<close>, which routes requests to named pools, and the gRPC
  service on top of it, \<open>internal/ipam/grpc_server.go\<close>. The manager is the map from names to pools. A
  request that ranges over the pools takes the order of the pool names (\<open>ps\<close>) and, for every pool, the
  order of its discrete addresses (\<open>ord\<close>). The generated protobuf messages are records with the fields
  that the handlers read or write.
\<close>

section \<open>The manager\<close>

datatype ManagerError = ErrPoolAlreadyRegistered | ErrPoolNotFound | PoolError IpamError

type_synonym Manager = "string \<rightharpoonup> Pool"

definition NewManager :: Manager where
  "NewManager = Map.empty"

definition RegisterPool :: "PoolConfig \<Rightarrow> Manager \<Rightarrow> ManagerError option \<times> Manager" where
  "RegisterPool cfg m =
     (if m (pc_Name cfg) \<noteq> None then (Some ErrPoolAlreadyRegistered, m)
      else (case NewPool cfg of
              Inl e \<Rightarrow> (Some (PoolError e), m)
            | Inr pool \<Rightarrow> (None, m(pc_Name cfg \<mapsto> pool))))"

definition UpdatePool :: "PoolConfig \<Rightarrow> Manager \<Rightarrow> ManagerError option \<times> Manager" where
  "UpdatePool cfg m =
     (case NewPool cfg of
        Inl e \<Rightarrow> (Some (PoolError e), m)
      | Inr pool \<Rightarrow> (None, m(pc_Name cfg \<mapsto> pool)))"

definition UnregisterPool :: "string \<Rightarrow> Manager \<Rightarrow> Manager" where
  "UnregisterPool name m = map_del m name"

definition getPool :: "string \<Rightarrow> Manager \<Rightarrow> ManagerError + Pool" where
  "getPool name m = (case m name of None \<Rightarrow> Inl ErrPoolNotFound | Some pool \<Rightarrow> Inr pool)"

definition Manager_Allocate ::
    "(string \<Rightarrow> string list) \<Rightarrow> int \<Rightarrow> string \<Rightarrow> string \<Rightarrow> string \<Rightarrow> Manager \<Rightarrow> (ManagerError + IP) \<times> Manager" where
  "Manager_Allocate ord now poolName owner resource m =
     (case getPool poolName m of
        Inl e \<Rightarrow> (Inl e, m)
      | Inr pool \<Rightarrow>
          (case Pool_Allocate (ord poolName) now owner resource pool of
             (Inl e, pool') \<Rightarrow> (Inl (PoolError e), m(poolName \<mapsto> pool'))
           | (Inr ip, pool') \<Rightarrow> (Inr ip, m(poolName \<mapsto> pool'))))"

fun AllocateByType_loop ::
    "(string \<Rightarrow> string list) \<Rightarrow> int \<Rightarrow> string list \<Rightarrow> PoolType \<Rightarrow> string \<Rightarrow> string \<Rightarrow> Manager \<Rightarrow>
     (ManagerError + IP \<times> string) \<times> Manager" where
  "AllocateByType_loop ord now [] poolType owner resource m = (Inl (PoolError ErrNoFreeAddresses), m)"
| "AllocateByType_loop ord now (n # ns) poolType owner resource m =
     (case m n of
        None \<Rightarrow> AllocateByType_loop ord now ns poolType owner resource m
      | Some pool \<Rightarrow>
          if p_poolType pool \<noteq> poolType \<or> \<not> p_autoAssign pool
          then AllocateByType_loop ord now ns poolType owner resource m
          else (case Pool_Allocate (ord n) now owner resource pool of
                  (Inl e, pool') \<Rightarrow> AllocateByType_loop ord now ns poolType owner resource (m(n \<mapsto> pool'))
                | (Inr ip, pool') \<Rightarrow> (Inr (ip, p_name pool'), m(n \<mapsto> pool'))))"

definition AllocateByType ::
    "(string \<Rightarrow> string list) \<Rightarrow> int \<Rightarrow> string list \<Rightarrow> PoolType \<Rightarrow> string \<Rightarrow> string \<Rightarrow> Manager \<Rightarrow>
     (ManagerError + IP \<times> string) \<times> Manager" where
  "AllocateByType ord now ps poolType owner resource m = AllocateByType_loop ord now ps poolType owner resource m"

definition Manager_AllocateSpecific ::
    "int \<Rightarrow> string \<Rightarrow> IP \<Rightarrow> string \<Rightarrow> string \<Rightarrow> Manager \<Rightarrow> ManagerError option \<times> Manager" where
  "Manager_AllocateSpecific now poolName ip owner resource m =
     (case getPool poolName m of
        Inl e \<Rightarrow> (Some e, m)
      | Inr pool \<Rightarrow>
          (case Pool_AllocateSpecific ip now owner resource pool of
             (e, pool') \<Rightarrow> (map_option PoolError e, m(poolName \<mapsto> pool'))))"

definition Manager_Release :: "string \<Rightarrow> IP \<Rightarrow> Manager \<Rightarrow> ManagerError option \<times> Manager" where
  "Manager_Release poolName ip m =
     (case getPool poolName m of
        Inl e \<Rightarrow> (Some e, m)
      | Inr pool \<Rightarrow> (case Pool_Release ip pool of (e, pool') \<Rightarrow> (map_option PoolError e, m(poolName \<mapsto> pool'))))"

text \<open>\<open>Validate\<close>: a panic of \<open>IsAvailable\<close> is the error of the pool.\<close>

definition Validate :: "string \<Rightarrow> IP \<Rightarrow> Manager \<Rightarrow> ManagerError + bool" where
  "Validate poolName ip m =
     (case getPool poolName m of
        Inl e \<Rightarrow> Inl e
      | Inr pool \<Rightarrow> (case Pool_IsAvailable ip pool of None \<Rightarrow> Inl (PoolError RuntimePanic) | Some b \<Rightarrow> Inr b))"

text \<open>The order in which \<open>Status\<close> lists the allocations of a pool is the argument \<open>aord\<close>.\<close>

definition GetPool :: "(string \<Rightarrow> string list) \<Rightarrow> string \<Rightarrow> Manager \<Rightarrow> ManagerError + PoolStatus" where
  "GetPool aord name m =
     (case getPool name m of Inl e \<Rightarrow> Inl e | Inr pool \<Rightarrow> Inr (Pool_Status (aord name) pool))"

definition ListPools :: "(string \<Rightarrow> string list) \<Rightarrow> string list \<Rightarrow> PoolType option \<Rightarrow> Manager \<Rightarrow> PoolStatus list" where
  "ListPools aord ps filterType m =
     concat (map (\<lambda>n. case m n of
         None \<Rightarrow> []
       | Some pool \<Rightarrow>
           (case filterType of
              Some t \<Rightarrow> if p_poolType pool \<noteq> t then [] else [Pool_Status (aord n) pool]
            | None \<Rightarrow> [Pool_Status (aord n) pool])) ps)"

definition ListAllocations ::
    "(string \<Rightarrow> string list) \<Rightarrow> string list \<Rightarrow> string \<Rightarrow> string \<Rightarrow> PoolType option \<Rightarrow> Manager \<Rightarrow> AllocationInfo list" where
  "ListAllocations aord ps filterPool filterOwner filterType m =
     concat (map (\<lambda>n. case m n of
         None \<Rightarrow> []
       | Some pool \<Rightarrow>
           if filterPool \<noteq> [] \<and> p_name pool \<noteq> filterPool then []
           else if (case filterType of None \<Rightarrow> False | Some t \<Rightarrow> p_poolType pool \<noteq> t) then []
           else filter (\<lambda>a. \<not> (filterOwner \<noteq> [] \<and> ai_Owner a \<noteq> filterOwner))
                  (ps_Allocations (Pool_Status (aord n) pool))) ps)"

fun FindPoolForIP :: "string list \<Rightarrow> IP \<Rightarrow> Manager \<Rightarrow> string option" where
  "FindPoolForIP [] ip m = None"
| "FindPoolForIP (n # ns) ip m =
     (case m n of
        None \<Rightarrow> FindPoolForIP ns ip m
      | Some pool \<Rightarrow> if Pool_Contains ip pool then Some n else FindPoolForIP ns ip m)"

section \<open>The gRPC service\<close>

datatype GrpcCode = ResourceExhausted | InvalidArgument | AlreadyExists | NotFound

record AllocateRequest =
  areq_PoolName :: string
  areq_PoolType :: string
  areq_Owner :: string
  areq_Resource :: string

record AllocateResponse =
  aresp_Ip :: string
  aresp_PoolName :: string

record IPRequest =
  req_PoolName :: string
  req_Ip :: string
  req_Owner :: string
  req_Resource :: string

record ValidateResponse =
  vr_Valid :: bool
  vr_Available :: bool

record IPAllocationInfo =
  ia_Ip :: string
  ia_Owner :: string
  ia_Resource :: string
  ia_TimestampUnix :: int

record PoolInfo =
  pi_Name :: string
  pi_Type :: string
  pi_Allocated :: "32 word"
  pi_Total :: "32 word"
  pi_Available :: "32 word"

definition GRPC_Allocate ::
    "(string \<Rightarrow> string list) \<Rightarrow> int \<Rightarrow> string list \<Rightarrow> AllocateRequest \<Rightarrow> Manager \<Rightarrow> (GrpcCode + AllocateResponse) \<times> Manager" where
  "GRPC_Allocate ord now ps req m =
     (if areq_PoolName req \<noteq> [] then
        (case Manager_Allocate ord now (areq_PoolName req) (areq_Owner req) (areq_Resource req) m of
           (Inl e, m') \<Rightarrow> (Inl ResourceExhausted, m')
         | (Inr ip, m') \<Rightarrow> (Inr \<lparr>aresp_Ip = IP_String ip, aresp_PoolName = areq_PoolName req\<rparr>, m'))
      else if areq_PoolType req \<noteq> [] then
        (case AllocateByType ord now ps (areq_PoolType req) (areq_Owner req) (areq_Resource req) m of
           (Inl e, m') \<Rightarrow> (Inl ResourceExhausted, m')
         | (Inr (ip, poolName), m') \<Rightarrow> (Inr \<lparr>aresp_Ip = IP_String ip, aresp_PoolName = poolName\<rparr>, m'))
      else (Inl InvalidArgument, m))"

definition GRPC_AllocateSpecific :: "int \<Rightarrow> IPRequest \<Rightarrow> Manager \<Rightarrow> GrpcCode option \<times> Manager" where
  "GRPC_AllocateSpecific now req m =
     (if req_PoolName req = [] then (Some InvalidArgument, m)
      else (case ParseIP (req_Ip req) of
              None \<Rightarrow> (Some InvalidArgument, m)
            | Some ip \<Rightarrow>
                (case Manager_AllocateSpecific now (req_PoolName req) ip (req_Owner req) (req_Resource req) m of
                   (Some e, m') \<Rightarrow> (Some AlreadyExists, m')
                 | (None, m') \<Rightarrow> (None, m'))))"

definition GRPC_Release :: "IPRequest \<Rightarrow> Manager \<Rightarrow> GrpcCode option \<times> Manager" where
  "GRPC_Release req m =
     (if req_PoolName req = [] then (Some InvalidArgument, m)
      else (case ParseIP (req_Ip req) of
              None \<Rightarrow> (Some InvalidArgument, m)
            | Some ip \<Rightarrow>
                (case Manager_Release (req_PoolName req) ip m of
                   (Some e, m') \<Rightarrow> (Some NotFound, m')
                 | (None, m') \<Rightarrow> (None, m'))))"

definition GRPC_Validate :: "IPRequest \<Rightarrow> Manager \<Rightarrow> GrpcCode + ValidateResponse" where
  "GRPC_Validate req m =
     (if req_PoolName req = [] then Inl InvalidArgument
      else (case ParseIP (req_Ip req) of
              None \<Rightarrow> Inr \<lparr>vr_Valid = False, vr_Available = False\<rparr>
            | Some ip \<Rightarrow>
                (case Validate (req_PoolName req) ip m of
                   Inl e \<Rightarrow> Inl NotFound
                 | Inr available \<Rightarrow> Inr \<lparr>vr_Valid = True, vr_Available = available\<rparr>)))"

text \<open>\<open>int32\<close> conversions keep the low 32 bits. \<open>Timestamp.Unix\<close> is the identity on the model's clock,
  which counts seconds.\<close>

definition alloc_info_pb :: "AllocationInfo \<Rightarrow> IPAllocationInfo" where
  "alloc_info_pb a = \<lparr>ia_Ip = IP_String (ai_IP a), ia_Owner = ai_Owner a, ia_Resource = ai_Resource a,
     ia_TimestampUnix = ai_Timestamp a\<rparr>"

definition pool_info_pb :: "PoolStatus \<Rightarrow> PoolInfo" where
  "pool_info_pb s = \<lparr>pi_Name = ps_Name s, pi_Type = ps_Type s, pi_Allocated = of_int (ps_Allocated s),
     pi_Total = of_int (ps_Total s), pi_Available = of_int (ps_Available s)\<rparr>"

definition GRPC_GetPool :: "(string \<Rightarrow> string list) \<Rightarrow> string \<Rightarrow> Manager \<Rightarrow> GrpcCode + PoolInfo \<times> IPAllocationInfo list" where
  "GRPC_GetPool aord name m =
     (case GetPool aord name m of
        Inl e \<Rightarrow> Inl NotFound
      | Inr s \<Rightarrow> Inr (pool_info_pb s, map alloc_info_pb (ps_Allocations s)))"

definition GRPC_ListIPPools :: "(string \<Rightarrow> string list) \<Rightarrow> string list \<Rightarrow> string \<Rightarrow> Manager \<Rightarrow> PoolInfo list" where
  "GRPC_ListIPPools aord ps typeFilter m =
     map pool_info_pb (ListPools aord ps (if typeFilter \<noteq> [] then Some typeFilter else None) m)"

definition GRPC_ListIPAllocations ::
    "(string \<Rightarrow> string list) \<Rightarrow> string list \<Rightarrow> string \<Rightarrow> string \<Rightarrow> string \<Rightarrow> Manager \<Rightarrow> IPAllocationInfo list" where
  "GRPC_ListIPAllocations aord ps poolFilter ownerFilter typeFilter m =
     map alloc_info_pb (ListAllocations aord ps poolFilter ownerFilter (if typeFilter \<noteq> [] then Some typeFilter else None) m)"

section \<open>Runs of the manager\<close>

definition Manager_wf :: "Manager \<Rightarrow> bool" where
  "Manager_wf m \<longleftrightarrow> (\<forall>n pool. m n = Some pool \<longrightarrow> Pool_wf pool \<and> p_name pool = n)"

definition orders_ok :: "(string \<Rightarrow> string list) \<Rightarrow> Manager \<Rightarrow> bool" where
  "orders_ok ord m \<longleftrightarrow> (\<forall>n pool. m n = Some pool \<longrightarrow> pool_order (ord n) pool)"

text \<open>A configuration whose CIDRs and addresses do not overlap.\<close>

definition separate_cfg :: "PoolConfig \<Rightarrow> bool" where
  "separate_cfg cfg \<longleftrightarrow> (\<forall>p. NewPool cfg = Inr p \<longrightarrow> sources_disjoint p)"

inductive manager_step :: "Manager \<Rightarrow> Manager \<Rightarrow> bool" where
  mgr_Register: "separate_cfg cfg \<Longrightarrow> RegisterPool cfg m = (e, m') \<Longrightarrow> manager_step m m'"
| mgr_Update: "separate_cfg cfg \<Longrightarrow> UpdatePool cfg m = (e, m') \<Longrightarrow> manager_step m m'"
| mgr_Unregister: "manager_step m (UnregisterPool n m)"
| mgr_Allocate: "orders_ok ord m \<Longrightarrow> Manager_Allocate ord now n own res m = (r, m') \<Longrightarrow> manager_step m m'"
| mgr_AllocateByType: "orders_ok ord m \<Longrightarrow> enumerates ps m \<Longrightarrow> AllocateByType ord now ps t own res m = (r', m') \<Longrightarrow> manager_step m m'"
| mgr_AllocateSpecific: "Manager_AllocateSpecific now n ip own res m = (e, m') \<Longrightarrow> manager_step m m'"
| mgr_Release: "Manager_Release n ip m = (e, m') \<Longrightarrow> manager_step m m'"

lemma pool_ops_name:
  "Pool_Allocate ks now own res p = (r, p') \<Longrightarrow> p_name p' = p_name p"
  "Pool_AllocateSpecific ip now own res p = (e, p') \<Longrightarrow> p_name p' = p_name p"
  "Pool_Release ip p = (e, p') \<Longrightarrow> p_name p' = p_name p"
  by (auto simp: Pool_Allocate_def Pool_AllocateSpecific_def Pool_Release_def Let_def
      split: option.splits sum.splits if_splits)

lemma NewPool_name: "NewPool cfg = Inr p \<Longrightarrow> p_name p = pc_Name cfg"
  by (auto simp: NewPool_def split: sum.splits)

lemma Manager_wf_upd: "Manager_wf m \<Longrightarrow> Pool_wf pool \<Longrightarrow> p_name pool = n \<Longrightarrow> Manager_wf (m(n \<mapsto> pool))"
  by (simp add: Manager_wf_def)

text \<open>A failing \<open>Allocate\<close> of a well-formed pool leaves the pool as it is.\<close>

lemma pool_allocate_Inl:
  assumes "Pool_wf p" "pool_order ks p" "Pool_Allocate ks now own res p = (Inl e, p')"
  shows "p' = p" "e = ErrNoFreeAddresses" "pool_names p \<subseteq> dom (p_allocations p)"
  using pl.allocate_full [OF assms(1,2), of now own res] pl.allocate_free [OF assms(1,2), of now own res] assms(3)
  by (cases "pool_names p \<subseteq> dom (p_allocations p)"; auto)+

lemma AllocateByType_loop_result:
  assumes "Manager_wf m" "orders_ok ord m"
  shows "case AllocateByType_loop ord now ns t own res m of
      (Inl e, m') \<Rightarrow> m' = m \<and> e = PoolError ErrNoFreeAddresses \<and>
        (\<forall>n \<in> set ns. \<forall>pool. m n = Some pool \<longrightarrow> p_poolType pool = t \<longrightarrow> p_autoAssign pool \<longrightarrow>
           pool_names pool \<subseteq> dom (p_allocations pool))
    | (Inr (ip, n), m') \<Rightarrow> n \<in> set ns \<and> (\<exists>pool pool'. m n = Some pool \<and> p_poolType pool = t \<and> p_autoAssign pool \<and>
        Pool_Allocate (ord n) now own res pool = (Inr ip, pool') \<and> m' = m(n \<mapsto> pool'))"
proof (induction ns)
  case (Cons n ns)
  show ?case
  proof (cases "m n")
    case None
    with Cons show ?thesis by (auto simp: fun_upd_def split: prod.splits sum.splits)
  next
    case (Some pool)
    with assms have wf: "Pool_wf pool" "p_name pool = n" "pool_order (ord n) pool"
      by (auto simp: Manager_wf_def orders_ok_def)
    obtain r pool' where op: "Pool_Allocate (ord n) now own res pool = (r, pool')" by fastforce
    show ?thesis
    proof (cases r)
      case (Inl e)
      with op pool_allocate_Inl [OF wf(1,3)] have "pool' = pool" "pool_names pool \<subseteq> dom (p_allocations pool)" by auto
      moreover from this Some have "m(n \<mapsto> pool') = m" by (simp add: fun_upd_idem)
      ultimately show ?thesis using Cons Some op Inl by (auto simp: fun_upd_def split: prod.splits sum.splits)
    next
      case (Inr ip)
      with pool_ops_name(1) [OF op] wf(2) Some op Cons show ?thesis by (auto simp: fun_upd_def split: prod.splits sum.splits)
    qed
  qed
qed simp

lemma manager_step_wf: "manager_step m m' \<Longrightarrow> Manager_wf m \<Longrightarrow> Manager_wf m'"
proof (induction rule: manager_step.induct)
  case (mgr_Register cfg m e m')
  then show ?case
    by (auto simp: RegisterPool_def separate_cfg_def NewPool_name split: sum.splits if_splits
        intro!: Manager_wf_upd NewPool_wf)
next
  case (mgr_Update cfg m e m')
  then show ?case
    by (auto simp: UpdatePool_def separate_cfg_def NewPool_name split: sum.splits
        intro!: Manager_wf_upd NewPool_wf)
next
  case (mgr_Unregister m n)
  then show ?case by (simp add: Manager_wf_def UnregisterPool_def)
next
  case (mgr_Allocate ord m now n own res r m')
  show ?case
  proof (cases "m n")
    case None
    with mgr_Allocate show ?thesis by (simp add: Manager_Allocate_def getPool_def)
  next
    case (Some pool)
    with mgr_Allocate have wf: "Pool_wf pool" "p_name pool = n" "pool_order (ord n) pool"
      by (auto simp: Manager_wf_def orders_ok_def)
    obtain r1 pool' where op: "Pool_Allocate (ord n) now own res pool = (r1, pool')" by fastforce
    have "Manager_wf (m(n \<mapsto> pool'))"
      using Manager_wf_upd [OF mgr_Allocate(3) pl.allocate_invar(1) [OF wf(1,3) op]] pool_ops_name(1) [OF op] wf(2) by simp
    with op mgr_Allocate(2) Some show ?thesis by (auto simp: Manager_Allocate_def getPool_def split: sum.splits)
  qed
next
  case (mgr_AllocateByType ord m ps now t own res r' m')
  note loop = AllocateByType_loop_result [OF mgr_AllocateByType(4,1), where now = now and ns = ps and t = t and own = own and res = res]
  show ?case
  proof (cases r')
    case (Inl e)
    with loop mgr_AllocateByType(3,4) show ?thesis by (simp add: AllocateByType_def)
  next
    case (Inr a)
    obtain ip n where a: "a = (ip, n)" by (cases a)
    with Inr loop mgr_AllocateByType(3) obtain pool pool' where p: "m n = Some pool"
        "Pool_Allocate (ord n) now own res pool = (Inr ip, pool')" "m' = m(n \<mapsto> pool')"
      by (auto simp: AllocateByType_def simp del: fun_upd_apply)
    then have wf: "Pool_wf pool" "p_name pool = n" "pool_order (ord n) pool"
      using mgr_AllocateByType(1,4) by (auto simp: Manager_wf_def orders_ok_def)
    with Manager_wf_upd [OF mgr_AllocateByType(4) pl.allocate_invar(1) [OF wf(1,3) p(2)]] pool_ops_name(1) [OF p(2)]
    show ?thesis unfolding p(3) by (simp add: fun_upd_def)
  qed
next
  case (mgr_AllocateSpecific now n ip own res m e m')
  show ?case
  proof (cases "m n")
    case None
    with mgr_AllocateSpecific show ?thesis by (simp add: Manager_AllocateSpecific_def getPool_def)
  next
    case (Some pool)
    with mgr_AllocateSpecific have wf: "Pool_wf pool" "p_name pool = n" by (auto simp: Manager_wf_def)
    obtain e1 pool' where op: "Pool_AllocateSpecific ip now own res pool = (e1, pool')" by fastforce
    have "Manager_wf (m(n \<mapsto> pool'))"
      using Manager_wf_upd [OF mgr_AllocateSpecific(2) pl.specific_invar(1) [OF wf(1) op]] pool_ops_name(2) [OF op] wf(2) by simp
    with op mgr_AllocateSpecific(1) Some show ?thesis by (auto simp: Manager_AllocateSpecific_def getPool_def)
  qed
next
  case (mgr_Release n ip m e m')
  show ?case
  proof (cases "m n")
    case None
    with mgr_Release show ?thesis by (simp add: Manager_Release_def getPool_def)
  next
    case (Some pool)
    with mgr_Release have wf: "Pool_wf pool" "p_name pool = n" by (auto simp: Manager_wf_def)
    obtain e1 pool' where op: "Pool_Release ip pool = (e1, pool')" by fastforce
    have "Manager_wf (m(n \<mapsto> pool'))"
      using Manager_wf_upd [OF mgr_Release(2) pl.release_invar(1) [OF wf(1) op]] pool_ops_name(3) [OF op] wf(2) by simp
    with op mgr_Release(1) Some show ?thesis by (auto simp: Manager_Release_def getPool_def)
  qed
qed

lemma manager_run_wf: "manager_step\<^sup>*\<^sup>* NewManager m \<Longrightarrow> Manager_wf m"
  by (induction rule: rtranclp_induct) (auto simp: Manager_wf_def NewManager_def dest: manager_step_wf [unfolded Manager_wf_def])

lemma pool_release_pname: "pname ip = pname ip' \<Longrightarrow> Pool_Release ip p = Pool_Release ip' p"
proof -
  assume eq: "pname ip = pname ip'"
  then have "IP_To16 ip = IP_To16 ip'" by (simp add: pname_eq_iff)
  then have "normalizeIP ip = normalizeIP ip'"
    using IP_To4_None16 IP_To4_iff_num by (cases "IP_To16 ip'") (auto simp: normalizeIP_def)
  then show ?thesis by (simp add: Pool_Release_def)
qed

lemma pool_allocate_length:
  assumes "Pool_wf p" "pool_order ks p" "Pool_Allocate ks now own res p = (Inr ip, p')"
  shows "length ip = 4 \<or> length ip = 16"
proof -
  have r: "list_all range_wf (p_ranges p)" "ranges_disjoint (p_ranges p)"
    using assms(1) by (auto simp: Pool_wf_def sources_disjoint_def)
  have d: "k \<in> dom (p_discreteAddrs p) \<Longrightarrow> \<exists>ip. ParseIP k = Some ip" for k
    using assms(1) by (auto simp: Pool_wf_def)
  from Allocate_ranges_state [OF r] show ?thesis
  proof
    assume "Allocate_ranges (p_ranges p) = Some None \<and> (\<forall>ip. ranges_state (p_ranges p) ip \<noteq> Some False)"
    with assms(3) obtain k where k: "first_unallocated ks (p_discreteAddrs p) = Some k"
        "ip = (case ParseIP k of Some ip \<Rightarrow> ip | None \<Rightarrow> [])"
      by (auto simp: Pool_Allocate_def Let_def split: option.splits)
    then obtain x where "ParseIP k = Some x" using d [of k] first_unallocated_Some [OF k(1)] by blast
    with k(2) length_ParseIP show ?thesis by simp
  qed (use assms(3) in \<open>auto simp: Pool_Allocate_def\<close>)
qed

section \<open>Properties\<close>


definition ex_mgr :: Manager where
  "ex_mgr = [''lb'' \<mapsto> ex_pool]"

lemma ex_mgr_run: "manager_step\<^sup>*\<^sup>* NewManager ex_mgr"
proof -
  have "separate_cfg ex_cfg" by (simp add: separate_cfg_def ex_NewPool ex_disjoint)
  moreover have "RegisterPool ex_cfg NewManager = (None, ex_mgr)"
    unfolding RegisterPool_def ex_NewPool by (simp add: NewManager_def ex_mgr_def ex_cfg_def fun_upd_def)
  ultimately show ?thesis by (blast intro: mgr_Register)
qed

lemma ex_mgr_orders: "orders_ok (\<lambda>n. [''10.0.1.1'']) ex_mgr"
  using ex_order by (simp add: orders_ok_def ex_mgr_def)


text \<open>
  The textual interface loses nothing: the address that the gRPC \<open>Allocate\<close> returns as text can be
  given back with the gRPC \<open>Release\<close>, which succeeds and leaves the allocations of that pool as they
  were before and all other pools untouched.
\<close>

theorem grpc_allocate_release:
  assumes "manager_step\<^sup>*\<^sup>* NewManager m" and "orders_ok ord m" and "areq_PoolName req \<noteq> []"
    and "GRPC_Allocate ord now ps req m = (Inr resp, m')"
  shows "\<exists>pool pool''. m (areq_PoolName req) = Some pool \<and>
    GRPC_Release \<lparr>req_PoolName = aresp_PoolName resp, req_Ip = aresp_Ip resp, req_Owner = [], req_Resource = []\<rparr> m' =
      (None, m(areq_PoolName req \<mapsto> pool'')) \<and> p_allocations pool'' = p_allocations pool"
proof -
  let ?n = "areq_PoolName req"
  have wf: "Manager_wf m" by (rule manager_run_wf [OF assms(1)])
  obtain ip where a: "Manager_Allocate ord now ?n (areq_Owner req) (areq_Resource req) m = (Inr ip, m')"
      "resp = \<lparr>aresp_Ip = IP_String ip, aresp_PoolName = ?n\<rparr>"
    using assms(3,4) by (auto simp: GRPC_Allocate_def split: prod.splits sum.splits)
  obtain pool pool' where p: "m ?n = Some pool" "Pool_Allocate (ord ?n) now (areq_Owner req) (areq_Resource req) pool = (Inr ip, pool')"
      "m' = m(?n \<mapsto> pool')"
    using a(1) unfolding Manager_Allocate_def getPool_def by (auto split: option.splits prod.splits sum.splits simp del: fun_upd_apply)
  have w: "Pool_wf pool" "pool_order (ord ?n) pool" using wf assms(2) p(1) by (auto simp: Manager_wf_def orders_ok_def)
  obtain pool'' where r: "Pool_Release ip pool' = (None, pool'')" "p_allocations pool'' = p_allocations pool"
    using pl.allocate_then_release [OF w p(2)] by blast
  have len: "length ip = 4 \<or> length ip = 16" using pool_allocate_length [OF w p(2)] .
  have "\<exists>y. IP_To16 ip = Some y" using len by (auto simp: IP_To16_def)
  then obtain y where y: "IP_To16 ip = Some y" by blast
  then have py: "ParseIP (IP_String ip) = Some y" using ParseIP_IP_String [OF len] by simp
  have "IP_To16 y = Some y" using length_IP_To16 [OF y] by (simp add: IP_To16_def)
  then have "Pool_Release y pool' = Pool_Release ip pool'"
    using y pool_release_pname [of y ip] by (simp add: pname_eq_iff)
  then have "Manager_Release ?n y m' = (None, m(?n \<mapsto> pool''))"
    using r(1) p(3) by (simp add: Manager_Release_def getPool_def)
  with assms(3) p(1) r(2) py show ?thesis
    by (intro exI [of _ pool] exI [of _ pool'']) (simp add: GRPC_Release_def a(2))
qed

lemma ex_grpc_Allocate:
  "GRPC_Allocate (\<lambda>n. [''10.0.1.1'']) 7 [] \<lparr>areq_PoolName = ''lb'', areq_PoolType = [], areq_Owner = ''svc'', areq_Resource = ''a''\<rparr> ex_mgr =
     (Inr \<lparr>aresp_Ip = ''10.0.0.0'', aresp_PoolName = ''lb''\<rparr>, [''lb'' \<mapsto> ex_pool1])"
  by (simp add: GRPC_Allocate_def Manager_Allocate_def getPool_def ex_mgr_def ex_pool_Allocate ip_eval)

theorem grpc_allocate_release_witness:
  "\<exists>pool''. GRPC_Release \<lparr>req_PoolName = ''lb'', req_Ip = ''10.0.0.0'', req_Owner = [], req_Resource = []\<rparr> [''lb'' \<mapsto> ex_pool1] =
     (None, ex_mgr(''lb'' \<mapsto> pool'')) \<and> p_allocations pool'' = Map.empty"
  using grpc_allocate_release [OF ex_mgr_run ex_mgr_orders _ ex_grpc_Allocate] by (auto simp: ex_mgr_def ex_pool_def)

end
