(* ===== verification/Identity.thy ===== *)
theory Identity
  imports Prelude
begin

text \<open>
  The identity allocator (\<open>internal/identity/allocator.go\<close>): label sets are interned as 64 bit
  identities by FNV-1a hashing with linear probing, and identities are reference counted.

  A label set is a finite map. The probing loop wraps around at 64 bits and ends only if an identity
  is free, so it is a partial function; \<^const>\<open>None\<close> is a loop without end.
\<close>

section \<open>Model\<close>

type_synonym Labels = "string \<rightharpoonup> string"

record IdAllocator =
  idToLabels :: "u64 \<rightharpoonup> Labels"
  refCount :: "u64 \<rightharpoonup> int"
  labelsToID :: "string \<rightharpoonup> u64"

definition id_NewAllocator :: IdAllocator where
  "id_NewAllocator = \<lparr>idToLabels = Map.empty, refCount = Map.empty, labelsToID = Map.empty\<rparr>"

text \<open>\<open>sort.Strings\<close> orders byte-wise, which is the order of \<^typ>\<open>string\<close> here.\<close>

definition canonicalLabels :: "Labels \<Rightarrow> string" where
  "canonicalLabels lbls =
     str_join '','' (map (\<lambda>k. k @ ''='' @ (case lbls k of Some v \<Rightarrow> v | None \<Rightarrow> '''')) (sorted_list_of_set (dom lbls)))"

definition hashCanonical :: "string \<Rightarrow> u64" where
  "hashCanonical canonical = fnv64a canonical"

definition HashLabels :: "Labels \<Rightarrow> u64" where
  "HashLabels lbls = hashCanonical (canonicalLabels lbls)"

partial_function (option) probe :: "(u64 \<rightharpoonup> Labels) \<Rightarrow> string \<Rightarrow> u64 \<Rightarrow> u64 option" where
  "probe m canonical ident =
     (case m ident of
        None \<Rightarrow> Some ident
      | Some storedLabels \<Rightarrow>
          if canonicalLabels storedLabels \<noteq> canonical then probe m canonical (ident + 1) else Some ident)"

text \<open>\<open>refCount[id]++\<close>; a missing entry counts as zero.\<close>

definition bump :: "u64 \<Rightarrow> (u64 \<rightharpoonup> int) \<Rightarrow> (u64 \<rightharpoonup> int)" where
  "bump ident m = m(ident \<mapsto> (case m ident of Some n \<Rightarrow> n | None \<Rightarrow> 0) + 1)"

definition AllocateIdentity :: "Labels \<Rightarrow> IdAllocator \<Rightarrow> (u64 \<times> IdAllocator) option" where
  "AllocateIdentity lbls a =
     (let canonical = canonicalLabels lbls
      in (case labelsToID a canonical of
            Some existingID \<Rightarrow> Some (existingID, a\<lparr>refCount := bump existingID (refCount a)\<rparr>)
          | None \<Rightarrow>
              (case probe (idToLabels a) canonical (hashCanonical canonical) of
                 None \<Rightarrow> None
               | Some ident \<Rightarrow>
                   let a1 = (if idToLabels a ident = None
                             then a\<lparr>idToLabels := (idToLabels a)(ident \<mapsto> lbls), labelsToID := (labelsToID a)(canonical \<mapsto> ident)\<rparr>
                             else a)
                   in Some (ident, a1\<lparr>refCount := bump ident (refCount a1)\<rparr>))))"

definition GetLabels :: "u64 \<Rightarrow> IdAllocator \<Rightarrow> Labels option" where
  "GetLabels identityID a = idToLabels a identityID"

definition GetIdentity :: "Labels \<Rightarrow> IdAllocator \<Rightarrow> u64 option" where
  "GetIdentity lbls a = labelsToID a (canonicalLabels lbls)"

definition RemoveIdentity :: "u64 \<Rightarrow> IdAllocator \<Rightarrow> IdAllocator" where
  "RemoveIdentity identityID a =
     (case refCount a identityID of
        None \<Rightarrow> a
      | Some n \<Rightarrow>
          if n \<le> 1 then
            let a1 = (case idToLabels a identityID of
                        Some lbls \<Rightarrow> a\<lparr>labelsToID := map_del (labelsToID a) (canonicalLabels lbls)\<rparr>
                      | None \<Rightarrow> a)
            in a1\<lparr>idToLabels := map_del (idToLabels a1) identityID, refCount := map_del (refCount a1) identityID\<rparr>
          else a\<lparr>refCount := (refCount a)(identityID \<mapsto> n - 1)\<rparr>)"

record IdEntry =
  ie_ID :: u64
  ie_Labels :: Labels
  ie_RefCount :: int

text \<open>\<open>ids\<close> is the order in which the run time enumerates \<open>idToLabels\<close>.\<close>

definition ListAll :: "u64 list \<Rightarrow> IdAllocator \<Rightarrow> IdEntry list" where
  "ListAll ids a =
     map (\<lambda>ident. \<lparr>ie_ID = ident, ie_Labels = (case idToLabels a ident of Some l \<Rightarrow> l | None \<Rightarrow> Map.empty),
                   ie_RefCount = (case refCount a ident of Some n \<Rightarrow> n | None \<Rightarrow> 0)\<rparr>) ids"

text \<open>\<open>selector.Matches\<close> (Kubernetes API machinery) is the predicate \<open>sel\<close>.\<close>

definition FindMatchingIdentities :: "u64 list \<Rightarrow> (Labels \<Rightarrow> bool) \<Rightarrow> IdAllocator \<Rightarrow> u64 list" where
  "FindMatchingIdentities ids sel a =
     filter (\<lambda>ident. case idToLabels a ident of Some l \<Rightarrow> sel l | None \<Rightarrow> False) ids"

definition id_Count :: "IdAllocator \<Rightarrow> nat" where
  "id_Count a = map_len (idToLabels a)"

section \<open>Canonical strings\<close>

text \<open>Kubernetes label keys and values contain neither a comma nor an equals sign.\<close>

definition label_ok :: "Labels \<Rightarrow> bool" where
  "label_ok lbls \<longleftrightarrow> finite (dom lbls) \<and>
     (\<forall>k v. lbls k = Some v \<longrightarrow> CHR '','' \<notin> set k \<and> CHR ''='' \<notin> set k \<and> CHR '','' \<notin> set v)"

definition label_parts :: "Labels \<Rightarrow> string list" where
  "label_parts lbls = map (\<lambda>k. k @ CHR ''='' # (case lbls k of Some v \<Rightarrow> v | None \<Rightarrow> '''')) (sorted_list_of_set (dom lbls))"

lemma canonicalLabels_parts: "canonicalLabels lbls = str_join [CHR '',''] (label_parts lbls)"
  by (simp add: canonicalLabels_def label_parts_def)

lemma set_label_parts:
  "finite (dom lbls) \<Longrightarrow> p \<in> set (label_parts lbls) \<longleftrightarrow> (\<exists>k v. lbls k = Some v \<and> p = k @ CHR ''='' # v)"
  by (force simp: label_parts_def)

lemma key_value_unique:
  assumes "k @ CHR ''='' # v = k' @ CHR ''='' # v'" "CHR ''='' \<notin> set k" "CHR ''='' \<notin> set k'"
  shows "k = k' \<and> v = v'"
proof -
  have "split_on (CHR ''='') (k @ CHR ''='' # v) = k # split_on (CHR ''='') v"
    "split_on (CHR ''='') (k' @ CHR ''='' # v') = k' # split_on (CHR ''='') v'"
    using assms(2,3) by (simp_all add: split_on_sep)
  with assms(1) show ?thesis by simp
qed

lemma label_parts_inject:
  assumes "label_ok l1" "label_ok l2" "set (label_parts l1) = set (label_parts l2)"
  shows "l1 = l2"
proof -
  have sub: "l' k = Some v" if lv: "label_ok l" "label_ok l'" "set (label_parts l) = set (label_parts l')" "l k = Some v" for l l' k v
  proof -
    have "k @ CHR ''='' # v \<in> set (label_parts l')"
      using lv set_label_parts [of l "k @ CHR ''='' # v"] by (auto simp: label_ok_def)
    then obtain k' v' where k': "l' k' = Some v'" "k @ CHR ''='' # v = k' @ CHR ''='' # v'"
      using lv(2) set_label_parts [of l'] by (auto simp: label_ok_def)
    have "k = k' \<and> v = v'" by (rule key_value_unique [OF k'(2)]) (use lv k'(1) in \<open>auto simp: label_ok_def\<close>)
    with k'(1) show ?thesis by simp
  qed
  show ?thesis
  proof (rule ext)
    fix k
    show "l1 k = l2 k"
      using sub [OF assms(1,2,3), of k] sub [OF assms(2,1) assms(3) [symmetric], of k] by (cases "l1 k"; cases "l2 k") auto
  qed
qed

text \<open>Canonical strings identify label sets.\<close>

lemma canonicalLabels_inject:
  assumes "label_ok l1" "label_ok l2" "canonicalLabels l1 = canonicalLabels l2"
  shows "l1 = l2"
proof -
  have clean: "\<forall>p \<in> set (label_parts l). CHR '','' \<notin> set p \<and> p \<noteq> []" if "label_ok l" for l
    using that set_label_parts [of l] by (fastforce simp: label_ok_def)
  have nil: "str_join [CHR '',''] (label_parts l) = [] \<longleftrightarrow> label_parts l = []" if "label_ok l" for l
  proof (cases "label_parts l")
    case (Cons p ps)
    with clean [OF that] show ?thesis by (cases ps) auto
  qed simp
  have eq: "str_join [CHR '',''] (label_parts l1) = str_join [CHR '',''] (label_parts l2)"
    using assms(3) by (simp add: canonicalLabels_parts)
  have "label_parts l1 = label_parts l2"
  proof (cases "label_parts l1 = []")
    case True
    then show ?thesis using nil [OF assms(1)] nil [OF assms(2)] eq by simp
  next
    case False
    then have "label_parts l2 \<noteq> []" using nil [OF assms(1)] nil [OF assms(2)] eq by metis
    then show ?thesis using str_join_inject [OF False _ _ _ eq] clean assms(1,2) by blast
  qed
  then show ?thesis by (intro label_parts_inject [OF assms(1,2)]) simp
qed

section \<open>Probing\<close>

lemma probe_step:
  "m ident = Some l \<Longrightarrow> canonicalLabels l \<noteq> c \<Longrightarrow> probe m c ident = probe m c (ident + 1)"
  by (subst probe.simps) simp

lemma probe_walk:
  assumes "\<And>j. j < n \<Longrightarrow> \<exists>l. m (h + of_nat j) = Some l \<and> canonicalLabels l \<noteq> c" "m (h + of_nat n) = None"
  shows "probe m c h = Some (h + of_nat n)"
  using assms
proof (induction n arbitrary: h)
  case 0
  then show ?case by (subst probe.simps) simp
next
  case (Suc n)
  obtain l where "m h = Some l" "canonicalLabels l \<noteq> c" using Suc.prems(1) [of 0] by auto
  then have "probe m c h = probe m c (h + 1)" by (rule probe_step)
  also have "\<dots> = Some (h + 1 + of_nat n)"
  proof (rule Suc.IH)
    show "m (h + 1 + of_nat n) = None" using Suc.prems(2) by (simp add: add.assoc)
    show "\<exists>l. m (h + 1 + of_nat j) = Some l \<and> canonicalLabels l \<noteq> c" if "j < n" for j
      using Suc.prems(1) [of "Suc j"] that by (simp add: add.assoc)
  qed
  finally show ?case by (simp add: add.assoc)
qed

text \<open>While an identity is free, probing ends at the first free one at or after the hash.\<close>

lemma probe_free:
  assumes "\<And>i l. m i = Some l \<Longrightarrow> canonicalLabels l \<noteq> c" "m free = None"
  shows "\<exists>n. probe m c h = Some (h + of_nat n) \<and> m (h + of_nat n) = None"
proof -
  have "m (h + of_nat (unat (free - h))) = None" using assms(2) by simp
  then have ex: "\<exists>n. m (h + of_nat n) = None" by blast
  define n where "n = (LEAST n. m (h + of_nat n) = None)"
  have n: "m (h + of_nat n) = None" unfolding n_def by (rule LeastI_ex [OF ex])
  have "\<exists>l. m (h + of_nat j) = Some l \<and> canonicalLabels l \<noteq> c" if "j < n" for j
    using not_less_Least [of j "\<lambda>n. m (h + of_nat n) = None"] that assms(1) unfolding n_def by auto
  with n have "probe m c h = Some (h + of_nat n)" by (intro probe_walk)
  with n show ?thesis by blast
qed

section \<open>Invariant and abstraction\<close>

definition Id_wf :: "IdAllocator \<Rightarrow> bool" where
  "Id_wf a \<longleftrightarrow>
     (\<forall>i l. idToLabels a i = Some l \<longrightarrow> labelsToID a (canonicalLabels l) = Some i) \<and>
     (\<forall>c i. labelsToID a c = Some i \<longrightarrow> (\<exists>l. idToLabels a i = Some l \<and> canonicalLabels l = c)) \<and>
     dom (refCount a) = dom (idToLabels a) \<and> (\<forall>i n. refCount a i = Some n \<longrightarrow> 1 \<le> n)"

text \<open>What the allocator stands for: how many references each canonical label set has.\<close>

definition refs :: "IdAllocator \<Rightarrow> string \<Rightarrow> int" where
  "refs a c = (case labelsToID a c of None \<Rightarrow> 0 | Some i \<Rightarrow> (case refCount a i of Some n \<Rightarrow> n | None \<Rightarrow> 0))"

lemma Id_wfD:
  assumes "Id_wf a"
  shows "idToLabels a i = Some l \<Longrightarrow> labelsToID a (canonicalLabels l) = Some i"
    and "labelsToID a c = Some i \<Longrightarrow> \<exists>l. idToLabels a i = Some l \<and> canonicalLabels l = c"
    and "idToLabels a i = None \<longleftrightarrow> refCount a i = None"
    and "refCount a i = Some n \<Longrightarrow> 1 \<le> n"
  using assms unfolding Id_wf_def by (blast, blast, force simp: dom_def, blast)

lemma labelsToID_inj:
  assumes "Id_wf a" "labelsToID a c = Some i" "labelsToID a c' = Some i"
  shows "c = c'"
  using Id_wfD(2) [OF assms(1,2)] Id_wfD(2) [OF assms(1,3)] by auto

text \<open>The two outcomes of an allocation: one more reference to a known label set, or a new identity.\<close>

lemma AllocateIdentity_cases:
  assumes wf: "Id_wf a" and free: "idToLabels a free = None"
  obtains (known) i n where "labelsToID a (canonicalLabels lbls) = Some i" "refCount a i = Some n"
      "AllocateIdentity lbls a = Some (i, a\<lparr>refCount := (refCount a)(i \<mapsto> n + 1)\<rparr>)"
  | (fresh) i where "labelsToID a (canonicalLabels lbls) = None" "idToLabels a i = None" "refCount a i = None"
      "AllocateIdentity lbls a = Some (i, a\<lparr>idToLabels := (idToLabels a)(i \<mapsto> lbls),
         labelsToID := (labelsToID a)(canonicalLabels lbls \<mapsto> i), refCount := (refCount a)(i \<mapsto> 1)\<rparr>)"
proof (cases "labelsToID a (canonicalLabels lbls)")
  case (Some i)
  then obtain l where "idToLabels a i = Some l" using Id_wfD(2) [OF wf] by blast
  then obtain n where "refCount a i = Some n" using Id_wfD(3) [OF wf, of i] by (cases "refCount a i") auto
  with Some show thesis by (intro known) (simp_all add: AllocateIdentity_def bump_def)
next
  case None
  have "canonicalLabels l \<noteq> canonicalLabels lbls" if "idToLabels a i = Some l" for i l
    using Id_wfD(1) [OF wf that] None by auto
  then obtain i where i: "probe (idToLabels a) (canonicalLabels lbls) (hashCanonical (canonicalLabels lbls)) = Some i" "idToLabels a i = None"
    using probe_free [of "idToLabels a", OF _ free] by blast
  then have "refCount a i = None" using Id_wfD(3) [OF wf] by simp
  with None i show thesis by (intro fresh) (simp_all add: AllocateIdentity_def bump_def)
qed

lemma AllocateIdentity_wf:
  assumes "Id_wf a" "idToLabels a free = None" "AllocateIdentity lbls a = Some (i, a')"
  shows "Id_wf a'"
  using assms(1,2)
proof (cases rule: AllocateIdentity_cases [where lbls = lbls])
  case (known j n)
  then have a': "a' = a\<lparr>refCount := (refCount a)(j \<mapsto> n + 1)\<rparr>" using assms(3) by simp
  have "insert j (dom (refCount a)) = dom (refCount a)" using known(2) by auto
  then show ?thesis using assms(1) Id_wfD(4) [OF assms(1) known(2)] unfolding a' Id_wf_def by auto
next
  case (fresh j)
  then have a': "a' = a\<lparr>idToLabels := (idToLabels a)(j \<mapsto> lbls),
         labelsToID := (labelsToID a)(canonicalLabels lbls \<mapsto> j), refCount := (refCount a)(j \<mapsto> 1)\<rparr>" using assms(3) by simp
  have ne: "canonicalLabels l \<noteq> canonicalLabels lbls" if "idToLabels a i = Some l" for i l
    using Id_wfD(1) [OF assms(1) that] fresh(1) by auto
  have nj: "i \<noteq> j" if "labelsToID a c = Some i" for c i using Id_wfD(2) [OF assms(1) that] fresh(2) by auto
  show ?thesis
    unfolding Id_wf_def a'
  proof (intro conjI allI impI, goal_cases)
    case (1 i l)
    then show ?case using Id_wfD(1) [OF assms(1)] ne by (auto split: if_splits)
  next
    case (2 c i)
    then show ?case using Id_wfD(2) [OF assms(1), of c i] nj [of c i] by (auto split: if_splits)
  next
    case 3
    then show ?case using assms(1) by (simp add: Id_wf_def)
  next
    case (4 i n)
    then show ?case using Id_wfD(4) [OF assms(1), of i n] by (auto split: if_splits)
  qed
qed

lemma probe_result:
  assumes "probe m c h = Some i"
  shows "m i = None \<or> (\<exists>l. m i = Some l \<and> canonicalLabels l = c)"
  by (rule probe.raw_induct [OF _ assms, where P = "\<lambda>m c h i. m i = None \<or> (\<exists>l. m i = Some l \<and> canonicalLabels l = c)"])
     (auto split: option.splits if_splits)

lemma AllocateIdentity_step_wf:
  assumes "Id_wf a" "AllocateIdentity lbls a = Some (i, a')"
  shows "Id_wf a'"
proof (cases "\<exists>f. idToLabels a f = None")
  case True
  then show ?thesis using AllocateIdentity_wf [OF assms(1) _ assms(2)] by blast
next
  case False
  have ne: "canonicalLabels l \<noteq> canonicalLabels lbls" if "labelsToID a (canonicalLabels lbls) = None" "idToLabels a i = Some l" for i l
    using Id_wfD(1) [OF assms(1) that(2)] that(1) by auto
  have "labelsToID a (canonicalLabels lbls) \<noteq> None"
  proof
    assume none: "labelsToID a (canonicalLabels lbls) = None"
    then obtain k where "probe (idToLabels a) (canonicalLabels lbls) (hashCanonical (canonicalLabels lbls)) = Some k"
      using assms(2) by (auto simp: AllocateIdentity_def Let_def split: option.splits)
    from probe_result [OF this] False ne [OF none] show "False" by blast
  qed
  then obtain j where j: "labelsToID a (canonicalLabels lbls) = Some j" by auto
  have "idToLabels a j \<noteq> None" using False by (intro notI) blast
  then obtain n where n: "refCount a j = Some n" using Id_wfD(3) [OF assms(1), of j] by (cases "refCount a j") auto
  have "a' = a\<lparr>refCount := (refCount a)(j \<mapsto> n + 1)\<rparr>" using assms(2) j n by (auto simp: AllocateIdentity_def bump_def)
  moreover have "insert j (dom (refCount a)) = dom (refCount a)" using n by auto
  ultimately show ?thesis using assms(1) Id_wfD(4) [OF assms(1) n] unfolding Id_wf_def by auto
qed

lemma RemoveIdentity_cases:
  assumes wf: "Id_wf a"
  obtains (missing) "refCount a i = None" "idToLabels a i = None" "RemoveIdentity i a = a"
  | (last_ref) l where "idToLabels a i = Some l" "refCount a i = Some 1" "labelsToID a (canonicalLabels l) = Some i"
      "RemoveIdentity i a = a\<lparr>labelsToID := map_del (labelsToID a) (canonicalLabels l),
         idToLabels := map_del (idToLabels a) i, refCount := map_del (refCount a) i\<rparr>"
  | (more) l n where "idToLabels a i = Some l" "refCount a i = Some n" "1 < n"
      "RemoveIdentity i a = a\<lparr>refCount := (refCount a)(i \<mapsto> n - 1)\<rparr>"
proof (cases "refCount a i")
  case None
  then show thesis using Id_wfD(3) [OF wf, of i] by (intro missing) (simp_all add: RemoveIdentity_def)
next
  case (Some n)
  then obtain l where l: "idToLabels a i = Some l" using Id_wfD(3) [OF wf, of i] by (cases "idToLabels a i") auto
  have "1 \<le> n" by (rule Id_wfD(4) [OF wf Some])
  then consider "n = 1" | "1 < n" by linarith
  then show thesis
  proof cases
    case 1
    then show thesis using Some l Id_wfD(1) [OF wf l] by (intro last_ref) (simp_all add: RemoveIdentity_def)
  next
    case 2
    then show thesis using Some l by (intro more) (simp_all add: RemoveIdentity_def)
  qed
qed

lemma RemoveIdentity_wf:
  assumes wf: "Id_wf a"
  shows "Id_wf (RemoveIdentity i a)"
  using wf
proof (cases rule: RemoveIdentity_cases [where i = i])
  case missing
  with wf show ?thesis by simp
next
  case (last_ref l)
  have ni: "labelsToID a c = Some j \<Longrightarrow> c \<noteq> canonicalLabels l \<Longrightarrow> j \<noteq> i" for c j
    using labelsToID_inj [OF wf _ last_ref(3)] by blast
  have nc: "idToLabels a j = Some l' \<Longrightarrow> j \<noteq> i \<Longrightarrow> canonicalLabels l' \<noteq> canonicalLabels l" for j l'
    using Id_wfD(1) [OF wf] last_ref(3) by (metis option.inject)
  show ?thesis
    unfolding last_ref(4) Id_wf_def
  proof (intro conjI allI impI, goal_cases)
    case (1 j l')
    then show ?case using Id_wfD(1) [OF wf, of j l'] nc [of j l'] by (auto split: if_splits)
  next
    case (2 c j)
    then show ?case using Id_wfD(2) [OF wf, of c j] ni [of c j] by (auto split: if_splits)
  next
    case 3
    then show ?case using wf by (simp add: Id_wf_def)
  next
    case (4 j n)
    then show ?case using Id_wfD(4) [OF wf, of j n] by (auto split: if_splits)
  qed
next
  case (more l n)
  have "insert i (dom (refCount a)) = dom (refCount a)" using more(2) by auto
  then show ?thesis using wf more(3) unfolding more(4) Id_wf_def by auto
qed

text \<open>The steps of the agent: pods come and go.\<close>

inductive id_step :: "IdAllocator \<Rightarrow> IdAllocator \<Rightarrow> bool" where
  id_alloc: "AllocateIdentity lbls a = Some (i, a') \<Longrightarrow> id_step a a'"
| id_remove: "id_step a (RemoveIdentity i a)"

lemma id_run_wf: "id_step\<^sup>*\<^sup>* id_NewAllocator a \<Longrightarrow> Id_wf a"
proof (induction rule: rtranclp_induct)
  case base
  then show ?case by (simp add: Id_wf_def id_NewAllocator_def)
next
  case (step b c)
  from step(2,3) show ?case by cases (auto intro: AllocateIdentity_step_wf RemoveIdentity_wf)
qed

lemma refs_upd_count:
  assumes "Id_wf a" "labelsToID a c = Some i" "refCount a i = Some n" "m = n + d"
  shows "refs (a\<lparr>refCount := (refCount a)(i \<mapsto> m)\<rparr>) = (refs a)(c := refs a c + d)"
proof (rule ext)
  fix c'
  show "refs (a\<lparr>refCount := (refCount a)(i \<mapsto> m)\<rparr>) c' = ((refs a)(c := refs a c + d)) c'"
    using assms(2-4) labelsToID_inj [OF assms(1) _ assms(2), of c'] by (cases "labelsToID a c'") (auto simp: refs_def)
qed

section \<open>Properties\<close>

text \<open>
  (C31) In every state the agent can reach in which fewer than all 64 bit identities are taken, allocating an
  identity returns: the probing loop ends. The label set then has that identity, its reference count is
  one higher and all other counts are as they were, every label set that had an identity keeps it,
  no other label set has this one, and removing the reference gives back exactly the old state.
\<close>

theorem identity_allocate:
  assumes "id_step\<^sup>*\<^sup>* id_NewAllocator a" "idToLabels a free = None"
  shows "\<exists>i a'. AllocateIdentity lbls a = Some (i, a') \<and> GetIdentity lbls a' = Some i \<and>
    refs a' = (refs a)(canonicalLabels lbls := refs a (canonicalLabels lbls) + 1) \<and>
    (\<forall>c j. labelsToID a c = Some j \<longrightarrow> labelsToID a' c = Some j) \<and>
    (\<forall>c. c \<noteq> canonicalLabels lbls \<longrightarrow> labelsToID a' c \<noteq> Some i) \<and>
    (\<exists>l. GetLabels i a' = Some l \<and> canonicalLabels l = canonicalLabels lbls) \<and>
    RemoveIdentity i a' = a"
proof -
  have wf: "Id_wf a" by (rule id_run_wf [OF assms(1)])
  from wf assms(2) show ?thesis
  proof (cases rule: AllocateIdentity_cases [where lbls = lbls])
    case (known i n)
    let ?a = "a\<lparr>refCount := (refCount a)(i \<mapsto> n + 1)\<rparr>"
    have n: "1 \<le> n" by (rule Id_wfD(4) [OF wf known(2)])
    have other: "labelsToID a c = Some i \<Longrightarrow> c = canonicalLabels lbls" for c by (rule labelsToID_inj [OF wf _ known(1)])
    have "refs ?a = (refs a)(canonicalLabels lbls := refs a (canonicalLabels lbls) + 1)"
      by (rule refs_upd_count [OF wf known(1,2)]) simp
    moreover have "\<exists>l. idToLabels a i = Some l \<and> canonicalLabels l = canonicalLabels lbls" by (rule Id_wfD(2) [OF wf known(1)])
    moreover have "RemoveIdentity i ?a = a" using n known(2) by (simp add: RemoveIdentity_def fun_upd_idem)
    moreover have "labelsToID ?a c \<noteq> Some i" if "c \<noteq> canonicalLabels lbls" for c using that other [of c] by auto
    ultimately show ?thesis using known(1,3)
      by (intro exI [of _ i] exI [of _ ?a] conjI allI impI) (simp_all add: GetIdentity_def GetLabels_def)
  next
    case (fresh i)
    let ?c = "canonicalLabels lbls"
    let ?a = "a\<lparr>idToLabels := (idToLabels a)(i \<mapsto> lbls), labelsToID := (labelsToID a)(?c \<mapsto> i), refCount := (refCount a)(i \<mapsto> 1)\<rparr>"
    have other: "labelsToID a c = Some j \<Longrightarrow> j \<noteq> i" for c j using Id_wfD(2) [OF wf, of c j] fresh(2) by auto
    have "refs ?a = (refs a)(?c := refs a ?c + 1)"
    proof (rule ext)
      fix c
      show "refs ?a c = ((refs a)(?c := refs a ?c + 1)) c"
        using fresh(1) other [of c] by (cases "labelsToID a c") (auto simp: refs_def)
    qed
    moreover have "RemoveIdentity i ?a = a"
      using fresh(1-3) by (simp add: RemoveIdentity_def map_del_notin domIff)
    moreover have "labelsToID ?a c \<noteq> Some i" if "c \<noteq> ?c" for c using that other [of c i] by auto
    moreover have "labelsToID ?a c = Some j" if "labelsToID a c = Some j" for c j using that fresh(1) by auto
    ultimately show ?thesis using fresh(4)
      by (intro exI [of _ i] exI [of _ ?a] conjI allI impI) (simp_all add: GetIdentity_def GetLabels_def)
  qed
qed

lemma id_new: "id_step\<^sup>*\<^sup>* id_NewAllocator id_NewAllocator" "idToLabels id_NewAllocator 0 = None"
  by (simp_all add: id_NewAllocator_def)

theorem identity_allocate_witness:
  "\<exists>i a'. AllocateIdentity [''app'' \<mapsto> ''web''] id_NewAllocator = Some (i, a') \<and> GetIdentity [''app'' \<mapsto> ''web''] a' = Some i \<and>
    RemoveIdentity i a' = id_NewAllocator"
  using identity_allocate [OF id_new, of "[''app'' \<mapsto> ''web'']"] by blast

lemma ex_canonical: "canonicalLabels [''app'' \<mapsto> ''web''] = ''app=web''" "canonicalLabels [''app'' \<mapsto> ''db''] = ''app=db''"
  by (simp_all add: canonicalLabels_def)

definition ex_ids :: IdAllocator where
  "ex_ids = \<lparr>idToLabels = [hashCanonical ''app=web'' \<mapsto> [''app'' \<mapsto> ''web'']], refCount = [hashCanonical ''app=web'' \<mapsto> 1],
     labelsToID = [''app=web'' \<mapsto> hashCanonical ''app=web'']\<rparr>"

lemma ex_ids_run: "id_step\<^sup>*\<^sup>* id_NewAllocator ex_ids"
proof -
  have "probe Map.empty c h = Some h" for c h by (subst probe.simps) simp
  then have "AllocateIdentity [''app'' \<mapsto> ''web''] id_NewAllocator = Some (hashCanonical ''app=web'', ex_ids)"
    by (simp add: AllocateIdentity_def ex_canonical id_NewAllocator_def ex_ids_def bump_def Let_def)
  from id_alloc [OF this] show ?thesis by (rule r_into_rtranclp)
qed

text \<open>
  (C15) Two live pods share an identity exactly when they have the same labels, for label sets of the form
  Kubernetes admits.
\<close>

theorem identity_distinguishes_labels:
  assumes "id_step\<^sup>*\<^sup>* id_NewAllocator a" "label_ok l1" "label_ok l2"
    and "GetIdentity l1 a = Some i" "GetIdentity l2 a = Some j"
  shows "i = j \<longleftrightarrow> l1 = l2"
proof
  assume "i = j"
  with assms(4,5) have "canonicalLabels l1 = canonicalLabels l2"
    using labelsToID_inj [OF id_run_wf [OF assms(1)]] by (simp add: GetIdentity_def)
  then show "l1 = l2" by (rule canonicalLabels_inject [OF assms(2,3)])
qed (use assms(4,5) in simp)

lemma ex_two_pods:
  "\<exists>a i j. id_step\<^sup>*\<^sup>* id_NewAllocator a \<and> GetIdentity [''app'' \<mapsto> ''web''] a = Some i \<and> GetIdentity [''app'' \<mapsto> ''db''] a = Some j"
proof -
  have free: "idToLabels ex_ids (hashCanonical ''app=web'' + 1) = None" by (simp add: ex_ids_def)
  have none: "labelsToID ex_ids ''app=db'' = None" by (simp add: ex_ids_def)
  from id_run_wf [OF ex_ids_run] free show ?thesis
  proof (cases rule: AllocateIdentity_cases [where lbls = "[''app'' \<mapsto> ''db'']"])
    case (known i n)
    with none show ?thesis by (simp add: ex_canonical)
  next
    case (fresh i)
    let ?a = "ex_ids\<lparr>idToLabels := (idToLabels ex_ids)(i \<mapsto> [''app'' \<mapsto> ''db'']),
         labelsToID := (labelsToID ex_ids)(canonicalLabels [''app'' \<mapsto> ''db''] \<mapsto> i), refCount := (refCount ex_ids)(i \<mapsto> 1)\<rparr>"
    from fresh(4) have "id_step ex_ids ?a" by (rule id_alloc)
    with ex_ids_run have "id_step\<^sup>*\<^sup>* id_NewAllocator ?a" by (rule rtranclp.rtrancl_into_rtrancl)
    moreover have "GetIdentity [''app'' \<mapsto> ''web''] ?a = Some (hashCanonical ''app=web'')" "GetIdentity [''app'' \<mapsto> ''db''] ?a = Some i"
      by (simp_all add: GetIdentity_def ex_canonical ex_ids_def)
    ultimately show ?thesis by blast
  qed
qed

theorem identity_distinguishes_labels_witness:
  "\<exists>a i j. id_step\<^sup>*\<^sup>* id_NewAllocator a \<and> GetIdentity [''app'' \<mapsto> ''web''] a = Some i \<and>
    GetIdentity [''app'' \<mapsto> ''db''] a = Some j \<and> i \<noteq> j"
proof -
  obtain a i j where a: "id_step\<^sup>*\<^sup>* id_NewAllocator a" "GetIdentity [''app'' \<mapsto> ''web''] a = Some i" "GetIdentity [''app'' \<mapsto> ''db''] a = Some j"
    using ex_two_pods by blast
  have ok: "label_ok [''app'' \<mapsto> ''web'']" "label_ok [''app'' \<mapsto> ''db'']" by (auto simp: label_ok_def split: if_splits)
  have "[''app'' \<mapsto> ''web''] \<noteq> [''app'' \<mapsto> ''db'']" by (simp add: fun_eq_iff)
  with identity_distinguishes_labels [OF a(1) ok a(2,3)] a show ?thesis by blast
qed

text \<open>
  Removing a reference lowers the count of that identity's label set by one and touches no other; the
  label set loses its identity exactly with the last reference, and an unknown identity changes nothing.
\<close>

theorem identity_remove:
  assumes "id_step\<^sup>*\<^sup>* id_NewAllocator a"
  shows "case GetLabels i a of
      None \<Rightarrow> RemoveIdentity i a = a
    | Some l \<Rightarrow>
        refs (RemoveIdentity i a) = (refs a)(canonicalLabels l := refs a (canonicalLabels l) - 1) \<and>
        (GetIdentity l (RemoveIdentity i a) = None \<longleftrightarrow> refs a (canonicalLabels l) = 1) \<and>
        (\<forall>c. c \<noteq> canonicalLabels l \<longrightarrow> labelsToID (RemoveIdentity i a) c = labelsToID a c)"
proof -
  have wf: "Id_wf a" by (rule id_run_wf [OF assms])
  then show ?thesis
  proof (cases rule: RemoveIdentity_cases [where i = i])
    case missing
    then show ?thesis by (simp add: GetLabels_def)
  next
    case (last_ref l)
    have other: "labelsToID a c = Some i \<Longrightarrow> c = canonicalLabels l" for c by (rule labelsToID_inj [OF wf _ last_ref(3)])
    have "refs (RemoveIdentity i a) = (refs a)(canonicalLabels l := refs a (canonicalLabels l) - 1)"
    proof (rule ext)
      fix c
      show "refs (RemoveIdentity i a) c = ((refs a)(canonicalLabels l := refs a (canonicalLabels l) - 1)) c"
        unfolding last_ref(4) using last_ref(2,3) other [of c] by (cases "labelsToID a c") (auto simp: refs_def)
    qed
    then show ?thesis using last_ref by (simp add: GetLabels_def GetIdentity_def refs_def)
  next
    case (more l n)
    have id: "labelsToID a (canonicalLabels l) = Some i" by (rule Id_wfD(1) [OF wf more(1)])
    have other: "labelsToID a c = Some i \<Longrightarrow> c = canonicalLabels l" for c by (rule labelsToID_inj [OF wf _ id])
    have "refs (RemoveIdentity i a) = (refs a)(canonicalLabels l := refs a (canonicalLabels l) - 1)"
      unfolding more(4) using refs_upd_count [OF wf id more(2), of "n - 1" "- 1"] by simp
    then show ?thesis using more id by (simp add: GetLabels_def GetIdentity_def refs_def)
  qed
qed

theorem identity_remove_witness:
  "refs (RemoveIdentity (hashCanonical ''app=web'') ex_ids) ''app=web'' = 0 \<and>
   GetIdentity [''app'' \<mapsto> ''web''] (RemoveIdentity (hashCanonical ''app=web'') ex_ids) = None"
proof -
  have "GetLabels (hashCanonical ''app=web'') ex_ids = Some [''app'' \<mapsto> ''web'']" "refs ex_ids ''app=web'' = 1"
    by (simp_all add: GetLabels_def ex_ids_def refs_def)
  then show ?thesis using identity_remove [OF ex_ids_run, of "hashCanonical ''app=web''"] by (simp add: ex_canonical)
qed

end
