(* ===== verification/Constants.thy ===== *)
theory Constants
  imports Prelude
begin

text \<open>
  The constants shared by the packages (\<open>internal/constants\<close>): protocol numbers, policy actions, service
  scopes and load balancing algorithms, as the words the dataplane sees, and \<open>strings.ToLower\<close>.
\<close>

definition ProtocolAny :: u8 where "ProtocolAny = 0"
definition ProtocolTCP :: u8 where "ProtocolTCP = 6"
definition ProtocolUDP :: u8 where "ProtocolUDP = 17"
definition ProtocolSCTP :: u8 where "ProtocolSCTP = 132"

definition ActionDeny :: u8 where "ActionDeny = 0"
definition ActionAllow :: u8 where "ActionAllow = 1"
definition ActionSNAT :: u8 where "ActionSNAT = 2"

definition ScopeClusterIP :: u32 where "ScopeClusterIP = 0"
definition ScopeNodePort :: u32 where "ScopeNodePort = 1"
definition ScopeExternalIP :: u32 where "ScopeExternalIP = 2"
definition ScopeLoadBalancer :: u32 where "ScopeLoadBalancer = 3"

definition AlgRandom :: u32 where "AlgRandom = 0"
definition AlgRoundRobin :: u32 where "AlgRoundRobin = 1"
definition AlgMaglev :: u32 where "AlgMaglev = 2"

definition ProtocolToNumber :: "string \<Rightarrow> u32" where
  "ProtocolToNumber proto =
     (if proto = ''TCP'' then ucast ProtocolTCP
      else if proto = ''UDP'' then ucast ProtocolUDP
      else if proto = ''SCTP'' then ucast ProtocolSCTP
      else ucast ProtocolTCP)"

lemmas const_defs = ProtocolAny_def ProtocolTCP_def ProtocolUDP_def ProtocolSCTP_def
  ActionDeny_def ActionAllow_def ActionSNAT_def
  ScopeClusterIP_def ScopeNodePort_def ScopeExternalIP_def ScopeLoadBalancer_def
  AlgRandom_def AlgRoundRobin_def AlgMaglev_def

text \<open>\<open>strings.ToLower\<close>, exact as far as comparisons with ASCII text are concerned: besides the ASCII capitals,
  two other code points have an ASCII lower case (the dotted capital I, bytes C4 B0, and the Kelvin
  sign, bytes E2 84 AA).\<close>

definition lower_char :: "char \<Rightarrow> char" where
  "lower_char c = (if 65 \<le> (of_char c :: nat) \<and> (of_char c :: nat) \<le> 90 then char_of ((of_char c :: nat) + 32) else c)"

fun ToLower :: "string \<Rightarrow> string" where
  "ToLower (a # b # s) =
     (if (of_char a :: nat) = 196 \<and> (of_char b :: nat) = 176 then CHR ''i'' # ToLower s
      else if (of_char a :: nat) = 226 \<and> (of_char b :: nat) = 132 \<and> s \<noteq> [] \<and> (of_char (hd s) :: nat) = 170
      then CHR ''k'' # ToLower (tl s)
      else lower_char a # ToLower (b # s))"
| "ToLower [a] = [lower_char a]"
| "ToLower [] = []"

end
