(* ===== verification/Policy_Compiler.thy ===== *)
theory Policy_Compiler
  imports Identity GoNet Constants
begin

text \<open>
  The NetworkPolicy compiler (\<open>internal/policy/compiler.go\<close>, \<open>helpers.go\<close>, \<open>watcher.go\<close>): policies become
  rules over identities.

  The compiler reads the identity allocator and two optional resolvers. \<open>metav1.LabelSelectorAsSelector\<close> and
  the selector it returns belong to the Kubernetes API machinery; they are the field \<open>pe_asSelector\<close>, with
  \<^const>\<open>None\<close> for the error. The order in which the allocator's map is enumerated for a selector is the
  field \<open>pe_order\<close>. A nil pointer is \<^const>\<open>None\<close>.
\<close>

section \<open>Objects\<close>

record LabelSelector =
  ls_MatchLabels :: Labels
  ls_MatchExpressions :: "(string \<times> string \<times> string list) list"

datatype IntOrString = IntVal int | StrVal string

record NetworkPolicyPort =
  np_Protocol :: "string option"
  np_Port :: "IntOrString option"

record NetworkPolicyPeer =
  peer_PodSelector :: "LabelSelector option"
  peer_NamespaceSelector :: "LabelSelector option"
  peer_IPBlock :: "(string \<times> string list) option"

text \<open>An ingress rule with its \<open>From\<close> peers, or an egress rule with its \<open>To\<close> peers.\<close>

record NetworkPolicyRule =
  rule_Ports :: "NetworkPolicyPort list"
  rule_Peers :: "NetworkPolicyPeer list"

record NetworkPolicy =
  pol_Namespace :: string
  pol_PodSelector :: LabelSelector
  pol_PolicyTypes :: "string list"
  pol_Ingress :: "NetworkPolicyRule list"
  pol_Egress :: "NetworkPolicyRule list"

record CompiledRule =
  cr_SrcIdentity :: u64
  cr_DstIdentity :: u64
  cr_Protocol :: u8
  cr_DstPort :: u16
  cr_Action :: u8
  cr_CIDR :: string
  cr_IsEgress :: bool
  cr_Namespace :: string

record cidrEntry =
  ce_cidr :: string
  ce_action :: u8

record portProto =
  pp_protocol :: u8
  pp_port :: u16

record PolicyEnv =
  pe_alloc :: IdAllocator
  pe_order :: "LabelSelector \<Rightarrow> u64 list"
  pe_asSelector :: "LabelSelector \<Rightarrow> (Labels \<Rightarrow> bool) option"
  pe_namespaceResolver :: "(LabelSelector \<Rightarrow> string list) option"
  pe_portResolver :: "(string \<Rightarrow> string \<Rightarrow> string \<Rightarrow> LabelSelector \<Rightarrow> u16 list) option"

definition WildcardIdentity :: u64 where
  "WildcardIdentity = 0"

definition namespace_label :: string where
  "namespace_label = ''novanet.io/namespace''"

definition empty_selector :: LabelSelector where
  "empty_selector = \<lparr>ls_MatchLabels = Map.empty, ls_MatchExpressions = []\<rparr>"

text \<open>Setting the namespace label on a copy of a selector.\<close>

definition scope_selector :: "string \<Rightarrow> LabelSelector \<Rightarrow> LabelSelector" where
  "scope_selector ns sel = sel\<lparr>ls_MatchLabels := (ls_MatchLabels sel)(namespace_label \<mapsto> ns)\<rparr>"

section \<open>Peers (helpers.go)\<close>

definition matching :: "PolicyEnv \<Rightarrow> LabelSelector \<Rightarrow> (Labels \<Rightarrow> bool) \<Rightarrow> u64 list" where
  "matching env sel p = FindMatchingIdentities (pe_order env sel) p (pe_alloc env)"

definition selectorToIdentities :: "PolicyEnv \<Rightarrow> LabelSelector \<Rightarrow> string \<Rightarrow> u64 list" where
  "selectorToIdentities env selector ns =
     (let scoped = scope_selector ns selector
      in (case pe_asSelector env scoped of
            None \<Rightarrow> [WildcardIdentity]
          | Some sel \<Rightarrow>
              let matches = matching env scoped sel
              in if 0 < length matches then matches else [HashLabels (ls_MatchLabels scoped)]))"

definition findOrFallback :: "PolicyEnv \<Rightarrow> LabelSelector \<Rightarrow> u64 list" where
  "findOrFallback env selector =
     (case pe_asSelector env selector of
        None \<Rightarrow> []
      | Some sel \<Rightarrow>
          let matches = matching env selector sel
          in if 0 < length matches then matches else [HashLabels (ls_MatchLabels selector)])"

definition resolveNamespaceNames :: "PolicyEnv \<Rightarrow> LabelSelector \<Rightarrow> string list" where
  "resolveNamespaceNames env nsSel =
     (case ls_MatchLabels nsSel ''kubernetes.io/metadata.name'' of
        Some name \<Rightarrow> [name]
      | None \<Rightarrow> (case pe_namespaceResolver env of Some f \<Rightarrow> f nsSel | None \<Rightarrow> []))"

text \<open>The fallback labels of a namespace selector that resolves to nothing: every label of the namespace
  selector under the prefix \<open>ns.\<close>, over those of the pod selector.\<close>

definition ns_fallback :: "Labels \<Rightarrow> Labels \<Rightarrow> Labels" where
  "ns_fallback podLabels nsLabels =
     (\<lambda>k. if take 3 k = ''ns.'' \<and> nsLabels (drop 3 k) \<noteq> None then nsLabels (drop 3 k) else podLabels k)"

definition empty_sel :: "LabelSelector \<Rightarrow> bool" where
  "empty_sel sel \<longleftrightarrow> map_len (ls_MatchLabels sel) = 0 \<and> ls_MatchExpressions sel = []"

definition resolvePodAndNsPeers ::
  "PolicyEnv \<Rightarrow> LabelSelector option \<Rightarrow> LabelSelector option \<Rightarrow> string \<Rightarrow> u64 list" where
  "resolvePodAndNsPeers env podSel nsSel ns =
     (if podSel = None \<and> nsSel = None then [WildcardIdentity]
      else
        let podSelector = (case podSel of Some s \<Rightarrow> s | None \<Rightarrow> empty_selector)
        in (case nsSel of
              Some nsel \<Rightarrow>
                if empty_sel nsel then
                  (if empty_sel podSelector then [WildcardIdentity] else findOrFallback env podSelector)
                else
                  let nsNames = resolveNamespaceNames env nsel
                  in if 0 < length nsNames
                     then concat (map (\<lambda>nsName. findOrFallback env (scope_selector nsName podSelector)) nsNames)
                     else [HashLabels (ns_fallback (ls_MatchLabels podSelector) (ls_MatchLabels nsel))]
            | None \<Rightarrow> findOrFallback env (scope_selector ns podSelector)))"

definition identity_rule :: "u64 \<Rightarrow> bool \<Rightarrow> string \<Rightarrow> u64 \<Rightarrow> portProto \<Rightarrow> CompiledRule" where
  "identity_rule fixedID isEgress ns ident pp =
     \<lparr>cr_SrcIdentity = (if isEgress then fixedID else ident), cr_DstIdentity = (if isEgress then ident else fixedID),
      cr_Protocol = pp_protocol pp, cr_DstPort = pp_port pp, cr_Action = ActionAllow, cr_CIDR = '''',
      cr_IsEgress = isEgress, cr_Namespace = ns\<rparr>"

definition buildIdentityRules :: "u64 list \<Rightarrow> u64 \<Rightarrow> portProto list \<Rightarrow> bool \<Rightarrow> string \<Rightarrow> CompiledRule list" where
  "buildIdentityRules ids fixedID ports isEgress ns =
     concat (map (\<lambda>ident. map (identity_rule fixedID isEgress ns ident) ports) ids)"

definition cidr_rule :: "u64 \<Rightarrow> bool \<Rightarrow> string \<Rightarrow> u8 \<Rightarrow> string \<Rightarrow> portProto \<Rightarrow> CompiledRule" where
  "cidr_rule fixedID isEgress ns action cidr pp =
     \<lparr>cr_SrcIdentity = (if isEgress then fixedID else WildcardIdentity),
      cr_DstIdentity = (if isEgress then WildcardIdentity else fixedID),
      cr_Protocol = pp_protocol pp, cr_DstPort = pp_port pp, cr_Action = action, cr_CIDR = cidr,
      cr_IsEgress = isEgress, cr_Namespace = ns\<rparr>"

definition buildCIDRRules :: "cidrEntry list \<Rightarrow> u64 \<Rightarrow> portProto list \<Rightarrow> bool \<Rightarrow> string \<Rightarrow> CompiledRule list" where
  "buildCIDRRules entries fixedID ports isEgress ns =
     concat (map (\<lambda>entry. map (cidr_rule fixedID isEgress ns (ce_action entry) (ce_cidr entry)) ports) entries)"

definition buildFQDNCIDRRules :: "string list \<Rightarrow> u64 \<Rightarrow> portProto list \<Rightarrow> bool \<Rightarrow> string \<Rightarrow> CompiledRule list" where
  "buildFQDNCIDRRules cidrs fixedID ports isEgress ns =
     concat (map (\<lambda>cidr. map (cidr_rule fixedID isEgress ns ActionAllow cidr) ports) cidrs)"

definition resolveIPBlockCIDRs :: "string \<Rightarrow> string list \<Rightarrow> cidrEntry list" where
  "resolveIPBlockCIDRs cidr except =
     (case ParseCIDR cidr of
        None \<Rightarrow> []
      | Some _ \<Rightarrow>
          \<lparr>ce_cidr = cidr, ce_action = ActionAllow\<rparr>
          # map (\<lambda>e. \<lparr>ce_cidr = e, ce_action = ActionDeny\<rparr>) (filter (\<lambda>e. ParseCIDR e \<noteq> None) except))"

section \<open>Policies (compiler.go)\<close>

definition resolvePeers :: "PolicyEnv \<Rightarrow> NetworkPolicyPeer list \<Rightarrow> string \<Rightarrow> u64 list" where
  "resolvePeers env peers ns =
     concat (map (\<lambda>peer. resolvePodAndNsPeers env (peer_PodSelector peer) (peer_NamespaceSelector peer) ns)
       (filter (\<lambda>peer. peer_IPBlock peer = None) peers))"

definition resolvePeersWithIPBlock :: "NetworkPolicyPeer list \<Rightarrow> cidrEntry list" where
  "resolvePeersWithIPBlock peers =
     concat (map (\<lambda>peer. case peer_IPBlock peer of None \<Rightarrow> [] | Some (cidr, except) \<Rightarrow> resolveIPBlockCIDRs cidr except) peers)"

definition port_protocol :: "string option \<Rightarrow> u8" where
  "port_protocol proto =
     (case proto of
        None \<Rightarrow> ProtocolTCP
      | Some p \<Rightarrow> if p = ''TCP'' then ProtocolTCP else if p = ''UDP'' then ProtocolUDP
                  else if p = ''SCTP'' then ProtocolSCTP else ProtocolTCP)"

definition port_value :: "int \<Rightarrow> u16" where
  "port_value pv = (if 0 < pv \<and> pv \<le> 65535 then of_int pv else 0)"

definition resolve_port :: "PolicyEnv \<Rightarrow> string \<Rightarrow> LabelSelector \<Rightarrow> NetworkPolicyPort \<Rightarrow> portProto list" where
  "resolve_port env ns podSelector p =
     (let proto = port_protocol (np_Protocol p)
      in (case np_Port p of
            Some (StrVal portName) \<Rightarrow>
              (case pe_portResolver env of
                 Some f \<Rightarrow> map (\<lambda>rp. \<lparr>pp_protocol = proto, pp_port = rp\<rparr>)
                             (f portName (case np_Protocol p of Some c \<Rightarrow> c | None \<Rightarrow> ''TCP'') ns podSelector)
               | None \<Rightarrow> [])
          | Some (IntVal pv) \<Rightarrow> [\<lparr>pp_protocol = proto, pp_port = port_value pv\<rparr>]
          | None \<Rightarrow> [\<lparr>pp_protocol = proto, pp_port = 0\<rparr>]))"

definition resolvePorts :: "PolicyEnv \<Rightarrow> NetworkPolicyPort list \<Rightarrow> string \<Rightarrow> LabelSelector \<Rightarrow> portProto list" where
  "resolvePorts env npPorts ns podSelector = concat (map (resolve_port env ns podSelector) npPorts)"

definition any_port :: portProto where
  "any_port = \<lparr>pp_protocol = ProtocolAny, pp_port = 0\<rparr>"

definition compileIngressRule ::
  "PolicyEnv \<Rightarrow> NetworkPolicyRule \<Rightarrow> u64 \<Rightarrow> string \<Rightarrow> LabelSelector \<Rightarrow> CompiledRule list" where
  "compileIngressRule env rule dstIdentity ns podSelector =
     (let srcIdentities = (if rule_Peers rule = [] then [WildcardIdentity] else resolvePeers env (rule_Peers rule) ns);
          srcCIDRs = resolvePeersWithIPBlock (rule_Peers rule);
          resolved = resolvePorts env (rule_Ports rule) ns podSelector;
          ports = (if resolved = [] then [any_port] else resolved)
      in buildIdentityRules srcIdentities dstIdentity ports False ns
         @ buildCIDRRules srcCIDRs dstIdentity ports False ns)"

definition compileEgressRule :: "PolicyEnv \<Rightarrow> NetworkPolicyRule \<Rightarrow> u64 \<Rightarrow> string \<Rightarrow> CompiledRule list" where
  "compileEgressRule env rule srcIdentity ns =
     (let dstIdentities = (if rule_Peers rule = [] then [WildcardIdentity] else resolvePeers env (rule_Peers rule) ns);
          dstCIDRs = resolvePeersWithIPBlock (rule_Peers rule);
          resolved = resolvePorts env (rule_Ports rule) ns empty_selector;
          ports = (if resolved = [] then [any_port] else resolved)
      in buildIdentityRules dstIdentities srcIdentity ports True ns
         @ buildCIDRRules dstCIDRs srcIdentity ports True ns)"

definition hasPolicyType :: "NetworkPolicy \<Rightarrow> string \<Rightarrow> bool" where
  "hasPolicyType np pt = (if pol_PolicyTypes np = [] then pt = ''Ingress'' else pt \<in> set (pol_PolicyTypes np))"

definition deny_rule :: "u64 \<Rightarrow> u64 \<Rightarrow> bool \<Rightarrow> string \<Rightarrow> CompiledRule" where
  "deny_rule src dst isEgress ns =
     \<lparr>cr_SrcIdentity = src, cr_DstIdentity = dst, cr_Protocol = ProtocolAny, cr_DstPort = 0,
      cr_Action = ActionDeny, cr_CIDR = '''', cr_IsEgress = isEgress, cr_Namespace = ns\<rparr>"

text \<open>The body of the loop of \<open>CompilePolicy\<close> over the target identities. The default deny rule for egress
  does not set \<open>IsEgress\<close>.\<close>

definition compile_target :: "PolicyEnv \<Rightarrow> NetworkPolicy \<Rightarrow> u64 \<Rightarrow> CompiledRule list" where
  "compile_target env np targetID =
     (if hasPolicyType np ''Ingress'' then
        if pol_Ingress np = [] then [deny_rule WildcardIdentity targetID False (pol_Namespace np)]
        else concat (map (\<lambda>rule. compileIngressRule env rule targetID (pol_Namespace np) (pol_PodSelector np)) (pol_Ingress np))
      else [])
     @ (if hasPolicyType np ''Egress'' then
          if pol_Egress np = [] then [deny_rule targetID WildcardIdentity False (pol_Namespace np)]
          else concat (map (\<lambda>rule. compileEgressRule env rule targetID (pol_Namespace np)) (pol_Egress np))
        else [])"

definition CompilePolicy :: "PolicyEnv \<Rightarrow> NetworkPolicy option \<Rightarrow> CompiledRule list" where
  "CompilePolicy env policy =
     (case policy of
        None \<Rightarrow> []
      | Some np \<Rightarrow> concat (map (compile_target env np) (selectorToIdentities env (pol_PodSelector np) (pol_Namespace np))))"

definition CompileAll :: "PolicyEnv \<Rightarrow> NetworkPolicy option list \<Rightarrow> CompiledRule list" where
  "CompileAll env policies = concat (map (CompilePolicy env) policies)"

text \<open>\<open>recompileAll\<close> of the watcher: the store is \<^const>\<open>None\<close> before \<open>Start\<close>, an item of another type is
  \<^const>\<open>None\<close>; the result is the argument of the callback, if it is called.\<close>

definition recompileAll :: "PolicyEnv \<Rightarrow> NetworkPolicy option list option \<Rightarrow> CompiledRule list option" where
  "recompileAll env store =
     (case store of
        None \<Rightarrow> None
      | Some items \<Rightarrow> Some (CompileAll env (filter (\<lambda>i. i \<noteq> None) items)))"

section \<open>What a policy means\<close>

text \<open>
  The Kubernetes semantics of a policy in terms of labels. A peer selects pods in its own namespace, or
  in the namespaces its namespace selector names; an empty pair of selectors selects everything.
\<close>

definition labels_match :: "Labels \<Rightarrow> Labels \<Rightarrow> bool" where
  "labels_match sel lbls \<longleftrightarrow> sel \<subseteq>\<^sub>m lbls"

definition pod_labels :: "NetworkPolicyPeer \<Rightarrow> LabelSelector" where
  "pod_labels peer = (case peer_PodSelector peer of Some s \<Rightarrow> s | None \<Rightarrow> empty_selector)"

definition peer_selects :: "PolicyEnv \<Rightarrow> string \<Rightarrow> NetworkPolicyPeer \<Rightarrow> Labels \<Rightarrow> bool" where
  "peer_selects env ns peer lbls =
     (case peer_NamespaceSelector peer of
        None \<Rightarrow> peer_PodSelector peer = None \<or> labels_match (ls_MatchLabels (scope_selector ns (pod_labels peer))) lbls
      | Some nsel \<Rightarrow>
          if empty_sel nsel then labels_match (ls_MatchLabels (pod_labels peer)) lbls
          else list_ex (\<lambda>nsName. labels_match (ls_MatchLabels (scope_selector nsName (pod_labels peer))) lbls) (resolveNamespaceNames env nsel))"

definition port_selects :: "NetworkPolicyPort \<Rightarrow> u8 \<Rightarrow> u16 \<Rightarrow> bool" where
  "port_selects p proto port =
     (port_protocol (np_Protocol p) = proto \<and>
      (case np_Port p of None \<Rightarrow> True | Some (IntVal v) \<Rightarrow> v = uint port | Some (StrVal _) \<Rightarrow> False))"

definition rule_selects :: "PolicyEnv \<Rightarrow> string \<Rightarrow> NetworkPolicyRule \<Rightarrow> Labels \<Rightarrow> u8 \<Rightarrow> u16 \<Rightarrow> bool" where
  "rule_selects env ns rule lbls proto port \<longleftrightarrow>
     (rule_Peers rule = [] \<or> list_ex (\<lambda>peer. peer_IPBlock peer = None \<and> peer_selects env ns peer lbls) (rule_Peers rule)) \<and>
     (rule_Ports rule = [] \<or> list_ex (\<lambda>p. port_selects p proto port) (rule_Ports rule))"

text \<open>What the compiled rules admit: identity rules with wildcards.\<close>

definition rule_admits :: "CompiledRule \<Rightarrow> u64 \<Rightarrow> u64 \<Rightarrow> u8 \<Rightarrow> u16 \<Rightarrow> bool" where
  "rule_admits r src dst proto port \<longleftrightarrow>
     cr_CIDR r = '''' \<and> cr_Action r = ActionAllow \<and>
     (cr_SrcIdentity r = WildcardIdentity \<or> cr_SrcIdentity r = src) \<and> (cr_DstIdentity r = WildcardIdentity \<or> cr_DstIdentity r = dst) \<and>
     (cr_Protocol r = ProtocolAny \<or> cr_Protocol r = proto) \<and> (cr_DstPort r = 0 \<or> cr_DstPort r = port)"

section \<open>Policies without expressions and named ports\<close>

text \<open>
  \<open>env_ok\<close>: the allocator is in a reachable state, the enumeration orders are enumerations, and the
  documented meaning of a selector without expressions: it matches the label sets that contain its labels.
\<close>

definition env_ok :: "PolicyEnv \<Rightarrow> bool" where
  "env_ok env \<longleftrightarrow>
     Id_wf (pe_alloc env) \<and> (\<forall>sel. enumerates (pe_order env sel) (idToLabels (pe_alloc env))) \<and>
     (\<forall>sel p lbls. ls_MatchExpressions sel = [] \<longrightarrow> pe_asSelector env sel = Some p \<longrightarrow> p lbls = labels_match (ls_MatchLabels sel) lbls)"

text \<open>A selector without expressions that the API machinery accepts and whose fallback hash is neither the
  wildcard nor, by a hash collision, the identity \<open>s\<close> of other labels.\<close>

definition plain_sel :: "PolicyEnv \<Rightarrow> u64 \<Rightarrow> Labels \<Rightarrow> LabelSelector \<Rightarrow> bool" where
  "plain_sel env s lbls sel \<longleftrightarrow>
     ls_MatchExpressions sel = [] \<and> pe_asSelector env sel \<noteq> None \<and> HashLabels (ls_MatchLabels sel) \<noteq> WildcardIdentity \<and>
     (HashLabels (ls_MatchLabels sel) = s \<longrightarrow> ls_MatchLabels sel = lbls)"

definition plain_peer :: "PolicyEnv \<Rightarrow> string \<Rightarrow> u64 \<Rightarrow> Labels \<Rightarrow> NetworkPolicyPeer \<Rightarrow> bool" where
  "plain_peer env ns s lbls peer \<longleftrightarrow>
     finite (dom (ls_MatchLabels (pod_labels peer))) \<and>
     (case peer_NamespaceSelector peer of
        None \<Rightarrow> plain_sel env s lbls (scope_selector ns (pod_labels peer))
      | Some nsel \<Rightarrow>
          ls_MatchExpressions (pod_labels peer) = [] \<and>
          (if empty_sel nsel then empty_sel (pod_labels peer) \<or> plain_sel env s lbls (pod_labels peer)
           else
             (\<forall>nsName \<in> set (resolveNamespaceNames env nsel). plain_sel env s lbls (scope_selector nsName (pod_labels peer))) \<and>
             HashLabels (ns_fallback (ls_MatchLabels (pod_labels peer)) (ls_MatchLabels nsel)) \<notin> {s, WildcardIdentity}))"

definition plain_port :: "NetworkPolicyPort \<Rightarrow> bool" where
  "plain_port p \<longleftrightarrow> (case np_Port p of None \<Rightarrow> True | Some (IntVal v) \<Rightarrow> 0 < v \<and> v \<le> 65535 | Some (StrVal _) \<Rightarrow> False)"

definition plain_rule :: "PolicyEnv \<Rightarrow> string \<Rightarrow> u64 \<Rightarrow> Labels \<Rightarrow> NetworkPolicyRule \<Rightarrow> bool" where
  "plain_rule env ns s lbls rule \<longleftrightarrow> list_all (plain_peer env ns s lbls) (rule_Peers rule) \<and> list_all plain_port (rule_Ports rule)"

lemma map_le_empty_iff: "finite (dom m) \<Longrightarrow> map_len m = 0 \<longleftrightarrow> m = Map.empty"
  by (simp add: map_len_def)

text \<open>Finding the identities of a plain selector is exact for every live identity other than the wildcard.\<close>

lemma mem_matching:
  assumes "env_ok env" "ls_MatchExpressions sel = []" "pe_asSelector env sel = Some p" "idToLabels (pe_alloc env) s = Some lbls"
  shows "s \<in> set (matching env sel p) \<longleftrightarrow> labels_match (ls_MatchLabels sel) lbls"
proof -
  have "p lbls = labels_match (ls_MatchLabels sel) lbls" using assms(1-3) by (simp add: env_ok_def)
  moreover have "s \<in> set (pe_order env sel)" using assms(1,4) by (auto simp: env_ok_def enumerates_def)
  ultimately show ?thesis using assms(4) by (simp add: matching_def FindMatchingIdentities_def)
qed

lemma matching_live: "s \<in> set (matching env sel p) \<Longrightarrow> \<exists>l. idToLabels (pe_alloc env) s = Some l"
  by (auto simp: matching_def FindMatchingIdentities_def split: option.splits)

lemma plain_match_or_hash:
  assumes env: "env_ok env" and sel: "plain_sel env s lbls sel" and live: "idToLabels (pe_alloc env) s = Some lbls"
    and w: "idToLabels (pe_alloc env) WildcardIdentity = None"
    and p: "pe_asSelector env sel = Some p"
  defines "ids \<equiv> (if 0 < length (matching env sel p) then matching env sel p else [HashLabels (ls_MatchLabels sel)])"
  shows "s \<in> set ids \<longleftrightarrow> labels_match (ls_MatchLabels sel) lbls" "WildcardIdentity \<notin> set ids"
proof -
  have ex: "ls_MatchExpressions sel = []" using sel by (simp add: plain_sel_def)
  note mm = mem_matching [OF env ex p live]
  show "s \<in> set ids \<longleftrightarrow> labels_match (ls_MatchLabels sel) lbls"
  proof (cases "matching env sel p = []")
    case True
    then have no: "\<not> labels_match (ls_MatchLabels sel) lbls" using mm by simp
    moreover have "HashLabels (ls_MatchLabels sel) \<noteq> s"
      using sel no by (auto simp: plain_sel_def labels_match_def)
    ultimately show ?thesis using True by (simp add: ids_def)
  next
    case False
    then show ?thesis using mm by (simp add: ids_def)
  qed
  show "WildcardIdentity \<notin> set ids"
    using sel w matching_live [of WildcardIdentity env sel p] by (auto simp: ids_def plain_sel_def)
qed

lemma findOrFallback_plain:
  assumes "env_ok env" "plain_sel env s lbls sel" "idToLabels (pe_alloc env) s = Some lbls"
    and "idToLabels (pe_alloc env) WildcardIdentity = None"
  shows "s \<in> set (findOrFallback env sel) \<longleftrightarrow> labels_match (ls_MatchLabels sel) lbls"
    and "WildcardIdentity \<notin> set (findOrFallback env sel)"
proof -
  obtain p where p: "pe_asSelector env sel = Some p" using assms(2) by (auto simp: plain_sel_def)
  then have f: "findOrFallback env sel = (if 0 < length (matching env sel p) then matching env sel p else [HashLabels (ls_MatchLabels sel)])"
    by (simp add: findOrFallback_def)
  show "s \<in> set (findOrFallback env sel) \<longleftrightarrow> labels_match (ls_MatchLabels sel) lbls" "WildcardIdentity \<notin> set (findOrFallback env sel)"
    unfolding f by (rule plain_match_or_hash [OF assms p])+
qed

lemma selectorToIdentities_plain:
  assumes "env_ok env" "plain_sel env s lbls (scope_selector ns sel)" "idToLabels (pe_alloc env) s = Some lbls"
    and "idToLabels (pe_alloc env) WildcardIdentity = None"
  shows "s \<in> set (selectorToIdentities env sel ns) \<longleftrightarrow> labels_match (ls_MatchLabels (scope_selector ns sel)) lbls"
    and "WildcardIdentity \<notin> set (selectorToIdentities env sel ns)"
proof -
  let ?sel = "scope_selector ns sel"
  obtain p where p: "pe_asSelector env ?sel = Some p" using assms(2) by (auto simp: plain_sel_def)
  then have f: "selectorToIdentities env sel ns = (if 0 < length (matching env ?sel p) then matching env ?sel p else [HashLabels (ls_MatchLabels ?sel)])"
    by (simp add: selectorToIdentities_def Let_def)
  show "s \<in> set (selectorToIdentities env sel ns) \<longleftrightarrow> labels_match (ls_MatchLabels ?sel) lbls" "WildcardIdentity \<notin> set (selectorToIdentities env sel ns)"
    unfolding f by (rule plain_match_or_hash [OF assms p])+
qed

text \<open>A peer resolves to the wildcard or to the identity exactly when it selects the pod.\<close>

lemma resolve_peer_plain:
  assumes env: "env_ok env" and peer: "plain_peer env ns s lbls peer" and live: "idToLabels (pe_alloc env) s = Some lbls"
    and w: "idToLabels (pe_alloc env) WildcardIdentity = None"
  defines "ids \<equiv> set (resolvePodAndNsPeers env (peer_PodSelector peer) (peer_NamespaceSelector peer) ns)"
  shows "WildcardIdentity \<in> ids \<or> s \<in> ids \<longleftrightarrow> peer_selects env ns peer lbls"
proof -
  let ?pod = "pod_labels peer"
  note find = findOrFallback_plain [OF env _ live w]
  have fin: "finite (dom (ls_MatchLabels ?pod))" using peer by (simp add: plain_peer_def)
  have pod: "(case peer_PodSelector peer of Some s \<Rightarrow> s | None \<Rightarrow> empty_selector) = ?pod" by (simp add: pod_labels_def)
  show ?thesis
  proof (cases "peer_NamespaceSelector peer")
    case None
    show ?thesis
    proof (cases "peer_PodSelector peer")
      case none: None
      then show ?thesis using None by (simp add: ids_def resolvePodAndNsPeers_def peer_selects_def)
    next
      case (Some ps)
      have pl: "plain_sel env s lbls (scope_selector ns ?pod)" using peer None by (simp add: plain_peer_def)
      have "ids = set (findOrFallback env (scope_selector ns ?pod))"
        using None Some by (simp add: ids_def resolvePodAndNsPeers_def pod_labels_def)
      then show ?thesis using find [OF pl] None Some by (simp add: peer_selects_def)
    qed
  next
    case (Some nsel)
    show ?thesis
    proof (cases "empty_sel nsel")
      case True
      show ?thesis
      proof (cases "empty_sel ?pod")
        case e: True
        then have "ls_MatchLabels ?pod = Map.empty" using map_le_empty_iff [OF fin] by (simp add: empty_sel_def)
        then show ?thesis using Some True e
          by (simp add: ids_def resolvePodAndNsPeers_def pod Let_def peer_selects_def labels_match_def)
      next
        case ne: False
        then have pl: "plain_sel env s lbls ?pod" using peer Some True by (simp add: plain_peer_def)
        have "ids = set (findOrFallback env ?pod)" using Some True ne by (simp add: ids_def resolvePodAndNsPeers_def pod Let_def)
        then show ?thesis using find [OF pl] Some True by (simp add: peer_selects_def)
      qed
    next
      case ne: False
      show ?thesis
      proof (cases "resolveNamespaceNames env nsel = []")
        case True
        then have "ids = {HashLabels (ns_fallback (ls_MatchLabels ?pod) (ls_MatchLabels nsel))}"
          using Some ne by (simp add: ids_def resolvePodAndNsPeers_def pod Let_def)
        then show ?thesis using peer Some ne True by (auto simp: plain_peer_def peer_selects_def)
      next
        case names: False
        then have ids: "ids = (\<Union>n \<in> set (resolveNamespaceNames env nsel). set (findOrFallback env (scope_selector n ?pod)))"
          using Some ne by (simp add: ids_def resolvePodAndNsPeers_def pod Let_def)
        have pl: "plain_sel env s lbls (scope_selector n ?pod)" if "n \<in> set (resolveNamespaceNames env nsel)" for n
          using peer Some ne that by (simp add: plain_peer_def)
        show ?thesis unfolding ids using find [OF pl] Some ne by (auto simp: peer_selects_def list_ex_iff)
      qed
    qed
  qed
qed

section \<open>Rules\<close>

definition port_admits :: "portProto \<Rightarrow> u8 \<Rightarrow> u16 \<Rightarrow> bool" where
  "port_admits pp proto port \<longleftrightarrow> (pp_protocol pp = ProtocolAny \<or> pp_protocol pp = proto) \<and> (pp_port pp = 0 \<or> pp_port pp = port)"

lemma resolveIPBlock_nonempty: "e \<in> set (resolveIPBlockCIDRs cidr except) \<Longrightarrow> ce_cidr e \<noteq> ''''"
proof -
  have "ParseCIDR '''' = None" by (simp add: ParseCIDR_def)
  then show "e \<in> set (resolveIPBlockCIDRs cidr except) \<Longrightarrow> ce_cidr e \<noteq> ''''"
    by (auto simp: resolveIPBlockCIDRs_def split: option.splits)
qed

lemma cidr_rules_admit_nothing:
  assumes "r \<in> set (buildCIDRRules (resolvePeersWithIPBlock peers) t ports dir ns)"
  shows "\<not> rule_admits r src dst proto port"
proof -
  obtain e where "e \<in> set (resolvePeersWithIPBlock peers)" "cr_CIDR r = ce_cidr e"
    using assms by (auto simp: buildCIDRRules_def cidr_rule_def)
  moreover from this(1) have "ce_cidr e \<noteq> ''''"
    by (auto simp: resolvePeersWithIPBlock_def split: option.splits dest: resolveIPBlock_nonempty)
  ultimately show ?thesis by (simp add: rule_admits_def)
qed

lemma identity_rules_admit:
  "(\<exists>r \<in> set (buildIdentityRules ids t ports False ns). rule_admits r src dst proto port) \<longleftrightarrow>
     (t = WildcardIdentity \<or> t = dst) \<and> (WildcardIdentity \<in> set ids \<or> src \<in> set ids) \<and> (\<exists>pp \<in> set ports. port_admits pp proto port)"
  "(\<exists>r \<in> set (buildIdentityRules ids t ports True ns). rule_admits r src dst proto port) \<longleftrightarrow>
     (t = WildcardIdentity \<or> t = src) \<and> (WildcardIdentity \<in> set ids \<or> dst \<in> set ids) \<and> (\<exists>pp \<in> set ports. port_admits pp proto port)"
proof -
  have in_rule: "rule_admits (identity_rule t False ns i pp) src dst proto port \<longleftrightarrow>
      (t = WildcardIdentity \<or> t = dst) \<and> (i = WildcardIdentity \<or> i = src) \<and> port_admits pp proto port" for i pp
    by (auto simp: rule_admits_def identity_rule_def port_admits_def)
  have out_rule: "rule_admits (identity_rule t True ns i pp) src dst proto port \<longleftrightarrow>
      (t = WildcardIdentity \<or> t = src) \<and> (i = WildcardIdentity \<or> i = dst) \<and> port_admits pp proto port" for i pp
    by (auto simp: rule_admits_def identity_rule_def port_admits_def)
  have mem: "(\<exists>r \<in> set (buildIdentityRules ids t ports dir ns). P r) \<longleftrightarrow> (\<exists>i \<in> set ids. \<exists>pp \<in> set ports. P (identity_rule t dir ns i pp))" for P dir
    by (auto simp: buildIdentityRules_def)
  show "(\<exists>r \<in> set (buildIdentityRules ids t ports False ns). rule_admits r src dst proto port) \<longleftrightarrow>
     (t = WildcardIdentity \<or> t = dst) \<and> (WildcardIdentity \<in> set ids \<or> src \<in> set ids) \<and> (\<exists>pp \<in> set ports. port_admits pp proto port)"
    unfolding mem in_rule by blast
  show "(\<exists>r \<in> set (buildIdentityRules ids t ports True ns). rule_admits r src dst proto port) \<longleftrightarrow>
     (t = WildcardIdentity \<or> t = src) \<and> (WildcardIdentity \<in> set ids \<or> dst \<in> set ids) \<and> (\<exists>pp \<in> set ports. port_admits pp proto port)"
    unfolding mem out_rule by blast
qed

text \<open>The ports of a rule, with the default of all ports.\<close>

lemma port_value_eq:
  assumes "0 < v" "v \<le> 65535"
  shows "port_value v \<noteq> 0" "port_value v = port \<longleftrightarrow> v = uint port"
proof -
  have u: "uint (of_int v :: u16) = v" using assms by (simp add: uint_word_of_int)
  show "port_value v \<noteq> 0" using assms u by (auto simp: port_value_def)
  show "port_value v = port \<longleftrightarrow> v = uint port" using assms u by (auto simp: port_value_def)
qed

lemma resolve_port_plain:
  assumes "plain_port p"
  shows "(\<exists>pp \<in> set (resolve_port env ns sel p). port_admits pp proto port) \<longleftrightarrow> port_selects p proto port"
    and "resolve_port env ns sel p \<noteq> []"
proof -
  have pr: "port_protocol x \<noteq> ProtocolAny" for x by (auto simp: port_protocol_def const_defs split: option.split)
  show "resolve_port env ns sel p \<noteq> []"
    using assms by (auto simp: plain_port_def resolve_port_def Let_def split: option.splits IntOrString.splits)
  show "(\<exists>pp \<in> set (resolve_port env ns sel p). port_admits pp proto port) \<longleftrightarrow> port_selects p proto port"
  proof (cases "np_Port p")
    case None
    then show ?thesis using pr by (simp add: resolve_port_def port_admits_def port_selects_def)
  next
    case (Some v)
    then obtain i where i: "v = IntVal i" "0 < i" "i \<le> 65535" using assms by (cases v) (auto simp: plain_port_def)
    then show ?thesis using Some pr port_value_eq [OF i(2,3)] by (simp add: resolve_port_def port_admits_def port_selects_def)
  qed
qed

lemma rule_ports_plain:
  fixes env ns sel
  assumes "list_all plain_port ports"
  defines "resolved \<equiv> resolvePorts env ports ns sel"
  shows "(\<exists>pp \<in> set (if resolved = [] then [any_port] else resolved). port_admits pp proto port) \<longleftrightarrow>
    ports = [] \<or> list_ex (\<lambda>p. port_selects p proto port) ports"
proof (cases ports)
  case Nil
  then show ?thesis by (simp add: resolved_def resolvePorts_def any_port_def port_admits_def)
next
  case (Cons p ps)
  have "resolved \<noteq> []" using assms(1) resolve_port_plain(2) [of p] unfolding Cons resolved_def resolvePorts_def by simp
  then have "(\<exists>pp \<in> set (if resolved = [] then [any_port] else resolved). port_admits pp proto port) \<longleftrightarrow>
      (\<exists>p \<in> set ports. \<exists>pp \<in> set (resolve_port env ns sel p). port_admits pp proto port)"
    unfolding if_not_P [OF \<open>resolved \<noteq> []\<close>] by (simp add: resolved_def resolvePorts_def)
  also have "\<dots> \<longleftrightarrow> (\<exists>p \<in> set ports. port_selects p proto port)"
    using assms(1) resolve_port_plain(1) by (auto simp: list_all_iff)
  finally show ?thesis using Cons by (simp add: list_ex_iff)
qed

lemma rule_peers_plain:
  assumes "env_ok env" "list_all (plain_peer env ns s lbls) peers" "idToLabels (pe_alloc env) s = Some lbls"
    and "idToLabels (pe_alloc env) WildcardIdentity = None"
  defines "ids \<equiv> set (if peers = [] then [WildcardIdentity] else resolvePeers env peers ns)"
  shows "WildcardIdentity \<in> ids \<or> s \<in> ids \<longleftrightarrow>
    peers = [] \<or> list_ex (\<lambda>peer. peer_IPBlock peer = None \<and> peer_selects env ns peer lbls) peers"
proof (cases "peers = []")
  case False
  let ?R = "\<lambda>peer. set (resolvePodAndNsPeers env (peer_PodSelector peer) (peer_NamespaceSelector peer) ns)"
  have "ids = (\<Union>peer \<in> {p \<in> set peers. peer_IPBlock p = None}. ?R peer)" using False by (auto simp: ids_def resolvePeers_def)
  then have "WildcardIdentity \<in> ids \<or> s \<in> ids \<longleftrightarrow> (\<exists>peer \<in> set peers. peer_IPBlock peer = None \<and> (WildcardIdentity \<in> ?R peer \<or> s \<in> ?R peer))"
    by auto
  also have "\<dots> \<longleftrightarrow> (\<exists>peer \<in> set peers. peer_IPBlock peer = None \<and> peer_selects env ns peer lbls)"
    using resolve_peer_plain [OF assms(1) _ assms(3,4)] assms(2) by (auto simp: list_all_iff)
  finally show ?thesis using False by (simp add: list_ex_iff)
qed (simp add: ids_def)

text \<open>One compiled ingress or egress rule admits exactly what the rule selects.\<close>

lemma ingress_rule_exact:
  assumes "env_ok env" "plain_rule env ns s lbls rule" "idToLabels (pe_alloc env) s = Some lbls"
    and "idToLabels (pe_alloc env) WildcardIdentity = None"
  shows "(\<exists>r \<in> set (compileIngressRule env rule t ns sel). rule_admits r s dst proto port) \<longleftrightarrow>
    (t = WildcardIdentity \<or> t = dst) \<and> rule_selects env ns rule lbls proto port"
proof -
  have pl: "list_all (plain_peer env ns s lbls) (rule_Peers rule)" "list_all plain_port (rule_Ports rule)"
    using assms(2) by (simp_all add: plain_rule_def)
  show ?thesis
    unfolding compileIngressRule_def Let_def set_append bex_Un identity_rules_admit rule_selects_def
      rule_ports_plain [OF pl(2)] rule_peers_plain [OF assms(1) pl(1) assms(3,4)]
    using cidr_rules_admit_nothing by blast
qed

lemma egress_rule_exact:
  assumes "env_ok env" "plain_rule env ns d lbls rule" "idToLabels (pe_alloc env) d = Some lbls"
    and "idToLabels (pe_alloc env) WildcardIdentity = None"
  shows "(\<exists>r \<in> set (compileEgressRule env rule t ns). rule_admits r src d proto port) \<longleftrightarrow>
    (t = WildcardIdentity \<or> t = src) \<and> rule_selects env ns rule lbls proto port"
proof -
  have pl: "list_all (plain_peer env ns d lbls) (rule_Peers rule)" "list_all plain_port (rule_Ports rule)"
    using assms(2) by (simp_all add: plain_rule_def)
  show ?thesis
    unfolding compileEgressRule_def Let_def set_append bex_Un identity_rules_admit rule_selects_def
      rule_ports_plain [OF pl(2)] rule_peers_plain [OF assms(1) pl(1) assms(3,4)]
    using cidr_rules_admit_nothing by blast
qed

lemma compiled_direction:
  "r \<in> set (compileIngressRule env rule t ns sel) \<Longrightarrow> \<not> cr_IsEgress r"
  "r \<in> set (compileEgressRule env rule t ns) \<Longrightarrow> cr_IsEgress r"
  by (auto simp: compileIngressRule_def compileEgressRule_def Let_def buildIdentityRules_def buildCIDRRules_def identity_rule_def cidr_rule_def)

lemma deny_admits_nothing: "\<not> rule_admits (deny_rule a b e ns) src dst proto port"
  by (simp add: rule_admits_def deny_rule_def const_defs)

section \<open>Policies\<close>

definition admitted :: "CompiledRule list \<Rightarrow> bool \<Rightarrow> u64 \<Rightarrow> u64 \<Rightarrow> u8 \<Rightarrow> u16 \<Rightarrow> bool" where
  "admitted rules isEgress src dst proto port = list_ex (\<lambda>r. cr_IsEgress r = isEgress \<and> rule_admits r src dst proto port) rules"

lemma admitted_append: "admitted (xs @ ys) e src dst proto port \<longleftrightarrow> admitted xs e src dst proto port \<or> admitted ys e src dst proto port"
  by (simp add: admitted_def)

lemma admitted_concat_map:
  "admitted (concat (map f xs)) e src dst proto port \<longleftrightarrow> (\<exists>x \<in> set xs. admitted (f x) e src dst proto port)"
  by (auto simp: admitted_def list_ex_iff)

lemma admitted_deny: "\<not> admitted [deny_rule a b e ns] e' src dst proto port"
  by (simp add: admitted_def deny_admits_nothing)

lemma admitted_compiled:
  "admitted (compileIngressRule env rule t ns sel) e src dst proto port \<longleftrightarrow>
     \<not> e \<and> (\<exists>r \<in> set (compileIngressRule env rule t ns sel). rule_admits r src dst proto port)"
  "admitted (compileEgressRule env rule t ns) e src dst proto port \<longleftrightarrow>
     e \<and> (\<exists>r \<in> set (compileEgressRule env rule t ns). rule_admits r src dst proto port)"
  by (auto simp: admitted_def list_ex_iff dest: compiled_direction)

lemma ingress_target:
  "admitted (compile_target env np t) False src dst proto port \<longleftrightarrow>
     hasPolicyType np ''Ingress'' \<and>
     (\<exists>rule \<in> set (pol_Ingress np). \<exists>r \<in> set (compileIngressRule env rule t (pol_Namespace np) (pol_PodSelector np)). rule_admits r src dst proto port)"
  by (simp add: compile_target_def admitted_append admitted_concat_map admitted_deny admitted_compiled admitted_def [of "[]"])

lemma egress_target:
  "admitted (compile_target env np t) True src dst proto port \<longleftrightarrow>
     hasPolicyType np ''Egress'' \<and>
     (\<exists>rule \<in> set (pol_Egress np). \<exists>r \<in> set (compileEgressRule env rule t (pol_Namespace np)). rule_admits r src dst proto port)"
  by (simp add: compile_target_def admitted_append admitted_concat_map admitted_deny admitted_compiled admitted_def [of "[]"])

lemma admitted_ingress_iff:
  assumes "env_ok env" "idToLabels (pe_alloc env) WildcardIdentity = None"
    and src: "idToLabels (pe_alloc env) s = Some Ls" "list_all (plain_rule env (pol_Namespace np) s Ls) (pol_Ingress np)"
    and dst: "idToLabels (pe_alloc env) d = Some Ld" "plain_sel env d Ld (scope_selector (pol_Namespace np) (pol_PodSelector np))"
  shows "admitted (CompilePolicy env (Some np)) False s d proto port \<longleftrightarrow>
    labels_match (ls_MatchLabels (scope_selector (pol_Namespace np) (pol_PodSelector np))) Ld \<and> hasPolicyType np ''Ingress'' \<and>
    list_ex (\<lambda>rule. rule_selects env (pol_Namespace np) rule Ls proto port) (pol_Ingress np)"
proof -
  let ?T = "set (selectorToIdentities env (pol_PodSelector np) (pol_Namespace np))"
  note target = selectorToIdentities_plain [OF assms(1) dst(2,1) assms(2)]
  have rule: "(\<exists>r \<in> set (compileIngressRule env rule t (pol_Namespace np) sel). rule_admits r s d proto port) \<longleftrightarrow>
      (t = WildcardIdentity \<or> t = d) \<and> rule_selects env (pol_Namespace np) rule Ls proto port" if "rule \<in> set (pol_Ingress np)" for rule t sel
    using src(2) that by (intro ingress_rule_exact [OF assms(1) _ src(1) assms(2)]) (simp add: list_all_iff)
  have "admitted (CompilePolicy env (Some np)) False s d proto port \<longleftrightarrow>
      (\<exists>t \<in> ?T. hasPolicyType np ''Ingress'' \<and>
        (\<exists>rule \<in> set (pol_Ingress np). (t = WildcardIdentity \<or> t = d) \<and> rule_selects env (pol_Namespace np) rule Ls proto port))"
    by (simp add: CompilePolicy_def admitted_concat_map ingress_target rule)
  then show ?thesis unfolding target(1) [symmetric] list_ex_iff using target(2) by blast
qed



section \<open>An example\<close>

text \<open>Two pods in one namespace. The API machinery is instantiated with the matching of labels and of
  \<open>Exists\<close> expressions.\<close>

definition ex_web :: Labels where
  "ex_web = [''app'' \<mapsto> ''web'', ''novanet.io/namespace'' \<mapsto> ''ns'']"

definition ex_db :: Labels where
  "ex_db = [''app'' \<mapsto> ''db'', ''novanet.io/namespace'' \<mapsto> ''ns'']"

definition ex_web_id :: u64 where
  "ex_web_id = 10514376693640896008"

definition ex_db_id :: u64 where
  "ex_db_id = 7570286416810727946"

lemma ex_canonical_labels:
  "canonicalLabels ex_web = ''app=web,novanet.io/namespace=ns''" "canonicalLabels ex_db = ''app=db,novanet.io/namespace=ns''"
  by (simp_all add: canonicalLabels_def ex_web_def ex_db_def)

lemma ex_hash_web: "fnv64a ''app=web,novanet.io/namespace=ns'' = ex_web_id"
  by (simp add: fnv64a_def ex_web_id_def)

lemma ex_hash_db: "fnv64a ''app=db,novanet.io/namespace=ns'' = ex_db_id"
  by (simp add: fnv64a_def ex_db_id_def)

lemma ex_hashes: "HashLabels ex_web = ex_web_id" "HashLabels ex_db = ex_db_id"
  by (simp_all add: HashLabels_def hashCanonical_def ex_canonical_labels ex_hash_web ex_hash_db)

lemma ex_id_facts: "ex_web_id \<noteq> ex_db_id" "ex_db_id \<noteq> ex_web_id" "ex_web_id \<noteq> 0" "ex_db_id \<noteq> 0"
  by (simp_all add: ex_web_id_def ex_db_id_def)

definition ex_alloc :: IdAllocator where
  "ex_alloc =
     \<lparr>idToLabels = [ex_web_id \<mapsto> ex_web, ex_db_id \<mapsto> ex_db], refCount = [ex_web_id \<mapsto> 1, ex_db_id \<mapsto> 1],
      labelsToID = [''app=web,novanet.io/namespace=ns'' \<mapsto> ex_web_id, ''app=db,novanet.io/namespace=ns'' \<mapsto> ex_db_id]\<rparr>"

lemma ex_alloc_run: "id_step\<^sup>*\<^sup>* id_NewAllocator ex_alloc"
proof -
  let ?m = "id_NewAllocator\<lparr>idToLabels := [ex_web_id \<mapsto> ex_web], refCount := [ex_web_id \<mapsto> 1],
      labelsToID := [''app=web,novanet.io/namespace=ns'' \<mapsto> ex_web_id]\<rparr>"
  have free: "m h = None \<Longrightarrow> probe m c h = Some h" for m c h by (subst probe.simps) simp
  have "AllocateIdentity ex_web id_NewAllocator = Some (ex_web_id, ?m)"
    by (simp add: AllocateIdentity_def ex_canonical_labels hashCanonical_def ex_hash_web free id_NewAllocator_def bump_def Let_def)
  then have one: "id_step id_NewAllocator ?m" by (rule id_alloc)
  have "AllocateIdentity ex_db ?m = Some (ex_db_id, ex_alloc)"
    by (simp add: AllocateIdentity_def ex_canonical_labels hashCanonical_def ex_hash_db free id_NewAllocator_def bump_def Let_def
        ex_alloc_def ex_id_facts)
  then have "id_step ?m ex_alloc" by (rule id_alloc)
  with one show ?thesis by (meson rtranclp.simps)
qed

definition ex_asSelector :: "LabelSelector \<Rightarrow> (Labels \<Rightarrow> bool) option" where
  "ex_asSelector sel =
     (if list_all (\<lambda>(key, op, vals). op = ''Exists'' \<and> vals = []) (ls_MatchExpressions sel)
      then Some (\<lambda>lbls. labels_match (ls_MatchLabels sel) lbls \<and> list_all (\<lambda>(key, op, vals). lbls key \<noteq> None) (ls_MatchExpressions sel))
      else None)"

definition ex_env :: PolicyEnv where
  "ex_env =
     \<lparr>pe_alloc = ex_alloc, pe_order = (\<lambda>_. [ex_web_id, ex_db_id]), pe_asSelector = ex_asSelector,
      pe_namespaceResolver = None, pe_portResolver = None\<rparr>"

lemma ex_env_ok: "env_ok ex_env"
  using id_run_wf [OF ex_alloc_run]
  by (auto simp: env_ok_def ex_env_def ex_asSelector_def enumerates_def ex_alloc_def ex_id_facts)

lemma ex_live:
  "idToLabels (pe_alloc ex_env) ex_web_id = Some ex_web" "idToLabels (pe_alloc ex_env) ex_db_id = Some ex_db"
  "idToLabels (pe_alloc ex_env) WildcardIdentity = None"
  using ex_id_facts by (auto simp: ex_env_def ex_alloc_def WildcardIdentity_def)

definition ex_selector :: "string \<Rightarrow> LabelSelector" where
  "ex_selector app = \<lparr>ls_MatchLabels = [''app'' \<mapsto> app], ls_MatchExpressions = []\<rparr>"

definition ex_port :: "IntOrString \<Rightarrow> NetworkPolicyPort" where
  "ex_port v = \<lparr>np_Protocol = Some ''TCP'', np_Port = Some v\<rparr>"

definition ex_rule :: "LabelSelector \<Rightarrow> IntOrString \<Rightarrow> NetworkPolicyRule" where
  "ex_rule sel v = \<lparr>rule_Ports = [ex_port v], rule_Peers = [\<lparr>peer_PodSelector = Some sel, peer_NamespaceSelector = None, peer_IPBlock = None\<rparr>]\<rparr>"

lemma ex_scope:
  "ls_MatchLabels (scope_selector ''ns'' (ex_selector ''web'')) = ex_web" "ls_MatchLabels (scope_selector ''ns'' (ex_selector ''db'')) = ex_db"
  "ls_MatchExpressions (scope_selector ''ns'' (ex_selector app)) = []"
  by (simp_all add: scope_selector_def ex_selector_def ex_web_def ex_db_def namespace_label_def)

lemma ex_plain_sel:
  "plain_sel ex_env ex_web_id ex_web (scope_selector ''ns'' (ex_selector ''web''))"
  "plain_sel ex_env ex_db_id ex_db (scope_selector ''ns'' (ex_selector ''db''))"
  by (simp_all add: plain_sel_def ex_scope ex_hashes ex_env_def ex_asSelector_def ex_id_facts WildcardIdentity_def)

lemma ex_plain_rule:
  "plain_rule ex_env ''ns'' ex_web_id ex_web (ex_rule (ex_selector ''web'') (IntVal 80))"
  "plain_rule ex_env ''ns'' ex_db_id ex_db (ex_rule (ex_selector ''db'') (IntVal 80))"
  using ex_plain_sel by (simp_all add: plain_rule_def ex_rule_def ex_port_def plain_peer_def plain_port_def pod_labels_def ex_selector_def)

lemma ex_rule_selects:
  "rule_selects ex_env ''ns'' (ex_rule (ex_selector ''web'') (IntVal 80)) ex_web ProtocolTCP 80"
  "rule_selects ex_env ''ns'' (ex_rule (ex_selector ''db'') (IntVal 80)) ex_db ProtocolTCP 80"
  by (simp_all add: rule_selects_def ex_rule_def peer_selects_def ex_port_def port_selects_def pod_labels_def ex_scope
      labels_match_def port_protocol_def const_defs)

definition ex_policy :: "string \<Rightarrow> string \<Rightarrow> NetworkPolicyRule list \<Rightarrow> NetworkPolicyRule list \<Rightarrow> NetworkPolicy" where
  "ex_policy app ptype ingress egress =
     \<lparr>pol_Namespace = ''ns'', pol_PodSelector = ex_selector app, pol_PolicyTypes = [ptype], pol_Ingress = ingress, pol_Egress = egress\<rparr>"



section \<open>Wider than the policy\<close>

text \<open>
  A rule whose ports are all named and cannot be resolved is compiled as a rule without ports: it
  admits every protocol and every port, although the policy restricts both.
\<close>

theorem unresolved_named_ports_widen:
  assumes "env_ok env" "idToLabels (pe_alloc env) WildcardIdentity = None"
    and "idToLabels (pe_alloc env) s = Some Ls" "list_all (plain_peer env ns s Ls) (rule_Peers rule)"
    and "list_all (\<lambda>p. \<exists>portName. np_Port p = Some (StrVal portName)) (rule_Ports rule)"
    and "pe_portResolver env = None \<or> (\<exists>f. pe_portResolver env = Some f \<and> (\<forall>n pr m sel. f n pr m sel = []))"
  shows "(\<exists>r \<in> set (compileIngressRule env rule d ns podSelector). rule_admits r s d proto port) \<longleftrightarrow>
    rule_Peers rule = [] \<or> list_ex (\<lambda>peer. peer_IPBlock peer = None \<and> peer_selects env ns peer Ls) (rule_Peers rule)"
proof -
  have "resolve_port env ns podSelector p = []" if "p \<in> set (rule_Ports rule)" for p
    using assms(5,6) that by (auto simp: list_all_iff resolve_port_def)
  then have "resolvePorts env (rule_Ports rule) ns podSelector = []" by (simp add: resolvePorts_def)
  then have "compileIngressRule env rule d ns podSelector = compileIngressRule env (rule\<lparr>rule_Ports := []\<rparr>) d ns podSelector"
    by (simp add: compileIngressRule_def resolvePorts_def)
  moreover have "plain_rule env ns s Ls (rule\<lparr>rule_Ports := []\<rparr>)" using assms(4) by (simp add: plain_rule_def)
  ultimately show ?thesis using ingress_rule_exact [OF assms(1) _ assms(3,2)] by (simp add: rule_selects_def)
qed

theorem unresolved_named_ports_widen_witness:
  "\<exists>r \<in> set (compileIngressRule ex_env (ex_rule (ex_selector ''web'') (StrVal ''http'')) ex_db_id ''ns'' (ex_selector ''db'')).
     rule_admits r ex_web_id ex_db_id ProtocolUDP 53"
  using unresolved_named_ports_widen [OF ex_env_ok ex_live(3,1), of "''ns''" "ex_rule (ex_selector ''web'') (StrVal ''http'')"
      ex_db_id "ex_selector ''db''" ProtocolUDP 53] ex_plain_rule(1) ex_rule_selects(1)
  by (simp add: ex_rule_def ex_port_def plain_rule_def rule_selects_def ex_env_def)

text \<open>
  (C32) The fallback for a selector without a match drops its expressions: a peer that asks for the label
  \<open>tier\<close> to exist rejects the pod \<open>web\<close>, which has no such label, yet the compiled rules admit it.
\<close>

theorem expression_fallback_admits:
  "let sel = (ex_selector ''web'')\<lparr>ls_MatchExpressions := [(''tier'', ''Exists'', [])]\<rparr>;
       rules = CompilePolicy ex_env (Some (ex_policy ''db'' ''Ingress'' [ex_rule sel (IntVal 80)] []))
   in map_option (\<lambda>matches. matches ex_web) (pe_asSelector ex_env (scope_selector ''ns'' sel)) = Some False \<and>
      admitted rules False ex_web_id ex_db_id ProtocolTCP 80"
proof -
  let ?sel = "(ex_selector ''web'')\<lparr>ls_MatchExpressions := [(''tier'', ''Exists'', [])]\<rparr>"
  let ?rule = "ex_rule ?sel (IntVal 80)"
  have scoped: "ls_MatchLabels (scope_selector ''ns'' ?sel) = ex_web" "ls_MatchExpressions (scope_selector ''ns'' ?sel) = [(''tier'', ''Exists'', [])]"
    by (simp_all add: scope_selector_def ex_selector_def ex_web_def namespace_label_def)
  have no: "ex_web ''tier'' = None" "ex_db ''tier'' = None" by (simp_all add: ex_web_def ex_db_def)
  have "selectorToIdentities ex_env (ex_selector ''db'') ''ns'' = [ex_db_id]"
  proof -
    have "\<not> ex_db \<subseteq>\<^sub>m ex_web" by (auto simp: map_le_def ex_db_def ex_web_def)
    then show ?thesis
      using ex_live ex_id_facts by (simp add: selectorToIdentities_def Let_def matching_def FindMatchingIdentities_def ex_scope
          labels_match_def ex_env_def ex_asSelector_def)
  qed
  moreover have "findOrFallback ex_env (scope_selector ''ns'' ?sel) = [ex_web_id]"
    using ex_live ex_id_facts no by (simp add: findOrFallback_def Let_def matching_def FindMatchingIdentities_def scoped ex_hashes
        ex_env_def ex_asSelector_def)
  then have "resolvePeers ex_env (rule_Peers ?rule) ''ns'' = [ex_web_id]"
    by (simp add: resolvePeers_def ex_rule_def resolvePodAndNsPeers_def Let_def)
  ultimately show ?thesis
    using no by (simp add: CompilePolicy_def ex_policy_def compile_target_def hasPolicyType_def compileIngressRule_def Let_def scoped
        ex_rule_def buildIdentityRules_def resolvePorts_def resolve_port_def ex_port_def port_protocol_def port_value_def
        identity_rule_def admitted_def rule_admits_def const_defs ex_env_def ex_asSelector_def resolvePeersWithIPBlock_def buildCIDRRules_def)
qed

end
