(* ===== verification/DNS_Cache.thy ===== *)
theory DNS_Cache
  imports GoNet
begin

text \<open>
  The cache of resolved host names (\<open>internal/policy/dns_cache.go\<close>).

  The clock, the resolver and the order in which the run time enumerates the map are arguments: a call
  of \<open>Resolve\<close> is given the time at which it looks at the cache, the answer of the resolver
  (\<^const>\<open>None\<close> is an error) and the time after the answer. Eviction is a loop that ends only if it
  removes an entry every time, so it is a partial function; \<^const>\<open>None\<close> is a loop without end.
\<close>

section \<open>Model\<close>

record dnsCacheEntry =
  de_ips :: "IP list"
  de_expiry :: int
  de_lastAccess :: int

record DNSCache =
  dc_entries :: "string \<rightharpoonup> dnsCacheEntry"
  dc_maxEntries :: int

text \<open>Times are in nanoseconds; five minutes.\<close>

definition defaultDNSTTL :: int where
  "defaultDNSTTL = 300000000000"

definition defaultMaxEntries :: int where
  "defaultMaxEntries = 10000"

definition NewDNSCache :: "int \<Rightarrow> DNSCache" where
  "NewDNSCache maxEntries =
     \<lparr>dc_entries = Map.empty, dc_maxEntries = (if maxEntries \<le> 0 then defaultMaxEntries else maxEntries)\<rparr>"

definition dc_Size :: "DNSCache \<Rightarrow> nat" where
  "dc_Size c = map_len (dc_entries c)"

text \<open>The least recently used key in the enumeration \<open>ks\<close>; the first one of several.\<close>

definition last_access :: "(string \<rightharpoonup> dnsCacheEntry) \<Rightarrow> string \<Rightarrow> int" where
  "last_access m key = (case m key of Some entry \<Rightarrow> de_lastAccess entry | None \<Rightarrow> 0)"

fun oldest_from :: "(string \<rightharpoonup> dnsCacheEntry) \<Rightarrow> string \<Rightarrow> string list \<Rightarrow> string" where
  "oldest_from m oldestKey [] = oldestKey"
| "oldest_from m oldestKey (key # ks) =
     (if last_access m key < last_access m oldestKey then oldest_from m key ks else oldest_from m oldestKey ks)"

fun oldest :: "(string \<rightharpoonup> dnsCacheEntry) \<Rightarrow> string list \<Rightarrow> string" where
  "oldest m [] = ''''"
| "oldest m (key # ks) = oldest_from m key ks"

partial_function (option) evictLocked ::
  "((string \<rightharpoonup> dnsCacheEntry) \<Rightarrow> string list) \<Rightarrow> int \<Rightarrow> (string \<rightharpoonup> dnsCacheEntry) \<Rightarrow> (string \<rightharpoonup> dnsCacheEntry) option" where
  "evictLocked ord maxEntries m =
     (if maxEntries < int (map_len m) then evictLocked ord maxEntries (map_del m (oldest m (ord m))) else Some m)"

definition Resolve ::
  "((string \<rightharpoonup> dnsCacheEntry) \<Rightarrow> string list) \<Rightarrow> int \<Rightarrow> IP list option \<Rightarrow> int \<Rightarrow> string \<Rightarrow> DNSCache \<Rightarrow> (IP list \<times> DNSCache) option" where
  "Resolve ord now answer later fqdn c =
     (let miss =
            (case answer of
               None \<Rightarrow> Some ((case dc_entries c fqdn of Some entry \<Rightarrow> de_ips entry | None \<Rightarrow> []), c)
             | Some resolved \<Rightarrow>
                 map_option (\<lambda>m. (resolved, c\<lparr>dc_entries := m\<rparr>))
                   (evictLocked ord (dc_maxEntries c)
                     ((dc_entries c)(fqdn \<mapsto> \<lparr>de_ips = resolved, de_expiry = later + defaultDNSTTL, de_lastAccess = later\<rparr>))))
      in (case dc_entries c fqdn of
            Some entry \<Rightarrow>
              if now < de_expiry entry
              then Some (de_ips entry, c\<lparr>dc_entries := (dc_entries c)(fqdn \<mapsto> entry\<lparr>de_lastAccess := now\<rparr>)\<rparr>)
              else miss
          | None \<Rightarrow> miss))"

text \<open>The order-insensitive comparison of \<open>Refresh\<close>.\<close>

definition ipsEqual :: "IP list \<Rightarrow> IP list \<Rightarrow> bool" where
  "ipsEqual a b \<longleftrightarrow> length a = length b \<and> list_all (\<lambda>ip. IP_String ip \<in> IP_String ` set a) b"

text \<open>\<open>Refresh\<close> over the names \<open>fqdns\<close> that it found in the cache; each comes with the answer of the resolver
  and the time after it.\<close>

fun Refresh :: "(string \<times> IP list option \<times> int) list \<Rightarrow> DNSCache \<Rightarrow> nat \<times> DNSCache" where
  "Refresh [] c = (0, c)"
| "Refresh ((fqdn, answer, now) # fqdns) c =
     (case answer of
        None \<Rightarrow> Refresh fqdns c
      | Some resolved \<Rightarrow>
          let old = (case dc_entries c fqdn of Some entry \<Rightarrow> de_ips entry | None \<Rightarrow> []);
              (n, c') = Refresh fqdns (c\<lparr>dc_entries := (dc_entries c)
                (fqdn \<mapsto> \<lparr>de_ips = resolved, de_expiry = now + defaultDNSTTL, de_lastAccess = now\<rparr>)\<rparr>)
          in (if ipsEqual old resolved then n else Suc n, c'))"

definition GetAll :: "DNSCache \<Rightarrow> (string \<rightharpoonup> IP list)" where
  "GetAll c = (\<lambda>fqdn. map_option de_ips (dc_entries c fqdn))"

section \<open>Eviction\<close>

definition DNS_wf :: "DNSCache \<Rightarrow> bool" where
  "DNS_wf c \<longleftrightarrow> finite (dom (dc_entries c)) \<and> 0 < dc_maxEntries c \<and> int (map_len (dc_entries c)) \<le> dc_maxEntries c"

lemma oldest_from_min: "oldest_from m k ks \<in> insert k (set ks) \<and> (\<forall>x \<in> insert k (set ks). last_access m (oldest_from m k ks) \<le> last_access m x)"
proof (induction ks arbitrary: k)
  case (Cons a ks)
  show ?case
  proof (cases "last_access m a < last_access m k")
    case True
    then show ?thesis using Cons.IH [of a] by (auto intro: order.trans)
  next
    case False
    then show ?thesis using Cons.IH [of k] by (auto intro: order.trans)
  qed
qed simp

lemma oldest_min:
  assumes "ks \<noteq> []"
  shows "oldest m ks \<in> set ks" "\<forall>x \<in> set ks. last_access m (oldest m ks) \<le> last_access m x"
  using assms oldest_from_min [of m "hd ks" "tl ks"] by (cases ks; simp)+

lemma map_len_pos: "enumerates ks m \<Longrightarrow> 0 < map_len m \<Longrightarrow> ks \<noteq> []"
  by (auto simp: enumerates_def map_len_def)

lemma map_len_del_dom: "finite (dom m) \<Longrightarrow> k \<in> dom m \<Longrightarrow> map_len (map_del m k) = map_len m - 1"
  using map_len_del [of m k] by (auto simp: domIff)

text \<open>Eviction returns whatever the size of the cache.\<close>

lemma evictLocked_returns:
  assumes "\<And>m. finite (dom m) \<Longrightarrow> enumerates (ord m) m" "0 < maxEntries" "finite (dom m)"
  shows "\<exists>m'. evictLocked ord maxEntries m = Some m' \<and> m' \<subseteq>\<^sub>m m \<and> int (map_len m') \<le> maxEntries"
  using assms(3)
proof (induction "map_len m" arbitrary: m)
  case 0
  then show ?case using assms(2) by (subst evictLocked.simps) simp
next
  case (Suc n)
  show ?case
  proof (cases "maxEntries < int (map_len m)")
    case True
    have e: "enumerates (ord m) m" using assms(1) Suc.prems by simp
    then have "ord m \<noteq> []" using Suc.hyps(2) by (intro map_len_pos) auto
    then have key: "oldest m (ord m) \<in> dom m" using oldest_min(1) [of "ord m" m] e by (simp add: enumerates_def)
    then have "map_len (map_del m (oldest m (ord m))) = n" using Suc.hyps(2) [symmetric] Suc.prems by (simp add: map_len_del_dom)
    then obtain m' where "evictLocked ord maxEntries (map_del m (oldest m (ord m))) = Some m'" "m' \<subseteq>\<^sub>m map_del m (oldest m (ord m))"
        "int (map_len m') \<le> maxEntries"
      using Suc.hyps(1) [of "map_del m (oldest m (ord m))"] Suc.prems by auto
    moreover have "map_del m k \<subseteq>\<^sub>m m" for k by (auto simp: map_le_def map_del_def)
    ultimately show ?thesis using True by (subst evictLocked.simps) (auto intro: map_le_trans)
  next
    case False
    then show ?thesis by (subst evictLocked.simps) simp
  qed
qed

text \<open>One entry too many: exactly one least recently used entry goes.\<close>

lemma evictLocked_one:
  assumes "enumerates (ord m) m" "int (map_len m) = maxEntries + 1" "0 < maxEntries"
  shows "evictLocked ord maxEntries m = Some (map_del m (oldest m (ord m)))"
    and "oldest m (ord m) \<in> dom m" "\<forall>k \<in> dom m. last_access m (oldest m (ord m)) \<le> last_access m k"
proof -
  have ne: "ord m \<noteq> []" using assms by (intro map_len_pos) auto
  then show key: "oldest m (ord m) \<in> dom m" and "\<forall>k \<in> dom m. last_access m (oldest m (ord m)) \<le> last_access m k"
    using oldest_min [of "ord m" m] assms(1) by (simp_all add: enumerates_def)
  have "map_len (map_del m (oldest m (ord m))) = map_len m - 1"
    using key enumerates_finite [OF assms(1)] by (simp add: map_len_del_dom)
  then have "evictLocked ord maxEntries (map_del m (oldest m (ord m))) = Some (map_del m (oldest m (ord m)))"
    using assms(2,3) by (subst evictLocked.simps) simp
  then show "evictLocked ord maxEntries m = Some (map_del m (oldest m (ord m)))"
    using assms(2,3) by (subst evictLocked.simps) simp
qed

section \<open>Properties\<close>

lemma insert_wf:
  assumes "DNS_wf c" "m = (dc_entries c)(fqdn \<mapsto> entry)"
  shows "finite (dom m)" "int (map_len m) \<le> dc_maxEntries c \<or> int (map_len m) = dc_maxEntries c + 1 \<and> dc_entries c fqdn = None"
  using assms by (cases "dc_entries c fqdn"; auto simp: DNS_wf_def map_len_upd_new map_len_upd_old domIff)+

text \<open>Storing an answer in the cache evicts nothing or one least recently used entry.\<close>

lemma store_evicts:
  fixes fqdn
  assumes wf: "DNS_wf c" and ord: "\<And>m. finite (dom m) \<Longrightarrow> enumerates (ord m) m"
    and late: "\<forall>k entry. dc_entries c k = Some entry \<longrightarrow> de_lastAccess entry < de_lastAccess new"
  defines "m \<equiv> (dc_entries c)(fqdn \<mapsto> new)"
  shows "\<exists>gone. evictLocked ord (dc_maxEntries c) m = Some (m |` (- gone)) \<and> DNS_wf (c\<lparr>dc_entries := m |` (- gone)\<rparr>) \<and>
    card gone \<le> 1 \<and> gone \<subseteq> dom (dc_entries c) - {fqdn} \<and>
    (\<forall>g \<in> gone. \<forall>k \<in> dom (dc_entries c). last_access (dc_entries c) g \<le> last_access (dc_entries c) k)"
proof -
  note m = insert_wf [OF wf m_def [THEN meta_eq_to_obj_eq]]
  have all_keys: "m |` UNIV = m" by (simp add: restrict_map_def)
  have pos: "0 < dc_maxEntries c" using wf by (simp add: DNS_wf_def)
  show ?thesis
  proof (cases "int (map_len m) \<le> dc_maxEntries c")
    case True
    then have "evictLocked ord (dc_maxEntries c) m = Some m" by (subst evictLocked.simps) simp
    then show ?thesis using True m(1) pos by (intro exI [of _ "{}"]) (simp add: DNS_wf_def all_keys)
  next
    case False
    then have over: "int (map_len m) = dc_maxEntries c + 1" "dc_entries c fqdn = None" using m(2) by auto
    define g where "g = oldest m (ord m)"
    note ev = evictLocked_one [of ord, OF ord [OF m(1)] over(1) pos, folded g_def]
    have other: "last_access m k = last_access (dc_entries c) k" if "k \<noteq> fqdn" for k using that by (simp add: m_def last_access_def)
    have "dom (dc_entries c) \<noteq> {}"
      using over m(1) pos by (auto simp: m_def map_len_def)
    then obtain k where k: "k \<in> dom (dc_entries c)" by auto
    then have "k \<noteq> fqdn" using over(2) by auto
    have "last_access m k < last_access m fqdn" using k late over(2) by (auto simp: m_def last_access_def)
    moreover have "last_access m g \<le> last_access m k" using ev(3) k by (simp add: m_def)
    ultimately have "g \<noteq> fqdn" by auto
    moreover have "map_del m g = m |` (- {g})" by (auto simp: map_del_def restrict_map_def)
    moreover have "DNS_wf (c\<lparr>dc_entries := map_del m g\<rparr>)"
      using over(1) m(1) ev(2) pos by (simp add: DNS_wf_def map_len_del_dom)
    moreover have "last_access (dc_entries c) g \<le> last_access (dc_entries c) x" if x: "x \<in> dom (dc_entries c)" for x
    proof -
      have "x \<noteq> fqdn" "x \<in> dom m" using x over(2) by (auto simp: m_def)
      then have "last_access m g \<le> last_access m x" using ev(3) by blast
      then show ?thesis unfolding other [OF \<open>g \<noteq> fqdn\<close>] other [OF \<open>x \<noteq> fqdn\<close>] .
    qed
    moreover have "g \<in> dom (dc_entries c)" using ev(2) \<open>g \<noteq> fqdn\<close> by (simp add: m_def)
    ultimately show ?thesis using ev(1) by (intro exI [of _ "{g}"]) simp
  qed
qed

text \<open>
  Looking up a host name always returns, and the cache keeps its bound. An entry that has not expired is
  served as it is; otherwise the answer of the resolver is served and stays cached for the time to
  live, and if the resolver fails the stale addresses are served. At most one other entry is evicted,
  none was used less recently, and every other entry stays as it was.
\<close>

theorem dns_resolve:
  assumes "DNS_wf c" "\<And>m. finite (dom m) \<Longrightarrow> enumerates (ord m) m"
    and "\<forall>k entry. dc_entries c k = Some entry \<longrightarrow> de_lastAccess entry < later"
  shows "\<exists>ips c' gone. Resolve ord now answer later fqdn c = Some (ips, c') \<and> DNS_wf c' \<and>
    (let cached = (case dc_entries c fqdn of Some entry \<Rightarrow> now < de_expiry entry | None \<Rightarrow> False);
         stale = (case dc_entries c fqdn of Some entry \<Rightarrow> de_ips entry | None \<Rightarrow> [])
     in ips = (if cached then stale else case answer of Some resolved \<Rightarrow> resolved | None \<Rightarrow> stale) \<and>
        (if cached \<or> answer = None then gone = {} \<and> map_option de_ips (dc_entries c' fqdn) = map_option de_ips (dc_entries c fqdn)
         else map_option (\<lambda>e. (de_ips e, de_expiry e)) (dc_entries c' fqdn) = Some (ips, later + defaultDNSTTL))) \<and>
    dc_entries c' |` (- {fqdn}) = dc_entries c |` (- insert fqdn gone) \<and> card gone \<le> 1 \<and>
    (\<forall>g \<in> gone. \<forall>k \<in> dom (dc_entries c). last_access (dc_entries c) g \<le> last_access (dc_entries c) k)"
proof -
  consider (hit) e where "dc_entries c fqdn = Some e" "now < de_expiry e"
    | (fail) "case dc_entries c fqdn of Some e \<Rightarrow> \<not> now < de_expiry e | None \<Rightarrow> True" "answer = None"
    | (store) resolved where "case dc_entries c fqdn of Some e \<Rightarrow> \<not> now < de_expiry e | None \<Rightarrow> True" "answer = Some resolved"
    by (cases answer; cases "dc_entries c fqdn") auto
  then show ?thesis
  proof cases
    case hit
    let ?c = "c\<lparr>dc_entries := (dc_entries c)(fqdn \<mapsto> e\<lparr>de_lastAccess := now\<rparr>)\<rparr>"
    have "Resolve ord now answer later fqdn c = Some (de_ips e, ?c)" using hit by (simp add: Resolve_def Let_def)
    moreover have "DNS_wf ?c" using assms(1) hit(1) by (simp add: DNS_wf_def map_len_upd_old domIff insert_absorb)
    moreover have "dc_entries ?c |` (- {fqdn}) = dc_entries c |` (- {fqdn})" by (auto simp: restrict_map_def)
    ultimately show ?thesis using hit by (intro exI [of _ "de_ips e"] exI [of _ ?c] exI [of _ "{}"]) simp
  next
    case fail
    let ?ips = "case dc_entries c fqdn of Some e \<Rightarrow> de_ips e | None \<Rightarrow> []"
    have "Resolve ord now answer later fqdn c = Some (?ips, c)" using fail by (auto simp: Resolve_def Let_def split: option.splits)
    then show ?thesis using assms(1) fail by (intro exI [of _ ?ips] exI [of _ c] exI [of _ "{}"]) (auto split: option.splits)
  next
    case store
    define m where "m = (dc_entries c)(fqdn \<mapsto> \<lparr>de_ips = resolved, de_expiry = later + defaultDNSTTL, de_lastAccess = later\<rparr>)"
    have "\<exists>gone. evictLocked ord (dc_maxEntries c) m = Some (m |` (- gone)) \<and> DNS_wf (c\<lparr>dc_entries := m |` (- gone)\<rparr>) \<and>
        card gone \<le> 1 \<and> gone \<subseteq> dom (dc_entries c) - {fqdn} \<and>
        (\<forall>g \<in> gone. \<forall>k \<in> dom (dc_entries c). last_access (dc_entries c) g \<le> last_access (dc_entries c) k)"
      unfolding m_def by (rule store_evicts [OF assms(1,2)]) (use assms(3) in simp_all)
    then obtain gone where g: "evictLocked ord (dc_maxEntries c) m = Some (m |` (- gone))" "DNS_wf (c\<lparr>dc_entries := m |` (- gone)\<rparr>)"
        "card gone \<le> 1" "gone \<subseteq> dom (dc_entries c) - {fqdn}"
        "\<forall>g \<in> gone. \<forall>k \<in> dom (dc_entries c). last_access (dc_entries c) g \<le> last_access (dc_entries c) k"
      by (elim exE conjE)
    let ?c = "c\<lparr>dc_entries := m |` (- gone)\<rparr>"
    have "Resolve ord now answer later fqdn c = Some (resolved, ?c)"
      using store(1) g(1) by (cases "dc_entries c fqdn") (simp_all add: Resolve_def store(2) flip: m_def)
    moreover have "dc_entries ?c |` (- {fqdn}) = dc_entries c |` (- insert fqdn gone)" by (auto simp: restrict_map_def m_def)
    moreover have "dc_entries ?c fqdn = m fqdn" using g(4) by (auto simp: restrict_map_def)
    ultimately show ?thesis using store g(2,3,5)
      by (intro exI [of _ resolved] exI [of _ ?c] exI [of _ gone]) (auto simp: m_def split: option.splits)
  qed
qed

definition ex_cache :: DNSCache where
  "ex_cache = \<lparr>dc_entries = [''a'' \<mapsto> \<lparr>de_ips = [[10, 0, 0, 1]], de_expiry = 7, de_lastAccess = 5\<rparr>], dc_maxEntries = 1\<rparr>"

definition ex_enum :: "(string \<rightharpoonup> dnsCacheEntry) \<Rightarrow> string list" where
  "ex_enum m = sorted_list_of_set (dom m)"

theorem dns_resolve_witness:
  "\<exists>c'. Resolve ex_enum 8 (Some [[10, 0, 0, 2]]) 9 ''b'' ex_cache = Some ([[10, 0, 0, 2]], c') \<and> DNS_wf c' \<and>
     map_option de_ips (dc_entries c' ''b'') = Some [[10, 0, 0, 2]]"
proof -
  have "enumerates (ex_enum m) m" if "finite (dom m)" for m using that by (simp add: enumerates_def ex_enum_def)
  moreover have "DNS_wf ex_cache" by (simp add: DNS_wf_def ex_cache_def map_len_def)
  moreover have "\<forall>k entry. dc_entries ex_cache k = Some entry \<longrightarrow> de_lastAccess entry < 9" by (simp add: ex_cache_def)
  ultimately show ?thesis
    using dns_resolve [of ex_cache ex_enum 9 8 "Some [[10, 0, 0, 2]]" "''b''"] by (auto simp: ex_cache_def)
qed

end
