(* ===== verification/Policy_Extended.thy ===== *)
theory Policy_Extended
  imports Policy_Compiler DNS_Cache
begin

text \<open>
  The compiler for \<open>NovaNetworkPolicy\<close> objects (\<open>internal/policy/extended.go\<close>): port ranges, host names
  and service accounts.

  Compiling looks up host names, which changes the DNS cache, so the cache is threaded through. The
  k-th lookup is given its clock readings and the resolver by \<open>xe_calls\<close> at k. \<^const>\<open>None\<close> is a compilation
  that never returns.
\<close>

section \<open>Objects\<close>

record NovaNetworkPolicyPort =
  nnp_Protocol :: "string option"
  nnp_Port :: "int option"
  nnp_EndPort :: "int option"

record ServiceAccountPeer =
  sa_Name :: string
  sa_Namespace :: string

record NovaNetworkPolicyPeer =
  xp_PodSelector :: "LabelSelector option"
  xp_NamespaceSelector :: "LabelSelector option"
  xp_IPBlock :: "(string \<times> string list) option"
  xp_FQDN :: "string option"
  xp_ServiceAccount :: "ServiceAccountPeer option"

text \<open>An ingress rule with its \<open>From\<close> peers, or an egress rule with its \<open>To\<close> peers.\<close>

record NovaNetworkPolicyRule =
  xr_Ports :: "NovaNetworkPolicyPort list"
  xr_Peers :: "NovaNetworkPolicyPeer list"

record NovaNetworkPolicy =
  xpol_Namespace :: string
  xpol_PodSelector :: LabelSelector
  xpol_PolicyTypes :: "string list"
  xpol_Ingress :: "NovaNetworkPolicyRule list"
  xpol_Egress :: "NovaNetworkPolicyRule list"

record DnsCall =
  call_now :: int
  call_answer :: "string \<Rightarrow> IP list option"
  call_later :: int

record ExtEnv =
  xe_env :: PolicyEnv
  xe_calls :: "nat \<Rightarrow> DnsCall"
  xe_order :: "(string \<rightharpoonup> dnsCacheEntry) \<Rightarrow> string list"

text \<open>The number of lookups made so far, and the cache.\<close>

type_synonym DnsState = "nat \<times> DNSCache"

definition maxExpandablePortRange :: int where
  "maxExpandablePortRange = 100"

section \<open>Ports\<close>

text \<open>\<open>for port := startPort; port <= endPort; port++\<close> on 16 bit words.\<close>

partial_function (option) expand_ports :: "u8 \<Rightarrow> u16 \<Rightarrow> u16 \<Rightarrow> portProto list option" where
  "expand_ports proto port endPort =
     (if port \<le> endPort
      then Option.bind (expand_ports proto (port + 1) endPort) (\<lambda>ports. Some (\<lparr>pp_protocol = proto, pp_port = port\<rparr> # ports))
      else Some [])"

text \<open>One iteration of the loop of \<open>resolveExtendedPorts\<close>.\<close>

definition extended_port :: "NovaNetworkPolicyPort \<Rightarrow> portProto list option" where
  "extended_port p =
     (let proto = port_protocol (nnp_Protocol p)
      in (case nnp_Port p of
            None \<Rightarrow> Some [\<lparr>pp_protocol = proto, pp_port = 0\<rparr>]
          | Some portVal \<Rightarrow>
              if portVal < 0 \<or> 65535 < portVal then Some []
              else
                let startPort = (of_int portVal :: u16)
                in (case nnp_EndPort p of
                      None \<Rightarrow> Some [\<lparr>pp_protocol = proto, pp_port = startPort\<rparr>]
                    | Some endPortVal \<Rightarrow>
                        if endPortVal < 0 \<or> 65535 < endPortVal then Some []
                        else
                          let endPort = (of_int endPortVal :: u16);
                              rangeSize = uint endPort - uint startPort + 1
                          in if rangeSize \<le> 0 then Some []
                             else if maxExpandablePortRange < rangeSize then Some [\<lparr>pp_protocol = proto, pp_port = 0\<rparr>]
                             else expand_ports proto startPort endPort)))"

fun resolveExtendedPorts :: "NovaNetworkPolicyPort list \<Rightarrow> portProto list option" where
  "resolveExtendedPorts [] = Some []"
| "resolveExtendedPorts (p # nnpPorts) =
     (case extended_port p of
        None \<Rightarrow> None
      | Some ports \<Rightarrow> (case resolveExtendedPorts nnpPorts of None \<Rightarrow> None | Some others \<Rightarrow> Some (ports @ others)))"

section \<open>Peers\<close>

definition resolveServiceAccountPeer :: "ServiceAccountPeer \<Rightarrow> string \<Rightarrow> u64" where
  "resolveServiceAccountPeer sa policyNamespace =
     (let ns = (if sa_Namespace sa = '''' then policyNamespace else sa_Namespace sa)
      in HashLabels [namespace_label \<mapsto> ns, ''novanet.io/service-account'' \<mapsto> sa_Name sa])"

definition resolveExtendedPeers :: "PolicyEnv \<Rightarrow> NovaNetworkPolicyPeer list \<Rightarrow> string \<Rightarrow> u64 list" where
  "resolveExtendedPeers env peers ns =
     concat (map (\<lambda>peer.
       if xp_IPBlock peer \<noteq> None \<or> xp_FQDN peer \<noteq> None then []
       else (case xp_ServiceAccount peer of
               Some sa \<Rightarrow> [resolveServiceAccountPeer sa ns]
             | None \<Rightarrow> resolvePodAndNsPeers env (xp_PodSelector peer) (xp_NamespaceSelector peer) ns)) peers)"

definition resolveExtendedCIDRs :: "NovaNetworkPolicyPeer list \<Rightarrow> cidrEntry list" where
  "resolveExtendedCIDRs peers =
     concat (map (\<lambda>peer. case xp_IPBlock peer of None \<Rightarrow> [] | Some (cidr, except) \<Rightarrow> resolveIPBlockCIDRs cidr except) peers)"

definition host_cidr :: "IP \<Rightarrow> string" where
  "host_cidr ip = IP_String ip @ (if IP_To4 ip \<noteq> None then ''/32'' else ''/128'')"

definition dns_lookup :: "ExtEnv \<Rightarrow> string \<Rightarrow> DnsState \<Rightarrow> (IP list \<times> DnsState) option" where
  "dns_lookup xe fqdn st =
     (let call = xe_calls xe (fst st)
      in map_option (\<lambda>(ips, c). (ips, (Suc (fst st), c)))
           (Resolve (xe_order xe) (call_now call) (call_answer call fqdn) (call_later call) fqdn (snd st)))"

fun resolveFQDNPeers :: "ExtEnv \<Rightarrow> NovaNetworkPolicyPeer list \<Rightarrow> DnsState \<Rightarrow> (string list \<times> DnsState) option" where
  "resolveFQDNPeers xe [] st = Some ([], st)"
| "resolveFQDNPeers xe (peer # peers) st =
     (case xp_FQDN peer of
        None \<Rightarrow> resolveFQDNPeers xe peers st
      | Some fqdn \<Rightarrow>
          (case dns_lookup xe fqdn st of
             None \<Rightarrow> None
           | Some (ips, st1) \<Rightarrow>
               map_option (\<lambda>(cidrs, st2). (map host_cidr ips @ cidrs, st2)) (resolveFQDNPeers xe peers st1)))"

section \<open>Policies\<close>

definition compileDirectionalRule ::
  "ExtEnv \<Rightarrow> NovaNetworkPolicyRule \<Rightarrow> u64 \<Rightarrow> bool \<Rightarrow> string \<Rightarrow> DnsState \<Rightarrow> (CompiledRule list \<times> DnsState) option" where
  "compileDirectionalRule xe rule fixedID isEgress ns st =
     (case resolveFQDNPeers xe (xr_Peers rule) st of
        None \<Rightarrow> None
      | Some (fqdnCIDRs, st1) \<Rightarrow>
          (case resolveExtendedPorts (xr_Ports rule) of
             None \<Rightarrow> None
           | Some resolved \<Rightarrow>
               let identities = (if xr_Peers rule = [] then [WildcardIdentity] else resolveExtendedPeers (xe_env xe) (xr_Peers rule) ns);
                   cidrEntries = resolveExtendedCIDRs (xr_Peers rule);
                   ports = (if resolved = [] then [any_port] else resolved)
               in Some (buildIdentityRules identities fixedID ports isEgress ns
                        @ buildCIDRRules cidrEntries fixedID ports isEgress ns
                        @ buildFQDNCIDRRules fqdnCIDRs fixedID ports isEgress ns, st1)))"

definition hasExtendedPolicyType :: "NovaNetworkPolicy \<Rightarrow> string \<Rightarrow> bool" where
  "hasExtendedPolicyType nnp pt = (if xpol_PolicyTypes nnp = [] then pt = ''Ingress'' else pt \<in> set (xpol_PolicyTypes nnp))"

text \<open>A loop that appends the results of its body and threads the state.\<close>

fun collect :: "('a \<Rightarrow> 's \<Rightarrow> ('b list \<times> 's) option) \<Rightarrow> 'a list \<Rightarrow> 's \<Rightarrow> ('b list \<times> 's) option" where
  "collect f [] st = Some ([], st)"
| "collect f (x # xs) st =
     (case f x st of
        None \<Rightarrow> None
      | Some (ys, st1) \<Rightarrow> (case collect f xs st1 of None \<Rightarrow> None | Some (zs, st2) \<Rightarrow> Some (ys @ zs, st2)))"

definition extended_direction ::
  "ExtEnv \<Rightarrow> NovaNetworkPolicy \<Rightarrow> u64 \<Rightarrow> bool \<Rightarrow> DnsState \<Rightarrow> (CompiledRule list \<times> DnsState) option" where
  "extended_direction xe nnp targetID isEgress st =
     (let rules = (if isEgress then xpol_Egress nnp else xpol_Ingress nnp);
          deny = (if isEgress then deny_rule targetID WildcardIdentity True (xpol_Namespace nnp)
                  else deny_rule WildcardIdentity targetID False (xpol_Namespace nnp))
      in if hasExtendedPolicyType nnp (if isEgress then ''Egress'' else ''Ingress'')
         then if rules = [] then Some ([deny], st)
              else collect (\<lambda>rule. compileDirectionalRule xe rule targetID isEgress (xpol_Namespace nnp)) rules st
         else Some ([], st))"

definition extended_target :: "ExtEnv \<Rightarrow> NovaNetworkPolicy \<Rightarrow> u64 \<Rightarrow> DnsState \<Rightarrow> (CompiledRule list \<times> DnsState) option" where
  "extended_target xe nnp targetID st = collect (extended_direction xe nnp targetID) [False, True] st"

definition ExtendedCompilePolicy ::
  "ExtEnv \<Rightarrow> NovaNetworkPolicy option \<Rightarrow> DnsState \<Rightarrow> (CompiledRule list \<times> DnsState) option" where
  "ExtendedCompilePolicy xe policy st =
     (case policy of
        None \<Rightarrow> Some ([], st)
      | Some nnp \<Rightarrow> collect (extended_target xe nnp) (selectorToIdentities (xe_env xe) (xpol_PodSelector nnp) (xpol_Namespace nnp)) st)"

definition ExtendedCompileAll ::
  "ExtEnv \<Rightarrow> NovaNetworkPolicy option list \<Rightarrow> DnsState \<Rightarrow> (CompiledRule list \<times> DnsState) option" where
  "ExtendedCompileAll xe policies st = collect (ExtendedCompilePolicy xe) policies st"

section \<open>Port ranges\<close>

text \<open>Below the last port the loop returns the ports of the range; up to the last port it never ends,
  because the counter wraps around to 0.\<close>

lemma expand_ports_last:
  assumes "expand_ports proto port endPort = Some ports"
  shows "endPort \<noteq> 65535"
proof (rule expand_ports.raw_induct [of "\<lambda>proto port endPort ports. endPort \<noteq> 65535", OF _ assms])
  fix f :: "u8 \<Rightarrow> u16 \<Rightarrow> u16 \<Rightarrow> portProto list option" and proto port endPort ports
  assume IH: "\<And>proto port endPort ports. f proto port endPort = Some ports \<Longrightarrow> endPort \<noteq> 65535"
    and eq: "(if port \<le> endPort
        then Option.bind (f proto (port + 1) endPort) (\<lambda>ports. Some (\<lparr>pp_protocol = proto, pp_port = port\<rparr> # ports)) else Some []) = Some ports"
  show "endPort \<noteq> 65535"
  proof
    assume last: "endPort = 65535"
    have "unat port < 2 ^ 16" using unsigned_less [of port, where 'a = nat] by simp
    then have "port \<le> endPort" using last by (simp add: word_le_nat_alt)
    then obtain rest where "f proto (port + 1) endPort = Some rest" using eq by (auto simp: bind_eq_Some_conv)
    then show False using IH last by blast
  qed
qed

lemma expand_ports_below:
  assumes "unat endPort < 65535"
  shows "expand_ports proto port endPort = Some (map (\<lambda>p. \<lparr>pp_protocol = proto, pp_port = of_nat p\<rparr>) [unat port ..< Suc (unat endPort)])"
proof (induction "Suc (unat endPort) - unat port" arbitrary: port)
  case 0
  then have "\<not> port \<le> endPort" by (simp add: word_le_nat_alt)
  with 0 show ?case by (subst expand_ports.simps) simp
next
  case (Suc n)
  then have le: "unat port \<le> unat endPort" by simp
  then have "unat (port + 1) = Suc (unat port)" using assms by (simp add: unat_word_ariths take_bit_eq_mod)
  then have "expand_ports proto (port + 1) endPort =
      Some (map (\<lambda>p. \<lparr>pp_protocol = proto, pp_port = of_nat p\<rparr>) [Suc (unat port) ..< Suc (unat endPort)])"
    using Suc.hyps(1) [of "port + 1"] Suc.hyps(2) by simp
  moreover have "[unat port ..< Suc (unat endPort)] = unat port # [Suc (unat port) ..< Suc (unat endPort)]"
    using le by (simp add: upt_conv_Cons)
  ultimately show ?case using le by (subst expand_ports.simps) (simp add: word_le_nat_alt)
qed

text \<open>The ranges for which the expansion does not end.\<close>

definition endless_range :: "NovaNetworkPolicyPort \<Rightarrow> bool" where
  "endless_range p =
     (case (nnp_Port p, nnp_EndPort p) of
        (Some portVal, Some endPortVal) \<Rightarrow> endPortVal = 65535 \<and> 65436 \<le> portVal \<and> portVal \<le> 65535
      | _ \<Rightarrow> False)"

text \<open>What a port entry selects: a port, or a range. A range of more than 100 ports stands for all ports.\<close>

definition extended_port_selects :: "NovaNetworkPolicyPort \<Rightarrow> u8 \<Rightarrow> u16 \<Rightarrow> bool" where
  "extended_port_selects p proto port \<longleftrightarrow>
     port_protocol (nnp_Protocol p) = proto \<and>
     (case nnp_Port p of
        None \<Rightarrow> True
      | Some portVal \<Rightarrow>
          (case nnp_EndPort p of
             None \<Rightarrow> uint port = portVal
           | Some endPortVal \<Rightarrow> portVal \<le> uint port \<and> uint port \<le> endPortVal \<or> maxExpandablePortRange < endPortVal - portVal + 1))"

lemma uint_port: "0 \<le> v \<Longrightarrow> v \<le> 65535 \<Longrightarrow> uint (of_int v :: u16) = v"
  by (simp add: uint_word_of_int)

lemma extended_port_None_iff: "extended_port p = None \<longleftrightarrow> endless_range p"
proof -
  have *: "expand_ports proto (of_int v) (of_int e) = None \<longleftrightarrow> e = 65535" if "0 \<le> v" "0 \<le> e" "e \<le> 65535" for proto v and e :: int
  proof (cases "e = 65535")
    case True
    then have "(of_int e :: u16) = 65535" by simp
    then show ?thesis using expand_ports_last [of proto "of_int v" "of_int e"] True by (cases "expand_ports proto (of_int v) (of_int e)") auto
  next
    case False
    have "uint (of_int e :: u16) = e" using uint_port that by simp
    then have "unat (of_int e :: u16) < 65535" using False that by (simp flip: nat_uint_eq)
    then show ?thesis using expand_ports_below False by simp
  qed
  show ?thesis
    by (auto simp: extended_port_def endless_range_def Let_def uint_port * maxExpandablePortRange_def split: option.splits)
qed

lemma resolveExtendedPorts_None_iff: "resolveExtendedPorts ports = None \<longleftrightarrow> list_ex endless_range ports"
  by (induction ports) (auto simp: extended_port_None_iff [symmetric] split: option.splits)

lemma resolveExtendedPorts_Some:
  "\<not> list_ex endless_range ports \<Longrightarrow> resolveExtendedPorts ports = Some (concat (map (\<lambda>p. the (extended_port p)) ports))"
  by (induction ports) (auto simp: extended_port_None_iff [symmetric])

definition port_in_bounds :: "NovaNetworkPolicyPort \<Rightarrow> bool" where
  "port_in_bounds p =
     (case nnp_Port p of
        None \<Rightarrow> nnp_EndPort p = None
      | Some portVal \<Rightarrow> 1 \<le> portVal \<and> portVal \<le> 65535 \<and>
          (case nnp_EndPort p of None \<Rightarrow> True | Some endPortVal \<Rightarrow> portVal \<le> endPortVal \<and> endPortVal \<le> 65535))"

lemma expanded_admits:
  assumes "1 \<le> v" "v \<le> e" "e < 65535" "proto' \<noteq> ProtocolAny"
  shows "(\<exists>pp \<in> set (the (expand_ports proto' (of_int v) (of_int e))). port_admits pp proto port) \<longleftrightarrow>
    proto' = proto \<and> v \<le> uint port \<and> uint port \<le> e"
proof -
  have u: "unat (of_int v :: u16) = nat v" "unat (of_int e :: u16) = nat e"
    using uint_port [of v] uint_port [of e] assms by (simp_all flip: nat_uint_eq)
  then have "expand_ports proto' (of_int v) (of_int e) = Some (map (\<lambda>p. \<lparr>pp_protocol = proto', pp_port = of_nat p\<rparr>) [nat v ..< Suc (nat e)])"
    using expand_ports_below [of "of_int e" proto' "of_int v"] assms(3) by simp
  then have "(\<exists>pp \<in> set (the (expand_ports proto' (of_int v) (of_int e))). port_admits pp proto port) \<longleftrightarrow>
      (\<exists>p \<in> {nat v ..< Suc (nat e)}. port_admits \<lparr>pp_protocol = proto', pp_port = of_nat p\<rparr> proto port)"
    by (simp del: upt_Suc)
  also have "\<dots> \<longleftrightarrow> (\<exists>p \<in> {nat v ..< Suc (nat e)}. proto' = proto \<and> p = unat port)"
  proof (intro bex_cong refl)
    fix p assume "p \<in> {nat v ..< Suc (nat e)}"
    then have "p < 2 ^ 16" "0 < p" using assms by auto
    then have "(of_nat p :: u16) \<noteq> 0" "(of_nat p :: u16) = port \<longleftrightarrow> p = unat port"
      by (auto simp: word_unat_eq_iff unat_of_nat)
    then show "port_admits \<lparr>pp_protocol = proto', pp_port = of_nat p\<rparr> proto port \<longleftrightarrow> proto' = proto \<and> p = unat port"
      using assms(4) by (simp add: port_admits_def)
  qed
  also have "\<dots> \<longleftrightarrow> proto' = proto \<and> v \<le> uint port \<and> uint port \<le> e"
    using assms(1,2) by (auto simp flip: nat_uint_eq)
  finally show ?thesis .
qed

lemma port_protocol_not_any: "port_protocol x \<noteq> ProtocolAny"
  by (auto simp: port_protocol_def const_defs split: option.split)

lemma extended_port_admits:
  assumes "port_in_bounds p" "\<not> endless_range p"
  shows "(\<exists>pp \<in> set (the (extended_port p)). port_admits pp proto port) \<longleftrightarrow> extended_port_selects p proto port"
proof (cases "nnp_Port p")
  case None
  then show ?thesis using port_protocol_not_any by (simp add: extended_port_def extended_port_selects_def port_admits_def)
next
  case (Some v)
  then have v: "1 \<le> v" "v \<le> 65535" using assms(1) by (simp_all add: port_in_bounds_def)
  have uv: "uint (of_int v :: u16) = v" using v uint_port by simp
  then have nz: "(of_int v :: u16) \<noteq> 0" "(of_int v :: u16) = port \<longleftrightarrow> uint port = v" using v by auto
  show ?thesis
  proof (cases "nnp_EndPort p")
    case None
    then show ?thesis using Some v nz port_protocol_not_any by (auto simp: extended_port_def extended_port_selects_def port_admits_def)
  next
    case e: (Some e)
    then have le: "v \<le> e" "e \<le> 65535" using assms(1) Some by (simp_all add: port_in_bounds_def)
    then have ue: "uint (of_int e :: u16) = e" using v uint_port by simp
    show ?thesis
    proof (cases "maxExpandablePortRange < e - v + 1")
      case True
      then have "extended_port p = Some [\<lparr>pp_protocol = port_protocol (nnp_Protocol p), pp_port = 0\<rparr>]"
        using Some e v le uv ue by (simp add: extended_port_def Let_def)
      then show ?thesis using Some e True port_protocol_not_any by (simp add: extended_port_selects_def port_admits_def)
    next
      case False
      then have "e < 65535" using assms(2) Some e v le by (auto simp: endless_range_def maxExpandablePortRange_def)
      moreover have "extended_port p = expand_ports (port_protocol (nnp_Protocol p)) (of_int v) (of_int e)"
        using Some e v le uv ue False by (simp add: extended_port_def Let_def)
      ultimately show ?thesis
        using expanded_admits [OF v(1) le(1) _ port_protocol_not_any, of "nnp_Protocol p" proto port] Some e False
        by (simp add: extended_port_selects_def)
    qed
  qed
qed

section \<open>Compilation returns\<close>

definition dns_orders_ok :: "ExtEnv \<Rightarrow> bool" where
  "dns_orders_ok xe \<longleftrightarrow> (\<forall>m. finite (dom m) \<longrightarrow> enumerates (xe_order xe m) m)"

lemma Resolve_returns:
  assumes "DNS_wf c" "\<And>m. finite (dom m) \<Longrightarrow> enumerates (ord m) m"
  shows "\<exists>ips c'. Resolve ord now answer later fqdn c = Some (ips, c') \<and> DNS_wf c'"
proof -
  let ?store = "\<lambda>r. (dc_entries c)(fqdn \<mapsto> \<lparr>de_ips = r, de_expiry = later + defaultDNSTTL, de_lastAccess = later\<rparr>)"
  have fin: "finite (dom (?store r))" for r using assms(1) by (simp add: DNS_wf_def)
  have pos: "0 < dc_maxEntries c" using assms(1) by (simp add: DNS_wf_def)
  have store: "\<exists>m. evictLocked ord (dc_maxEntries c) (?store r) = Some m \<and> DNS_wf (c\<lparr>dc_entries := m\<rparr>)" for r
  proof -
    obtain m where m: "evictLocked ord (dc_maxEntries c) (?store r) = Some m" "m \<subseteq>\<^sub>m ?store r" "int (map_len m) \<le> dc_maxEntries c"
      using evictLocked_returns [of ord, OF assms(2) pos fin [of r]] by blast
    moreover have "finite (dom m)" by (rule finite_subset [OF map_le_implies_dom_le [OF m(2)] fin])
    ultimately show ?thesis using pos by (simp add: DNS_wf_def)
  qed
  have touch: "DNS_wf (c\<lparr>dc_entries := (dc_entries c)(fqdn \<mapsto> e')\<rparr>)" if "dc_entries c fqdn = Some e" for e e'
    using assms(1) that by (simp add: DNS_wf_def map_len_upd_old)
  show ?thesis
    using store [of "the answer"] touch assms(1) by (cases answer; cases "dc_entries c fqdn") (auto simp: Resolve_def)
qed

lemma dns_lookup_returns:
  assumes "dns_orders_ok xe" "DNS_wf (snd st)"
  shows "\<exists>ips st'. dns_lookup xe fqdn st = Some (ips, st') \<and> DNS_wf (snd st')"
proof -
  let ?call = "xe_calls xe (fst st)"
  obtain ips c' where "Resolve (xe_order xe) (call_now ?call) (call_answer ?call fqdn) (call_later ?call) fqdn (snd st) = Some (ips, c')" "DNS_wf c'"
    using Resolve_returns [OF assms(2), of "xe_order xe"] assms(1) unfolding dns_orders_ok_def by blast
  then show ?thesis by (simp add: dns_lookup_def)
qed

lemma resolveFQDNPeers_returns:
  assumes "dns_orders_ok xe" "DNS_wf (snd st)"
  shows "\<exists>cidrs st'. resolveFQDNPeers xe peers st = Some (cidrs, st') \<and> DNS_wf (snd st')"
  using assms(2)
proof (induction peers arbitrary: st)
  case (Cons peer peers)
  show ?case
  proof (cases "xp_FQDN peer")
    case None
    then show ?thesis using Cons by simp
  next
    case (Some fqdn)
    obtain ips st1 where l: "dns_lookup xe fqdn st = Some (ips, st1)" "DNS_wf (snd st1)"
      using dns_lookup_returns [OF assms(1) Cons.prems] by blast
    obtain cidrs st2 where "resolveFQDNPeers xe peers st1 = Some (cidrs, st2)" "DNS_wf (snd st2)" using Cons.IH [OF l(2)] by blast
    then show ?thesis using Some l(1) by simp
  qed
qed simp

text \<open>A loop whose body returns on some elements only.\<close>

lemma collect_returns:
  assumes "\<And>x st. x \<in> set xs \<Longrightarrow> I st \<Longrightarrow> if bad x then f x st = None else \<exists>ys st'. f x st = Some (ys, st') \<and> I st'"
    and "I st"
  shows "if list_ex bad xs then collect f xs st = None else \<exists>ys st'. collect f xs st = Some (ys, st') \<and> I st'"
  using assms
proof (induction xs arbitrary: st)
  case (Cons x xs)
  show ?case
  proof (cases "bad x")
    case True
    then show ?thesis using Cons.prems by (simp split: option.split)
  next
    case False
    then obtain ys st1 where 1: "f x st = Some (ys, st1)" "I st1" using Cons.prems by (metis list.set_intros(1))
    have "if list_ex bad xs then collect f xs st1 = None else \<exists>ys st'. collect f xs st1 = Some (ys, st') \<and> I st'"
      by (rule Cons.IH) (use Cons.prems 1(2) in auto)
    then show ?thesis using False 1(1) by (auto split: if_splits)
  qed
qed simp

definition endless_rule :: "NovaNetworkPolicyRule \<Rightarrow> bool" where
  "endless_rule rule = list_ex endless_range (xr_Ports rule)"

definition endless_direction :: "NovaNetworkPolicy \<Rightarrow> bool \<Rightarrow> bool" where
  "endless_direction nnp isEgress \<longleftrightarrow>
     hasExtendedPolicyType nnp (if isEgress then ''Egress'' else ''Ingress'') \<and>
     list_ex endless_rule (if isEgress then xpol_Egress nnp else xpol_Ingress nnp)"

lemma selectorToIdentities_not_Nil: "selectorToIdentities env sel ns \<noteq> []"
  by (auto simp: selectorToIdentities_def Let_def split: option.split)

text \<open>
  (C35) Compiling an extended policy returns, and keeps the bound of the DNS cache, unless a rule that is
  compiled has a range of at most 100 ports that ends at port 65535. In that case it never returns,
  whatever the cluster looks like.
\<close>

theorem extended_compile_returns:
  assumes "dns_orders_ok xe" "DNS_wf (snd st)"
  shows "if endless_direction nnp False \<or> endless_direction nnp True then ExtendedCompilePolicy xe (Some nnp) st = None
    else \<exists>rules st'. ExtendedCompilePolicy xe (Some nnp) st = Some (rules, st') \<and> DNS_wf (snd st')"
proof -
  let ?I = "\<lambda>st :: DnsState. DNS_wf (snd st)" and ?T = "selectorToIdentities (xe_env xe) (xpol_PodSelector nnp) (xpol_Namespace nnp)"
  have rule: "if endless_rule rule then compileDirectionalRule xe rule t e ns st = None
      else \<exists>ys st'. compileDirectionalRule xe rule t e ns st = Some (ys, st') \<and> ?I st'" if "?I st" for rule t e ns st
    using resolveFQDNPeers_returns [OF assms(1) that, of "xr_Peers rule"]
    by (auto simp: compileDirectionalRule_def endless_rule_def resolveExtendedPorts_None_iff [symmetric] Let_def)
  have dir: "if endless_direction nnp e then extended_direction xe nnp t e st = None
      else \<exists>ys st'. extended_direction xe nnp t e st = Some (ys, st') \<and> ?I st'" if I: "?I st" for t e st
  proof -
    let ?rules = "if e then xpol_Egress nnp else xpol_Ingress nnp"
    have "if list_ex endless_rule ?rules then collect (\<lambda>rule. compileDirectionalRule xe rule t e (xpol_Namespace nnp)) ?rules st = None
        else \<exists>ys st'. collect (\<lambda>rule. compileDirectionalRule xe rule t e (xpol_Namespace nnp)) ?rules st = Some (ys, st') \<and> ?I st'"
      by (rule collect_returns [where I = ?I]) (use rule I in blast)+
    then show ?thesis using I unfolding extended_direction_def endless_direction_def Let_def
      by (cases "?rules = []"; cases "hasExtendedPolicyType nnp (if e then ''Egress'' else ''Ingress'')") (simp_all del: split_paired_Ex)
  qed
  have target: "if list_ex (endless_direction nnp) [False, True] then extended_target xe nnp t st = None
      else \<exists>ys st'. extended_target xe nnp t st = Some (ys, st') \<and> ?I st'" if "?I st" for t st
    unfolding extended_target_def by (rule collect_returns [where I = ?I]) (use dir that in blast)+
  let ?bad = "\<lambda>_ :: u64. list_ex (endless_direction nnp) [False, True]"
  have "if list_ex ?bad ?T then collect (extended_target xe nnp) ?T st = None
      else \<exists>ys st'. collect (extended_target xe nnp) ?T st = Some (ys, st') \<and> ?I st'"
    by (rule collect_returns [where I = ?I]) (use target assms(2) in blast)+
  moreover have "list_ex ?bad ?T \<longleftrightarrow> endless_direction nnp False \<or> endless_direction nnp True"
    using selectorToIdentities_not_Nil [of "xe_env xe" "xpol_PodSelector nnp" "xpol_Namespace nnp"] by (cases ?T) (auto simp: list_ex_iff)
  ultimately show ?thesis by (simp add: ExtendedCompilePolicy_def del: split_paired_Ex)
qed

definition ex_ext :: ExtEnv where
  "ex_ext = \<lparr>xe_env = ex_env, xe_calls = (\<lambda>k. \<lparr>call_now = int k, call_answer = (\<lambda>_. Some [[10, 0, 0, 1]]), call_later = int k\<rparr>), xe_order = ex_enum\<rparr>"

definition ex_range_policy :: "int \<Rightarrow> int \<Rightarrow> NovaNetworkPolicy" where
  "ex_range_policy v e =
     \<lparr>xpol_Namespace = ''ns'', xpol_PodSelector = ex_selector ''web'', xpol_PolicyTypes = [],
      xpol_Ingress = [\<lparr>xr_Ports = [\<lparr>nnp_Protocol = Some ''TCP'', nnp_Port = Some v, nnp_EndPort = Some e\<rparr>], xr_Peers = []\<rparr>],
      xpol_Egress = []\<rparr>"

theorem extended_compile_returns_witness:
  "ExtendedCompilePolicy ex_ext (Some (ex_range_policy 65500 65535)) (0, NewDNSCache 5) = None \<and>
   (\<exists>rules st'. ExtendedCompilePolicy ex_ext (Some (ex_range_policy 65500 65534)) (0, NewDNSCache 5) = Some (rules, st') \<and> DNS_wf (snd st'))"
proof -
  have ok: "dns_orders_ok ex_ext" by (simp add: dns_orders_ok_def ex_ext_def ex_enum_def enumerates_def)
  have wf: "DNS_wf (snd (0 :: nat, NewDNSCache 5))" by (simp add: DNS_wf_def NewDNSCache_def map_len_def)
  show ?thesis
    using extended_compile_returns [OF ok wf, of "ex_range_policy 65500 65535"] extended_compile_returns [OF ok wf, of "ex_range_policy 65500 65534"]
    by (simp add: ex_range_policy_def endless_direction_def hasExtendedPolicyType_def endless_rule_def endless_range_def del: split_paired_Ex)
qed

end
