(* ===== verification/Webhook.thy ===== *)
theory Webhook
  imports IPAM_Pool Policy_Extended
begin

text \<open>
  The validating admission webhooks (\<open>internal/webhook\<close>) for policies, pools, host endpoint policies, egress
  gateway policies and the cluster object.

  A validation returns the list of its field errors; an object is admitted when the list is empty. An error
  message is reduced to the sentinel error it wraps.
\<close>

section \<open>Errors\<close>

datatype PathElem = Child string | Index nat

type_synonym FieldPath = "PathElem list"

datatype FieldValue = StrField string | IntField int

datatype ValidationError =
  errInvalidCIDR
| errNonCanonicalCIDR
| errInvalidIP
| errInvalidPort
| errEndPortBeforePort
| errInvalidProtocol
| OverlapsWith nat string
| ExceptNotContained
| MTUOutOfRange

datatype FieldError =
  NotSupported FieldPath string "string list"
| Invalid FieldPath FieldValue ValidationError
| Required FieldPath

section \<open>Values (validation.go)\<close>

definition validateCIDR :: "string \<Rightarrow> ValidationError option" where
  "validateCIDR cidr =
     (case ParseCIDR cidr of
        None \<Rightarrow> Some errInvalidCIDR
      | Some (ip, ipNet) \<Rightarrow> if IP_String ip \<noteq> IP_String (net_IP ipNet) then Some errNonCanonicalCIDR else None)"

definition validateIP :: "string \<Rightarrow> ValidationError option" where
  "validateIP ip = (if ParseIP ip = None then Some errInvalidIP else None)"

definition validatePort :: "int \<Rightarrow> ValidationError option" where
  "validatePort port = (if port < 1 \<or> 65535 < port then Some errInvalidPort else None)"

definition validatePortRange :: "int \<Rightarrow> int \<Rightarrow> ValidationError option" where
  "validatePortRange port endPort =
     (case validatePort port of
        Some e \<Rightarrow> Some e
      | None \<Rightarrow>
          (case validatePort endPort of
             Some e \<Rightarrow> Some e
           | None \<Rightarrow> if endPort < port then Some errEndPortBeforePort else None))"

text \<open>\<open>strings.ToUpper\<close>, exact as far as comparisons with ASCII text are concerned: besides the ASCII small
  letters, two other code points have an ASCII upper case (the dotless i, bytes C4 B1, and the long s,
  bytes C5 BF).\<close>

definition upper_char :: "char \<Rightarrow> char" where
  "upper_char c = (if 97 \<le> (of_char c :: nat) \<and> (of_char c :: nat) \<le> 122 then char_of ((of_char c :: nat) - 32) else c)"

fun ToUpper :: "string \<Rightarrow> string" where
  "ToUpper (a # b # s) =
     (if (of_char a :: nat) = 196 \<and> (of_char b :: nat) = 177 then CHR ''I'' # ToUpper s
      else if (of_char a :: nat) = 197 \<and> (of_char b :: nat) = 191 then CHR ''S'' # ToUpper s
      else upper_char a # ToUpper (b # s))"
| "ToUpper [a] = [upper_char a]"
| "ToUpper [] = []"

definition validProtocols :: "string list" where
  "validProtocols = [''TCP'', ''UDP'', ''SCTP'']"

definition validateProtocol :: "string \<Rightarrow> ValidationError option" where
  "validateProtocol protocol = (if ToUpper protocol \<in> set validProtocols then None else Some errInvalidProtocol)"

definition cidrsOverlap :: "IPNet \<Rightarrow> IPNet \<Rightarrow> bool" where
  "cidrsOverlap a b \<longleftrightarrow> IPNet_Contains a (net_IP b) \<or> IPNet_Contains b (net_IP a)"

definition lastAddr :: "IPNet \<Rightarrow> IP" where
  "lastAddr n = map2 (\<lambda>b m. b OR NOT m) (net_IP n) (net_Mask n)"

definition cidrContains :: "IPNet \<Rightarrow> IPNet \<Rightarrow> bool" where
  "cidrContains parent child =
     (if \<not> IPNet_Contains parent (net_IP child) then False else IPNet_Contains parent (lastAddr child))"

section \<open>Loops over fields\<close>

text \<open>\<open>for i, x := range xs { allErrs = append(allErrs, f(x, path.Index(i))...) }\<close>\<close>

definition each :: "FieldPath \<Rightarrow> (FieldPath \<Rightarrow> 'a \<Rightarrow> FieldError list) \<Rightarrow> 'a list \<Rightarrow> FieldError list" where
  "each path f xs = concat (map (\<lambda>(i, x). f (path @ [Index i]) x) (enumerate 0 xs))"

definition invalid_if :: "FieldPath \<Rightarrow> FieldValue \<Rightarrow> ValidationError option \<Rightarrow> FieldError list" where
  "invalid_if path v err = (case err of None \<Rightarrow> [] | Some e \<Rightarrow> [Invalid path v e])"

section \<open>Network policies (novanetworkpolicy\_webhook.go)\<close>

definition validateNetworkPolicyPort :: "FieldPath \<Rightarrow> NovaNetworkPolicyPort \<Rightarrow> FieldError list" where
  "validateNetworkPolicyPort portPath p =
     (case nnp_Protocol p of
        Some proto \<Rightarrow> invalid_if (portPath @ [Child ''protocol'']) (StrField proto) (validateProtocol proto) | None \<Rightarrow> [])
     @ (case nnp_Port p of
          Some port \<Rightarrow> invalid_if (portPath @ [Child ''port'']) (IntField port) (validatePort port) | None \<Rightarrow> [])
     @ (case nnp_EndPort p of
          None \<Rightarrow> []
        | Some endPort \<Rightarrow>
            (case nnp_Port p of
               None \<Rightarrow> [Required (portPath @ [Child ''port''])]
             | Some port \<Rightarrow> invalid_if (portPath @ [Child ''endPort'']) (IntField endPort) (validatePortRange port endPort)))"

definition validateNetworkPolicyPorts :: "NovaNetworkPolicyPort list \<Rightarrow> FieldPath \<Rightarrow> FieldError list" where
  "validateNetworkPolicyPorts ports fldPath = each fldPath validateNetworkPolicyPort ports"

definition validate_except :: "string \<Rightarrow> FieldPath \<Rightarrow> string \<Rightarrow> FieldError list" where
  "validate_except cidr exceptPath except =
     (case validateCIDR except of
        Some e \<Rightarrow> [Invalid exceptPath (StrField except) e]
      | None \<Rightarrow>
          (case (ParseCIDR cidr, ParseCIDR except) of
             (Some (_, parentNet), Some (_, exceptNet)) \<Rightarrow>
               if \<not> cidrContains parentNet exceptNet then [Invalid exceptPath (StrField except) ExceptNotContained] else []
           | _ \<Rightarrow> []))"

definition validateIPBlock :: "string \<times> string list \<Rightarrow> FieldPath \<Rightarrow> FieldError list" where
  "validateIPBlock ipBlock fldPath =
     (case ipBlock of
        (cidr, excepts) \<Rightarrow>
          (case validateCIDR cidr of
             Some e \<Rightarrow> [Invalid (fldPath @ [Child ''cidr'']) (StrField cidr) e]
           | None \<Rightarrow> each (fldPath @ [Child ''except'']) (validate_except cidr) excepts))"

definition validateNetworkPolicyPeers :: "NovaNetworkPolicyPeer list \<Rightarrow> FieldPath \<Rightarrow> FieldError list" where
  "validateNetworkPolicyPeers peers fldPath =
     each fldPath (\<lambda>peerPath peer. case xp_IPBlock peer of
         Some ipBlock \<Rightarrow> validateIPBlock ipBlock (peerPath @ [Child ''ipBlock'']) | None \<Rightarrow> []) peers"

definition validate_policy_rule :: "string \<Rightarrow> FieldPath \<Rightarrow> NovaNetworkPolicyRule \<Rightarrow> FieldError list" where
  "validate_policy_rule peersField rulePath rule =
     validateNetworkPolicyPorts (xr_Ports rule) (rulePath @ [Child ''ports''])
     @ validateNetworkPolicyPeers (xr_Peers rule) (rulePath @ [Child peersField])"

definition validateNovaNetworkPolicySpec :: "NovaNetworkPolicy \<Rightarrow> FieldError list" where
  "validateNovaNetworkPolicySpec spec =
     each [Child ''spec'', Child ''policyTypes''] (\<lambda>path pt.
         if pt = ''Ingress'' \<or> pt = ''Egress'' then [] else [NotSupported path pt [''Ingress'', ''Egress'']]) (xpol_PolicyTypes spec)
     @ each [Child ''spec'', Child ''ingress''] (validate_policy_rule ''from'') (xpol_Ingress spec)
     @ each [Child ''spec'', Child ''egress''] (validate_policy_rule ''to'') (xpol_Egress spec)"

section \<open>Address pools (ippool\_webhook.go)\<close>

record IPPoolSpec =
  ips_Type :: string
  ips_CIDRs :: "string list"
  ips_Addresses :: "string list"
  ips_AutoAssign :: bool
  ips_Owner :: string

definition pool_types :: "string list" where
  "pool_types = [''LoadBalancerVIP'', ''IngressIP'', ''PodCIDR'', ''ServiceClusterIP'', ''Custom'']"

text \<open>The loop over the CIDRs, with its index and the networks parsed so far. The message of an overlap
  names the entry of \<open>cidrs\<close> at the position of the network in the list of parsed networks.\<close>

fun pool_cidr_errors :: "string list \<Rightarrow> nat \<Rightarrow> string list \<Rightarrow> IPNet list \<Rightarrow> FieldError list" where
  "pool_cidr_errors allCIDRs i [] parsedNets = []"
| "pool_cidr_errors allCIDRs i (cidr # cidrs) parsedNets =
     (let path = [Child ''spec'', Child ''cidrs'', Index i]
      in case validateCIDR cidr of
           Some e \<Rightarrow> Invalid path (StrField cidr) e # pool_cidr_errors allCIDRs (Suc i) cidrs parsedNets
         | None \<Rightarrow>
             (case ParseCIDR cidr of
                None \<Rightarrow> pool_cidr_errors allCIDRs (Suc i) cidrs parsedNets
              | Some (_, ipNet) \<Rightarrow>
                  concat (map (\<lambda>(j, prev). if cidrsOverlap ipNet prev
                                            then [Invalid path (StrField cidr) (OverlapsWith j (allCIDRs ! j))] else [])
                            (enumerate 0 parsedNets))
                  @ pool_cidr_errors allCIDRs (Suc i) cidrs (parsedNets @ [ipNet])))"

definition validateIPPoolSpec :: "IPPoolSpec \<Rightarrow> FieldError list" where
  "validateIPPoolSpec spec =
     (if ips_Type spec \<in> set pool_types then [] else [NotSupported [Child ''spec'', Child ''type''] (ips_Type spec) pool_types])
     @ pool_cidr_errors (ips_CIDRs spec) 0 (ips_CIDRs spec) []
     @ each [Child ''spec'', Child ''addresses''] (\<lambda>path addr. invalid_if path (StrField addr) (validateIP addr)) (ips_Addresses spec)
     @ (if ips_CIDRs spec = [] \<and> ips_Addresses spec = [] then [Required [Child ''spec'']] else [])"

section \<open>Host endpoint policies (hostendpointpolicy\_webhook.go)\<close>

record HostPort =
  hp_Port :: int
  hp_EndPort :: "int option"

record HostRule =
  hr_Action :: string
  hr_Protocol :: "string option"
  hr_CIDRs :: "string list"
  hr_Ports :: "HostPort list"

definition validateHostRule :: "FieldPath \<Rightarrow> HostRule \<Rightarrow> FieldError list" where
  "validateHostRule fldPath rule =
     (if hr_Action rule = ''Allow'' \<or> hr_Action rule = ''Deny'' then []
      else [NotSupported (fldPath @ [Child ''action'']) (hr_Action rule) [''Allow'', ''Deny'']])
     @ each (fldPath @ [Child ''cidrs'']) (\<lambda>path cidr. invalid_if path (StrField cidr) (validateCIDR cidr)) (hr_CIDRs rule)
     @ each (fldPath @ [Child ''ports'']) (\<lambda>portPath hp.
         invalid_if (portPath @ [Child ''port'']) (IntField (hp_Port hp)) (validatePort (hp_Port hp))
         @ (case hp_EndPort hp of
              None \<Rightarrow> []
            | Some endPort \<Rightarrow> invalid_if (portPath @ [Child ''endPort'']) (IntField endPort) (validatePortRange (hp_Port hp) endPort)))
         (hr_Ports rule)
     @ (case hr_Protocol rule of
          None \<Rightarrow> []
        | Some proto \<Rightarrow> invalid_if (fldPath @ [Child ''protocol'']) (StrField proto) (validateProtocol proto))"

definition validateHostEndpointPolicySpec :: "HostRule list \<Rightarrow> HostRule list \<Rightarrow> FieldError list" where
  "validateHostEndpointPolicySpec ingress egress =
     each [Child ''spec'', Child ''ingress''] validateHostRule ingress
     @ each [Child ''spec'', Child ''egress''] validateHostRule egress"

section \<open>Egress gateway policies (egressgatewaypolicy\_webhook.go)\<close>

definition validateEgressGatewayPolicySpec :: "string list \<Rightarrow> string list \<Rightarrow> string \<Rightarrow> FieldError list" where
  "validateEgressGatewayPolicySpec destinationCIDRs excludedCIDRs egressIP =
     each [Child ''spec'', Child ''destinationCIDRs''] (\<lambda>path cidr. invalid_if path (StrField cidr) (validateCIDR cidr)) destinationCIDRs
     @ each [Child ''spec'', Child ''excludedCIDRs''] (\<lambda>path cidr. invalid_if path (StrField cidr) (validateCIDR cidr)) excludedCIDRs
     @ (if egressIP \<noteq> '''' \<and> ParseIP egressIP = None
        then [Invalid [Child ''spec'', Child ''egressIP''] (StrField egressIP) errInvalidIP] else [])"

section \<open>The cluster (novanetcluster\_webhook.go)\<close>

text \<open>\<open>cs_WireGuardPort\<close> is \<open>encryption.wireGuardPort\<close>, absent also when \<open>encryption\<close> is.\<close>

record NovaNetClusterSpec =
  cs_ClusterCIDR :: string
  cs_ClusterCIDRv6 :: string
  cs_ControlPlaneVIP :: string
  cs_MTU :: "int option"
  cs_WireGuardPort :: "int option"
  cs_MetricsPort :: "int option"
  cs_HealthPort :: "int option"

definition validateNovanetClusterSpec :: "NovaNetClusterSpec \<Rightarrow> FieldError list" where
  "validateNovanetClusterSpec spec =
     (let netPath = [Child ''spec'', Child ''networking'']; agentPath = [Child ''spec'', Child ''agent'']
      in invalid_if (netPath @ [Child ''clusterCIDR'']) (StrField (cs_ClusterCIDR spec)) (validateCIDR (cs_ClusterCIDR spec))
         @ (if cs_ClusterCIDRv6 spec \<noteq> ''''
            then invalid_if (netPath @ [Child ''clusterCIDRv6'']) (StrField (cs_ClusterCIDRv6 spec)) (validateCIDR (cs_ClusterCIDRv6 spec))
            else [])
         @ (if cs_ControlPlaneVIP spec \<noteq> ''''
            then invalid_if (netPath @ [Child ''controlPlaneVIP'']) (StrField (cs_ControlPlaneVIP spec)) (validateIP (cs_ControlPlaneVIP spec))
            else [])
         @ (case cs_MTU spec of
              Some mtu \<Rightarrow> if mtu \<noteq> 0 \<and> (mtu < 1280 \<or> 9000 < mtu) then [Invalid (netPath @ [Child ''mtu'']) (IntField mtu) MTUOutOfRange] else []
            | None \<Rightarrow> [])
         @ (case cs_WireGuardPort spec of
              Some port \<Rightarrow> if port < 1 \<or> 65535 < port
                then [Invalid [Child ''spec'', Child ''encryption'', Child ''wireGuardPort''] (IntField port) errInvalidPort] else []
            | None \<Rightarrow> [])
         @ (case cs_MetricsPort spec of
              Some port \<Rightarrow> invalid_if (agentPath @ [Child ''metricsPort'']) (IntField port) (validatePort port) | None \<Rightarrow> [])
         @ (case cs_HealthPort spec of
              Some port \<Rightarrow> invalid_if (agentPath @ [Child ''healthPort'']) (IntField port) (validatePort port) | None \<Rightarrow> []))"

section \<open>Admitted ports\<close>

lemma each_Nil_iff: "each path f xs = [] \<longleftrightarrow> (\<forall>i < length xs. f (path @ [Index i]) (xs ! i) = [])"
  by (simp add: each_def all_set_conv_all_nth nth_enumerate_eq)

lemma invalid_if_Nil [simp]: "invalid_if path v err = [] \<longleftrightarrow> err = None"
  by (simp add: invalid_if_def split: option.split)

lemma validatePort_None [simp]: "validatePort v = None \<longleftrightarrow> 1 \<le> v \<and> v \<le> 65535"
  by (auto simp: validatePort_def)

lemma validatePortRange_None [simp]: "validatePortRange v e = None \<longleftrightarrow> 1 \<le> v \<and> v \<le> e \<and> e \<le> 65535"
  by (auto simp: validatePortRange_def split: option.split) (auto simp: validatePort_def split: if_splits)

lemma validateNetworkPolicyPort_bounds: "validateNetworkPolicyPort path p = [] \<Longrightarrow> port_in_bounds p"
  by (auto simp: validateNetworkPolicyPort_def port_in_bounds_def split: option.splits)



text \<open>
  The webhook and the compiler read protocols differently: the webhook admits a protocol in any case,
  but the compiler takes every protocol that is not in capitals for TCP. A policy that admits \<open>udp\<close>
  on port 53 is admitted by the webhook, and is compiled to a rule for TCP.
\<close>

theorem webhook_lower_case_protocol:
  "let port = \<lparr>nnp_Protocol = Some ''udp'', nnp_Port = Some 53, nnp_EndPort = None\<rparr>;
       policy = \<lparr>xpol_Namespace = ''ns'', xpol_PodSelector = ex_selector ''db'', xpol_PolicyTypes = [''Ingress''],
                 xpol_Ingress = [\<lparr>xr_Ports = [port], xr_Peers = []\<rparr>], xpol_Egress = []\<rparr>;
       compiled = ExtendedCompilePolicy ex_ext (Some policy) (0, NewDNSCache 5)
   in validateNovaNetworkPolicySpec policy = [] \<and>
      map_option (\<lambda>(rules, _). admitted rules False ex_web_id ex_db_id ProtocolUDP 53) compiled = Some False \<and>
      map_option (\<lambda>(rules, _). admitted rules False ex_web_id ex_db_id ProtocolTCP 53) compiled = Some True"
proof -
  have db: "selectorToIdentities ex_env (ex_selector ''db'') ''ns'' = [ex_db_id]"
  proof -
    have "\<not> ex_db \<subseteq>\<^sub>m ex_web" by (auto simp: map_le_def ex_db_def ex_web_def)
    then show ?thesis
      using ex_live ex_id_facts by (simp add: selectorToIdentities_def Let_def matching_def FindMatchingIdentities_def ex_scope
          labels_match_def ex_env_def ex_asSelector_def)
  qed
  show ?thesis
    by (simp add: Let_def validateNovaNetworkPolicySpec_def each_def validate_policy_rule_def validateNetworkPolicyPorts_def
        validateNetworkPolicyPort_def validateNetworkPolicyPeers_def validateProtocol_def validProtocols_def upper_char_def char_of_def bit_0
        ExtendedCompilePolicy_def ex_ext_def db extended_target_def extended_direction_def hasExtendedPolicyType_def
        compileDirectionalRule_def extended_port_def port_protocol_def resolveExtendedCIDRs_def buildIdentityRules_def
        buildCIDRRules_def buildFQDNCIDRRules_def identity_rule_def admitted_def rule_admits_def const_defs WildcardIdentity_def)
qed

section \<open>Networks as intervals\<close>

text \<open>Every network of at most \<open>2^32\<close> addresses is an interval of the 128 bit address space, in which IPv4 has
  its mapped addresses.\<close>

lemma IP_num_4_16: "IP_num 4 ip = Some v \<longleftrightarrow> (\<exists>w. IP_num 16 ip = Some w \<and> w div 2 ^ 32 = 65535 \<and> v = w mod 2 ^ 32)"
proof (cases "IP_To16 ip")
  case None
  then show ?thesis by (simp add: IP_num_def IP_To4_None16)
next
  case (Some y)
  then have "length y = 16" by (rule length_IP_To16)
  then have "be_nat (drop 12 y) = be_nat y mod 2 ^ 32" if "be_nat y div 2 ^ 32 = 65535"
    using be_nat_split12 [of y] that div_mult_mod_eq [of "be_nat y" "2 ^ 32"] by simp
  then show ?thesis using IP_To4_iff_num [OF Some] Some by (auto simp: IP_num_def)
qed

definition net_first :: "IPNet \<Rightarrow> nat" where
  "net_first n = (if length (net_IP n) = 4 then 65535 * 2 ^ 32 else 0) + be_nat (net_IP n)"

definition small_net :: "IPNet \<Rightarrow> nat \<Rightarrow> bool" where
  "small_net n h \<longleftrightarrow> h \<le> 32 \<and> (\<exists>L ones. prefix_net L ones n \<and> h = 8 * L - ones)"

lemma small_net_cases:
  assumes "small_net n h"
  obtains (v4) ones where "prefix_net 4 ones n" "h = 32 - ones" "length (net_IP n) = 4" "be_nat (net_IP n) + 2 ^ h \<le> 2 ^ 32"
  | (v6) ones where "prefix_net 16 ones n" "h = 128 - ones" "length (net_IP n) = 16" "h \<le> 32"
proof -
  obtain L ones where n: "prefix_net L ones n" "h = 8 * L - ones" "h \<le> 32" using assms by (auto simp: small_net_def)
  show thesis
  proof (cases "L = 4")
    case True
    have b: "be_nat (net_IP n) < 2 ^ 32" "be_nat (net_IP n) mod 2 ^ h = 0"
      using n True be_nat_lt [of "net_IP n"] by (auto simp: prefix_net_def)
    then obtain q where q: "be_nat (net_IP n) = 2 ^ h * q" by auto
    have p: "(2 :: nat) ^ 32 = 2 ^ h * 2 ^ (32 - h)" using n(3) by (simp flip: power_add)
    have "q < 2 ^ (32 - h)" using b(1) unfolding q p by simp
    then have "2 ^ h * Suc q \<le> 2 ^ h * 2 ^ (32 - h)" by (intro mult_le_mono2) simp
    then have "be_nat (net_IP n) + 2 ^ h \<le> 2 ^ 32" unfolding p q by simp
    then show thesis using v4 n True by (auto simp: prefix_net_def)
  next
    case False
    then show thesis using v6 n by (auto simp: prefix_net_def)
  qed
qed

lemma contains_interval:
  assumes "small_net n h"
  shows "IPNet_Contains n ip \<longleftrightarrow> (\<exists>w. IP_num 16 ip = Some w \<and> net_first n \<le> w \<and> w < net_first n + 2 ^ h)"
  using assms
proof (cases rule: small_net_cases)
  case (v4 ones)
  let ?b = "be_nat (net_IP n)"
  have "IPNet_Contains n ip \<longleftrightarrow> (\<exists>v. IP_num 4 ip = Some v \<and> ?b \<le> v \<and> v < ?b + 2 ^ h)"
    using IPNet_Contains_prefix_net [OF v4(1), of ip] v4(2) by simp
  also have "\<dots> \<longleftrightarrow> (\<exists>w. IP_num 16 ip = Some w \<and> 65535 * 2 ^ 32 + ?b \<le> w \<and> w < 65535 * 2 ^ 32 + ?b + 2 ^ h)"
  proof -
    define N :: nat where "N = 2 ^ 32"
    have le: "?b + 2 ^ h \<le> N" using v4(4) by (simp add: N_def)
    have "w div N = 65535 \<and> ?b \<le> w mod N \<and> w mod N < ?b + 2 ^ h \<longleftrightarrow>
        65535 * N + ?b \<le> w \<and> w < 65535 * N + ?b + 2 ^ h" for w :: nat
    proof
      assume "w div N = 65535 \<and> ?b \<le> w mod N \<and> w mod N < ?b + 2 ^ h"
      then show "65535 * N + ?b \<le> w \<and> w < 65535 * N + ?b + 2 ^ h" using div_mult_mod_eq [of w N] by simp
    next
      assume w: "65535 * N + ?b \<le> w \<and> w < 65535 * N + ?b + 2 ^ h"
      then have "w div N = 65535" using le by (intro div_nat_eqI) simp_all
      then show "w div N = 65535 \<and> ?b \<le> w mod N \<and> w mod N < ?b + 2 ^ h" using w div_mult_mod_eq [of w N] by simp
    qed
    then show ?thesis unfolding IP_num_4_16 N_def by blast
  qed
  finally show ?thesis using v4(3) by (simp add: net_first_def)
next
  case (v6 ones)
  then show ?thesis using IPNet_Contains_prefix_net [OF v6(1), of ip] by (simp add: net_first_def)
qed

lemma net_first_num: "small_net n h \<Longrightarrow> IP_num 16 (net_IP n) = Some (net_first n)"
  by (erule small_net_cases) (auto simp: IP_num_def IP_To16_def net_first_def be_nat_v4_prefix)

lemma cidrsOverlap_iff:
  assumes "small_net a h" "small_net b k"
  shows "cidrsOverlap a b \<longleftrightarrow> (\<exists>ip. IPNet_Contains a ip \<and> IPNet_Contains b ip)"
proof
  assume "cidrsOverlap a b"
  then have "IPNet_Contains a (net_IP b) \<or> IPNet_Contains b (net_IP a)" by (simp add: cidrsOverlap_def)
  moreover have "IPNet_Contains a (net_IP a)" "IPNet_Contains b (net_IP b)"
    using contains_interval net_first_num assms by simp_all
  ultimately show "\<exists>ip. IPNet_Contains a ip \<and> IPNet_Contains b ip" by blast
next
  assume "\<exists>ip. IPNet_Contains a ip \<and> IPNet_Contains b ip"
  then obtain w where "net_first a \<le> w" "w < net_first a + 2 ^ h" "net_first b \<le> w" "w < net_first b + 2 ^ k"
    using contains_interval [OF assms(1)] contains_interval [OF assms(2)] by fastforce
  then have "net_first a \<le> net_first b \<and> net_first b < net_first a + 2 ^ h \<or> net_first b \<le> net_first a \<and> net_first a < net_first b + 2 ^ k"
    by linarith
  then show "cidrsOverlap a b"
    unfolding cidrsOverlap_def contains_interval [OF assms(1)] contains_interval [OF assms(2)] net_first_num [OF assms(1)] net_first_num [OF assms(2)]
    by simp
qed

text \<open>The last address of a network.\<close>

lemma be_nat_not_mask: "ones \<le> 8 * n \<Longrightarrow> be_nat (map NOT (CIDRMask ones (8 * n))) + 1 = 2 ^ (8 * n - ones)"
proof (induction n arbitrary: ones)
  case 0
  then show ?case by (simp add: net_simps CIDRMask_def)
next
  case (Suc n)
  have pow: "(256 :: nat) ^ n = 2 ^ (8 * n)" by (simp add: power_mult)
  show ?case
  proof (cases "8 \<le> ones")
    case True
    then have "be_nat (map NOT (CIDRMask ones (8 * Suc n))) = be_nat (map NOT (CIDRMask (ones - 8) (8 * n)))"
      by (simp only: CIDRMask_Suc) (simp add: be_nat_Cons not_255)
    moreover have "8 * Suc n - ones = 8 * n - (ones - 8)" using True by simp
    ultimately show ?thesis using Suc.IH [of "ones - 8"] Suc.prems True by simp
  next
    case False
    let ?k = "8 - ones"
    have "unat (mask ?k :: u8) = mask ?k" by (rule bit_eqI) (auto simp: bit_simps)
    then have "unat (mask ?k :: u8) + 1 = 2 ^ ?k" by (simp add: mask_eq_exp_minus_1)
    moreover have "be_nat (map NOT (CIDRMask ones (8 * Suc n))) = unat (mask ?k :: u8) * 2 ^ (8 * n) + be_nat (map NOT (CIDRMask 0 (8 * n)))"
      using False by (simp only: CIDRMask_Suc) (simp add: be_nat_Cons drop_bit_255 pow)
    moreover have "be_nat (map NOT (CIDRMask 0 (8 * n))) + 1 = 2 ^ (8 * n)" using Suc.IH [of 0] by simp
    moreover have "c + 1 = k * p" if "a + 1 = k" "c = a * p + b" "b + 1 = p" for a b c k p :: nat
      using that by (auto simp: algebra_simps)
    ultimately have "be_nat (map NOT (CIDRMask ones (8 * Suc n))) + 1 = 2 ^ ?k * 2 ^ (8 * n)" by blast
    also have "\<dots> = 2 ^ (8 * Suc n - ones)" using False by (simp flip: power_add)
    finally show ?thesis .
  qed
qed

lemma unat_or_disjoint: "x AND m = x \<Longrightarrow> unat (x OR NOT m :: u8) = unat x + unat (NOT m)"
proof -
  assume "x AND m = x"
  then have "bit x k \<longrightarrow> bit m k" for k by (metis bit_and_iff)
  then have "\<not> bit (unat x) k \<or> \<not> bit (unat (NOT m)) k" for k by (auto simp: bit_simps)
  then have "unat x + unat (NOT m) = unat x OR unat (NOT m)" by (rule disjunctive_add)
  then show ?thesis by (simp add: unsigned_or_eq)
qed

lemma be_nat_or_not:
  "length xs = length ms \<Longrightarrow> and_bytes xs ms = xs \<Longrightarrow> be_nat (map2 (\<lambda>b m. b OR NOT m) xs ms) = be_nat xs + be_nat (map NOT ms)"
proof (induction xs ms rule: list_induct2)
  case (Cons x xs m ms)
  then show ?case by (simp add: and_bytes_Cons be_nat_Cons unat_or_disjoint algebra_simps)
qed (simp add: net_simps)

lemma lastAddr_num:
  assumes "small_net n h"
  shows "IP_num 16 (lastAddr n) = Some (net_first n + 2 ^ h - 1)"
proof -
  obtain L ones where n: "prefix_net L ones n" "h = 8 * L - ones" using assms by (auto simp: small_net_def)
  have L: "L = 4 \<or> L = 16" "length (net_IP n) = L" "net_Mask n = CIDRMask ones (8 * L)" "ones \<le> 8 * L" "be_nat (net_IP n) mod 2 ^ h = 0"
    using n by (auto simp: prefix_net_def)
  then have len: "length (and_bytes (net_IP n) (net_Mask n)) = length (net_IP n)" by (simp add: and_bytes_def)
  have "be_nat (and_bytes (net_IP n) (net_Mask n)) = be_nat (net_IP n)"
    unfolding L(3) using be_nat_and_mask [of "net_IP n" L ones] L n(2) by (auto simp: div_mult_mod_eq [symmetric])
  then have "and_bytes (net_IP n) (net_Mask n) = net_IP n" using be_nat_inject [OF len] by simp
  then have "be_nat (lastAddr n) = be_nat (net_IP n) + be_nat (map NOT (CIDRMask ones (8 * L)))"
    unfolding lastAddr_def using L(2,3) be_nat_or_not [of "net_IP n" "net_Mask n"] by simp
  then have b: "be_nat (lastAddr n) = be_nat (net_IP n) + 2 ^ h - 1" using be_nat_not_mask [OF L(4)] n(2) by simp
  have "length (lastAddr n) = L" using L by (simp add: lastAddr_def)
  then show ?thesis using L(1,2) b by (auto simp: IP_num_def IP_To16_def net_first_def be_nat_v4_prefix)
qed

lemma cidrContains_iff:
  assumes "small_net a h" "small_net b k"
  shows "cidrContains a b \<longleftrightarrow> (\<forall>ip. IPNet_Contains b ip \<longrightarrow> IPNet_Contains a ip)"
proof
  assume "cidrContains a b"
  then have ends: "net_first a \<le> net_first b" "net_first b + 2 ^ k - 1 < net_first a + 2 ^ h"
    by (auto simp: cidrContains_def contains_interval [OF assms(1)] net_first_num [OF assms(2)] lastAddr_num [OF assms(2)] split: if_splits)
  show "\<forall>ip. IPNet_Contains b ip \<longrightarrow> IPNet_Contains a ip"
  proof (intro allI impI)
    fix ip assume "IPNet_Contains b ip"
    then obtain w where w: "IP_num 16 ip = Some w" "net_first b \<le> w" "w < net_first b + 2 ^ k"
      unfolding contains_interval [OF assms(2)] by blast
    then have "net_first a \<le> w" "w < net_first a + 2 ^ h" using ends by linarith+
    then show "IPNet_Contains a ip" unfolding contains_interval [OF assms(1)] using w(1) by blast
  qed
next
  assume sub: "\<forall>ip. IPNet_Contains b ip \<longrightarrow> IPNet_Contains a ip"
  have pos: "(0 :: nat) < 2 ^ k" by simp
  have "net_first b \<le> net_first b + 2 ^ k - 1" "net_first b + 2 ^ k - 1 < net_first b + 2 ^ k"
    using pos by linarith+
  then have "IPNet_Contains b (net_IP b)" "IPNet_Contains b (lastAddr b)"
    unfolding contains_interval [OF assms(2)] net_first_num [OF assms(2)] lastAddr_num [OF assms(2)] by (simp, blast)
  then show "cidrContains a b" using sub by (simp add: cidrContains_def)
qed

section \<open>Admitted pools\<close>

lemma validateCIDR_parses: "validateCIDR c = None \<Longrightarrow> \<exists>ip n. ParseCIDR c = Some (ip, n)"
  by (auto simp: validateCIDR_def split: option.splits)

lemma pool_cidr_errors_Nil:
  assumes "pool_cidr_errors allCIDRs i cidrs nets = []"
  shows "sorted_wrt (\<lambda>a b. \<not> cidrsOverlap b a) (map (\<lambda>c. snd (the (ParseCIDR c))) cidrs)"
    and "\<forall>c \<in> set cidrs. \<forall>n \<in> set nets. \<not> cidrsOverlap (snd (the (ParseCIDR c))) n"
  using assms
proof (induction cidrs arbitrary: i nets)
  case (Cons c cs)
  { case 1
    then obtain ip n where n: "ParseCIDR c = Some (ip, n)" "validateCIDR c = None"
      using validateCIDR_parses [of c] by (auto simp: Let_def split: option.splits)
    then have rest: "pool_cidr_errors allCIDRs (Suc i) cs (nets @ [n]) = []" using 1 by simp
    show ?case using Cons.IH [OF rest] n by auto
  next
    case 2
    then obtain ip n where n: "ParseCIDR c = Some (ip, n)" "validateCIDR c = None"
      using validateCIDR_parses [of c] by (auto simp: Let_def split: option.splits)
    then have rest: "pool_cidr_errors allCIDRs (Suc i) cs (nets @ [n]) = []" using 2 by simp
    have "\<forall>(j, prev) \<in> set (enumerate 0 nets). \<not> cidrsOverlap n prev" using 2 n by (auto split: if_splits)
    then have "\<forall>prev \<in> set nets. \<not> cidrsOverlap n prev" by (auto simp: all_set_conv_all_nth nth_enumerate_eq)
    then show ?case using Cons.IH(2) [OF rest] n by auto
  }
qed simp_all

lemma parsed_range:
  assumes "parseCIDRRange c = Inr cr"
  shows "cr_network cr = snd (the (ParseCIDR c))" "\<exists>h. small_net (snd (the (ParseCIDR c))) h"
proof -
  obtain ip n where n: "ParseCIDR c = Some (ip, n)" using assms by (auto simp: parseCIDRRange_def split: option.splits)
  obtain L ones where pn: "prefix_net L ones n" using ParseCIDR_prefix_net [OF n] by blast
  have h: "8 * L - ones \<le> 20"
    using assms by (auto simp: parseCIDRRange_def n Mask_Size_prefix_net [OF pn] Let_def split: if_splits)
  have sm: "small_net n (8 * L - ones)" unfolding small_net_def using pn h by (intro conjI exI [of _ L] exI [of _ ones]) auto
  have "cr_network cr = n" using assms by (auto simp: parseCIDRRange_def n Mask_Size_prefix_net [OF pn] Let_def split: if_splits)
  then show "cr_network cr = snd (the (ParseCIDR c))" "\<exists>h. small_net (snd (the (ParseCIDR c))) h"
    using n sm by auto
qed

lemma separate_ranges:
  assumes "range_wf c" "range_wf d" "small_net (cr_network c) h" "small_net (cr_network d) k" "\<not> cidrsOverlap (cr_network d) (cr_network c)"
  shows "cr_index c ip = None \<or> cr_index d ip = None"
  using cidrsOverlap_iff [OF assms(4,3)] assms(5) range_contains [OF assms(1), of ip] range_contains [OF assms(2), of ip] by blast

lemma parse_ranges_networks:
  "parse_ranges cs = Inr crs \<Longrightarrow> map cr_network crs = map (\<lambda>c. snd (the (ParseCIDR c))) cs \<and> (\<forall>cr \<in> set crs. \<exists>h. small_net (cr_network cr) h)"
  by (induction cs arbitrary: crs) (auto simp: parsed_range split: sum.splits)

lemma parse_ranges_disjoint:
  assumes "parse_ranges cs = Inr crs" "sorted_wrt (\<lambda>a b. \<not> cidrsOverlap b a) (map (\<lambda>c. snd (the (ParseCIDR c))) cs)"
  shows "ranges_disjoint crs"
proof -
  note nets = parse_ranges_networks [OF assms(1)]
  have wf: "range_wf cr" if "cr \<in> set crs" for cr using parse_ranges_wf [OF assms(1)] that by (simp add: list_all_iff)
  have "sorted_wrt (\<lambda>c d. \<not> cidrsOverlap (cr_network d) (cr_network c)) crs"
    using assms(2) unfolding nets [THEN conjunct1, symmetric] sorted_wrt_map .
  then have "sorted_wrt (\<lambda>c d. \<forall>ip. cr_index c ip = None \<or> cr_index d ip = None) crs"
  proof (rule sorted_wrt_mono_rel [rotated])
    fix c d assume c: "c \<in> set crs" and d: "d \<in> set crs" and no: "\<not> cidrsOverlap (cr_network d) (cr_network c)"
    obtain h k where sm: "small_net (cr_network c) h" "small_net (cr_network d) k" using nets c d by blast
    show "\<forall>ip. cr_index c ip = None \<or> cr_index d ip = None" by (intro allI separate_ranges [OF wf [OF c] wf [OF d] sm no])
  qed
  then show ?thesis by (simp add: ranges_disjoint_def)
qed


lemma small_net_v4:
  assumes "ParseCIDR c = Some (ip, n)" "length (net_IP n) = 4"
  shows "\<exists>h. small_net n h"
proof -
  obtain L ones where n: "prefix_net L ones n" using ParseCIDR_prefix_net [OF assms(1)] by blast
  then have "L = 4" using assms(2) by (simp add: prefix_net_def)
  then have "small_net n (8 * L - ones)" unfolding small_net_def using n by (intro conjI exI [of _ L] exI [of _ ones]) simp_all
  then show ?thesis by blast
qed

lemma ex_ParseCIDR24: "ParseCIDR ''10.0.0.0/24'' =
    Some ([0, 0, 0, 0, 0, 0, 0, 0, 0, 0, 255, 255, 10, 0, 0, 0], \<lparr>net_IP = [10, 0, 0, 0], net_Mask = [255, 255, 255, 0]\<rparr>)"
  by (simp add: ParseCIDR_def ParseAddr_def dec_val_def CIDRMask_def IP_Mask_def and_bytes_def v4InV6Prefix_def upt_rec Let_def not_255)


end
