(* ===== verification/Operator_IPAM.thy ===== *)
theory Operator_IPAM
  imports IPAM_Manager Webhook
begin

text \<open>
  The operator's controllers for address pools and allocations (\<open>internal/operator/controller/ippool_controller.go\<close>
  and \<open>ipallocation_controller.go\<close>), over the address manager and behind the admission webhook.

  The answer of the API server to a read and the success of the writes are arguments. A reconciliation
  returns whether it reports an error, the status or object it wrote, and the manager.
\<close>

section \<open>Pools\<close>

datatype 'a Fetched = Fetched 'a | NotFound | FetchError

text \<open>The status of the object: the counters are converted to \<open>int32\<close>, the condition \<open>Ready\<close> has a reason.\<close>

record IPPoolStatus =
  st_Allocated :: "32 word"
  st_Total :: "32 word"
  st_Available :: "32 word"
  st_Ready :: bool
  st_Reason :: string

definition crdPoolTypeToIPAM :: "string \<Rightarrow> PoolType" where
  "crdPoolTypeToIPAM t =
     (if t = ''LoadBalancerVIP'' then PoolTypeLoadBalancerVIP
      else if t = ''IngressIP'' then PoolTypeIngressIP
      else if t = ''PodCIDR'' then PoolTypePodCIDR
      else if t = ''ServiceClusterIP'' then PoolTypeServiceClusterIP
      else if t = ''Custom'' then PoolTypeCustom
      else PoolTypeCustom)"

definition pool_config :: "string \<Rightarrow> IPPoolSpec \<Rightarrow> PoolConfig" where
  "pool_config name spec =
     \<lparr>pc_Name = name, pc_Type = crdPoolTypeToIPAM (ips_Type spec), pc_CIDRs = ips_CIDRs spec,
      pc_Addresses = ips_Addresses spec, pc_AutoAssign = ips_AutoAssign spec, pc_Owner = ips_Owner spec\<rparr>"

text \<open>The counters keep their old values when the configuration is invalid.\<close>

definition IPPool_Reconcile ::
  "(string \<Rightarrow> string list) \<Rightarrow> string \<Rightarrow> (IPPoolSpec \<times> IPPoolStatus) Fetched \<Rightarrow> bool \<Rightarrow> Manager \<Rightarrow> bool \<times> IPPoolStatus option \<times> Manager" where
  "IPPool_Reconcile aord name fetched updateOk m =
     (case fetched of
        NotFound \<Rightarrow> (False, None, UnregisterPool name m)
      | FetchError \<Rightarrow> (True, None, m)
      | Fetched (spec, status) \<Rightarrow>
          (case UpdatePool (pool_config name spec) m of
             (Some e, m1) \<Rightarrow> (True, Some (status\<lparr>st_Ready := False, st_Reason := ''InvalidConfig''\<rparr>), m1)
           | (None, m1) \<Rightarrow>
               (case GetPool aord name m1 of
                  Inl e \<Rightarrow> (True, None, m1)
                | Inr ps \<Rightarrow>
                    (\<not> updateOk,
                     Some \<lparr>st_Allocated = of_int (ps_Allocated ps), st_Total = of_int (ps_Total ps),
                           st_Available = of_int (ps_Available ps), st_Ready = True, st_Reason = ''PoolReady''\<rparr>, m1))))"

section \<open>Allocations\<close>

record IPAllocation =
  ia_Deleting :: bool
  ia_Finalizer :: bool
  ia_Pool :: string
  ia_IP :: string
  ia_Owner :: string
  ia_Resource :: string
  ia_State :: string
  ia_Valid :: "(bool \<times> string) option"

definition isAlreadyAllocatedError :: "ManagerError \<Rightarrow> bool" where
  "isAlreadyAllocatedError err \<longleftrightarrow> err = PoolError ErrIPAlreadyAlloc"

text \<open>Claiming the address of an object that has its finalizer.\<close>

definition bind_allocation :: "int \<Rightarrow> bool \<Rightarrow> IPAllocation \<Rightarrow> Manager \<Rightarrow> bool \<times> IPAllocation \<times> Manager" where
  "bind_allocation now statusOk alloc m =
     (case ParseIP (ia_IP alloc) of
        None \<Rightarrow> (False, alloc\<lparr>ia_State := ''Conflict'', ia_Valid := Some (False, ''InvalidIP'')\<rparr>, m)
      | Some ip \<Rightarrow>
          (case Manager_AllocateSpecific now (ia_Pool alloc) ip (ia_Owner alloc) (ia_Resource alloc) m of
             (err, m1) \<Rightarrow>
               (case err of
                  Some e \<Rightarrow>
                    if isAlreadyAllocatedError e
                    then (\<not> statusOk, alloc\<lparr>ia_State := ''Bound'', ia_Valid := Some (True, ''Bound'')\<rparr>, m1)
                    else (False, alloc\<lparr>ia_State := ''Conflict'', ia_Valid := Some (False, ''AllocationFailed'')\<rparr>, m1)
                | None \<Rightarrow> (\<not> statusOk, alloc\<lparr>ia_State := ''Bound'', ia_Valid := Some (True, ''Bound'')\<rparr>, m1))))"

definition IPAllocation_Reconcile ::
  "int \<Rightarrow> IPAllocation Fetched \<Rightarrow> bool \<Rightarrow> bool \<Rightarrow> Manager \<Rightarrow> bool \<times> IPAllocation option \<times> Manager" where
  "IPAllocation_Reconcile now fetched updateOk statusOk m =
     (case fetched of
        NotFound \<Rightarrow> (False, None, m)
      | FetchError \<Rightarrow> (True, None, m)
      | Fetched alloc \<Rightarrow>
          if ia_Deleting alloc then
            if ia_Finalizer alloc then
              let m1 = (case ParseIP (ia_IP alloc) of None \<Rightarrow> m | Some ip \<Rightarrow> snd (Manager_Release (ia_Pool alloc) ip m))
              in (\<not> updateOk, Some (alloc\<lparr>ia_Finalizer := False\<rparr>), m1)
            else (False, Some alloc, m)
          else if \<not> ia_Finalizer alloc \<and> \<not> updateOk then (True, Some (alloc\<lparr>ia_Finalizer := True\<rparr>), m)
          else (case bind_allocation now statusOk (alloc\<lparr>ia_Finalizer := True\<rparr>) m of (err, alloc', m1) \<Rightarrow> (err, Some alloc', m1)))"

section \<open>Admission makes pools safe\<close>

lemma reconcile_ready:
  assumes "IPPool_Reconcile aord name (Fetched (spec, status)) updateOk m = (err, Some s, m1)" "st_Ready s"
  shows "\<exists>p. NewPool (pool_config name spec) = Inr p \<and> m1 = m(name \<mapsto> p)"
proof (cases "NewPool (pool_config name spec)")
  case (Inl e)
  then show ?thesis using assms by (auto simp: IPPool_Reconcile_def UpdatePool_def)
next
  case (Inr p)
  have "pc_Name (pool_config name spec) = name" by (simp add: pool_config_def)
  then show ?thesis using assms Inr by (auto simp: IPPool_Reconcile_def UpdatePool_def GetPool_def getPool_def)
qed

lemma admitted_separate:
  assumes "validateIPPoolSpec spec = []" "ips_Addresses spec = []" "NewPool (pool_config name spec) = Inr p"
  shows "sources_disjoint p"
proof -
  obtain crs where crs: "parse_ranges (ips_CIDRs spec) = Inr crs" "p_ranges p = crs" "p_discreteAddrs p = Map.empty"
    using assms(2,3) by (auto simp: NewPool_def pool_config_def split: sum.splits)
  have "pool_cidr_errors (ips_CIDRs spec) 0 (ips_CIDRs spec) [] = []" using assms(1) by (simp add: validateIPPoolSpec_def)
  then have "ranges_disjoint crs" by (rule parse_ranges_disjoint [OF crs(1) pool_cidr_errors_Nil(1)])
  then show ?thesis using crs by (simp add: sources_disjoint_def)
qed


section \<open>Examples\<close>

definition ex_spec :: "string list \<Rightarrow> IPPoolSpec" where
  "ex_spec addrs = \<lparr>ips_Type = ''LoadBalancerVIP'', ips_CIDRs = [''10.0.0.0/30''], ips_Addresses = addrs, ips_AutoAssign = True, ips_Owner = ''ops''\<rparr>"

definition ex_status :: IPPoolStatus where
  "ex_status = \<lparr>st_Allocated = 0, st_Total = 0, st_Available = 0, st_Ready = False, st_Reason = ''''\<rparr>"

lemma ex_admitted: "validateIPPoolSpec (ex_spec []) = []" "validateIPPoolSpec (ex_spec [''10.0.0.0'']) = []" "validateIPPoolSpec (ex_spec [''10.0.1.1'']) = []"
  by (simp_all add: validateIPPoolSpec_def ex_spec_def pool_types_def validateCIDR_def ex_ParseCIDR each_def validateIP_def invalid_if_def ip_eval)

lemma ex_configs: "pool_config ''lb'' (ex_spec [''10.0.0.0'']) = ex_overlap_cfg" "pool_config ''lb'' (ex_spec [''10.0.1.1'']) = ex_cfg"
  by (simp_all add: pool_config_def ex_spec_def ex_overlap_cfg_def ex_cfg_def crdPoolTypeToIPAM_def)

lemma reconcile_NewPool:
  assumes "NewPool (pool_config name spec) = Inr p"
  shows "\<exists>s. IPPool_Reconcile aord name (Fetched (spec, status)) True m = (False, Some s, m(name \<mapsto> p)) \<and> st_Ready s"
proof -
  have "pc_Name (pool_config name spec) = name" by (simp add: pool_config_def)
  then show ?thesis using assms by (simp add: IPPool_Reconcile_def UpdatePool_def GetPool_def getPool_def)
qed


text \<open>
  Discrete addresses are not checked against the CIDRs: the webhook admits a pool whose address lies in
  its own CIDR, the operator accepts it, and the pool then gives that address to a second owner while
  the allocation of the first is still recorded.
\<close>

theorem admitted_pool_double_allocation:
  "\<exists>s p p1 p2. validateIPPoolSpec (ex_spec [''10.0.0.0'']) = [] \<and>
     IPPool_Reconcile aord ''lb'' (Fetched (ex_spec [''10.0.0.0''], ex_status)) True NewManager = (False, Some s, [''lb'' \<mapsto> p]) \<and>
     Pool_Allocate [''10.0.0.0''] 7 ''svc'' ''a'' p = (Inr [10, 0, 0, 0], p1) \<and>
     map_option ai_Owner (p_allocations p1 ''10.0.0.0'') = Some ''svc'' \<and>
     Pool_AllocateSpecific [10, 0, 0, 0] 8 ''other'' ''b'' p1 = (None, p2) \<and>
     map_option ai_Owner (p_allocations p2 ''10.0.0.0'') = Some ''other''"
proof -
  obtain p p1 p2 where p: "NewPool ex_overlap_cfg = Inr p" "Pool_Allocate [''10.0.0.0''] 7 ''svc'' ''a'' p = (Inr [10, 0, 0, 0], p1)"
    "map_option ai_Owner (p_allocations p1 ''10.0.0.0'') = Some ''svc''"
    "Pool_AllocateSpecific [10, 0, 0, 0] 8 ''other'' ''b'' p1 = (None, p2)"
    "map_option ai_Owner (p_allocations p2 ''10.0.0.0'') = Some ''other''"
    using ex_overlap_pool by (elim exE conjE)
  obtain s where "IPPool_Reconcile aord ''lb'' (Fetched (ex_spec [''10.0.0.0''], ex_status)) True NewManager = (False, Some s, NewManager(''lb'' \<mapsto> p))"
    using reconcile_NewPool [of "''lb''" "ex_spec [''10.0.0.0'']"] p(1) unfolding ex_configs by blast
  then show ?thesis using p ex_admitted(2)
    by (intro exI [of _ s] exI [of _ p] exI [of _ p1] exI [of _ p2]) (simp add: NewManager_def)
qed

text \<open>
  (C37) Reconciling a pool forgets its allocations: after an address has been handed out, reconciling the
  unchanged object, as every resync does, replaces the pool by a fresh one, and the next allocation
  hands out the address that is still in use.
\<close>

theorem resync_forgets_allocations:
  "\<exists>s1 m1 m2 s2 m3.
     IPPool_Reconcile aord ''lb'' (Fetched (ex_spec [''10.0.1.1''], ex_status)) True NewManager = (False, Some s1, m1) \<and>
     Manager_Allocate (\<lambda>n. [''10.0.1.1'']) 7 ''lb'' ''svc'' ''a'' m1 = (Inr [10, 0, 0, 0], m2) \<and>
     IPPool_Reconcile aord ''lb'' (Fetched (ex_spec [''10.0.1.1''], s1)) True m2 = (False, Some s2, m3) \<and>
     fst (Manager_Allocate (\<lambda>n. [''10.0.1.1'']) 8 ''lb'' ''other'' ''b'' m3) = Inr [10, 0, 0, 0]"
proof -
  have new: "NewPool (pool_config ''lb'' (ex_spec [''10.0.1.1''])) = Inr ex_pool" unfolding ex_configs by (rule ex_NewPool)
  obtain s1 where s1: "IPPool_Reconcile aord ''lb'' (Fetched (ex_spec [''10.0.1.1''], ex_status)) True NewManager = (False, Some s1, NewManager(''lb'' \<mapsto> ex_pool))"
    using reconcile_NewPool [OF new] by blast
  let ?m2 = "NewManager(''lb'' \<mapsto> ex_pool1)"
  obtain s2 where s2: "IPPool_Reconcile aord ''lb'' (Fetched (ex_spec [''10.0.1.1''], s1)) True ?m2 = (False, Some s2, ?m2(''lb'' \<mapsto> ex_pool))"
    using reconcile_NewPool [OF new] by blast
  have a: "Manager_Allocate (\<lambda>n. [''10.0.1.1'']) 7 ''lb'' ''svc'' ''a'' (NewManager(''lb'' \<mapsto> ex_pool)) = (Inr [10, 0, 0, 0], ?m2)"
    by (simp add: Manager_Allocate_def getPool_def ex_pool_Allocate)
  have "fst (Pool_Allocate [''10.0.1.1''] 8 ''other'' ''b'' ex_pool) = Inr [10, 0, 0, 0]"
    by (simp add: Pool_Allocate_def ex_pool_def ex_range_def Bitmap_FindFree_def FindFree_bits.simps Bitmap_Set_def
        bit64_def indexToIP_def be_nat_def big_Bytes.simps)
  then have "fst (Manager_Allocate (\<lambda>n. [''10.0.1.1'']) 8 ''lb'' ''other'' ''b'' (?m2(''lb'' \<mapsto> ex_pool))) = Inr [10, 0, 0, 0]"
    by (auto simp: Manager_Allocate_def getPool_def split: prod.splits)
  with s1 a s2 show ?thesis by blast
qed

section \<open>Allocation objects\<close>

text \<open>
  (C36) An allocation object that asks for an address in use is bound to it as well, whoever the owner is: the
  manager is unchanged and the object reports \<open>Bound\<close>. When that object is deleted, the address of the
  first owner becomes available for others.
\<close>

theorem ip_allocation_steals:
  assumes "manager_step\<^sup>*\<^sup>* NewManager m" "m (ia_Pool alloc) = Some pool" "ParseIP (ia_IP alloc) = Some ip"
    and "p_allocations pool (pname ip) = Some info" "\<not> ia_Deleting alloc"
  shows "\<exists>alloc' m'. IPAllocation_Reconcile now (Fetched alloc) True True m = (False, Some alloc', m) \<and>
    ia_State alloc' = ''Bound'' \<and>
    snd (snd (IPAllocation_Reconcile now' (Fetched (alloc'\<lparr>ia_Deleting := True\<rparr>)) True True m)) = m' \<and>
    Validate (ia_Pool alloc) ip m' = Inr True"
proof -
  have wf: "Pool_wf pool" using manager_run_wf [OF assms(1)] assms(2) by (auto simp: Manager_wf_def)
  have st: "pool_state pool ip = Some True" using wf assms(4) by (auto simp: Pool_wf_def)
  have "Pool_AllocateSpecific ip now (ia_Owner alloc) (ia_Resource alloc) pool = (Some ErrIPAlreadyAlloc, pool)"
    using pool_specific_result [OF wf, of ip now "ia_Owner alloc" "ia_Resource alloc"] st by simp
  then have "Manager_AllocateSpecific now (ia_Pool alloc) ip (ia_Owner alloc) (ia_Resource alloc) m = (Some (PoolError ErrIPAlreadyAlloc), m)"
    using assms(2) by (simp add: Manager_AllocateSpecific_def getPool_def fun_upd_idem)
  then have bound: "IPAllocation_Reconcile now (Fetched alloc) True True m =
      (False, Some (alloc\<lparr>ia_Finalizer := True, ia_State := ''Bound'', ia_Valid := Some (True, ''Bound'')\<rparr>), m)"
    using assms(3,5) by (simp add: IPAllocation_Reconcile_def bind_allocation_def isAlreadyAllocatedError_def)
  obtain pool' where r: "Pool_Release ip pool = (None, pool')" "Pool_wf pool'" "pool_names pool' = pool_names pool"
      "p_allocations pool' = map_del (p_allocations pool) (pname ip)"
    using pool_release_result [OF wf st] by blast
  have "Pool_IsAvailable ip pool' = Some True"
    using pl.available_iff [OF r(2), of ip] r(3,4) st by (simp add: pool_names_iff)
  then show ?thesis using bound assms(2,3) r(1)
    by (simp add: IPAllocation_Reconcile_def Manager_Release_def getPool_def Validate_def)
qed

theorem ip_allocation_steals_witness:
  "\<exists>m'. Validate ''lb'' [0, 0, 0, 0, 0, 0, 0, 0, 0, 0, 255, 255, 10, 0, 0, 0] [''lb'' \<mapsto> ex_pool1] = Inr False \<and>
     Validate ''lb'' [0, 0, 0, 0, 0, 0, 0, 0, 0, 0, 255, 255, 10, 0, 0, 0] m' = Inr True"
proof -
  let ?a = "\<lparr>ia_Deleting = False, ia_Finalizer = False, ia_Pool = ''lb'', ia_IP = ''10.0.0.0'', ia_Owner = ''other'', ia_Resource = ''b'',
      ia_State = '''', ia_Valid = None\<rparr>"
  let ?ip = "[0, 0, 0, 0, 0, 0, 0, 0, 0, 0, 255, 255, 10, 0, 0, 0] :: IP"
  have "Manager_Allocate (\<lambda>n. [''10.0.1.1'']) 7 ''lb'' ''svc'' ''a'' ex_mgr = (Inr [10, 0, 0, 0], [''lb'' \<mapsto> ex_pool1])"
    by (simp add: Manager_Allocate_def getPool_def ex_mgr_def ex_pool_Allocate)
  then have "manager_step ex_mgr [''lb'' \<mapsto> ex_pool1]" by (rule mgr_Allocate [OF ex_mgr_orders])
  then have run: "manager_step\<^sup>*\<^sup>* NewManager [''lb'' \<mapsto> ex_pool1]"
    by (rule rtranclp.rtrancl_into_rtrancl [OF ex_mgr_run])
  have p: "ParseIP (ia_IP ?a) = Some ?ip" by (simp add: ip_eval)
  have n: "pname ?ip = ''10.0.0.0''" by (simp add: pname_def normalizeIP_def ip_eval)
  have al: "p_allocations ex_pool1 (pname ?ip) = Some \<lparr>ai_IP = [10, 0, 0, 0], ai_Owner = ''svc'', ai_Resource = ''a'', ai_Timestamp = 7\<rparr>"
    unfolding n by (simp add: ex_pool1_def)
  have wf: "Pool_wf ex_pool1" using manager_run_wf [OF run] by (simp add: Manager_wf_def)
  have "Validate ''lb'' ?ip [''lb'' \<mapsto> ex_pool1] = Inr False"
    using pl.available_iff [OF wf, of ?ip] al by (simp add: Validate_def getPool_def domIff)
  moreover have "\<exists>m'. Validate ''lb'' ?ip m' = Inr True"
    using ip_allocation_steals [OF run _ p al, of 8 9] by (simp, blast)
  ultimately show ?thesis by blast
qed

end
