(* ===== verification/LB_IPAM.thy ===== *)
theory LB_IPAM
  imports IPAM_Pool
begin

text \<open>
  Addresses for Services of type LoadBalancer, \<open>internal/lbipam/allocator.go\<close>: a list of pools, each a
  CIDR with a bitmap and a map from the printed address to the owning service. \<open>make\<close> panics when the
  requested length is negative or more than the run time can provide; that limit is the argument
  \<open>memWords\<close>. Address arithmetic is on the low 64 bits of the sixteen byte form, with wrap-around.
\<close>

section \<open>Model\<close>

datatype LbError =
    ErrNoPoolSpace | LbErrPoolNotFound | ErrPoolExists | ErrInvalidCIDR | ErrPoolExhausted | LbPanic

record lbPool =
  lp_Name :: string
  lp_CIDR :: IPNet
  lp_used :: "string \<rightharpoonup> string"
  lp_bm :: lbBitmap
  lp_poolSize :: int
  lp_baseIP :: IP

type_synonym lbAllocator = "lbPool list"

definition lb_NewAllocator :: lbAllocator where
  "lb_NewAllocator = []"

text \<open>\<open>poolSize\<close>: the result is a \<open>uint64\<close>.\<close>

definition poolSize :: "IPNet \<Rightarrow> u64" where
  "poolSize cidr =
     (let (ones, nbits) = Mask_Size (net_Mask cidr); hostBits = nbits - ones
      in if 63 < hostBits then 0 else push_bit hostBits 1)"

definition cloneIP :: "IP \<Rightarrow> IP" where
  "cloneIP ip = ip"

definition Uint64 :: "u8 list \<Rightarrow> u64" where
  "Uint64 bs = of_nat (be_nat bs)"

definition addToIP :: "IP \<Rightarrow> u64 \<Rightarrow> IP" where
  "addToIP base offset =
     (case IP_To16 (cloneIP base) of
        None \<Rightarrow> []
      | Some ip \<Rightarrow>
          let val = Uint64 (take 8 (drop 8 ip)) + offset;
              result = take 8 ip @ nat_be 8 (unat val)
          in if IP_To4 base \<noteq> None then (case IP_To4 result of Some r \<Rightarrow> r | None \<Rightarrow> []) else result)"

definition ipToOffset :: "IP \<Rightarrow> IP \<Rightarrow> int" where
  "ipToOffset base ip =
     (case (IP_To16 base, IP_To16 ip) of
        (Some b, Some i) \<Rightarrow>
          let baseVal = Uint64 (take 8 (drop 8 b)); ipVal = Uint64 (take 8 (drop 8 i))
          in if ipVal < baseVal then - 1 else sint (ipVal - baseVal)
      | _ \<Rightarrow> - 1)"

definition AddPool :: "int \<Rightarrow> string \<Rightarrow> string \<Rightarrow> lbAllocator \<Rightarrow> LbError option \<times> lbAllocator" where
  "AddPool memWords name cidr a =
     (if list_ex (\<lambda>p. lp_Name p = name) a then (Some ErrPoolExists, a)
      else (case ParseCIDR cidr of
              None \<Rightarrow> (Some ErrInvalidCIDR, a)
            | Some (_, ipNet) \<Rightarrow>
                let sizeInt = sint (poolSize ipNet)
                in if sizeInt < 0 \<or> memWords < (sizeInt + 63) div 64 then (Some LbPanic, a)
                   else (None, a @ [\<lparr>lp_Name = name, lp_CIDR = ipNet, lp_used = Map.empty,
                            lp_bm = newLBBitmap (nat sizeInt), lp_poolSize = sizeInt,
                            lp_baseIP = cloneIP (net_IP ipNet)\<rparr>])))"

fun RemovePool :: "string \<Rightarrow> lbAllocator \<Rightarrow> lbAllocator" where
  "RemovePool name [] = []"
| "RemovePool name (p # ps) = (if lp_Name p = name then ps else p # RemovePool name ps)"

definition allocateFromPoolLocked :: "string \<Rightarrow> lbPool \<Rightarrow> (LbError + IP) \<times> lbPool" where
  "allocateFromPoolLocked serviceKey pool =
     (let idx = lbBitmap_findFree (lp_bm pool)
      in if idx < 0 then (Inl ErrPoolExhausted, pool)
         else
           let candidate = addToIP (lp_baseIP pool) (of_int idx); key = IP_String candidate
           in (case lbBitmap_set (lp_bm pool) (nat idx) of
                 None \<Rightarrow> (Inl LbPanic, pool)
               | Some bm \<Rightarrow>
                   (Inr candidate, pool\<lparr>lp_bm := bm, lp_used := (lp_used pool)(key \<mapsto> serviceKey)\<rparr>)))"

fun lb_Allocate :: "string \<Rightarrow> lbAllocator \<Rightarrow> (LbError + IP) \<times> lbAllocator" where
  "lb_Allocate serviceKey [] = (Inl ErrNoPoolSpace, [])"
| "lb_Allocate serviceKey (p # ps) =
     (case allocateFromPoolLocked serviceKey p of
        (Inr ip, p') \<Rightarrow> (Inr ip, p' # ps)
      | (Inl e, p') \<Rightarrow>
          if e \<noteq> ErrPoolExhausted then (Inl e, p' # ps)
          else (case lb_Allocate serviceKey ps of (r, ps') \<Rightarrow> (r, p' # ps')))"

fun AllocateFromPool :: "string \<Rightarrow> string \<Rightarrow> lbAllocator \<Rightarrow> (LbError + IP) \<times> lbAllocator" where
  "AllocateFromPool poolName serviceKey [] = (Inl LbErrPoolNotFound, [])"
| "AllocateFromPool poolName serviceKey (p # ps) =
     (if lp_Name p = poolName then
        (case allocateFromPoolLocked serviceKey p of (r, p') \<Rightarrow> (r, p' # ps))
      else (case AllocateFromPool poolName serviceKey ps of (r, ps') \<Rightarrow> (r, p # ps')))"

text \<open>\<open>Release\<close>: \<^const>\<open>None\<close> is a panic of the bitmap.\<close>

fun lb_Release :: "IP \<Rightarrow> lbAllocator \<Rightarrow> (bool \<times> lbAllocator) option" where
  "lb_Release ip [] = Some (False, [])"
| "lb_Release ip (p # ps) =
     (let key = IP_String ip
      in if lp_used p key \<noteq> None then
           let offset = ipToOffset (lp_baseIP p) ip; p' = p\<lparr>lp_used := map_del (lp_used p) key\<rparr>
           in if 0 \<le> offset \<and> offset < lp_poolSize p then
                (case lbBitmap_clear (lp_bm p) (nat offset) of
                   None \<Rightarrow> None
                 | Some bm \<Rightarrow> Some (True, p'\<lparr>lp_bm := bm\<rparr> # ps))
              else Some (True, p' # ps)
         else map_option (\<lambda>(b, ps'). (b, p # ps')) (lb_Release ip ps))"

fun GetServiceForIP :: "IP \<Rightarrow> lbAllocator \<Rightarrow> string option" where
  "GetServiceForIP ip [] = None"
| "GetServiceForIP ip (p # ps) =
     (case lp_used p (IP_String ip) of Some svc \<Rightarrow> Some svc | None \<Rightarrow> GetServiceForIP ip ps)"

definition lb_ListAllocations :: "lbAllocator \<Rightarrow> (string \<rightharpoonup> string)" where
  "lb_ListAllocations a = foldl (\<lambda>result pool. result ++ lp_used pool) Map.empty a"

section \<open>Address arithmetic\<close>

lemma unat_Uint64: "length bs = 8 \<Longrightarrow> unat (Uint64 bs) = be_nat bs"
  using be_nat_lt [of bs] by (simp add: Uint64_def unat_of_nat)

text \<open>The number of an address in the sixteen byte form.\<close>

definition num16 :: "IP \<Rightarrow> nat" where
  "num16 ip = (case IP_To16 ip of Some b \<Rightarrow> be_nat b | None \<Rightarrow> 0)"

lemma aligned_add_lt:
  assumes "(n::nat) mod 2 ^ h = 0" "n < 2 ^ k" "h \<le> k" "i < 2 ^ h"
  shows "n + i < 2 ^ k"
proof -
  obtain d where d: "k = h + d" using assms(3) le_Suc_ex by blast
  have n: "n = n div 2 ^ h * 2 ^ h" using assms(1) div_mult_mod_eq [of n "2 ^ h"] by simp
  have "n div 2 ^ h < 2 ^ d" using assms(2) by (simp add: d power_add less_mult_imp_div_less mult.commute)
  then have "(n div 2 ^ h + 1) * 2 ^ h \<le> 2 ^ d * 2 ^ h" by (intro mult_right_mono) auto
  then have "n div 2 ^ h * 2 ^ h + 2 ^ h \<le> 2 ^ k" by (simp add: d power_add algebra_simps)
  with assms(4) n show ?thesis by linarith
qed

lemma mod_pow_low: "h \<le> k \<Longrightarrow> (n::nat) mod 2 ^ h = 0 \<Longrightarrow> n mod 2 ^ k mod 2 ^ h = 0"
  by (metis mod_mod_cancel le_imp_power_dvd)

lemma split8:
  assumes "length b = 16"
  shows "be_nat b = be_nat (take 8 b) * 2 ^ 64 + be_nat (take 8 (drop 8 b))"
    "be_nat (take 8 (drop 8 b)) < 2 ^ 64" "be_nat (take 8 (drop 8 b)) = be_nat b mod 2 ^ 64"
proof -
  have d: "take 8 (drop 8 b) = drop 8 b" using assms by simp
  show e: "be_nat b = be_nat (take 8 b) * 2 ^ 64 + be_nat (take 8 (drop 8 b))"
    using be_nat_append [of "take 8 b" "drop 8 b"] assms by (simp add: d)
  show l: "be_nat (take 8 (drop 8 b)) < 2 ^ 64" using be_nat_lt [of "drop 8 b"] assms by (simp add: d)
  show "be_nat (take 8 (drop 8 b)) = be_nat b mod 2 ^ 64"
    unfolding e using l by (metis mod_less mod_mult_self3)
qed

lemma prefix_num16:
  assumes "prefix_net L ones n"
  obtains b where "IP_To16 (net_IP n) = Some b" "length b = 16" "num16 (net_IP n) = be_nat b" "be_nat b mod 2 ^ (8 * L - ones) = 0"
proof -
  have p: "L = 4 \<or> L = 16" "length (net_IP n) = L" "be_nat (net_IP n) mod 2 ^ (8 * L - ones) = 0"
    using assms by (auto simp: prefix_net_def)
  show thesis
  proof (cases "L = 4")
    case True
    have "(2::nat) ^ (8 * L - ones) dvd 65535 * 2 ^ 32" using True by (intro dvd_mult le_imp_power_dvd) simp
    moreover have "be_nat (v4InV6Prefix @ net_IP n) = 65535 * 2 ^ 32 + be_nat (net_IP n)"
      using p(2) True by (simp add: be_nat_v4_prefix)
    ultimately have "be_nat (v4InV6Prefix @ net_IP n) mod 2 ^ (8 * L - ones) = 0"
      using p(3) by (metis dvd_add mod_0_imp_dvd dvd_imp_mod_0)
    with True p(2) show thesis by (intro that [of "v4InV6Prefix @ net_IP n"]) (auto simp: IP_To16_def num16_def)
  next
    case False
    with p show thesis by (intro that [of "net_IP n"]) (auto simp: IP_To16_def num16_def)
  qed
qed

lemma mapped_block_small:
  assumes "(n::nat) mod 2 ^ h = 0" "n div 2 ^ 32 = 65535"
  shows "h \<le> 32"
proof (rule ccontr)
  assume "\<not> h \<le> 32"
  then have "(2::nat) ^ 33 dvd 2 ^ h" by (intro le_imp_power_dvd) simp
  moreover have "2 ^ h dvd n" using assms(1) by (simp add: dvd_eq_mod_eq_0)
  ultimately have "2 ^ 33 dvd n" by (rule dvd_trans)
  then obtain q where "n = 2 ^ 33 * q" by (elim dvdE)
  then have n: "n = (2 * q) * 2 ^ 32" by (simp add: power_Suc)
  have "n div 2 ^ 32 = 2 * q" unfolding n by (rule nonzero_mult_div_cancel_right) simp
  with assms(2) have "2 * q = 65535" by (simp only:)
  then show False by presburger
qed

lemma aligned_add_div:
  assumes "(n::nat) mod 2 ^ h = 0" "i < 2 ^ h" "h \<le> k"
  shows "(n + i) div 2 ^ k = n div 2 ^ k"
proof (rule div_pow_mono [OF _ assms(3)])
  have "n = n div 2 ^ h * 2 ^ h" using assms(1) div_mult_mod_eq [of n "2 ^ h"] by simp
  then show "(n + i) div 2 ^ h = n div 2 ^ h" using div_eq_block [of "2 ^ h" "n + i" "n div 2 ^ h"] assms(2) by simp
qed

lemma addToIP_num:
  assumes pn: "prefix_net L ones n" and h: "8 * L - ones \<le> 63" and i: "i < 2 ^ (8 * L - ones)"
  shows "IP_To16 (addToIP (net_IP n) (of_nat i)) = Some (nat_be 16 (num16 (net_IP n) + i))"
proof -
  let ?h = "8 * L - ones"
  obtain b where b: "IP_To16 (net_IP n) = Some b" "length b = 16" "num16 (net_IP n) = be_nat b" "be_nat b mod 2 ^ ?h = 0"
    using prefix_num16 [OF pn] by blast
  let ?lo = "be_nat (take 8 (drop 8 b))"
  note s = split8 [OF b(2)]
  have lo: "?lo mod 2 ^ ?h = 0" unfolding s(3) using mod_pow_low [of ?h 64] h b(4) by simp
  have sum: "?lo + i < 2 ^ 64" using aligned_add_lt [OF lo s(2) _ i] h by simp
  let ?val = "Uint64 (take 8 (drop 8 b)) + of_nat i"
  have "unat (of_nat i :: u64) = i" using sum by (simp add: unat_of_nat)
  moreover have "unat (Uint64 (take 8 (drop 8 b))) = ?lo" using b(2) by (simp add: unat_Uint64)
  ultimately have val: "unat ?val = ?lo + i" using sum by (simp add: unat_word_ariths)
  define res where "res = take 8 b @ nat_be 8 (unat ?val)"
  have len: "length res = 16" using b(2) by (simp add: res_def length_nat_be)
  have "be_nat res = be_nat (take 8 b) * 2 ^ 64 + (?lo + i)"
    using sum be_nat_nat_be [of "?lo + i" 8] by (simp add: res_def val be_nat_append length_nat_be)
  then have num: "be_nat res = be_nat b + i" using s(1) by simp
  then have res: "res = nat_be 16 (be_nat b + i)" using nat_be_be_nat [of res] len by simp
  have t16: "IP_To16 res = Some res" using len by (simp add: IP_To16_def)
  show ?thesis
  proof (cases "IP_To4 (net_IP n)")
    case None
    then have "addToIP (net_IP n) (of_nat i) = res" by (simp add: addToIP_def cloneIP_def b(1) res_def Let_def)
    with t16 res b(3) show ?thesis by simp
  next
    case (Some x)
    then have m: "be_nat b div 2 ^ 32 = 65535" using IP_To4_iff_num [OF b(1)] by (auto split: if_splits)
    then have "be_nat res div 2 ^ 32 = 65535"
      using aligned_add_div [OF b(4) i mapped_block_small [OF b(4)]] num by simp
    then have t4: "IP_To4 res = Some (drop 12 res)" "take 12 res = v4InV6Prefix"
      using IP_To4_iff_num [OF t16] take12_v4_iff [OF len] by auto
    have "addToIP (net_IP n) (of_nat i) = drop 12 res"
      using Some t4(1) by (simp add: addToIP_def cloneIP_def b(1) res_def Let_def)
    moreover have "IP_To16 (drop 12 res) = Some res"
      using len t4(2) append_take_drop_id [of 12 res] by (simp add: IP_To16_def)
    ultimately show ?thesis using res b(3) by simp
  qed
qed

lemma sint_of_nat_small: "i < 2 ^ 63 \<Longrightarrow> sint (of_nat i :: u64) = int i"
  by transfer (simp add: signed_take_bit_int_eq_self zless_nat_eq_int_zless)

lemma ipToOffset_num:
  assumes pn: "prefix_net L ones n" and h: "8 * L - ones \<le> 62" and i: "i < 2 ^ (8 * L - ones)"
    and ip: "IP_To16 ip = Some (nat_be 16 (num16 (net_IP n) + i))"
  shows "ipToOffset (net_IP n) ip = int i"
proof -
  let ?h = "8 * L - ones"
  obtain b where b: "IP_To16 (net_IP n) = Some b" "length b = 16" "num16 (net_IP n) = be_nat b" "be_nat b mod 2 ^ ?h = 0"
    using prefix_num16 [OF pn] by blast
  define c where "c = nat_be 16 (be_nat b + i)"
  have c: "length c = 16" by (simp add: c_def length_nat_be)
  have "be_nat b < 2 ^ 128" using be_nat_lt [of b] b(2) by simp
  then have "be_nat b + i < 2 ^ 128" using aligned_add_lt [OF b(4) _ _ i, of 128] h by linarith
  then have cn: "be_nat c = be_nat b + i" by (simp add: c_def be_nat_nat_be)
  note sb = split8 [OF b(2)] and sc = split8 [OF c]
  have lo: "be_nat (take 8 (drop 8 b)) mod 2 ^ ?h = 0" unfolding sb(3) using mod_pow_low [of ?h 64] h b(4) by simp
  have sum: "be_nat (take 8 (drop 8 b)) + i < 2 ^ 64" using aligned_add_lt [OF lo sb(2) _ i] h by simp
  have cl: "be_nat (take 8 (drop 8 c)) = be_nat (take 8 (drop 8 b)) + i"
    using sum mod_add_left_eq [of "be_nat b" "2 ^ 64" i] unfolding sc(3) cn sb(3) by (metis mod_less)
  let ?B = "Uint64 (take 8 (drop 8 b))" and ?C = "Uint64 (take 8 (drop 8 c))"
  have u: "unat ?B = be_nat (take 8 (drop 8 b))" "unat ?C = be_nat (take 8 (drop 8 b)) + i"
    using b(2) c cl by (simp_all add: unat_Uint64)
  have le: "?B \<le> ?C" using u by (simp add: word_le_nat_alt)
  then have "unat (?C - ?B) = i" using u unat_sub [of ?B ?C] by simp
  moreover have "?C - ?B = of_nat (unat (?C - ?B))" by simp
  ultimately have "?C - ?B = of_nat i" by (simp only:)
  moreover have "(2::nat) ^ ?h < 2 ^ 63" by (rule power_strict_increasing) (use h in simp_all)
  ultimately show ?thesis
    using le ip b(1,3) i sint_of_nat_small [of i, OF less_trans [OF i]] by (simp add: ipToOffset_def c_def [symmetric] not_less Let_def)
qed

section \<open>Well-formed pools\<close>

abbreviation lp_bits :: "lbPool \<Rightarrow> nat set" where
  "lp_bits p \<equiv> word_bits (lb_words (lp_bm p))"

abbreviation lp_size :: "lbPool \<Rightarrow> nat" where
  "lp_size p \<equiv> lb_size (lp_bm p)"

definition lp_addr :: "lbPool \<Rightarrow> nat \<Rightarrow> IP" where
  "lp_addr p i = addToIP (lp_baseIP p) (of_nat i)"

definition lp_names :: "lbPool \<Rightarrow> string set" where
  "lp_names p = (\<lambda>i. IP_String (lp_addr p i)) ` {..<lp_size p}"

definition lbPool_wf :: "lbPool \<Rightarrow> bool" where
  "lbPool_wf p \<longleftrightarrow>
     (\<exists>L ones. prefix_net L ones (lp_CIDR p) \<and> lp_size p = (if 8 * L - ones \<le> 62 then 2 ^ (8 * L - ones) else 0)) \<and>
     lp_baseIP p = net_IP (lp_CIDR p) \<and> lbBitmap_wf (lp_bm p) \<and> lp_poolSize p = int (lp_size p) \<and>
     lp_bits p \<subseteq> {..<lp_size p} \<and> dom (lp_used p) = (\<lambda>i. IP_String (lp_addr p i)) ` lp_bits p"

lemma lp_addr_num:
  assumes "lbPool_wf p" "i < lp_size p"
  shows "IP_To16 (lp_addr p i) = Some (nat_be 16 (num16 (lp_baseIP p) + i))" "num16 (lp_baseIP p) + i < 256 ^ 16"
    "IP_To16 ip = Some (nat_be 16 (num16 (lp_baseIP p) + i)) \<Longrightarrow> ipToOffset (lp_baseIP p) ip = int i"
proof -
  obtain L ones where o: "prefix_net L ones (lp_CIDR p)" "lp_size p = (if 8 * L - ones \<le> 62 then 2 ^ (8 * L - ones) else 0)"
      "lp_baseIP p = net_IP (lp_CIDR p)"
    using assms(1) unfolding lbPool_wf_def by blast
  have h: "8 * L - ones \<le> 62" using o(2) assms(2) by (cases "8 * L - ones \<le> 62") simp_all
  have i: "i < 2 ^ (8 * L - ones)" using o(2) assms(2) h by simp
  have h63: "8 * L - ones \<le> 63" using h by simp
  show "IP_To16 (lp_addr p i) = Some (nat_be 16 (num16 (lp_baseIP p) + i))"
    unfolding lp_addr_def o(3) by (rule addToIP_num [OF o(1) h63 i])
  show "IP_To16 ip = Some (nat_be 16 (num16 (lp_baseIP p) + i)) \<Longrightarrow> ipToOffset (lp_baseIP p) ip = int i"
    unfolding o(3) by (rule ipToOffset_num [OF o(1) h i])
  obtain b where b0: "IP_To16 (net_IP (lp_CIDR p)) = Some b" and b: "length b = 16" "num16 (net_IP (lp_CIDR p)) = be_nat b"
      "be_nat b mod 2 ^ (8 * L - ones) = 0"
    by (rule prefix_num16 [OF o(1)])
  have pow: "(256::nat) ^ 16 = 2 ^ 128" by simp
  have lt: "be_nat b < 2 ^ 128" using be_nat_lt [of b] unfolding b(1) pow .
  have "8 * L - ones \<le> 128" using h by simp
  from aligned_add_lt [OF b(3) lt this i] show "num16 (lp_baseIP p) + i < 256 ^ 16" unfolding o(3) b(2) pow .
qed

lemma To16_length: "IP_To16 ip = Some y \<Longrightarrow> length ip = 4 \<or> length ip = 16"
  by (auto simp: IP_To16_def split: if_splits)

lemma hexString_chars: "c \<in> set (hexString ip) \<Longrightarrow> hex_val c \<noteq> None"
proof -
  assume "c \<in> set (hexString ip)"
  then obtain b where "c = digit_char (unat b div 16) \<or> c = digit_char (unat (b::u8) mod 16)"
    by (auto simp: hexString_def)
  moreover have "unat b div 16 < 16" "unat b mod 16 < 16" using unat_u8_lt [of b] by simp_all
  ultimately show ?thesis using digit_char_vals(2) by auto
qed

text \<open>Only real addresses print as text that reads back as an address.\<close>

lemma IP_String_reads:
  assumes "ParseIP (IP_String ip) = Some y"
  shows "IP_To16 ip = Some y"
proof (cases "length ip = 4 \<or> length ip = 16")
  case True
  with ParseIP_IP_String [OF True] assms show ?thesis by simp
next
  case False
  have "ParseIP (IP_String ip) = None"
  proof (cases "ip = []")
    case True
    then show ?thesis by (simp add: IP_String_def ParseIP_def ParseAddr_def)
  next
    case ne: False
    then have "IP_String ip = CHR ''?'' # hexString ip" using False by (simp add: IP_String_def)
    moreover have "ParseAddr_scan s (CHR ''?'' # hexString ip) = None" for s
      using ParseAddr_scan_skip [of "hexString ip" s "[]"] hexString_chars by simp
    ultimately show ?thesis by (simp add: ParseIP_def ParseAddr_def)
  qed
  with assms show ?thesis by simp
qed

lemma lp_addr_String: "lbPool_wf p \<Longrightarrow> i < lp_size p \<Longrightarrow>
    ParseIP (IP_String (lp_addr p i)) = Some (nat_be 16 (num16 (lp_baseIP p) + i))"
  using lp_addr_num(1) [of p i] ParseIP_IP_String [OF To16_length] by simp

lemma lp_name_index:
  assumes "lbPool_wf p" "i < lp_size p" "IP_String ip = IP_String (lp_addr p i)"
  shows "ipToOffset (lp_baseIP p) ip = int i"
  using lp_addr_num(3) [OF assms(1,2)] IP_String_reads [of ip] lp_addr_String [OF assms(1,2)] assms(3) by simp

lemma lp_name_inj:
  assumes "lbPool_wf p" "i < lp_size p" "j < lp_size p" "IP_String (lp_addr p i) = IP_String (lp_addr p j)"
  shows "i = j"
proof -
  have "nat_be 16 (num16 (lp_baseIP p) + i) = nat_be 16 (num16 (lp_baseIP p) + j)"
    using lp_addr_String [OF assms(1,2)] lp_addr_String [OF assms(1,3)] assms(4) by simp
  then have "num16 (lp_baseIP p) + i = num16 (lp_baseIP p) + j"
    using be_nat_nat_be [OF lp_addr_num(2) [OF assms(1,2)]] be_nat_nat_be [OF lp_addr_num(2) [OF assms(1,3)]] by metis
  then show ?thesis by simp
qed

lemma lp_used_iff:
  assumes "lbPool_wf p" "i < lp_size p"
  shows "lp_used p (IP_String (lp_addr p i)) \<noteq> None \<longleftrightarrow> i \<in> lp_bits p"
proof -
  have d: "dom (lp_used p) = (\<lambda>i. IP_String (lp_addr p i)) ` lp_bits p" and sub: "lp_bits p \<subseteq> {..<lp_size p}"
    using assms(1) by (auto simp: lbPool_wf_def)
  have "IP_String (lp_addr p i) \<in> dom (lp_used p) \<longleftrightarrow> i \<in> lp_bits p"
    unfolding d using lp_name_inj [OF assms] sub by auto
  then show ?thesis by (simp add: domIff)
qed

lemma lp_used_names: "lbPool_wf p \<Longrightarrow> dom (lp_used p) \<subseteq> lp_names p"
  by (auto simp: lbPool_wf_def lp_names_def)

lemma lp_update_simps [simp]:
  "lp_addr (p\<lparr>lp_bm := b\<rparr>) = lp_addr p" "lp_addr (p\<lparr>lp_used := u\<rparr>) = lp_addr p"
  by (simp_all add: lp_addr_def fun_eq_iff)

text \<open>Allocation from one pool.\<close>

lemma allocateFromPool_full:
  assumes "lbPool_wf p" "lp_bits p = {..<lp_size p}"
  shows "allocateFromPoolLocked svc p = (Inl ErrPoolExhausted, p)"
  using lbm.find_full_iff [of "lp_bm p"] assms by (simp add: allocateFromPoolLocked_def lbPool_wf_def)

lemma allocateFromPool_free:
  assumes wf: "lbPool_wf p" and free: "lp_bits p \<noteq> {..<lp_size p}"
  shows "\<exists>i b. i < lp_size p \<and> i \<notin> lp_bits p \<and> {..<i} \<subseteq> lp_bits p \<and> lbBitmap_set (lp_bm p) i = Some b \<and>
    allocateFromPoolLocked svc p =
      (Inr (lp_addr p i), p\<lparr>lp_bm := b, lp_used := (lp_used p)(IP_String (lp_addr p i) \<mapsto> svc)\<rparr>) \<and>
    lbPool_wf (p\<lparr>lp_bm := b, lp_used := (lp_used p)(IP_String (lp_addr p i) \<mapsto> svc)\<rparr>) \<and> lb_size b = lp_size p"
proof -
  have bw: "lbBitmap_wf (lp_bm p)" "lp_bits p \<subseteq> {..<lp_size p}" using wf by (auto simp: lbPool_wf_def)
  have pos: "0 \<le> lbBitmap_findFree (lp_bm p)"
    using lbm.find_full_iff [OF bw(1)] bw(2) free by (auto simp: not_less [symmetric])
  then obtain i where i: "lbBitmap_findFree (lp_bm p) = int i" using nonneg_int_cases by blast
  have lt: "i < lp_size p" "i \<notin> lp_bits p" "{..<i} \<subseteq> lp_bits p"
    using lbm.find_free [OF bw(1) pos] lbm.find_least [OF bw(1) pos] i by auto
  obtain b where b: "lbBitmap_set (lp_bm p) i = Some b" "lbBitmap_wf b" "lb_size b = lp_size p"
      "word_bits (lb_words b) = insert i (lp_bits p)"
    using lbm.set_ok [OF bw(1) lt(1)] by blast
  have "lbPool_wf (p\<lparr>lp_bm := b, lp_used := (lp_used p)(IP_String (lp_addr p i) \<mapsto> svc)\<rparr>)"
    using wf b lt(1) by (auto simp: lbPool_wf_def)
  moreover have "allocateFromPoolLocked svc p =
      (Inr (lp_addr p i), p\<lparr>lp_bm := b, lp_used := (lp_used p)(IP_String (lp_addr p i) \<mapsto> svc)\<rparr>)"
    using i b(1) by (simp add: allocateFromPoolLocked_def lp_addr_def Let_def)
  ultimately show ?thesis using lt b by blast
qed

section \<open>The allocator\<close>

definition Lb_wf :: "lbAllocator \<Rightarrow> bool" where
  "Lb_wf a \<longleftrightarrow> list_all lbPool_wf a \<and> sorted_wrt (\<lambda>p q. lp_names p \<inter> lp_names q = {}) a"

text \<open>The owner recorded for an address by its text.\<close>

fun lb_owner :: "lbAllocator \<Rightarrow> string \<Rightarrow> string option" where
  "lb_owner [] k = None"
| "lb_owner (p # ps) k = (case lp_used p k of Some svc \<Rightarrow> Some svc | None \<Rightarrow> lb_owner ps k)"

lemma GetServiceForIP_owner: "GetServiceForIP ip a = lb_owner a (IP_String ip)"
  by (induction a) (auto split: option.split)

lemma lb_owner_None: "\<forall>p \<in> set ps. k \<notin> dom (lp_used p) \<Longrightarrow> lb_owner ps k = None"
  by (induction ps) (auto simp: domIff)

text \<open>One pool of the list is replaced by the pool after an allocation or a release.\<close>

lemma Lb_wf_replace:
  assumes "Lb_wf (ps @ p # qs)" "lbPool_wf p'" "lp_names p' = lp_names p"
  shows "Lb_wf (ps @ p' # qs)"
  using assms by (auto simp: Lb_wf_def sorted_wrt_append)

lemma Lb_other_pools:
  assumes "Lb_wf (ps @ p # qs)" "k \<in> lp_names p" "q \<in> set (ps @ qs)"
  shows "k \<notin> dom (lp_used q)"
proof -
  have "lp_names p \<inter> lp_names q = {}" "lbPool_wf q"
    using assms(1,3) by (auto simp: Lb_wf_def sorted_wrt_append list_all_iff Int_commute)
  with assms(2) lp_used_names [of q] show ?thesis by blast
qed

lemma lb_owner_append: "lb_owner (ps @ qs) k = (case lb_owner ps k of Some s \<Rightarrow> Some s | None \<Rightarrow> lb_owner qs k)"
  by (induction ps) (auto split: option.split)

text \<open>What a successful allocation from the pool \<open>p\<close> of the list means for the whole allocator.\<close>

lemma lb_allocated:
  assumes wf: "Lb_wf (ps @ p # qs)" and al: "allocateFromPoolLocked svc p = (Inr ip, p')"
  shows "Lb_wf (ps @ p' # qs)" "lb_owner (ps @ p # qs) (IP_String ip) = None"
    "lb_owner (ps @ p' # qs) = (lb_owner (ps @ p # qs))(IP_String ip \<mapsto> svc)"
    "lb_Release ip (ps @ p' # qs) = Some (True, ps @ p # qs)"
proof -
  have wfp: "lbPool_wf p" using wf by (simp add: Lb_wf_def)
  have "lp_bits p \<noteq> {..<lp_size p}" using al allocateFromPool_full [OF wfp] by auto
  then obtain i b where i: "i < lp_size p" "i \<notin> lp_bits p" "lbBitmap_set (lp_bm p) i = Some b" "lb_size b = lp_size p"
    and ip: "ip = lp_addr p i" and p': "p' = p\<lparr>lp_bm := b, lp_used := (lp_used p)(IP_String ip \<mapsto> svc)\<rparr>"
    and wfp': "lbPool_wf p'"
    using allocateFromPool_free [OF wfp, of svc] al by auto
  have nm: "IP_String ip \<in> lp_names p" using i(1) by (auto simp: lp_names_def ip)
  have names: "lp_names p' = lp_names p" by (simp add: lp_names_def p' i(4))
  show "Lb_wf (ps @ p' # qs)" by (rule Lb_wf_replace [OF wf wfp' names])
  have others: "IP_String ip \<notin> dom (lp_used q)" if "q \<in> set (ps @ qs)" for q
    by (rule Lb_other_pools [OF wf nm that])
  have fresh: "lp_used p (IP_String ip) = None" using lp_used_iff [OF wfp i(1)] i(2) by (simp add: ip)
  have nps: "lb_owner ps (IP_String ip) = None" and nqs: "lb_owner qs (IP_String ip) = None"
    using others by (auto intro: lb_owner_None)
  show "lb_owner (ps @ p # qs) (IP_String ip) = None" using fresh nps nqs by (simp add: lb_owner_append)
  show "lb_owner (ps @ p' # qs) = (lb_owner (ps @ p # qs))(IP_String ip \<mapsto> svc)"
    using nps by (auto simp: lb_owner_append p' fun_eq_iff split: option.split)
  have off: "ipToOffset (lp_baseIP p) ip = int i" by (rule lp_name_index [OF wfp i(1)]) (simp add: ip)
  have bw: "lbBitmap_wf (lp_bm p)" using wfp by (simp add: lbPool_wf_def)
  obtain c where c: "lbBitmap_clear b i = Some c" "lbBitmap_wf c" "lb_size c = lp_size p" "word_bits (lb_words c) = lp_bits p"
    using lbm.set_SomeD [OF bw i(1,3)] lbm.clear_ok [of b i] i(1,2) by auto
  have "c = lp_bm p"
    using c bw word_bits_inject [of "lb_words c" "lb_words (lp_bm p)"] by (simp add: lbBitmap_wf_def)
  moreover have "lp_poolSize p = int (lp_size p)" using wfp by (simp add: lbPool_wf_def)
  ultimately have here: "lb_Release ip (p' # qs) = Some (True, p # qs)"
    using off i(1) c(1) fresh by (simp add: p' map_del_notin domIff Let_def)
  have "lb_Release ip (xs @ ys) = map_option (\<lambda>(r, zs). (r, xs @ zs)) (lb_Release ip ys)"
    if "\<forall>q \<in> set xs. IP_String ip \<notin> dom (lp_used q)" for xs ys
    using that
  proof (induction xs)
    case Nil
    then show ?case by (simp add: option.map_ident)
  next
    case (Cons x xs)
    then show ?case by (cases "lb_Release ip ys") (auto simp: domIff Let_def)
  qed
  from this [of ps "p' # qs"] here others show "lb_Release ip (ps @ p' # qs) = Some (True, ps @ p # qs)" by simp
qed

lemma lb_Allocate_result:
  assumes "list_all lbPool_wf a"
  shows "case lb_Allocate svc a of
      (Inl e, a') \<Rightarrow> e = ErrNoPoolSpace \<and> a' = a \<and> (\<forall>p \<in> set a. lp_bits p = {..<lp_size p})
    | (Inr ip, a') \<Rightarrow> \<exists>ps p p' qs. a = ps @ p # qs \<and> (\<forall>q \<in> set ps. lp_bits q = {..<lp_size q}) \<and>
        allocateFromPoolLocked svc p = (Inr ip, p') \<and> a' = ps @ p' # qs"
  using assms
proof (induction a)
  case (Cons p a)
  then have wf: "lbPool_wf p" "list_all lbPool_wf a" by simp_all
  show ?case
  proof (cases "lp_bits p = {..<lp_size p}")
    case True
    obtain r a' where r: "lb_Allocate svc a = (r, a')" by fastforce
    have eq: "lb_Allocate svc (p # a) = (r, p # a')" using allocateFromPool_full [OF wf(1) True, of svc] r by simp
    show ?thesis
    proof (cases r)
      case (Inl e)
      with Cons.IH [OF wf(2)] r eq True show ?thesis by simp
    next
      case (Inr ip)
      with Cons.IH [OF wf(2)] r obtain ps x x' qs where "a = ps @ x # qs" "\<forall>q \<in> set ps. lp_bits q = {..<lp_size q}"
          "allocateFromPoolLocked svc x = (Inr ip, x')" "a' = ps @ x' # qs" by auto
      with True eq Inr show ?thesis
        by (simp, intro exI [of _ "p # ps"] exI [of _ x] exI [of _ x'] exI [of _ qs]) simp
    qed
  next
    case False
    then obtain ip p' where al: "allocateFromPoolLocked svc p = (Inr ip, p')" using allocateFromPool_free [OF wf(1), of svc] by blast
    then show ?thesis by (simp, intro exI [of _ "[]"] exI [of _ p] exI [of _ p'] exI [of _ a]) simp
  qed
qed simp

section \<open>Runs\<close>

inductive lb_step :: "lbAllocator \<Rightarrow> lbAllocator \<Rightarrow> bool" where
  lb_step_AddPool:
    "AddPool memWords name cidr a = (e, a') \<Longrightarrow> sorted_wrt (\<lambda>p q. lp_names p \<inter> lp_names q = {}) a' \<Longrightarrow> lb_step a a'"
| lb_step_RemovePool: "lb_step a (RemovePool name a)"
| lb_step_Allocate: "lb_Allocate svc a = (r, a') \<Longrightarrow> lb_step a a'"
| lb_step_AllocateFromPool: "AllocateFromPool name svc a = (r, a') \<Longrightarrow> lb_step a a'"
| lb_step_Release: "lb_Release ip a = Some (b, a') \<Longrightarrow> lb_step a a'"

lemma sint_push_bit:
  assumes "h \<le> 62"
  shows "sint (push_bit h 1 :: u64) = 2 ^ h"
proof -
  have lt: "(2::nat) ^ h < 2 ^ 63" by (rule power_strict_increasing) (use assms in simp_all)
  have "(push_bit h 1 :: u64) = of_nat (2 ^ h)" by (simp add: push_bit_eq_mult)
  then have "sint (push_bit h 1 :: u64) = int (2 ^ h)" by (simp only: sint_of_nat_small [OF lt])
  then show ?thesis by simp
qed

lemma AddPool_wf:
  assumes "AddPool memWords name cidr a = (None, a')"
  shows "\<exists>p. a' = a @ [p] \<and> lbPool_wf p \<and> lp_Name p = name"
proof -
  obtain ip n where n: "ParseCIDR cidr = Some (ip, n)" and nn: "0 \<le> sint (poolSize n)"
    and a': "a' = a @ [\<lparr>lp_Name = name, lp_CIDR = n, lp_used = Map.empty, lp_bm = newLBBitmap (nat (sint (poolSize n))),
      lp_poolSize = sint (poolSize n), lp_baseIP = net_IP n\<rparr>]"
    using assms by (auto simp: AddPool_def cloneIP_def Let_def split: if_splits option.splits)
  obtain L ones where pn: "prefix_net L ones n" using ParseCIDR_prefix_net [OF n] by blast
  let ?h = "8 * L - ones"
  have ps: "poolSize n = (if 63 < ?h then 0 else push_bit ?h 1)" by (simp add: poolSize_def Mask_Size_prefix_net [OF pn])
  have "sint (push_bit 63 1 :: u64) < 0" by simp
  with nn ps have "?h \<noteq> 63" by auto
  then have sz: "nat (sint (poolSize n)) = (if ?h \<le> 62 then 2 ^ ?h else 0)"
    using ps sint_push_bit [of ?h] by (auto simp: nat_power_eq)
  have "lbPool_wf \<lparr>lp_Name = name, lp_CIDR = n, lp_used = Map.empty, lp_bm = newLBBitmap (nat (sint (poolSize n))),
      lp_poolSize = sint (poolSize n), lp_baseIP = net_IP n\<rparr>"
    unfolding lbPool_wf_def using pn sz nn lbm.new_invar lbm.new_cap lbm.new_bits by auto
  with a' show ?thesis by simp
qed

lemma RemovePool_subseq: "Lb_wf a \<Longrightarrow> Lb_wf (RemovePool name a)"
proof (induction a)
  case (Cons p ps)
  have "set (RemovePool name ps) \<subseteq> set ps" by (induction ps) auto
  with Cons show ?case by (auto simp: Lb_wf_def list_all_iff)
qed simp

lemma lb_Release_wf:
  assumes "Lb_wf a" "lb_Release ip a = Some (b, a')"
  shows "Lb_wf a' \<and> map lp_names a' = map lp_names a"
  using assms
proof (induction a arbitrary: a')
  case (Cons p ps)
  from Cons.prems(1) have wf: "lbPool_wf p" "Lb_wf ps" by (simp_all add: Lb_wf_def)
  have keep: "Lb_wf (q # qs)" if "lbPool_wf q" "lp_names q = lp_names p" "Lb_wf qs" "map lp_names qs = map lp_names ps" for q qs
  proof -
    have "\<forall>x \<in> set ps. lp_names p \<inter> lp_names x = {}" using Cons.prems(1) by (simp add: Lb_wf_def)
    moreover have "lp_names ` set qs = lp_names ` set ps" using that(4) by (metis list.set_map)
    ultimately have "\<forall>N \<in> lp_names ` set qs. lp_names q \<inter> N = {}" using that(2) by simp
    with that show ?thesis by (simp add: Lb_wf_def)
  qed
  show ?case
  proof (cases "lp_used p (IP_String ip)")
    case None
    with Cons.prems(2) obtain qs where qs: "lb_Release ip ps = Some (b, qs)" "a' = p # qs" by (auto simp: Let_def)
    with Cons.IH [OF wf(2) qs(1)] keep [OF wf(1)] show ?thesis by simp
  next
    case (Some s)
    have d: "dom (lp_used p) = (\<lambda>i. IP_String (lp_addr p i)) ` lp_bits p" and sub: "lp_bits p \<subseteq> {..<lp_size p}"
      and bw: "lbBitmap_wf (lp_bm p)" and sz: "lp_poolSize p = int (lp_size p)"
      using wf(1) by (auto simp: lbPool_wf_def)
    have "IP_String ip \<in> dom (lp_used p)" using Some by auto
    then obtain i where i: "i \<in> lp_bits p" "IP_String ip = IP_String (lp_addr p i)" unfolding d by blast
    have lt: "i < lp_size p" using i(1) sub by auto
    have off: "ipToOffset (lp_baseIP p) ip = int i" by (rule lp_name_index [OF wf(1) lt i(2)])
    obtain c where c: "lbBitmap_clear (lp_bm p) i = Some c" "lbBitmap_wf c" "lb_size c = lp_size p"
        "word_bits (lb_words c) = lp_bits p - {i}"
      using lbm.clear_ok [OF bw lt] by auto
    let ?p = "p\<lparr>lp_used := map_del (lp_used p) (IP_String ip), lp_bm := c\<rparr>"
    have a': "a' = ?p # ps" using Cons.prems(2) Some off lt c(1) sz by (simp add: Let_def)
    have "inj_on (\<lambda>i. IP_String (lp_addr p i)) (lp_bits p)"
      using sub lp_name_inj [OF wf(1)] by (intro inj_onI) blast
    then have "(\<lambda>i. IP_String (lp_addr p i)) ` (lp_bits p - {i}) = (\<lambda>i. IP_String (lp_addr p i)) ` lp_bits p - {IP_String (lp_addr p i)}"
      using i(1) inj_on_image_set_diff [of "\<lambda>i. IP_String (lp_addr p i)" "lp_bits p" "lp_bits p" "{i}"] by simp
    then have "dom (map_del (lp_used p) (IP_String ip)) = (\<lambda>i. IP_String (lp_addr p i)) ` (lp_bits p - {i})"
      unfolding dom_map_del d i(2) by (simp only:)
    then have "lbPool_wf ?p" using wf(1) c(2-4) sub unfolding lbPool_wf_def by simp blast
    moreover have nm: "lp_names ?p = lp_names p" by (simp add: lp_names_def c(3))
    ultimately have "Lb_wf (?p # ps)" using keep [of ?p ps] wf(2) by simp
    with nm show ?thesis unfolding a' by simp
  qed
qed simp

lemma AllocateFromPool_result:
  "AllocateFromPool name svc a = (r, a') \<Longrightarrow>
   (r = Inl LbErrPoolNotFound \<and> a' = a \<and> (\<forall>p \<in> set a. lp_Name p \<noteq> name)) \<or>
   (\<exists>ps p p' qs. a = ps @ p # qs \<and> lp_Name p = name \<and> allocateFromPoolLocked svc p = (r, p') \<and> a' = ps @ p' # qs)"
proof (induction a arbitrary: a')
  case (Cons p a)
  show ?case
  proof (cases "lp_Name p = name")
    case True
    obtain r1 p' where "allocateFromPoolLocked svc p = (r1, p')" by fastforce
    with True Cons.prems show ?thesis
      by (intro disjI2 exI [of _ "[]"] exI [of _ p] exI [of _ p'] exI [of _ a]) simp
  next
    case False
    with Cons.prems obtain b where b: "AllocateFromPool name svc a = (r, b)" "a' = p # b" by (auto split: prod.splits)
    from Cons.IH [OF b(1)] show ?thesis
    proof
      assume "r = Inl LbErrPoolNotFound \<and> b = a \<and> (\<forall>p \<in> set a. lp_Name p \<noteq> name)"
      with False b(2) show ?thesis by simp
    next
      assume "\<exists>ps x x' qs. a = ps @ x # qs \<and> lp_Name x = name \<and> allocateFromPoolLocked svc x = (r, x') \<and> b = ps @ x' # qs"
      then obtain ps x x' qs where "a = ps @ x # qs" "lp_Name x = name" "allocateFromPoolLocked svc x = (r, x')" "b = ps @ x' # qs"
        by blast
      with b(2) show ?thesis by (intro disjI2 exI [of _ "p # ps"] exI [of _ x] exI [of _ x'] exI [of _ qs]) simp
    qed
  qed
qed simp

lemma allocateFromPool_Inl:
  "lbPool_wf p \<Longrightarrow> allocateFromPoolLocked svc p = (Inl e, p') \<Longrightarrow> p' = p \<and> e = ErrPoolExhausted"
  using allocateFromPool_full [of p svc] allocateFromPool_free [of p svc] by (cases "lp_bits p = {..<lp_size p}") auto

lemma lb_step_wf: "lb_step a a' \<Longrightarrow> Lb_wf a \<Longrightarrow> Lb_wf a'"
proof (induction rule: lb_step.induct)
  case (lb_step_AddPool memWords name cidr a e a')
  show ?case
  proof (cases e)
    case None
    with AddPool_wf lb_step_AddPool show ?thesis by (fastforce simp: Lb_wf_def)
  next
    case (Some x)
    with lb_step_AddPool have "a' = a" by (auto simp: AddPool_def Let_def split: if_splits option.splits)
    with lb_step_AddPool show ?thesis by simp
  qed
next
  case (lb_step_Allocate svc a r a')
  then have wf: "list_all lbPool_wf a" by (simp add: Lb_wf_def)
  show ?case
  proof (cases r)
    case (Inl e)
    with lb_Allocate_result [OF wf, of svc] lb_step_Allocate show ?thesis by simp
  next
    case (Inr ip)
    then obtain ps p p' qs where "a = ps @ p # qs" "allocateFromPoolLocked svc p = (Inr ip, p')" "a' = ps @ p' # qs"
      using lb_Allocate_result [OF wf, of svc] lb_step_Allocate(1) by auto
    with lb_allocated(1) lb_step_Allocate(2) show ?thesis by simp
  qed
next
  case (lb_step_AllocateFromPool name svc a r a')
  from AllocateFromPool_result [OF lb_step_AllocateFromPool(1)] show ?case
  proof
    assume "\<exists>ps p p' qs. a = ps @ p # qs \<and> lp_Name p = name \<and> allocateFromPoolLocked svc p = (r, p') \<and> a' = ps @ p' # qs"
    then obtain ps p p' qs where d: "a = ps @ p # qs" "allocateFromPoolLocked svc p = (r, p')" "a' = ps @ p' # qs" by blast
    have wfp: "lbPool_wf p" using lb_step_AllocateFromPool(2) d(1) by (simp add: Lb_wf_def)
    show ?thesis
    proof (cases r)
      case (Inl e)
      with allocateFromPool_Inl [OF wfp, of svc e p'] d(2) have "p' = p" by simp
      with d lb_step_AllocateFromPool(2) show ?thesis by simp
    next
      case (Inr ip)
      with lb_allocated(1) d lb_step_AllocateFromPool(2) show ?thesis by simp
    qed
  qed (use lb_step_AllocateFromPool in auto)
qed (auto simp: RemovePool_subseq dest: lb_Release_wf)

lemma lb_run_wf: "lb_step\<^sup>*\<^sup>* lb_NewAllocator a \<Longrightarrow> Lb_wf a"
  by (induction rule: rtranclp_induct) (auto simp: lb_NewAllocator_def Lb_wf_def [of "[]"] dest: lb_step_wf)

section \<open>Properties\<close>

lemma ex_CIDR29: "ParseCIDR ''10.0.0.0/30'' = Some (v4InV6Prefix @ [10, 0, 0, 0], \<lparr>net_IP = [10, 0, 0, 0], net_Mask = [255, 255, 255, 252]\<rparr>)"
  by (simp only: ex_ParseCIDR v4InV6Prefix_def append.simps)

definition ex_lb :: lbPool where
  "ex_lb = \<lparr>lp_Name = ''a'', lp_CIDR = \<lparr>net_IP = [10, 0, 0, 0], net_Mask = [255, 255, 255, 252]\<rparr>, lp_used = Map.empty,
     lp_bm = \<lparr>lb_words = [0], lb_size = 4\<rparr>, lp_poolSize = 4, lp_baseIP = [10, 0, 0, 0]\<rparr>"

lemma ex_AddPool: "AddPool 1000 ''a'' ''10.0.0.0/30'' [] = (None, [ex_lb])"
  by (simp add: AddPool_def ex_CIDR29 poolSize_def ex_mask ex_lb_def newLBBitmap_def cloneIP_def Let_def)

lemma ex_lb_run: "lb_step\<^sup>*\<^sup>* lb_NewAllocator [ex_lb]"
  using lb_step_AddPool [OF ex_AddPool] by (simp add: lb_NewAllocator_def r_into_rtranclp)

lemma trailing_zeros_numeral:
  "trailing_zeros_from (numeral n) k w = (if bit w k then k else trailing_zeros_from (pred_numeral n) (Suc k) w)"
  by (simp add: numeral_eq_Suc)

lemma nat_be_numeral: "nat_be (numeral k) n = nat_be (pred_numeral k) (n div 256) @ [of_nat (n mod 256)]"
  by (simp only: numeral_eq_Suc [of k] nat_be.simps)

lemmas lb_eval = nat_be_numeral allocateFromPoolLocked_def lbBitmap_findFree_def TrailingZeros64_def trailing_zeros_numeral lbBitmap_set_def bit64_def
  addToIP_def cloneIP_def Uint64_def be_nat_def

text \<open>
  (C20) In every state the allocator can reach with pools that do not overlap, \<open>Allocate\<close> fails exactly
  when every pool is full and then changes nothing. Otherwise it returns an address that no service
  owned, records the service as its owner and leaves every other owner as it was, and releasing the
  address restores the allocator exactly.
\<close>

theorem lb_allocate_correct:
  assumes "lb_step\<^sup>*\<^sup>* lb_NewAllocator a"
  shows "case lb_Allocate svc a of
      (Inl e, a') \<Rightarrow> e = ErrNoPoolSpace \<and> a' = a \<and> (\<forall>p \<in> set a. lp_bits p = {..<lp_size p})
    | (Inr ip, a') \<Rightarrow> (\<exists>p \<in> set a. lp_bits p \<noteq> {..<lp_size p}) \<and>
        GetServiceForIP ip a = None \<and> GetServiceForIP ip a' = Some svc \<and>
        (\<forall>ip'. IP_String ip' \<noteq> IP_String ip \<longrightarrow> GetServiceForIP ip' a' = GetServiceForIP ip' a) \<and>
        lb_Release ip a' = Some (True, a)"
proof -
  have wf: "Lb_wf a" by (rule lb_run_wf [OF assms])
  then have wfs: "list_all lbPool_wf a" by (simp add: Lb_wf_def)
  obtain r a' where r: "lb_Allocate svc a = (r, a')" by fastforce
  show ?thesis
  proof (cases r)
    case (Inl e)
    with lb_Allocate_result [OF wfs, of svc] r show ?thesis by simp
  next
    case (Inr ip)
    then obtain ps p p' qs where d: "a = ps @ p # qs" "allocateFromPoolLocked svc p = (Inr ip, p')" "a' = ps @ p' # qs"
      using lb_Allocate_result [OF wfs, of svc] r by auto
    note al = lb_allocated [OF wf [unfolded d(1)] d(2)]
    have "lbPool_wf p" using wfs d(1) by simp
    then have "lp_bits p \<noteq> {..<lp_size p}" using allocateFromPool_full [of p svc] d(2) by auto
    moreover have "p \<in> set a" by (simp add: d(1))
    ultimately show ?thesis
      unfolding r Inr GetServiceForIP_owner using al(2-4) by (auto simp: d(1,3))
  qed
qed

theorem lb_allocate_correct_witness:
  "\<exists>ip a'. lb_Allocate ''ns/svc'' [ex_lb] = (Inr ip, a') \<and> lb_Release ip a' = Some (True, [ex_lb])"
proof -
  have "0 \<notin> lp_bits ex_lb" "0 \<in> {..<lp_size ex_lb}" by (simp_all add: ex_lb_def word_bits_def)
  then have "lp_bits ex_lb \<noteq> {..<lp_size ex_lb}" by blast
  moreover obtain r a' where "lb_Allocate ''ns/svc'' [ex_lb] = (r, a')" by fastforce
  ultimately show ?thesis using lb_allocate_correct [OF ex_lb_run, of "''ns/svc''"] by (cases r) auto
qed

text \<open>
  Pools that overlap share addresses: \<open>AddPool\<close> accepts a second pool over the same CIDR, and the two
  pools then hand out the same address to two services.
\<close>

theorem lb_overlap_double_allocation:
  "\<exists>a b c. AddPool 1000 ''b'' ''10.0.0.0/30'' [ex_lb] = (None, a) \<and>
     AllocateFromPool ''a'' ''ns/one'' a = (Inr [10, 0, 0, 0], b) \<and>
     AllocateFromPool ''b'' ''ns/two'' b = (Inr [10, 0, 0, 0], c)"
  by (simp add: AddPool_def ex_CIDR29 poolSize_def ex_mask ex_lb_def newLBBitmap_def Let_def lb_eval ip_eval)

lemma ex_parse65: "\<exists>ip n. ParseCIDR ''2001:db8::/65'' = Some (ip, n) \<and> net_Mask n = CIDRMask 65 (8 * 16)"
proof -
  have "ParseAddr ''2001:db8::'' = Some (Addr6 ([32, 1, 13, 184] @ replicate 12 0) [])"
    by (simp add: ParseAddr_def parseIPv6_def parseIPv6_body_def parseIPv6_loop.simps hex_val_def expand_ellipsis_def)
  then show ?thesis by (simp add: ParseCIDR_def dec_val_def Let_def)
qed

text \<open>
  \<open>AddPool\<close> with a /65 IPv6 prefix panics whatever memory there is: the size 2 to the 63 does not fit
  in the signed \<open>int\<close> it is converted to, and \<open>make\<close> is called with a negative length.
\<close>

theorem lb_add_pool_65_panics: "AddPool memWords name ''2001:db8::/65'' [] = (Some LbPanic, [])"
proof -
  obtain ip n where n: "ParseCIDR ''2001:db8::/65'' = Some (ip, n)" "net_Mask n = CIDRMask 65 (8 * 16)"
    using ex_parse65 by blast
  have "simpleMaskLength (CIDRMask 65 (8 * 16)) = Some 65" by (rule simpleMaskLength_CIDRMask) simp
  then have "Mask_Size (net_Mask n) = (65, 128)" unfolding n(2) Mask_Size_def by (simp add: length_CIDRMask)
  then have "sint (poolSize n) < 0" by (simp add: poolSize_def)
  with n(1) show ?thesis by (simp add: AddPool_def)
qed

end
