(* ===== verification/Dataplane_Types.thy ===== *)
theory Dataplane_Types
  imports GoNet
begin

text \<open>
  The data shared between the eBPF programs and the dataplane process
  (\<open>dataplane/novanet-common/src/lib.rs\<close>) and the eBPF maps themselves
  (\<open>dataplane/novanet-ebpf/src/main.rs\<close>).

  Padding, which is always zero, is left out of the structs. A hash map is a partial function with the
  capacity it was created with; an array map has a value at every index below its length, zero at
  first. Maps that exist once per CPU take the number of the CPU. The maps for IPv6 are optional: the
  loader takes them when the object file has them. The programs that the dataplane process has attached
  are listed with the maps.
\<close>

section \<open>Keys and values\<close>

record EndpointKey =
  ek_ip :: u32

record EndpointValue =
  ev_ifindex :: u32
  ev_mac :: "u8 list"
  ev_identity :: u32
  ev_node_ip :: u32

record EndpointKeyV6 =
  ek6_ip :: "u8 list"

record EndpointValueV6 =
  ev6_ifindex :: u32
  ev6_mac :: "u8 list"
  ev6_identity :: u32
  ev6_node_ip :: "u8 list"

record PolicyKey =
  pk_src_identity :: u32
  pk_dst_identity :: u32
  pk_protocol :: u8
  pk_dst_port :: u16

record PolicyValue =
  pv_action :: u8

record TunnelKey =
  tk_node_ip :: u32

record TunnelValue =
  tv_ifindex :: u32
  tv_remote_ip :: u32
  tv_vni :: u32

record TunnelKeyV6 =
  tk6_node_ip :: "u8 list"

record TunnelValueV6 =
  tv6_ifindex :: u32
  tv6_remote_ip :: "u8 list"
  tv6_vni :: u32

record EgressKey =
  gk_src_identity :: u32
  gk_dst_ip :: u32
  gk_dst_prefix_len :: u8

record EgressValue =
  gv_action :: u8
  gv_snat_ip :: u32

record EgressKeyV6 =
  gk6_src_identity :: u32
  gk6_dst_ip :: "u8 list"
  gk6_dst_prefix_len :: u8

record EgressValueV6 =
  gv6_action :: u8
  gv6_snat_ip :: "u8 list"

record ServiceKey =
  sk_ip :: u32
  sk_port :: u16
  sk_protocol :: u8
  sk_scope :: u8

record ServiceValue =
  sv_backend_count :: u16
  sv_backend_offset :: u16
  sv_algorithm :: u8
  sv_flags :: u8
  sv_affinity_timeout :: u16
  sv_maglev_offset :: u32

record ServiceKeyV6 =
  sk6_ip :: "u8 list"
  sk6_port :: u16
  sk6_protocol :: u8
  sk6_scope :: u8

record BackendValue =
  bv_ip :: u32
  bv_port :: u16
  bv_node_ip :: u32

record BackendValueV6 =
  bv6_ip :: "u8 list"
  bv6_port :: u16
  bv6_node_ip :: "u8 list"

record CtKey =
  ck_src_ip :: u32
  ck_dst_ip :: u32
  ck_src_port :: u16
  ck_dst_port :: u16
  ck_protocol :: u8

record CtValue =
  cv_timestamp :: u64
  cv_backend_ip :: u32
  cv_origin_ip :: u32
  cv_backend_port :: u16
  cv_origin_port :: u16
  cv_flags :: u8

record SockLbOrigin =
  so_original_ip :: u32
  so_original_port :: u16
  so_protocol :: u8

record FlowEvent =
  fe_family :: u8
  fe_verdict :: u8
  fe_drop_reason :: u8
  fe_tcp_flags :: u8
  fe_src_identity :: u32
  fe_dst_identity :: u32
  fe_protocol :: u8
  fe_src_port :: u16
  fe_dst_port :: u16
  fe_src_ip :: "u8 list"
  fe_dst_ip :: "u8 list"
  fe_bytes :: u64
  fe_packets :: u64
  fe_timestamp_ns :: u64

record SockKey =
  kk_src_ip :: u32
  kk_dst_ip :: u32
  kk_src_port :: u16
  kk_dst_port :: u16
  kk_family :: u32

record SockmapEndpointKey =
  se_ip :: u32
  se_port :: u32

record MeshServiceKey =
  mk_ip :: u32
  mk_port :: u32

record MeshRedirectValue =
  mr_redirect_port :: u32

record RateLimitKey =
  rk_addr :: "u8 list"

record TokenBucketState =
  tb_tokens :: u64
  tb_last_refill_ns :: u64

record RateLimitConfig =
  rl_rate :: u32
  rl_burst :: u32
  rl_window_ns :: u64

record BackendHealthKey =
  bh_ip :: u32
  bh_port :: u32

record BackendHealthCounters =
  hc_total_conns :: u64
  hc_failed_conns :: u64
  hc_timeout_conns :: u64
  hc_success_conns :: u64
  hc_last_success_ns :: u64
  hc_last_failure_ns :: u64
  hc_total_rtt_ns :: u64

section \<open>Constants\<close>

definition AF_INET :: u8 where "AF_INET = 2"

definition CONFIG_KEY_MODE :: u32 where "CONFIG_KEY_MODE = 0"
definition CONFIG_KEY_NODE_IP :: u32 where "CONFIG_KEY_NODE_IP = 2"
definition CONFIG_KEY_CLUSTER_CIDR_IP :: u32 where "CONFIG_KEY_CLUSTER_CIDR_IP = 3"
definition CONFIG_KEY_CLUSTER_CIDR_PREFIX_LEN :: u32 where "CONFIG_KEY_CLUSTER_CIDR_PREFIX_LEN = 4"
definition CONFIG_KEY_DEFAULT_DENY :: u32 where "CONFIG_KEY_DEFAULT_DENY = 5"
definition CONFIG_KEY_L4LB_ENABLED :: u32 where "CONFIG_KEY_L4LB_ENABLED = 10"

definition ACTION_DENY :: u8 where "ACTION_DENY = 0"
definition ACTION_ALLOW :: u8 where "ACTION_ALLOW = 1"
definition EGRESS_DENY :: u8 where "EGRESS_DENY = 0"
definition EGRESS_ALLOW :: u8 where "EGRESS_ALLOW = 1"
definition EGRESS_SNAT :: u8 where "EGRESS_SNAT = 2"

definition SVC_SCOPE_CLUSTER_IP :: u8 where "SVC_SCOPE_CLUSTER_IP = 0"
definition SVC_SCOPE_NODE_PORT :: u8 where "SVC_SCOPE_NODE_PORT = 1"
definition SVC_SCOPE_EXTERNAL_IP :: u8 where "SVC_SCOPE_EXTERNAL_IP = 2"
definition LB_ALG_ROUND_ROBIN :: u8 where "LB_ALG_ROUND_ROBIN = 1"
definition LB_ALG_MAGLEV :: u8 where "LB_ALG_MAGLEV = 2"
definition MODE_OVERLAY :: u64 where "MODE_OVERLAY = 0"

definition DROP_REASON_NONE :: u8 where "DROP_REASON_NONE = 0"
definition DROP_REASON_POLICY_DENIED :: u8 where "DROP_REASON_POLICY_DENIED = 1"
definition DROP_REASON_NO_IDENTITY :: u8 where "DROP_REASON_NO_IDENTITY = 2"
definition DROP_REASON_NO_ROUTE :: u8 where "DROP_REASON_NO_ROUTE = 3"
definition DROP_REASON_NO_TUNNEL :: u8 where "DROP_REASON_NO_TUNNEL = 4"
definition DROP_REASON_RATE_LIMITED :: u8 where "DROP_REASON_RATE_LIMITED = 6"
definition DROP_REASON_MAX :: u32 where "DROP_REASON_MAX = 16"

definition TC_ACT_OK :: int where "TC_ACT_OK = 0"
definition TC_ACT_SHOT :: int where "TC_ACT_SHOT = 2"
definition ETH_HLEN :: nat where "ETH_HLEN = 14"

definition MAX_ENDPOINTS :: nat where "MAX_ENDPOINTS = 65536"
definition MAX_POLICIES :: nat where "MAX_POLICIES = 65536"
definition MAX_TUNNELS :: nat where "MAX_TUNNELS = 1024"
definition MAX_EGRESS_POLICIES :: nat where "MAX_EGRESS_POLICIES = 16384"
definition MAX_CONFIG_ENTRIES :: nat where "MAX_CONFIG_ENTRIES = 32"
definition MAX_SERVICES :: nat where "MAX_SERVICES = 16384"
definition MAX_BACKENDS :: nat where "MAX_BACKENDS = 65536"
definition MAX_MAGLEV :: nat where "MAX_MAGLEV = 1048576"
definition MAGLEV_TABLE_SIZE :: u32 where "MAGLEV_TABLE_SIZE = 65537"

lemmas action_defs = ACTION_DENY_def ACTION_ALLOW_def EGRESS_DENY_def EGRESS_ALLOW_def EGRESS_SNAT_def
lemmas tc_defs = TC_ACT_OK_def TC_ACT_SHOT_def
lemmas reason_defs = DROP_REASON_NONE_def DROP_REASON_POLICY_DENIED_def DROP_REASON_NO_IDENTITY_def
  DROP_REASON_NO_ROUTE_def DROP_REASON_NO_TUNNEL_def DROP_REASON_RATE_LIMITED_def
lemmas config_key_defs = CONFIG_KEY_MODE_def CONFIG_KEY_NODE_IP_def CONFIG_KEY_CLUSTER_CIDR_IP_def
  CONFIG_KEY_CLUSTER_CIDR_PREFIX_LEN_def CONFIG_KEY_DEFAULT_DENY_def CONFIG_KEY_L4LB_ENABLED_def

section \<open>The maps\<close>

datatype AttachDirection = Ingress | Egress

record Maps =
  m_endpoints :: "EndpointKey \<rightharpoonup> EndpointValue"
  m_policies :: "PolicyKey \<rightharpoonup> PolicyValue"
  m_tunnels :: "TunnelKey \<rightharpoonup> TunnelValue"
  m_egress :: "EgressKey \<rightharpoonup> EgressValue"
  m_config :: "u32 \<rightharpoonup> u64"
  m_services :: "ServiceKey \<rightharpoonup> ServiceValue"
  m_backends :: "u32 \<Rightarrow> BackendValue"
  m_maglev :: "u32 \<Rightarrow> u32"
  m_conntrack :: "CtKey \<rightharpoonup> CtValue"
  m_rr_counters :: "nat \<Rightarrow> u32 \<Rightarrow> u32"
  m_sock_lb_origins :: "u64 \<rightharpoonup> SockLbOrigin"
  m_sock_hash :: "SockKey \<rightharpoonup> u64"
  m_sockmap_endpoints :: "SockmapEndpointKey \<rightharpoonup> u32"
  m_sockmap_stats :: "nat \<Rightarrow> u32 \<Rightarrow> u64"
  m_mesh_services :: "MeshServiceKey \<rightharpoonup> MeshRedirectValue"
  m_rl_tokens :: "RateLimitKey \<rightharpoonup> TokenBucketState"
  m_rl_config :: RateLimitConfig
  m_backend_health :: "BackendHealthKey \<rightharpoonup> (nat \<Rightarrow> BackendHealthCounters)"
  m_drop_counters :: "nat \<Rightarrow> u32 \<Rightarrow> u64"
  m_flow_events :: "FlowEvent list"
  m_endpoints_v6 :: "(EndpointKeyV6 \<rightharpoonup> EndpointValueV6) option"
  m_tunnels_v6 :: "(TunnelKeyV6 \<rightharpoonup> TunnelValueV6) option"
  m_egress_v6 :: "(EgressKeyV6 \<rightharpoonup> EgressValueV6) option"
  m_services_v6 :: "(ServiceKeyV6 \<rightharpoonup> ServiceValue) option"
  m_backends_v6 :: "(u32 \<Rightarrow> BackendValueV6) option"
  m_attached :: "(string \<times> AttachDirection \<times> string) list"

definition zero_counters :: BackendHealthCounters where
  "zero_counters = \<lparr>hc_total_conns = 0, hc_failed_conns = 0, hc_timeout_conns = 0, hc_success_conns = 0,
     hc_last_success_ns = 0, hc_last_failure_ns = 0, hc_total_rtt_ns = 0\<rparr>"

text \<open>The maps as the loader finds them in the object file, which has none of the IPv6 maps.\<close>

definition fresh_maps :: Maps where
  "fresh_maps =
     \<lparr>m_endpoints = Map.empty, m_policies = Map.empty, m_tunnels = Map.empty, m_egress = Map.empty,
      m_config = Map.empty, m_services = Map.empty,
      m_backends = (\<lambda>_. \<lparr>bv_ip = 0, bv_port = 0, bv_node_ip = 0\<rparr>), m_maglev = (\<lambda>_. 0),
      m_conntrack = Map.empty, m_rr_counters = (\<lambda>_ _. 0), m_sock_lb_origins = Map.empty, m_sock_hash = Map.empty,
      m_sockmap_endpoints = Map.empty, m_sockmap_stats = (\<lambda>_ _. 0), m_mesh_services = Map.empty,
      m_rl_tokens = Map.empty, m_rl_config = \<lparr>rl_rate = 0, rl_burst = 0, rl_window_ns = 0\<rparr>,
      m_backend_health = Map.empty, m_drop_counters = (\<lambda>_ _. 0), m_flow_events = [],
      m_endpoints_v6 = None, m_tunnels_v6 = None, m_egress_v6 = None, m_services_v6 = None, m_backends_v6 = None,
      m_attached = []\<rparr>"

text \<open>
  Insertion into a bounded hash map fails when the key is new and the map is full; removal fails when
  the key is missing. Setting and reading an array fail beyond its length.
\<close>

definition hm_insert :: "nat \<Rightarrow> 'k \<Rightarrow> 'v \<Rightarrow> ('k \<rightharpoonup> 'v) \<Rightarrow> ('k \<rightharpoonup> 'v) option" where
  "hm_insert cap k v m = (if m k = None \<and> cap \<le> map_len m then None else Some (m(k \<mapsto> v)))"

definition hm_remove :: "'k \<Rightarrow> ('k \<rightharpoonup> 'v) \<Rightarrow> ('k \<rightharpoonup> 'v) option" where
  "hm_remove k m = (if m k = None then None else Some (map_del m k))"

definition arr_set :: "nat \<Rightarrow> u32 \<Rightarrow> 'v \<Rightarrow> (u32 \<Rightarrow> 'v) \<Rightarrow> (u32 \<Rightarrow> 'v) option" where
  "arr_set len i v a = (if unat i < len then Some (a(i := v)) else None)"

definition arr_get :: "nat \<Rightarrow> u32 \<Rightarrow> (u32 \<Rightarrow> 'v) \<Rightarrow> 'v option" where
  "arr_get len i a = (if unat i < len then Some (a i) else None)"

text \<open>
  An LRU map never refuses an insertion; to make room the kernel may remove another entry, which is
  the first argument.
\<close>

definition lru_insert :: "'k option \<Rightarrow> 'k \<Rightarrow> 'v \<Rightarrow> ('k \<rightharpoonup> 'v) \<Rightarrow> ('k \<rightharpoonup> 'v)" where
  "lru_insert evicted k v m = (case evicted of None \<Rightarrow> m | Some k' \<Rightarrow> map_del m k')(k \<mapsto> v)"

section \<open>Addresses as words\<close>

definition ipv4_to_u32 :: "u8 list \<Rightarrow> u32" where
  "ipv4_to_u32 bytes = of_nat (be_nat bytes)"

definition u32_to_ipv4 :: "u32 \<Rightarrow> u8 list" where
  "u32_to_ipv4 ip = nat_be 4 (unat ip)"

definition ipv6_to_u64_pair :: "u8 list \<Rightarrow> u64 \<times> u64" where
  "ipv6_to_u64_pair addr = (of_nat (be_nat (take 8 addr)), of_nat (be_nat (drop 8 addr)))"

definition u64_pair_to_ipv6 :: "u64 \<Rightarrow> u64 \<Rightarrow> u8 list" where
  "u64_pair_to_ipv6 hi lo = nat_be 8 (unat hi) @ nat_be 8 (unat lo)"

lemma unat_ipv4_to_u32: "length b = 4 \<Longrightarrow> unat (ipv4_to_u32 b) = be_nat b"
  using be_nat_lt [of b] by (simp add: ipv4_to_u32_def unat_of_nat take_bit_eq_mod)

lemma u32_to_ipv4_inverse: "length b = 4 \<Longrightarrow> u32_to_ipv4 (ipv4_to_u32 b) = b"
  using nat_be_be_nat [of b] by (simp add: u32_to_ipv4_def unat_ipv4_to_u32)

lemma ipv4_to_u32_inverse: "ipv4_to_u32 (u32_to_ipv4 x) = x"
  using unsigned_less [of x, where ?'a = nat] by (simp add: u32_to_ipv4_def ipv4_to_u32_def be_nat_nat_be)

lemma ipv4_to_u32_inject: "length a = 4 \<Longrightarrow> length b = 4 \<Longrightarrow> ipv4_to_u32 a = ipv4_to_u32 b \<longleftrightarrow> a = b"
  using u32_to_ipv4_inverse by metis

lemma ipv6_pair_inverse: "length a = 16 \<Longrightarrow> (case ipv6_to_u64_pair a of (hi, lo) \<Rightarrow> u64_pair_to_ipv6 hi lo) = a"
proof -
  assume a: "length a = 16"
  have "nat_be 8 (be_nat (take 8 a)) = take 8 a" "nat_be 8 (be_nat (drop 8 a)) = drop 8 a"
    using nat_be_be_nat [of "take 8 a"] nat_be_be_nat [of "drop 8 a"] a by simp_all
  moreover have "be_nat (take 8 a) < 2 ^ 64" "be_nat (drop 8 a) < 2 ^ 64"
    using be_nat_lt [of "take 8 a"] be_nat_lt [of "drop 8 a"] a by simp_all
  ultimately show ?thesis
    by (simp add: ipv6_to_u64_pair_def u64_pair_to_ipv6_def unat_of_nat take_bit_eq_mod)
qed

end
