(* ===== verification/Service_Slots.thy ===== *)
theory Service_Slots
  imports Prelude
begin

text \<open>
  The contiguous slot allocator (\<open>internal/service/allocator.go\<close>): the free blocks of the flat
  backend array, kept sorted and merged.

  The model follows the source at its width: offsets and counts are \<open>uint32\<close> words. The free list of a
  well-formed allocator is the unique canonical list of its set of free slots, which is what makes
  allocating and freeing inverse to each other and first-fit search complete.
\<close>

section \<open>Model\<close>

record slotRange =
  sr_offset :: u32
  sr_count :: u32

record SlotAllocator =
  sa_maxSlots :: u32
  sa_free :: "slotRange list"

definition NewSlotAllocator :: "u32 \<Rightarrow> SlotAllocator" where
  "NewSlotAllocator maxSlots = \<lparr>sa_maxSlots = maxSlots, sa_free = [\<lparr>sr_offset = 0, sr_count = maxSlots\<rparr>]\<rparr>"

text \<open>The loop of \<open>Alloc\<close> over the free list; \<^const>\<open>None\<close> is \<open>ErrNoFreeSlots\<close>.\<close>

fun Alloc_ranges :: "u32 \<Rightarrow> slotRange list \<Rightarrow> (u32 \<times> slotRange list) option" where
  "Alloc_ranges n [] = None"
| "Alloc_ranges n (r # rs) =
     (if n \<le> sr_count r then
        Some (sr_offset r,
          if sr_count r = n then rs
          else \<lparr>sr_offset = sr_offset r + n, sr_count = sr_count r - n\<rparr> # rs)
      else (case Alloc_ranges n rs of None \<Rightarrow> None | Some (off, rs') \<Rightarrow> Some (off, r # rs')))"

definition Alloc :: "u32 \<Rightarrow> SlotAllocator \<Rightarrow> (u32 \<times> SlotAllocator) option" where
  "Alloc n a = (case Alloc_ranges n (sa_free a) of
       None \<Rightarrow> None
     | Some (off, rs) \<Rightarrow> Some (off, a\<lparr>sa_free := rs\<rparr>))"

text \<open>One iteration of \<open>merge\<close>: extend the last merged block or append a new one.\<close>

definition merge_step :: "slotRange list \<Rightarrow> slotRange \<Rightarrow> slotRange list" where
  "merge_step merged r =
     (if merged \<noteq> [] \<and> sr_offset (last merged) + sr_count (last merged) = sr_offset r
      then butlast merged @ [(last merged)\<lparr>sr_count := sr_count (last merged) + sr_count r\<rparr>]
      else merged @ [r])"

definition merge_free :: "slotRange list \<Rightarrow> slotRange list" where
  "merge_free rs = foldl merge_step [] rs"

text \<open>\<open>Free\<close>; \<open>sort.Slice\<close> is not stable, but blocks with different offsets have only one sorted order.\<close>

definition Free :: "u32 \<Rightarrow> u32 \<Rightarrow> SlotAllocator \<Rightarrow> SlotAllocator" where
  "Free off n a =
     a\<lparr>sa_free := merge_free (sort_key sr_offset (sa_free a @ [\<lparr>sr_offset = off, sr_count = n\<rparr>]))\<rparr>"

section \<open>Blocks and canonical free lists\<close>

definition sr_end :: "slotRange \<Rightarrow> nat" where
  "sr_end r = unat (sr_offset r) + unat (sr_count r)"

definition block :: "u32 \<Rightarrow> u32 \<Rightarrow> nat set" where
  "block off n = {unat off ..< unat off + unat n}"

definition sr_slots :: "slotRange \<Rightarrow> nat set" where
  "sr_slots r = block (sr_offset r) (sr_count r)"

definition range_in :: "nat \<Rightarrow> slotRange \<Rightarrow> bool" where
  "range_in hi r \<longleftrightarrow> 0 < sr_count r \<and> sr_end r \<le> hi"

definition ordered :: "slotRange list \<Rightarrow> bool" where
  "ordered rs \<longleftrightarrow> sorted_wrt (\<lambda>a b. sr_end a \<le> unat (sr_offset b)) rs"

definition canonical :: "slotRange list \<Rightarrow> bool" where
  "canonical rs \<longleftrightarrow> sorted_wrt (\<lambda>a b. sr_end a < unat (sr_offset b)) rs"

definition slots_of :: "slotRange list \<Rightarrow> nat set" where
  "slots_of rs = (\<Union>r \<in> set rs. sr_slots r)"

definition free_slots :: "SlotAllocator \<Rightarrow> nat set" where
  "free_slots a = slots_of (sa_free a)"

definition Slot_wf :: "SlotAllocator \<Rightarrow> bool" where
  "Slot_wf a \<longleftrightarrow> canonical (sa_free a) \<and> list_all (range_in (unat (sa_maxSlots a))) (sa_free a)"

lemma slots_of_simps [simp]:
  "slots_of [] = {}" "slots_of (r # rs) = sr_slots r \<union> slots_of rs" "slots_of (rs @ qs) = slots_of rs \<union> slots_of qs"
  by (auto simp: slots_of_def)

lemma mem_sr_slots: "x \<in> sr_slots r \<longleftrightarrow> unat (sr_offset r) \<le> x \<and> x < sr_end r"
  by (simp add: sr_slots_def block_def sr_end_def)

lemma range_in_pos: "range_in hi r \<Longrightarrow> unat (sr_offset r) < sr_end r"
  by (auto simp: range_in_def sr_end_def word_gt_0 unat_gt_0)

lemma slotRange_eqI: "sr_offset r = sr_offset q \<Longrightarrow> sr_end r = sr_end q \<Longrightarrow> (r :: slotRange) = q"
  by (cases r; cases q) (simp add: sr_end_def word_unat_eq_iff)

lemma canonical_Cons: "canonical (r # rs) \<longleftrightarrow> (\<forall>q \<in> set rs. sr_end r < unat (sr_offset q)) \<and> canonical rs"
  by (simp add: canonical_def)

lemma canonical_later: "canonical (r # rs) \<Longrightarrow> x \<in> slots_of rs \<Longrightarrow> sr_end r < x"
  by (fastforce simp: canonical_Cons slots_of_def mem_sr_slots)

lemma canonical_gap: "canonical (r # rs) \<Longrightarrow> sr_end r \<notin> slots_of (r # rs)"
  using canonical_later by (auto simp: mem_sr_slots)

lemma canonical_ordered: "canonical rs \<Longrightarrow> ordered rs"
  unfolding canonical_def ordered_def by (erule sorted_wrt_mono_rel [rotated]) simp

lemma slots_of_bounded: "list_all (range_in hi) rs \<Longrightarrow> slots_of rs \<subseteq> {..<hi}"
  by (auto simp: slots_of_def list_all_iff range_in_def mem_sr_slots)

lemma canonical_head:
  assumes "canonical (r # rs)" "list_all (range_in hi) (r # rs)"
  shows "slots_of (r # rs) - sr_slots r = slots_of rs"
    and "unat (sr_offset r) \<in> slots_of (r # rs)"
    and "x \<in> slots_of (r # rs) \<Longrightarrow> unat (sr_offset r) \<le> x"
proof -
  have pos: "unat (sr_offset r) < sr_end r" using assms(2) by (intro range_in_pos [of hi]) simp
  have later: "\<And>x. x \<in> slots_of rs \<Longrightarrow> sr_end r < x" by (rule canonical_later [OF assms(1)])
  show "slots_of (r # rs) - sr_slots r = slots_of rs" by (auto simp: mem_sr_slots dest: later)
  show "unat (sr_offset r) \<in> slots_of (r # rs)" using pos by (simp add: mem_sr_slots)
  show "unat (sr_offset r) \<le> x" if "x \<in> slots_of (r # rs)" using that pos later [of x] by (auto simp: mem_sr_slots)
qed

text \<open>A canonical list is determined by its slots.\<close>

lemma canonical_head_unique:
  assumes "canonical (r # rs)" "list_all (range_in hi) (r # rs)"
    and "canonical (q # qs)" "list_all (range_in hi) (q # qs)"
    and eq: "slots_of (r # rs) = slots_of (q # qs)"
  shows "r = q"
proof (rule slotRange_eqI)
  show off: "sr_offset r = sr_offset q"
  proof -
    have "unat (sr_offset q) \<le> unat (sr_offset r)"
      by (rule canonical_head(3) [OF assms(3,4)]) (simp only: eq [symmetric] canonical_head(2) [OF assms(1,2)])
    moreover have "unat (sr_offset r) \<le> unat (sr_offset q)"
      by (rule canonical_head(3) [OF assms(1,2)]) (simp only: eq canonical_head(2) [OF assms(3,4)])
    ultimately show ?thesis by (simp add: word_unat_eq_iff)
  qed
  have "\<not> sr_end r < sr_end q"
    using canonical_gap [OF assms(1)] range_in_pos [of hi r] assms(2) off unfolding eq by (simp add: mem_sr_slots)
  moreover have "\<not> sr_end q < sr_end r"
    using canonical_gap [OF assms(3)] range_in_pos [of hi q] assms(4) off unfolding eq [symmetric] by (simp add: mem_sr_slots)
  ultimately show "sr_end r = sr_end q" by simp
qed

lemma slots_of_Nil_iff: "list_all (range_in hi) rs \<Longrightarrow> slots_of rs = {} \<longleftrightarrow> rs = []"
  using range_in_pos by (cases rs) (fastforce simp: mem_sr_slots)+

lemma canonical_unique:
  assumes "canonical rs" "list_all (range_in hi) rs" "canonical qs" "list_all (range_in hi) qs"
    and "slots_of rs = slots_of qs"
  shows "rs = qs"
  using assms
proof (induction rs arbitrary: qs)
  case Nil
  then show ?case using slots_of_Nil_iff [of hi qs] by simp
next
  case (Cons r rs)
  have "qs \<noteq> []" using slots_of_Nil_iff [OF Cons.prems(2)] Cons.prems(5) by auto
  then obtain q qs' where qs: "qs = q # qs'" by (cases qs) auto
  note prems = Cons.prems [unfolded qs]
  have rq: "r = q" using prems by (rule canonical_head_unique)
  have "slots_of rs = slots_of (r # rs) - sr_slots r" by (rule canonical_head(1) [OF prems(1,2), symmetric])
  also have "\<dots> = slots_of (q # qs') - sr_slots q" unfolding prems(5) unfolding rq by (rule refl)
  also have "\<dots> = slots_of qs'" by (rule canonical_head(1) [OF prems(3,4)])
  finally have "rs = qs'" using Cons.IH [of qs'] prems(1-4) by (simp add: canonical_Cons)
  with rq qs show ?case by simp
qed

lemma Slot_wf_unique:
  assumes "Slot_wf a" "Slot_wf b" "sa_maxSlots a = sa_maxSlots b" "free_slots a = free_slots b"
  shows "a = b"
proof -
  have "sa_free a = sa_free b"
    by (rule canonical_unique [of _ "unat (sa_maxSlots b)"]) (use assms in \<open>simp_all add: Slot_wf_def free_slots_def\<close>)
  then show ?thesis using assms(3) by simp
qed

section \<open>Allocation\<close>

lemma block_in_one_range:
  assumes "canonical rs" "0 < k" "{o' ..< o' + k} \<subseteq> slots_of rs"
  shows "\<exists>r \<in> set rs. {o' ..< o' + k} \<subseteq> sr_slots r"
  using assms
proof (induction rs)
  case (Cons r rs)
  have later: "\<And>x. x \<in> slots_of rs \<Longrightarrow> sr_end r < x" by (rule canonical_later [OF Cons.prems(1)])
  have gap: "sr_end r \<notin> slots_of (r # rs)" by (rule canonical_gap [OF Cons.prems(1)])
  show ?case
  proof (cases "o' < sr_end r")
    case True
    then have "o' + k \<le> sr_end r" using gap Cons.prems(3) by (meson atLeastLessThan_iff leI less_imp_le subsetD)
    then have "{o' ..< o' + k} \<subseteq> sr_slots r" using Cons.prems(3) by (auto simp: mem_sr_slots dest!: later subsetD)
    then show ?thesis by simp
  next
    case False
    then have "{o' ..< o' + k} \<subseteq> slots_of rs" using Cons.prems(3) by (force simp: mem_sr_slots)
    then show ?thesis using Cons.IH Cons.prems by (simp add: canonical_Cons)
  qed
qed simp

lemma Alloc_ranges_None: "Alloc_ranges n rs = None \<longleftrightarrow> (\<forall>r \<in> set rs. sr_count r < n)"
  by (induction rs) (auto split: option.splits simp: not_le)

lemma range_split:
  assumes "range_in hi r" "hi < 2 ^ 32" "n < sr_count r"
  defines "q \<equiv> \<lparr>sr_offset = sr_offset r + n, sr_count = sr_count r - n\<rparr>"
  shows "unat (sr_offset q) = unat (sr_offset r) + unat n" "sr_end q = sr_end r" "0 < sr_count q"
proof -
  have n: "unat n < unat (sr_count r)" using assms(3) by (simp add: word_less_nat_alt)
  have "unat (sr_offset r) + unat n < 2 ^ 32" using assms(1,2) n by (simp add: range_in_def sr_end_def)
  then show off: "unat (sr_offset q) = unat (sr_offset r) + unat n"
    unfolding q_def slotRange.simps by (intro unat_plus_simple [THEN iffD1] no_olen_add_nat [THEN iffD2]) simp
  have "unat (sr_count r - n) = unat (sr_count r) - unat n" using assms(3) by (intro unat_sub) simp
  with off n show "sr_end q = sr_end r" by (simp add: sr_end_def q_def)
  show "0 < sr_count q" using assms(3) by (simp add: q_def word_gt_0)
qed

lemma Alloc_ranges_Some:
  assumes "canonical rs" "list_all (range_in hi) rs" "hi < 2 ^ 32" "0 < n" "Alloc_ranges n rs = Some (off, rs')"
  shows "block off n \<subseteq> slots_of rs \<and> slots_of rs' = slots_of rs - block off n \<and> canonical rs' \<and> list_all (range_in hi) rs'"
  using assms(1,2,5)
proof (induction rs arbitrary: rs')
  case (Cons r rs)
  have later: "\<And>x. x \<in> slots_of rs \<Longrightarrow> sr_end r < x" by (rule canonical_later [OF Cons.prems(1)])
  have r: "range_in hi r" using Cons.prems(2) by simp
  consider (eq) "sr_count r = n" | (split) "n < sr_count r" | (next') "sr_count r < n" by force
  then show ?case
  proof cases
    case eq
    then have off: "off = sr_offset r" "rs' = rs" using Cons.prems(3) by simp_all
    have "block off n = sr_slots r" by (simp add: sr_slots_def off eq)
    moreover have "slots_of (r # rs) - sr_slots r = slots_of rs" by (rule canonical_head(1) [OF Cons.prems(1,2)])
    ultimately show ?thesis using Cons.prems(1,2) off by (simp add: canonical_Cons)
  next
    case split
    let ?q = "\<lparr>sr_offset = sr_offset r + n, sr_count = sr_count r - n\<rparr>"
    have off: "off = sr_offset r" "rs' = ?q # rs" 
      using Cons.prems(3) less_imp_le [OF split] less_imp_neq [OF split] by auto
    note q = range_split [OF r assms(3) split]
    have n: "unat n < unat (sr_count r)" using split by (simp add: word_less_nat_alt)
    have "sr_slots ?q = sr_slots r - block off n" "block off n \<subseteq> sr_slots r"
      using q(1,2) n by (auto simp: mem_sr_slots block_def off sr_end_def)
    moreover have "slots_of rs \<inter> sr_slots r = {}" by (auto simp: mem_sr_slots dest: later)
    ultimately have "slots_of rs' = slots_of (r # rs) - block off n" unfolding off(2) by auto
    moreover have "range_in hi ?q" using r q by (simp add: range_in_def)
    ultimately show ?thesis using Cons.prems(1,2) q(2) \<open>block off n \<subseteq> sr_slots r\<close> unfolding off(2) by (auto simp: canonical_Cons)
  next
    case next'
    then obtain qs where qs: "Alloc_ranges n rs = Some (off, qs)" "rs' = r # qs"
      using Cons.prems(3) by (simp add: not_le [symmetric] split: option.splits prod.splits)
    have ih: "block off n \<subseteq> slots_of rs" "slots_of qs = slots_of rs - block off n" "canonical qs" "list_all (range_in hi) qs"
      using Cons.IH [OF _ _ qs(1)] Cons.prems(1,2) by (simp_all add: canonical_Cons)
    have "sr_end r < unat (sr_offset q)" if "q \<in> set qs" for q
    proof -
      have "unat (sr_offset q) \<in> slots_of qs" using that ih(4) range_in_pos [of hi q] by (auto simp: slots_of_def mem_sr_slots list_all_iff)
      then show ?thesis using ih(2) later by blast
    qed
    moreover have "sr_slots r \<inter> block off n = {}" using ih(1) later by (fastforce simp: mem_sr_slots)
    ultimately show ?thesis using ih r unfolding qs(2) by (auto simp: canonical_Cons)
  qed
qed simp

section \<open>Merging\<close>

lemma ordered_slots_disjoint:
  "ordered (rs @ qs) \<Longrightarrow> list_all (range_in hi) (rs @ qs) \<Longrightarrow> r \<in> set rs \<Longrightarrow> q \<in> set qs \<Longrightarrow> sr_end r \<le> unat (sr_offset q)"
  by (simp add: ordered_def sorted_wrt_append)

lemma merge_join:
  assumes "range_in hi l" "range_in hi r" "hi < 2 ^ 32" "sr_end l = unat (sr_offset r)"
  shows "sr_end (l\<lparr>sr_count := sr_count l + sr_count r\<rparr>) = sr_end r"
    and "range_in hi (l\<lparr>sr_count := sr_count l + sr_count r\<rparr>)"
    and "sr_slots (l\<lparr>sr_count := sr_count l + sr_count r\<rparr>) = sr_slots l \<union> sr_slots r"
proof -
  have "unat (sr_count l) + unat (sr_count r) < 2 ^ 32" using assms by (simp add: range_in_def sr_end_def)
  then have c: "unat (sr_count l + sr_count r) = unat (sr_count l) + unat (sr_count r)"
    by (intro unat_plus_simple [THEN iffD1] no_olen_add_nat [THEN iffD2]) simp
  with assms(4) show e: "sr_end (l\<lparr>sr_count := sr_count l + sr_count r\<rparr>) = sr_end r" by (simp add: sr_end_def)
  have "0 < sr_count l + sr_count r"
    using assms(1) c unfolding word_less_nat_alt range_in_def by simp
  then show "range_in hi (l\<lparr>sr_count := sr_count l + sr_count r\<rparr>)" using assms(2) e by (simp add: range_in_def)
  show "sr_slots (l\<lparr>sr_count := sr_count l + sr_count r\<rparr>) = sr_slots l \<union> sr_slots r"
    using e assms(4) range_in_pos [OF assms(1)] range_in_pos [OF assms(2)] by (auto simp: mem_sr_slots)
qed

lemma adjacent_iff:
  assumes "range_in hi l" "hi < 2 ^ 32"
  shows "sr_offset l + sr_count l = sr_offset r \<longleftrightarrow> sr_end l = unat (sr_offset r)"
proof -
  have "unat (sr_offset l) + unat (sr_count l) < 2 ^ 32" using assms by (simp add: range_in_def sr_end_def)
  then have "unat (sr_offset l + sr_count l) = sr_end l"
    unfolding sr_end_def by (intro unat_plus_simple [THEN iffD1] no_olen_add_nat [THEN iffD2]) simp
  then show ?thesis by (metis word_unat_eq_iff)
qed

lemma unat_u32: "unat (w :: u32) < 2 ^ 32"
  using unsigned_less [of w, where 'a = nat] by simp

text \<open>The accumulator of the merge loop is canonical and covers what has been read so far.\<close>

lemma merge_step_invar:
  assumes "canonical acc" "ordered (acc @ [r])" "list_all (range_in hi) (acc @ [r])" "hi < 2 ^ 32"
  shows "canonical (merge_step acc r) \<and> list_all (range_in hi) (merge_step acc r) \<and>
      slots_of (merge_step acc r) = slots_of acc \<union> sr_slots r \<and> (\<forall>q \<in> set (merge_step acc r). sr_end q \<le> sr_end r)"
proof -
  have r: "range_in hi r" and acc: "list_all (range_in hi) acc" using assms(3) by simp_all
  have below: "\<forall>q \<in> set acc. sr_end q \<le> unat (sr_offset r)" using assms(2) by (simp add: ordered_def sorted_wrt_append)
  have pos: "unat (sr_offset r) < sr_end r" by (rule range_in_pos [OF r])
  show ?thesis
  proof (cases acc rule: rev_cases)
    case Nil
    then show ?thesis
      using r by (simp add: merge_step_def canonical_def)
  next
    case (snoc pre l)
    have l: "range_in hi l" and pre: "list_all (range_in hi) pre" using acc snoc by simp_all
    have sep: "\<forall>q \<in> set pre. sr_end q < unat (sr_offset l)" "canonical pre"
      using assms(1) by (simp_all add: snoc canonical_def sorted_wrt_append)
    have lr: "sr_end l \<le> unat (sr_offset r)" using below snoc by simp
    show ?thesis
    proof (cases "sr_end l = unat (sr_offset r)")
      case True
      then have m: "merge_step acc r = pre @ [l\<lparr>sr_count := sr_count l + sr_count r\<rparr>]"
        by (simp add: merge_step_def snoc adjacent_iff [OF l assms(4)])
      note j = merge_join [OF l r assms(4) True]
      have "\<forall>q \<in> set pre. sr_end q \<le> sr_end r" using below pos snoc by auto
      then show ?thesis unfolding m using j pre sep snoc by (auto simp: canonical_def sorted_wrt_append)
    next
      case False
      then have m: "merge_step acc r = acc @ [r]"
        by (simp add: merge_step_def snoc adjacent_iff [OF l assms(4)])
      have "sr_end l < unat (sr_offset r)" using False lr by simp
      moreover have "unat (sr_offset l) < sr_end l" by (rule range_in_pos [OF l])
      ultimately have "\<forall>q \<in> set acc. sr_end q < unat (sr_offset r)" using sep snoc by auto
      moreover have "\<forall>q \<in> set acc. sr_end q \<le> sr_end r" using below pos by auto
      ultimately show ?thesis unfolding m using acc r assms(1) by (simp add: canonical_def sorted_wrt_append)
    qed
  qed
qed

lemma merge_fold:
  assumes "canonical acc" "ordered (acc @ rs)" "list_all (range_in hi) (acc @ rs)" "hi < 2 ^ 32"
  shows "canonical (foldl merge_step acc rs) \<and> list_all (range_in hi) (foldl merge_step acc rs) \<and>
    slots_of (foldl merge_step acc rs) = slots_of acc \<union> slots_of rs"
  using assms
proof (induction rs arbitrary: acc)
  case (Cons r rs)
  have "ordered (acc @ [r])" "list_all (range_in hi) (acc @ [r])"
    using Cons.prems(2,3) by (simp_all add: ordered_def sorted_wrt_append)
  then have step: "canonical (merge_step acc r)" "list_all (range_in hi) (merge_step acc r)"
      "slots_of (merge_step acc r) = slots_of acc \<union> sr_slots r"
      "\<forall>q \<in> set (merge_step acc r). sr_end q \<le> sr_end r"
    using merge_step_invar [OF Cons.prems(1) _ _ Cons.prems(4)] by simp_all
  have "ordered (merge_step acc r @ rs)"
    unfolding ordered_def sorted_wrt_append
  proof (intro conjI ballI)
    show "sorted_wrt (\<lambda>a b. sr_end a \<le> unat (sr_offset b)) (merge_step acc r)"
      using canonical_ordered [OF step(1)] by (simp add: ordered_def)
    show "sorted_wrt (\<lambda>a b. sr_end a \<le> unat (sr_offset b)) rs"
      using Cons.prems(2) by (simp add: ordered_def sorted_wrt_append)
    fix p q assume "p \<in> set (merge_step acc r)" "q \<in> set rs"
    then have "sr_end p \<le> sr_end r" "sr_end r \<le> unat (sr_offset q)"
      using step(4) Cons.prems(2) by (simp_all add: ordered_def sorted_wrt_append)
    then show "sr_end p \<le> unat (sr_offset q)" by simp
  qed
  moreover have "list_all (range_in hi) (merge_step acc r @ rs)" using step(2) Cons.prems(3) by simp
  ultimately show ?case using Cons.IH [OF step(1) _ _ Cons.prems(4)] step(3) by (simp add: Un_assoc)
qed simp

lemma sorted_ordered:
  assumes "distinct (map sr_offset rs)" "sorted (map sr_offset rs)" "list_all (range_in hi) rs"
    and "\<And>a b. a \<in> set rs \<Longrightarrow> b \<in> set rs \<Longrightarrow> a \<noteq> b \<Longrightarrow> sr_slots a \<inter> sr_slots b = {}"
  shows "ordered rs"
proof -
  have "sorted_wrt (\<lambda>a b. sr_offset a < sr_offset b) rs"
    using assms(1,2) by (metis sorted_wrt_map strict_sorted_iff)
  then show ?thesis unfolding ordered_def
  proof (rule sorted_wrt_mono_rel [rotated])
    fix a b assume ab: "a \<in> set rs" "b \<in> set rs" "sr_offset a < sr_offset b"
    then have "sr_slots a \<inter> sr_slots b = {}" using assms(4) by blast
    moreover have "unat (sr_offset b) \<in> sr_slots b"
      using assms(3) ab(2) range_in_pos [of hi b] by (auto simp: list_all_iff mem_sr_slots)
    ultimately have "unat (sr_offset b) \<notin> sr_slots a" by blast
    then show "sr_end a \<le> unat (sr_offset b)" using ab(3) by (simp add: mem_sr_slots word_less_nat_alt)
  qed
qed

lemma canonical_disjoint:
  assumes "canonical rs" "a \<in> set rs" "b \<in> set rs" "a \<noteq> b"
  shows "sr_slots a \<inter> sr_slots b = {}"
  using assms
proof (induction rs)
  case (Cons r rs)
  have "x \<in> slots_of rs \<Longrightarrow> sr_end r < x" for x by (rule canonical_later [OF Cons.prems(1)])
  moreover have "q \<in> set rs \<Longrightarrow> sr_slots q \<subseteq> slots_of rs" for q by (auto simp: slots_of_def)
  ultimately have "q \<in> set rs \<Longrightarrow> sr_slots r \<inter> sr_slots q = {}" for q by (fastforce simp: mem_sr_slots)
  then show ?case using Cons by (auto simp: canonical_Cons)
qed simp

lemma Free_correct:
  assumes wf: "Slot_wf a" and n: "0 < n" and "unat off + unat n \<le> unat (sa_maxSlots a)"
    and dj: "block off n \<inter> free_slots a = {}"
  shows "Slot_wf (Free off n a)" "free_slots (Free off n a) = free_slots a \<union> block off n"
proof -
  let ?hi = "unat (sa_maxSlots a)"
  define r where "r = \<lparr>sr_offset = off, sr_count = n\<rparr>"
  define rs where "rs = sort_key sr_offset (sa_free a @ [r])"
  have set_rs: "set rs = insert r (set (sa_free a))" by (simp add: rs_def)
  have r: "range_in ?hi r" "sr_slots r = block off n" using assms by (simp_all add: r_def range_in_def sr_end_def sr_slots_def)
  have can: "canonical (sa_free a)" and inr: "list_all (range_in ?hi) (sa_free a)" using wf by (simp_all add: Slot_wf_def)
  have rdj: "sr_slots r \<inter> sr_slots q = {}" if "q \<in> set (sa_free a)" for q
    using dj that unfolding r(2) free_slots_def slots_of_def by blast
  have "sorted_wrt (\<lambda>a b. sr_offset a \<noteq> sr_offset b) (sa_free a)"
    using can unfolding canonical_def by (rule sorted_wrt_mono_rel [rotated]) (auto simp: sr_end_def)
  then have "distinct (map sr_offset (sa_free a))" by (simp add: sorted_wrt_map distinct_conv_nth sorted_wrt_iff_nth_less) (metis linorder_neqE_nat)
  moreover have "off \<notin> sr_offset ` set (sa_free a)"
  proof
    assume "off \<in> sr_offset ` set (sa_free a)"
    then obtain q where "q \<in> set (sa_free a)" "sr_offset q = off" by blast
    then have "unat off \<in> sr_slots q \<inter> sr_slots r"
      using range_in_pos [of ?hi q] range_in_pos [OF r(1)] inr by (auto simp: mem_sr_slots list_all_iff r_def)
    then show False using rdj \<open>q \<in> set (sa_free a)\<close> by blast
  qed
  ultimately have "distinct (map sr_offset (sa_free a @ [r]))" by (simp add: r_def)
  then have "distinct (map sr_offset rs)"
    unfolding rs_def by (metis distinct_map distinct_sort set_sort)
  moreover have "sorted (map sr_offset rs)" by (simp add: rs_def)
  moreover have lrs: "list_all (range_in ?hi) rs" using r inr by (simp add: set_rs list_all_iff)
  moreover have "sr_slots p \<inter> sr_slots q = {}" if "p \<in> set rs" "q \<in> set rs" "p \<noteq> q" for p q
    using that rdj canonical_disjoint [OF can] unfolding set_rs by blast
  ultimately have "ordered rs" by (rule sorted_ordered)
  with lrs have m: "canonical (merge_free rs)" "list_all (range_in ?hi) (merge_free rs)" "slots_of (merge_free rs) = slots_of rs"
    using merge_fold [of "[]" rs ?hi] unat_u32 [of "sa_maxSlots a"] by (simp_all add: merge_free_def canonical_def)
  have f: "sa_free (Free off n a) = merge_free rs" by (simp add: Free_def rs_def r_def)
  have mx: "sa_maxSlots (Free off n a) = sa_maxSlots a" by (simp add: Free_def)
  show "Slot_wf (Free off n a)" using m f mx by (simp add: Slot_wf_def)
  show "free_slots (Free off n a) = free_slots a \<union> block off n"
    unfolding free_slots_def f m(3) using r(2) by (auto simp: slots_of_def set_rs)
qed

section \<open>The contract\<close>

text \<open>
  What the users of a slot allocator rely on. A ledger lists who owns which block: owned blocks are
  disjoint from each other and from the free slots, and together they make up the whole of \<open>U\<close>.
\<close>

definition ledger :: "nat set \<Rightarrow> nat set \<Rightarrow> ('k \<rightharpoonup> u32 \<times> u32) \<Rightarrow> bool" where
  "ledger U F m \<longleftrightarrow>
     (\<forall>k off n. m k = Some (off, n) \<longrightarrow> block off n \<subseteq> U - F) \<and>
     (\<forall>k k' off n off' n'. k \<noteq> k' \<longrightarrow> m k = Some (off, n) \<longrightarrow> m k' = Some (off', n') \<longrightarrow> block off n \<inter> block off' n' = {}) \<and>
     F \<subseteq> U \<and> (\<forall>x \<in> U - F. \<exists>k off n. m k = Some (off, n) \<and> x \<in> block off n)"

lemma block_0 [simp]: "block off 0 = {}"
  by (simp add: block_def)

lemma ledgerD:
  assumes "ledger U F m" "m k = Some (off, n)"
  shows "block off n \<subseteq> U" "block off n \<inter> F = {}"
    and "k' \<noteq> k \<Longrightarrow> m k' = Some (off', n') \<Longrightarrow> block off n \<inter> block off' n' = {}"
  using assms unfolding ledger_def by blast+

lemma ledger_empty: "ledger U U Map.empty"
  by (simp add: ledger_def)

lemma ledger_insert:
  assumes "ledger U F m" "m k = None" "block off n \<subseteq> F"
  shows "ledger U (F - block off n) (m(k \<mapsto> (off, n)))"
  unfolding ledger_def
proof (intro conjI allI impI ballI)
  fix k' off' n' assume "(m(k \<mapsto> (off, n))) k' = Some (off', n')"
  then show "block off' n' \<subseteq> U - (F - block off n)"
    using ledgerD(1,2) [OF assms(1), of k' off' n'] assms(1,3) by (fastforce simp: ledger_def split: if_splits)
next
  fix k1 k2 o1 n1 o2 n2 assume k: "k1 \<noteq> k2" "(m(k \<mapsto> (off, n))) k1 = Some (o1, n1)" "(m(k \<mapsto> (off, n))) k2 = Some (o2, n2)"
  have "block o' n' \<inter> block off n = {}" if "m k' = Some (o', n')" for k' o' n'
    using ledgerD(2) [OF assms(1) that] assms(3) by blast
  moreover have "block o1 n1 \<inter> block o2 n2 = {}" if "m k1 = Some (o1, n1)" "m k2 = Some (o2, n2)"
    by (rule ledgerD(3) [OF assms(1) that(1) k(1) [symmetric] that(2)])
  ultimately show "block o1 n1 \<inter> block o2 n2 = {}" using k by (auto split: if_splits)
next
  show "F - block off n \<subseteq> U" using assms(1) by (auto simp: ledger_def)
  fix x assume x: "x \<in> U - (F - block off n)"
  show "\<exists>k' off' n'. (m(k \<mapsto> (off, n))) k' = Some (off', n') \<and> x \<in> block off' n'"
  proof (cases "x \<in> block off n")
    case True
    then show ?thesis by (intro exI [of _ k]) auto
  next
    case False
    with x have "x \<in> U - F" by blast
    then obtain k' off' n' where "m k' = Some (off', n')" "x \<in> block off' n'" using assms(1) unfolding ledger_def by metis
    with assms(2) show ?thesis by (intro exI [of _ k']) auto
  qed
qed

lemma ledger_remove:
  assumes "ledger U F m" "m k = Some (off, n)"
  shows "ledger U (F \<union> block off n) (m(k := None))" "ledger (U - block off n) F (m(k := None))"
proof -
  have sub: "(m(k := None)) k' = Some b \<longleftrightarrow> k' \<noteq> k \<and> m k' = Some b" for k' b by simp
  have dj: "block off n \<inter> block off' n' = {}" if "k' \<noteq> k" "m k' = Some (off', n')" for k' off' n'
    by (rule ledgerD(3) [OF assms that])
  have cov: "\<exists>k' off' n'. k' \<noteq> k \<and> m k' = Some (off', n') \<and> x \<in> block off' n'" if "x \<in> U" "x \<notin> F" "x \<notin> block off n" for x
  proof -
    have "\<exists>k' off' n'. m k' = Some (off', n') \<and> x \<in> block off' n'" using assms(1) that(1,2) unfolding ledger_def by blast
    then obtain k' off' n' where "m k' = Some (off', n')" "x \<in> block off' n'" by (elim exE conjE)
    moreover then have "k' \<noteq> k" using assms(2) that(3) by auto
    ultimately show ?thesis by blast
  qed
  note b = ledgerD(1,2) [OF assms]
  show "ledger U (F \<union> block off n) (m(k := None))" unfolding ledger_def sub
  proof (intro conjI allI impI ballI)
    show "F \<union> block off n \<subseteq> U" using b assms(1) by (auto simp: ledger_def)
    show "block off' n' \<subseteq> U - (F \<union> block off n)" if "k' \<noteq> k \<and> m k' = Some (off', n')" for k' off' n'
      using ledgerD(1,2) [OF assms(1), of k' off' n'] that dj [of k'] by blast
  qed (use cov ledgerD(3) [OF assms(1)] in \<open>blast+\<close>)
  show "ledger (U - block off n) F (m(k := None))" unfolding ledger_def sub
  proof (intro conjI allI impI ballI)
    show "F \<subseteq> U - block off n" using b assms(1) by (auto simp: ledger_def)
    show "block off' n' \<subseteq> U - block off n - F" if "k' \<noteq> k \<and> m k' = Some (off', n')" for k' off' n'
      using ledgerD(1,2) [OF assms(1), of k' off' n'] that dj [of k'] by blast
  qed (use cov ledgerD(3) [OF assms(1)] in \<open>blast+\<close>)
qed

locale slot_pool =
  fixes cap :: "'a \<Rightarrow> nat" and avail :: "'a \<Rightarrow> nat set" and wf :: "'a \<Rightarrow> bool"
    and alloc :: "u32 \<Rightarrow> 'a \<Rightarrow> (u32 \<times> 'a) option" and release :: "u32 \<Rightarrow> u32 \<Rightarrow> 'a \<Rightarrow> 'a"
  assumes avail_cap: "wf a \<Longrightarrow> avail a \<subseteq> {..<cap a}"
    and alloc_0: "wf a \<Longrightarrow> alloc 0 a = Some (off, a') \<Longrightarrow> a' = a"
    and alloc_Some: "\<lbrakk>wf a; 0 < n; alloc n a = Some (off, a')\<rbrakk> \<Longrightarrow>
      wf a' \<and> cap a' = cap a \<and> block off n \<subseteq> avail a \<and> avail a' = avail a - block off n"
    and alloc_None: "\<lbrakk>wf a; 0 < n\<rbrakk> \<Longrightarrow> alloc n a = None \<longleftrightarrow> (\<nexists>s. {s ..< s + unat n} \<subseteq> avail a)"
    and release_ok: "\<lbrakk>wf a; 0 < n; block off n \<subseteq> {..<cap a}; block off n \<inter> avail a = {}\<rbrakk> \<Longrightarrow>
      wf (release off n a) \<and> cap (release off n a) = cap a \<and> avail (release off n a) = avail a \<union> block off n"
    and exact: "\<lbrakk>wf a; wf b; cap a = cap b; avail a = avail b\<rbrakk> \<Longrightarrow> a = b"
begin

lemma alloc_wf: "wf a \<Longrightarrow> alloc n a = Some (off, a') \<Longrightarrow> wf a' \<and> cap a' = cap a"
  using alloc_0 alloc_Some [of a n] by (cases "n = 0") (auto simp: word_gt_0)

lemma alloc_release:
  assumes "wf a" "0 < n" "alloc n a = Some (off, a')"
  shows "release off n a' = a"
proof (rule exact)
  have a': "wf a'" "cap a' = cap a" "block off n \<subseteq> avail a" "avail a' = avail a - block off n"
    using alloc_Some [OF assms] by auto
  have "block off n \<subseteq> {..<cap a'}" using a'(2,3) avail_cap [OF assms(1)] by auto
  then have "wf (release off n a') \<and> cap (release off n a') = cap a' \<and> avail (release off n a') = avail a' \<union> block off n"
    using a'(1,4) assms(2) by (intro release_ok) auto
  then show "wf (release off n a')" "cap (release off n a') = cap a" "avail (release off n a') = avail a"
    using a' by auto
qed (rule assms(1))

lemma alloc_ledger:
  assumes "wf a" "ledger U (avail a) m" "m k = None" "alloc n a = Some (off, a')"
  shows "ledger U (avail a') (m(k \<mapsto> (off, n)))"
proof (cases "n = 0")
  case True
  then have "a' = a" using alloc_0 assms(1,4) by simp
  then show ?thesis using ledger_insert [OF assms(2,3), of off 0] True by simp
next
  case False
  then have "block off n \<subseteq> avail a" "avail a' = avail a - block off n"
    using alloc_Some [OF assms(1) _ assms(4)] by (simp_all add: word_gt_0)
  then show ?thesis using ledger_insert [OF assms(2,3)] by simp
qed

lemma release_ledger:
  assumes "wf a" "U \<subseteq> {..<cap a}" "ledger U (avail a) m" "m k = Some (off, n)" "0 < n"
  shows "wf (release off n a)" "cap (release off n a) = cap a" "ledger U (avail (release off n a)) (m(k := None))"
proof -
  note b = ledgerD(1,2) [OF assms(3,4)]
  have r: "wf (release off n a) \<and> cap (release off n a) = cap a \<and> avail (release off n a) = avail a \<union> block off n"
    using assms(1,2,5) b by (intro release_ok) auto
  then show "wf (release off n a)" "cap (release off n a) = cap a" by auto
  show "ledger U (avail (release off n a)) (m(k := None))"
    using ledger_remove(1) [OF assms(3,4)] r by simp
qed

end

lemma Alloc_SomeE:
  assumes "Alloc n a = Some (off, a')"
  obtains rs where "Alloc_ranges n (sa_free a) = Some (off, rs)" "a' = a\<lparr>sa_free := rs\<rparr>"
  using assms by (auto simp: Alloc_def split: option.splits)

lemma Alloc_0:
  assumes "Slot_wf a" "Alloc 0 a = Some (off, a')"
  shows "a' = a"
  using assms(2)
proof (rule Alloc_SomeE)
  fix rs assume "Alloc_ranges 0 (sa_free a) = Some (off, rs)" "a' = a\<lparr>sa_free := rs\<rparr>"
  then show ?thesis using assms(1) by (cases "sa_free a") (auto simp: Slot_wf_def range_in_def split: if_splits)
qed

lemma Alloc_correct:
  assumes "Slot_wf a" "0 < n" "Alloc n a = Some (off, a')"
  shows "Slot_wf a' \<and> unat (sa_maxSlots a') = unat (sa_maxSlots a) \<and> block off n \<subseteq> free_slots a \<and>
    free_slots a' = free_slots a - block off n"
  using assms(3)
proof (rule Alloc_SomeE)
  fix rs assume rs: "Alloc_ranges n (sa_free a) = Some (off, rs)" "a' = a\<lparr>sa_free := rs\<rparr>"
  have "canonical (sa_free a)" "list_all (range_in (unat (sa_maxSlots a))) (sa_free a)"
    using assms(1) by (simp_all add: Slot_wf_def)
  from Alloc_ranges_Some [OF this unat_u32 assms(2) rs(1)] show ?thesis
    unfolding rs(2) Slot_wf_def free_slots_def by simp
qed

lemma Alloc_fails:
  assumes "Slot_wf a" "0 < n"
  shows "Alloc n a = None \<longleftrightarrow> (\<nexists>s. {s ..< s + unat n} \<subseteq> free_slots a)"
proof
  assume "Alloc n a = None"
  then have small: "\<forall>r \<in> set (sa_free a). unat (sr_count r) < unat n"
    by (auto simp: Alloc_def Alloc_ranges_None word_less_nat_alt split: option.splits)
  show "\<nexists>s. {s ..< s + unat n} \<subseteq> free_slots a"
  proof
    assume "\<exists>s. {s ..< s + unat n} \<subseteq> free_slots a"
    then obtain s where "{s ..< s + unat n} \<subseteq> slots_of (sa_free a)" unfolding free_slots_def by blast
    moreover have "canonical (sa_free a)" "0 < unat n" using assms by (simp_all add: Slot_wf_def word_gt_0 unat_gt_0)
    ultimately obtain r where r: "r \<in> set (sa_free a)" "{s ..< s + unat n} \<subseteq> sr_slots r"
      using block_in_one_range by blast
    have "card {s ..< s + unat n} \<le> card (sr_slots r)" by (rule card_mono [OF _ r(2)]) (simp add: sr_slots_def block_def)
    then show False using small r(1) by (fastforce simp: sr_slots_def block_def)
  qed
next
  assume no: "\<nexists>s. {s ..< s + unat n} \<subseteq> free_slots a"
  have "block off n \<subseteq> free_slots a" if "Alloc n a = Some (off, a')" for off a' using Alloc_correct [OF assms that] by blast
  then show "Alloc n a = None" using no by (cases "Alloc n a") (force simp: block_def)+
qed

lemma free_slots_cap: "Slot_wf a \<Longrightarrow> free_slots a \<subseteq> {..<unat (sa_maxSlots a)}"
  unfolding Slot_wf_def free_slots_def by (intro slots_of_bounded) simp

lemma block_bounded: "block off n \<subseteq> {..<c} \<Longrightarrow> 0 < n \<Longrightarrow> unat off + unat n \<le> c"
proof -
  assume b: "block off n \<subseteq> {..<c}" "0 < n"
  then have "unat off + (unat n - 1) \<in> block off n" by (simp add: block_def word_gt_0 unat_gt_0)
  with b show ?thesis by auto
qed

interpretation sp: slot_pool "\<lambda>a. unat (sa_maxSlots a)" free_slots Slot_wf Alloc Free
proof unfold_locales
  fix a :: SlotAllocator and off n :: u32
  assume a: "Slot_wf a" "0 < n" "block off n \<subseteq> {..<unat (sa_maxSlots a)}" "block off n \<inter> free_slots a = {}"
  from Free_correct [OF a(1,2) block_bounded [OF a(3,2)] a(4)]
  show "Slot_wf (Free off n a) \<and> unat (sa_maxSlots (Free off n a)) = unat (sa_maxSlots a) \<and>
      free_slots (Free off n a) = free_slots a \<union> block off n"
    by (simp add: Free_def)
next
  fix a b :: SlotAllocator
  assume "Slot_wf a" "Slot_wf b" "unat (sa_maxSlots a) = unat (sa_maxSlots b)" "free_slots a = free_slots b"
  then show "a = b" by (intro Slot_wf_unique) (simp_all add: word_unat_eq_iff)
qed (rule free_slots_cap Alloc_0 Alloc_correct Alloc_fails; assumption)+

lemma NewSlotAllocator_wf:
  assumes "0 < m"
  shows "Slot_wf (NewSlotAllocator m)" "free_slots (NewSlotAllocator m) = {..<unat m}" "sa_maxSlots (NewSlotAllocator m) = m"
  using assms by (auto simp: Slot_wf_def NewSlotAllocator_def canonical_def range_in_def sr_end_def free_slots_def mem_sr_slots)

section \<open>Properties\<close>

text \<open>
  (C10) \<open>Alloc\<close> and \<open>Free\<close> of the backend slot allocator: \<open>Alloc\<close> fails exactly when no contiguous run of
  that many free slots exists, otherwise it takes a run of free slots, keeps the free list sorted and
  merged, and freeing the run gives back exactly the allocator there was.
\<close>

theorem slot_alloc_free:
  assumes "Slot_wf a" "0 < n"
  shows "case Alloc n a of
      None \<Rightarrow> \<nexists>s. {s ..< s + unat n} \<subseteq> free_slots a
    | Some (off, a') \<Rightarrow> {unat off ..< unat off + unat n} \<subseteq> free_slots a \<and> Slot_wf a' \<and>
        free_slots a' = free_slots a - {unat off ..< unat off + unat n} \<and> Free off n a' = a"
proof (cases "Alloc n a")
  case None
  with sp.alloc_None [OF assms] show ?thesis by simp
next
  case (Some p)
  then obtain off a' where p: "Alloc n a = Some (off, a')" by (cases p) simp
  from sp.alloc_Some [OF assms p] sp.alloc_release [OF assms p] p show ?thesis by (simp add: block_def)
qed

theorem slot_alloc_free_witness:
  "Slot_wf (NewSlotAllocator 64) \<and>
   Alloc 8 (NewSlotAllocator 64) = Some (0, \<lparr>sa_maxSlots = 64, sa_free = [\<lparr>sr_offset = 8, sr_count = 56\<rparr>]\<rparr>) \<and>
   Free 0 8 \<lparr>sa_maxSlots = 64, sa_free = [\<lparr>sr_offset = 8, sr_count = 56\<rparr>]\<rparr> = NewSlotAllocator 64"
proof -
  have al: "Alloc 8 (NewSlotAllocator 64) = Some (0, \<lparr>sa_maxSlots = 64, sa_free = [\<lparr>sr_offset = 8, sr_count = 56\<rparr>]\<rparr>)"
    by (simp add: Alloc_def NewSlotAllocator_def)
  have wf: "Slot_wf (NewSlotAllocator 64)" by (rule NewSlotAllocator_wf) simp
  from slot_alloc_free [OF wf, of 8] al wf show ?thesis by simp
qed

end
