(* ===== verification/Maglev.thy ===== *)
theory Maglev
  imports Prelude
begin

text \<open>
  The Maglev consistent hash table (\<open>internal/service/maglev.go\<close>).

  \<open>GenerateMaglevTable\<close> walks, for each backend in turn, that backend's permutation of the table until it
  meets an empty entry. The walk wraps around at \<open>uint32\<close> width and ends only if the stride visits an empty
  entry, so both loops are partial functions; the properties show that they end for the table size
  the program uses, fill every entry, and share the entries out evenly.
\<close>

section \<open>Model\<close>

text \<open>The sentinel \<open>^uint32(0)\<close> of an entry that no backend has taken.\<close>

definition empty_entry :: u32 where
  "empty_entry = NOT 0"

definition MaglevTableSize :: int where
  "MaglevTableSize = 65537"

text \<open>The innermost loop: step through the table until an empty entry is met; an index out of range is a
  panic, which is \<^const>\<open>None\<close> as well as not returning at all.\<close>

partial_function (option) find_pos :: "u32 list \<Rightarrow> u32 \<Rightarrow> u32 \<Rightarrow> u32 \<Rightarrow> u32 option" where
  "find_pos table pos skip ts32 =
     (if unat pos < length table then
        if table ! unat pos \<noteq> empty_entry then find_pos table ((pos + skip) mod ts32) skip ts32
        else Some pos
      else None)"

text \<open>One pass \<open>for i := range n\<close> over the backends, left by \<open>break\<close> once the table is full.\<close>

fun fill_round ::
  "nat \<Rightarrow> u32 \<Rightarrow> u32 list \<Rightarrow> nat list \<Rightarrow> u32 list \<times> u32 list \<times> nat \<Rightarrow> (u32 list \<times> u32 list \<times> nat) option" where
  "fill_round tableSize ts32 skips [] st = Some st"
| "fill_round tableSize ts32 skips (i # is) (table, nxt, filled) =
     (case find_pos table (nxt ! i) (skips ! i) ts32 of
        None \<Rightarrow> None
      | Some pos \<Rightarrow>
          let table' = table[unat pos := of_nat i];
              nxt' = nxt[i := (pos + skips ! i) mod ts32];
              filled' = Suc filled
          in if tableSize \<le> filled' then Some (table', nxt', filled')
             else fill_round tableSize ts32 skips is (table', nxt', filled'))"

partial_function (option) fill_loop ::
  "nat \<Rightarrow> u32 \<Rightarrow> u32 list \<Rightarrow> nat \<Rightarrow> u32 list \<times> u32 list \<times> nat \<Rightarrow> u32 list option" where
  "fill_loop tableSize ts32 skips n st =
     (case st of (table, nxt, filled) \<Rightarrow>
        if filled < tableSize then
          (case fill_round tableSize ts32 skips [0..<n] st of
             None \<Rightarrow> None
           | Some st' \<Rightarrow> fill_loop tableSize ts32 skips n st')
        else Some table)"

definition backend_offset :: "u64 \<Rightarrow> string \<Rightarrow> u32" where
  "backend_offset ts64 b = ucast (fnv64a b mod ts64)"

definition backend_skip :: "u64 \<Rightarrow> string \<Rightarrow> u32" where
  "backend_skip ts64 b = ucast (drop_bit 32 (fnv64a b) mod (ts64 - 1)) + 1"

text \<open>\<open>GenerateMaglevTable\<close>. A negative length given to \<open>make\<close> and the remainder by zero for a table of size
  one are panics.\<close>

definition GenerateMaglevTable :: "string list \<Rightarrow> int \<Rightarrow> u32 list option" where
  "GenerateMaglevTable backends tableSize =
     (if backends = [] then (if tableSize < 0 then None else Some (replicate (nat tableSize) 0))
      else if tableSize \<le> 0 \<or> 2 ^ 32 - 1 < tableSize then Some []
      else if tableSize = 1 then None
      else
        let n = length backends;
            ts64 = of_int tableSize :: u64;
            ts32 = of_int tableSize :: u32;
            offsets = map (backend_offset ts64) backends;
            skips = map (backend_skip ts64) backends;
            table = replicate (nat tableSize) empty_entry
        in fill_loop (nat tableSize) ts32 skips n (table, offsets, 0))"

section \<open>Walking the table\<close>

text \<open>Table sizes for which every stride visits every entry.\<close>

definition good_size :: "nat \<Rightarrow> bool" where
  "good_size T \<longleftrightarrow> 2 \<le> T \<and> T < 2 ^ 31 \<and> (\<forall>s. 0 < s \<longrightarrow> s < T \<longrightarrow> coprime s T)"

lemma unat_step:
  assumes "unat pos < T" "unat skip < T" "T < 2 ^ 31"
  shows "unat ((pos + skip) mod of_nat T :: u32) = (unat pos + unat skip) mod T"
proof -
  have "unat pos + unat skip < 2 ^ LENGTH(32)" using assms by simp
  then have "unat (pos + skip) = unat pos + unat skip" by (simp add: unat_word_ariths take_bit_eq_mod)
  moreover have "unat (of_nat T :: u32) = T" using assms(3) by (simp add: unat_of_nat take_bit_eq_mod)
  ultimately show ?thesis by (simp add: unat_mod_distrib)
qed

lemma find_pos_iter:
  assumes "length table = T" "T < 2 ^ 31" "unat pos < T" "unat skip < T"
    and "\<And>j. j < k \<Longrightarrow> table ! ((unat pos + j * unat skip) mod T) \<noteq> empty_entry"
    and "table ! ((unat pos + k * unat skip) mod T) = empty_entry"
  shows "find_pos table pos skip (of_nat T) = Some (of_nat ((unat pos + k * unat skip) mod T))"
  using assms(3,5,6)
proof (induction k arbitrary: pos)
  case 0
  then show ?case using assms(1) by (subst find_pos.simps) simp
next
  case (Suc k)
  let ?p = "(pos + skip) mod of_nat T"
  have p: "unat ?p = (unat pos + unat skip) mod T" by (rule unat_step [OF Suc.prems(1) assms(4,2)])
  have sh: "(unat ?p + j * unat skip) mod T = (unat pos + Suc j * unat skip) mod T" for j
    by (simp add: p mod_add_left_eq add.assoc [symmetric])
  have "table ! unat pos \<noteq> empty_entry" using Suc.prems(2) [of 0] Suc.prems(1) by simp
  then have "find_pos table pos skip (of_nat T) = find_pos table ?p skip (of_nat T)"
    using Suc.prems(1) assms(1) by (subst find_pos.simps) simp
  also have "\<dots> = Some (of_nat ((unat ?p + k * unat skip) mod T))"
  proof (rule Suc.IH)
    show "unat ?p < T" unfolding p using Suc.prems(1) by (intro mod_less_divisor) simp
    show "table ! ((unat ?p + j * unat skip) mod T) \<noteq> empty_entry" if "j < k" for j
      unfolding sh by (rule Suc.prems(2)) (simp add: that)
    show "table ! ((unat ?p + k * unat skip) mod T) = empty_entry" unfolding sh by (rule Suc.prems(3))
  qed
  finally show ?case unfolding sh .
qed

text \<open>A stride that is coprime to the table size reaches every entry.\<close>

lemma stride_onto:
  fixes s T e p :: nat
  assumes "coprime s T" "0 < T" "e < T"
  shows "\<exists>k < T. (p + k * s) mod T = e"
proof -
  have ne: "(p + x * s) mod T \<noteq> (p + y * s) mod T" if xy: "x < y" "y < T" for x y
  proof
    assume eq: "(p + x * s) mod T = (p + y * s) mod T"
    have le: "p + x * s \<le> p + y * s" using xy(1) by simp
    have "(p + y * s) mod T = (p + x * s) mod T" by (rule eq [symmetric])
    then have "T dvd (p + y * s) - (p + x * s)" using mod_eq_dvd_iff_nat [OF le] by blast
    moreover have "(p + y * s) - (p + x * s) = (y - x) * s" by (simp add: diff_mult_distrib)
    ultimately have "T dvd (y - x) * s" by simp
    then have "T dvd y - x" using assms(1) coprime_dvd_mult_left_iff [of T s "y - x"] by (simp add: coprime_commute)
    then show False using xy by (auto dest: dvd_imp_le)
  qed
  have "inj_on (\<lambda>k. (p + k * s) mod T) {..<T}"
    unfolding inj_on_def using ne by (metis lessThan_iff linorder_neqE_nat)
  then have "(\<lambda>k. (p + k * s) mod T) ` {..<T} = {..<T}"
    using assms(2) by (intro endo_inj_surj) auto
  then have "e \<in> (\<lambda>k. (p + k * s) mod T) ` {..<T}" using assms(3) by (simp only: lessThan_iff)
  then show ?thesis by blast
qed

lemma find_pos_Some:
  assumes "good_size T" "length table = T" "unat pos < T" "0 < unat skip" "unat skip < T" "empty_entry \<in> set table"
  shows "\<exists>q. find_pos table pos skip (of_nat T) = Some q \<and> unat q < T \<and> table ! unat q = empty_entry"
proof -
  obtain e where e: "e < T" "table ! e = empty_entry" using assms(2,6) by (auto simp: in_set_conv_nth)
  have T: "0 < T" "T < 2 ^ 31" "coprime (unat skip) T" using assms(1,4,5) by (auto simp: good_size_def)
  let ?P = "\<lambda>k. table ! ((unat pos + k * unat skip) mod T) = empty_entry"
  obtain k0 where "?P k0" using stride_onto [OF T(3,1) e(1), of "unat pos"] e(2) by auto
  then have k: "?P (LEAST k. ?P k)" by (rule LeastI)
  let ?q = "(unat pos + (LEAST k. ?P k) * unat skip) mod T"
  have "find_pos table pos skip (of_nat T) = Some (of_nat ?q)"
    by (rule find_pos_iter [OF assms(2) T(2) assms(3,5) _ k]) (rule not_less_Least)
  moreover have "?q < T" by (rule mod_less_divisor [OF T(1)])
  moreover from this T(2) have "unat (of_nat ?q :: u32) = ?q" by (simp add: unat_of_nat take_bit_eq_mod)
  ultimately show ?thesis using k by auto
qed

section \<open>Filling the table\<close>

text \<open>How many of the first \<open>filled\<close> turns went to backend \<open>i\<close>.\<close>

definition turns :: "nat \<Rightarrow> nat \<Rightarrow> nat \<Rightarrow> nat" where
  "turns n filled i = filled div n + (if i < filled mod n then 1 else 0)"

definition fill_inv :: "nat \<Rightarrow> nat \<Rightarrow> u32 list \<times> u32 list \<times> nat \<Rightarrow> bool" where
  "fill_inv T n st = (case st of (table, nxt, filled) \<Rightarrow>
     length table = T \<and> length nxt = n \<and> (\<forall>i < n. unat (nxt ! i) < T) \<and> filled \<le> T \<and>
     count_list table empty_entry = T - filled \<and>
     (\<forall>i < n. count_list table (of_nat i) = turns n filled i) \<and>
     set table \<subseteq> insert empty_entry (of_nat ` {..<n}))"

definition good_skips :: "nat \<Rightarrow> nat \<Rightarrow> u32 list \<Rightarrow> bool" where
  "good_skips T n skips \<longleftrightarrow> length skips = n \<and> (\<forall>i < n. 0 < unat (skips ! i) \<and> unat (skips ! i) < T)"

lemma count_list_update:
  "k < length xs \<Longrightarrow> xs ! k \<noteq> v \<Longrightarrow>
   count_list (xs[k := v]) x = (if x = v then Suc (count_list xs x) else if x = xs ! k then count_list xs x - 1 else count_list xs x)"
proof (induction xs arbitrary: k)
  case (Cons y ys)
  show ?case
  proof (cases k)
    case (Suc j)
    with Cons.prems have j: "j < length ys" "ys ! j \<noteq> v" by simp_all
    have "count_list ys (ys ! j) \<noteq> 0" using nth_mem [OF j(1)] count_list_0_iff by metis
    then obtain c where "count_list ys (ys ! j) = Suc c" by (cases "count_list ys (ys ! j)") auto
    with Cons.IH [OF j] j Suc show ?thesis by (cases "x = v"; cases "x = ys ! j"; cases "x = y") simp_all
  qed (use Cons.prems in auto)
qed simp

lemma backend_entry_inj:
  assumes "i < n" "n < 2 ^ 32 - 1"
  shows "of_nat i \<noteq> empty_entry" and "j < n \<Longrightarrow> (of_nat i :: u32) = of_nat j \<longleftrightarrow> i = j"
proof -
  have u: "unat (of_nat j :: u32) = j" if "j < n" for j using that assms(2) by (simp add: unat_of_nat take_bit_eq_mod)
  have "unat empty_entry = 2 ^ 32 - 1" by (simp add: empty_entry_def unsigned_minus_1_eq_mask mask_eq_exp_minus_1)
  then show "of_nat i \<noteq> empty_entry" using u [OF assms(1)] assms by (metis less_irrefl less_trans)
  show "(of_nat i :: u32) = of_nat j \<longleftrightarrow> i = j" if "j < n" using u assms(1) that by metis
qed

lemma turns_Suc:
  assumes "0 < n" "i < n"
  shows "turns n (Suc filled) i = (if i = filled mod n then Suc (turns n filled i) else turns n filled i)"
  using assms mod_less_divisor [of n filled] by (auto simp: turns_def div_Suc mod_Suc)

lemma fill_turn:
  assumes T: "good_size T" and n: "0 < n" "n < 2 ^ 32 - 1" and sk: "good_skips T n skips"
    and inv: "fill_inv T n (table, nxt, filled)" and i: "i < n" "i = filled mod n" and more: "filled < T"
  obtains pos where "find_pos table (nxt ! i) (skips ! i) (of_nat T) = Some pos"
    and "fill_inv T n (table[unat pos := of_nat i], nxt[i := (pos + skips ! i) mod of_nat T], Suc filled)"
proof -
  have len: "length table = T" "length nxt = n" "unat (nxt ! i) < T"
    and cnt: "count_list table empty_entry = T - filled" "\<And>j. j < n \<Longrightarrow> count_list table (of_nat j) = turns n filled j"
    and sub: "set table \<subseteq> insert empty_entry (of_nat ` {..<n})"
    and nx: "\<And>j. j < n \<Longrightarrow> unat (nxt ! j) < T"
    using inv i(1) by (simp_all add: fill_inv_def)
  have s: "0 < unat (skips ! i)" "unat (skips ! i) < T" using sk i(1) by (simp_all add: good_skips_def)
  have "empty_entry \<in> set table" using cnt(1) more by (metis count_notin diff_is_0_eq not_le)
  from find_pos_Some [OF T len(1,3) s this] obtain pos
    where pos: "find_pos table (nxt ! i) (skips ! i) (of_nat T) = Some pos" "unat pos < T" "table ! unat pos = empty_entry" by blast
  note ne = backend_entry_inj [OF i(1) n(2)]
  have upd: "count_list (table[unat pos := of_nat i]) x =
      (if x = of_nat i then Suc (count_list table x) else if x = empty_entry then count_list table x - 1 else count_list table x)" for x
    using count_list_update [of "unat pos" table "of_nat i" x] pos(2,3) len(1) ne(1) by simp
  have "fill_inv T n (table[unat pos := of_nat i], nxt[i := (pos + skips ! i) mod of_nat T], Suc filled)"
    unfolding fill_inv_def prod.case
  proof (intro conjI allI impI)
    show "length (table[unat pos := of_nat i]) = T" "length (nxt[i := (pos + skips ! i) mod of_nat T]) = n" "Suc filled \<le> T"
      using len more by simp_all
    show "count_list (table[unat pos := of_nat i]) empty_entry = T - Suc filled"
      unfolding upd using ne(1) cnt(1) by simp
    show "set (table[unat pos := of_nat i]) \<subseteq> insert empty_entry (of_nat ` {..<n})"
      using set_update_subset_insert [of table "unat pos" "of_nat i"] sub i(1) by blast
    fix j assume j: "j < n"
    show "count_list (table[unat pos := of_nat i]) (of_nat j) = turns n (Suc filled) j"
      unfolding upd turns_Suc [OF n(1) j] using cnt(2) [OF j] ne(2) [OF j] backend_entry_inj(1) [OF j n(2)] i(2) by auto
    show "unat (nxt[i := (pos + skips ! i) mod of_nat T] ! j) < T"
    proof (cases "j = i")
      case True
      then show ?thesis using len(2) i(1) unat_step [OF pos(2) s(2)] T by (simp add: good_size_def)
    qed (use nx j in simp)
  qed
  with pos(1) show thesis by (rule that)
qed

lemma fill_round_ok:
  assumes T: "good_size T" and n: "0 < n" "n < 2 ^ 32 - 1" and sk: "good_skips T n skips"
    and "fill_inv T n (table, nxt, filled)" "i \<le> n" "filled mod n = i mod n" "filled < T" "i < n"
  shows "\<exists>st. fill_round T (of_nat T) skips [i..<n] (table, nxt, filled) = Some st \<and> fill_inv T n st \<and>
    filled < snd (snd st) \<and> (snd (snd st) = T \<or> n dvd snd (snd st))"
  using assms(5-)
proof (induction "n - i" arbitrary: i table nxt filled)
  case (Suc k)
  have i: "i = filled mod n" using Suc.prems(3,5) by simp
  obtain pos where pos: "find_pos table (nxt ! i) (skips ! i) (of_nat T) = Some pos"
    and inv: "fill_inv T n (table[unat pos := of_nat i], nxt[i := (pos + skips ! i) mod of_nat T], Suc filled)"
    using fill_turn [OF T n sk Suc.prems(1,5) i Suc.prems(4)] .
  have up: "[i..<n] = i # [Suc i..<n]" using Suc.prems(5) by (rule upt_conv_Cons)
  show ?case
  proof (cases "T \<le> Suc filled")
    case True
    then have "Suc filled = T" using Suc.prems(4) by simp
    then show ?thesis using True pos inv by (simp add: up)
  next
    case False
    show ?thesis
    proof (cases "Suc i < n")
      case True
      have "Suc filled mod n = Suc i mod n" by (metis Suc.prems(3) mod_Suc_eq)
      moreover have "k = n - Suc i" using Suc.hyps(2) by simp
      ultimately obtain st where "fill_round T (of_nat T) skips [Suc i..<n] (table[unat pos := of_nat i], nxt[i := (pos + skips ! i) mod of_nat T], Suc filled) = Some st"
        "fill_inv T n st" "Suc filled < snd (snd st)" "snd (snd st) = T \<or> n dvd snd (snd st)"
        using Suc.hyps(1) [of "Suc i", OF _ inv] True False by auto
      then show ?thesis using False pos by (simp add: up Suc_lessD)
    next
      case last: False
      then have "n dvd Suc filled" using i Suc.prems(5) by (metis Suc_lessI mod_Suc dvd_eq_mod_eq_0)
      then show ?thesis using False pos inv last by (simp add: up)
    qed
  qed
qed simp

lemma fill_loop_ok:
  assumes T: "good_size T" and n: "0 < n" "n < 2 ^ 32 - 1" and sk: "good_skips T n skips"
    and "fill_inv T n (table, nxt, filled)" "filled = T \<or> n dvd filled"
  shows "\<exists>res nx. fill_loop T (of_nat T) skips n (table, nxt, filled) = Some res \<and> fill_inv T n (res, nx, T)"
  using assms(5-)
proof (induction "T - filled" arbitrary: table nxt filled rule: less_induct)
  case less
  show ?case
  proof (cases "filled < T")
    case True
    then have "filled mod n = 0 mod n" using less.prems(2) by auto
    then obtain st where st: "fill_round T (of_nat T) skips [0..<n] (table, nxt, filled) = Some st" "fill_inv T n st"
      "filled < snd (snd st)" "snd (snd st) = T \<or> n dvd snd (snd st)"
      using fill_round_ok [OF T n sk less.prems(1) _ _ True n(1)] by auto
    obtain t1 n1 f1 where d: "st = (t1, n1, f1)" by (cases st) auto
    have "T - f1 < T - filled" using st(3) True d by simp
    then have "\<exists>res nx. fill_loop T (of_nat T) skips n (t1, n1, f1) = Some res \<and> fill_inv T n (res, nx, T)"
      using less.hyps [of f1 t1 n1] st d by simp
    moreover have "fill_loop T (of_nat T) skips n (table, nxt, filled) = fill_loop T (of_nat T) skips n (t1, n1, f1)"
      using st(1) True d by (subst fill_loop.simps) simp
    ultimately show ?thesis by simp
  next
    case False
    then have "filled = T" using less.prems(1) by (simp add: fill_inv_def)
    then show ?thesis using less.prems(1) by (intro exI [of _ table] exI [of _ nxt]) (simp add: fill_loop.simps)
  qed
qed

section \<open>Whole tables\<close>

lemma unat_u64_of_nat: "T < 2 ^ 31 \<Longrightarrow> unat (of_nat T :: u64) = T"
  by (simp add: unat_of_nat take_bit_eq_mod)

lemma unat_ucast32: "unat (w :: u64) < 2 ^ 32 \<Longrightarrow> unat (ucast w :: u32) = unat w"
  by (simp add: unsigned_ucast_eq take_bit_eq_mod)

lemma backend_offset_bound:
  assumes "0 < T" "T < 2 ^ 31"
  shows "unat (backend_offset (of_nat T) b) < T"
proof -
  have "unat (fnv64a b mod of_nat T) < T" using assms by (simp add: unat_mod_distrib unat_u64_of_nat)
  then show ?thesis using assms by (simp add: backend_offset_def unat_ucast32)
qed

lemma backend_skip_bound:
  assumes "2 \<le> T" "T < 2 ^ 31"
  shows "0 < unat (backend_skip (of_nat T) b)" "unat (backend_skip (of_nat T) b) < T"
proof -
  define w where "w = drop_bit 32 (fnv64a b) mod (of_nat T - 1)"
  have "of_nat T - 1 = (of_nat (T - 1) :: u64)" using assms(1) by (simp add: of_nat_diff)
  moreover have "unat (of_nat (T - 1) :: u64) = T - 1" using assms(2) by (intro unat_u64_of_nat) simp
  ultimately have "unat w = unat (drop_bit 32 (fnv64a b)) mod (T - 1)" by (simp only: w_def unat_mod_distrib)
  then have "unat w < T - 1" using assms(1) by (simp only:) (rule mod_less_divisor, simp)
  moreover have s: "backend_skip (of_nat T) b = ucast w + 1" by (simp add: backend_skip_def w_def)
  moreover from calculation(1) assms have "unat (ucast w :: u32) = unat w" by (simp add: unat_ucast32)
  ultimately have "unat (backend_skip (of_nat T) b) = Suc (unat w)" using assms
    by (simp add: unat_word_ariths take_bit_eq_mod)
  then show "0 < unat (backend_skip (of_nat T) b)" "unat (backend_skip (of_nat T) b) < T" using \<open>unat w < T - 1\<close> by simp_all
qed

lemma count_list_replicate_other: "count_list (replicate k x) y = (if x = y then k else 0)"
  by (induction k) auto

lemma GenerateMaglevTable_ok:
  assumes T: "good_size T" and n: "bs \<noteq> []" "length bs < 2 ^ 32 - 1"
  shows "\<exists>table. GenerateMaglevTable bs (int T) = Some table \<and> length table = T \<and>
    set table \<subseteq> of_nat ` {..<length bs} \<and> (\<forall>i < length bs. count_list table (of_nat i) = turns (length bs) T i)"
proof -
  let ?n = "length bs" and ?sk = "map (backend_skip (of_nat T)) bs" and ?off = "map (backend_offset (of_nat T)) bs"
  have Tb: "2 \<le> T" "T < 2 ^ 31" using T by (simp_all add: good_size_def)
  have np: "0 < ?n" using n(1) by simp
  have sk: "good_skips T ?n ?sk" using backend_skip_bound [OF Tb] by (simp add: good_skips_def)
  have "count_list (replicate T empty_entry) (of_nat i) = turns ?n 0 i" if "i < ?n" for i
    using backend_entry_inj(1) [OF that n(2)] by (simp add: count_list_replicate_other turns_def)
  then have inv: "fill_inv T ?n (replicate T empty_entry, ?off, 0)"
    using backend_offset_bound [of T] Tb by (auto simp: fill_inv_def count_list_replicate_other)
  obtain res nx where r: "fill_loop T (of_nat T) ?sk ?n (replicate T empty_entry, ?off, 0) = Some res" "fill_inv T ?n (res, nx, T)"
    using fill_loop_ok [OF T np n(2) sk inv] by auto
  have "empty_entry \<notin> set res" using r(2) count_list_0_iff [of res empty_entry] by (simp add: fill_inv_def)
  then have "set res \<subseteq> of_nat ` {..<?n}" using r(2) by (auto simp: fill_inv_def)
  moreover have "GenerateMaglevTable bs (int T) = Some res"
    using n(1) Tb r(1) by (simp add: GenerateMaglevTable_def)
  ultimately show ?thesis using r(2) by (auto simp: fill_inv_def)
qed

text \<open>The table size of the program is prime.\<close>

lemma small_divisors: "list_all (\<lambda>d. 65537 mod d \<noteq> (0 :: nat)) [2..<257]"
  by simp

lemma divisors_65537:
  assumes "d dvd (65537 :: nat)" "d < 65537"
  shows "d = 1"
proof (rule ccontr)
  assume "d \<noteq> 1"
  have no: "\<not> e dvd 65537" if "2 \<le> e" "e < 257" for e :: nat
  proof -
    have "e \<in> set [2..<257]" unfolding set_upt atLeastLessThan_iff using that by blast
    with small_divisors have "65537 mod e \<noteq> 0" unfolding list_all_iff by (rule bspec)
    then show ?thesis unfolding dvd_eq_mod_eq_0 .
  qed
  obtain e where e: "65537 = d * e" using assms(1) by (rule dvdE)
  have "d \<noteq> 0" "e \<noteq> 0" "e \<noteq> 1" using e assms(2) by (auto intro!: Nat.gr0I)
  moreover have "e dvd 65537" unfolding e by (rule dvd_triv_right)
  ultimately have "2 \<le> d" "2 \<le> e" using \<open>d \<noteq> 1\<close> by simp_all
  then have "257 \<le> d" "257 \<le> e" using no [of d] no [of e] assms(1) \<open>e dvd 65537\<close> not_less by blast+
  then have "257 * 257 \<le> d * e" by (rule mult_le_mono)
  with e show False by simp
qed

lemma good_size_65537: "good_size 65537"
  unfolding good_size_def
proof (intro conjI allI impI)
  fix s :: nat assume s: "0 < s" "s < 65537"
  have "gcd s 65537 \<le> s" using s(1) by (simp add: gcd_le1_nat)
  then have "gcd s 65537 = 1" using s(2) by (intro divisors_65537) auto
  then show "coprime s 65537" by (simp add: coprime_iff_gcd_eq_1)
qed simp_all

section \<open>Properties\<close>

text \<open>
  (C16) For any non-empty list of backends, \<open>GenerateMaglevTable\<close> with the table size of the program returns: no
  walk runs forever and nothing panics. Every entry is the index of a backend, and the entries are
  shared out evenly: each backend has the rounded-down or the rounded-up share.
\<close>

theorem maglev_total_balanced:
  assumes "bs \<noteq> []" "length bs < 2 ^ 32 - 1"
  shows "\<exists>table. GenerateMaglevTable bs MaglevTableSize = Some table \<and> length table = 65537 \<and>
    (\<forall>e \<in> set table. unat e < length bs) \<and>
    (\<forall>i < length bs. count_list table (of_nat i) \<in> {65537 div length bs, 65537 div length bs + 1})"
proof -
  obtain table where t: "GenerateMaglevTable bs (int 65537) = Some table" "length table = 65537"
    "set table \<subseteq> of_nat ` {..<length bs}" "\<forall>i < length bs. count_list table (of_nat i) = turns (length bs) 65537 i"
    using GenerateMaglevTable_ok [OF good_size_65537 assms] by blast
  have "unat e < length bs" if "e \<in> set table" for e
    using t(3) that assms(2) by (auto simp: unat_of_nat take_bit_eq_mod dest!: subsetD)
  moreover have "turns (length bs) 65537 i \<in> {65537 div length bs, 65537 div length bs + 1}" for i
    by (simp add: turns_def)
  ultimately show ?thesis using t(1,2,4) by (auto simp: MaglevTableSize_def)
qed

theorem maglev_total_balanced_witness:
  "\<exists>table. GenerateMaglevTable [''10.0.0.1:80'', ''10.0.0.2:80''] MaglevTableSize = Some table \<and> length table = 65537 \<and>
    (\<forall>e \<in> set table. unat e < 2) \<and> (\<forall>i < 2. count_list table (of_nat i) \<in> {32768, 32769})"
proof -
  let ?bs = "[''10.0.0.1:80'', ''10.0.0.2:80'']"
  have "?bs \<noteq> []" "length ?bs < 2 ^ 32 - 1" and l: "length ?bs = 2" by simp_all
  from maglev_total_balanced [OF this(1,2)] show ?thesis unfolding l by simp
qed

end
