(* ===== verification/Service_Watcher.thy ===== *)
theory Service_Watcher
  imports Service_Slots Maglev GoNet Constants
begin

text \<open>
  The L4 load balancer control loop (\<open>internal/service/watcher.go\<close>): Kubernetes Services and
  EndpointSlices are turned into dataplane calls.

  The state is the watcher's own: the two slot allocators and the bookkeeping per service. The
  informer stores are arguments of the handlers. Each handler returns the new state with the calls
  made to the dataplane in order; their results are only logged by the program. \<^const>\<open>None\<close> is a
  panic or a handler that does not return. \<open>TargetPort.IntValue()\<close> (Kubernetes API machinery) is the
  integer field \<open>sp_TargetPort\<close>, and a nil pointer in a specification is \<^const>\<open>None\<close>.
\<close>

section \<open>Kubernetes objects\<close>

record ServicePort =
  sp_Name :: string
  sp_Protocol :: string
  sp_Port :: int
  sp_TargetPort :: int
  sp_NodePort :: int

record Service =
  svc_Namespace :: string
  svc_Name :: string
  svc_Type :: string
  svc_ClusterIP :: string
  svc_ClusterIPs :: "string list"
  svc_Ports :: "ServicePort list"
  svc_ExternalIPs :: "string list"
  svc_Ingress :: "string list"
  svc_SessionAffinity :: string
  svc_ExternalTrafficPolicy :: string
  svc_InternalTrafficPolicy :: "string option"
  svc_AffinityTimeout :: "int option"

record Endpoint =
  ep_Ready :: "bool option"
  ep_Addresses :: "string list"

record EndpointSlice =
  eps_Namespace :: string
  eps_Labels :: "string \<rightharpoonup> string"
  eps_Endpoints :: "Endpoint list"
  eps_Ports :: "(string option \<times> int option) list"

definition LabelServiceName :: string where
  "LabelServiceName = ''kubernetes.io/service-name''"

section \<open>State and dataplane calls\<close>

record serviceState =
  st_backendOffset :: u32
  st_backendCount :: u32
  st_algorithm :: u32
  st_maglevOffset :: u32
  st_scopes :: "u32 list"
  st_clusterIPs :: "string list"

record Watcher =
  w_allocator :: SlotAllocator
  w_defaultAlg :: string
  w_dsrEnabled :: bool
  w_maglevAllocator :: SlotAllocator
  w_services :: "string \<rightharpoonup> serviceState"

record backendInfo =
  be_ip :: string
  be_nodeIP :: string
  be_port :: int
  be_portName :: string

text \<open>The key of a service entry in the dataplane: address, port, protocol and scope.\<close>

record SvcKey =
  sk_Ip :: string
  sk_Port :: u32
  sk_Protocol :: u32
  sk_Scope :: u32

record SvcEntry =
  se_BackendCount :: u32
  se_BackendOffset :: u32
  se_Algorithm :: u32
  se_Flags :: u32
  se_AffinityTimeout :: u32
  se_MaglevOffset :: u32

record BackendEntry =
  bk_Index :: u32
  bk_Ip :: string
  bk_Port :: u32
  bk_NodeIp :: string

datatype Rpc =
    UpsertService SvcKey SvcEntry
  | DeleteService SvcKey
  | UpsertBackends "BackendEntry list"
  | UpsertMaglevTable u32 "u32 list"

definition NewWatcher :: "SlotAllocator \<Rightarrow> string \<Rightarrow> bool \<Rightarrow> Watcher" where
  "NewWatcher allocator defaultAlg dsr =
     \<lparr>w_allocator = allocator, w_defaultAlg = defaultAlg, w_dsrEnabled = dsr,
      w_maglevAllocator = NewSlotAllocator 1048576, w_services = Map.empty\<rparr>"

section \<open>Helpers\<close>

definition portToU32 :: "int \<Rightarrow> u32" where
  "portToU32 port = (if port < 0 then 0 else of_int port)"

definition intToU32 :: "int \<Rightarrow> u32" where
  "intToU32 n = (if n < 0 then 0 else of_int n)"

definition resolveTargetPort :: "ServicePort \<Rightarrow> backendInfo \<Rightarrow> u32" where
  "resolveTargetPort port be =
     (if be_portName be \<noteq> '''' \<and> be_portName be = sp_Name port then portToU32 (be_port be)
      else if 0 < be_port be \<and> sp_Name port = '''' then portToU32 (be_port be)
      else if 0 < sp_TargetPort port then intToU32 (sp_TargetPort port)
      else portToU32 (sp_Port port))"

definition serviceClusterIPs :: "Service \<Rightarrow> string list" where
  "serviceClusterIPs svc =
     (if 0 < length (svc_ClusterIPs svc) then filter (\<lambda>ip. ip \<noteq> '''' \<and> ip \<noteq> ''None'') (svc_ClusterIPs svc)
      else if svc_ClusterIP svc \<noteq> '''' \<and> svc_ClusterIP svc \<noteq> ''None'' then [svc_ClusterIP svc]
      else [])"

definition resolveAlgorithm :: "Watcher \<Rightarrow> u32" where
  "resolveAlgorithm w =
     (let alg = ToLower (w_defaultAlg w)
      in if alg = ''round-robin'' then AlgRoundRobin
         else if alg = ''maglev'' then AlgMaglev
         else AlgRandom)"

definition computeScopes :: "Service \<Rightarrow> u32 list" where
  "computeScopes svc =
     [ScopeClusterIP]
     @ (if svc_Type svc = ''NodePort'' then [ScopeNodePort]
        else if svc_Type svc = ''LoadBalancer'' then [ScopeNodePort, ScopeLoadBalancer] else [])
     @ (if 0 < length (svc_ExternalIPs svc) then [ScopeExternalIP] else [])"

definition serviceIPForScope :: "string \<Rightarrow> u32 \<Rightarrow> string \<Rightarrow> string" where
  "serviceIPForScope clusterIP scope specificIP =
     (if scope = ScopeClusterIP then clusterIP
      else if scope = ScopeNodePort then ''''
      else if scope = ScopeExternalIP then (if specificIP \<noteq> '''' then specificIP else clusterIP)
      else if scope = ScopeLoadBalancer then (if specificIP \<noteq> '''' then specificIP else clusterIP)
      else clusterIP)"

definition servicePortForScope :: "ServicePort \<Rightarrow> u32 \<Rightarrow> u32" where
  "servicePortForScope port scope =
     (if scope = ScopeNodePort \<and> 0 < sp_NodePort port then portToU32 (sp_NodePort port) else portToU32 (sp_Port port))"

definition computeFlags :: "Watcher \<Rightarrow> Service \<Rightarrow> u32" where
  "computeFlags w svc =
     (if svc_SessionAffinity svc = ''ClientIP'' then 1 else 0)
     OR (if svc_ExternalTrafficPolicy svc = ''Local'' then 2 else 0)
     OR (if w_dsrEnabled w then 4 else 0)
     OR (if svc_InternalTrafficPolicy svc = Some ''Local'' then 8 else 0)"

definition computeAffinityTimeout :: "Service \<Rightarrow> u32" where
  "computeAffinityTimeout svc = (case svc_AffinityTimeout svc of Some t \<Rightarrow> portToU32 t | None \<Rightarrow> 0)"

section \<open>Collecting backends\<close>

definition slice_backend :: "EndpointSlice \<Rightarrow> string \<Rightarrow> backendInfo" where
  "slice_backend eps addr =
     (case eps_Ports eps of
        (name, Some p) # _ \<Rightarrow>
          \<lparr>be_ip = addr, be_nodeIP = '''', be_port = p, be_portName = (case name of Some nm \<Rightarrow> nm | None \<Rightarrow> '''')\<rparr>
      | _ \<Rightarrow> \<lparr>be_ip = addr, be_nodeIP = '''', be_port = 0, be_portName = ''''\<rparr>)"

definition slice_backends :: "EndpointSlice \<Rightarrow> backendInfo list" where
  "slice_backends eps =
     concat (map (\<lambda>ep. if ep_Ready ep = Some False then []
                       else map (slice_backend eps) (filter (\<lambda>addr. ParseIP addr \<noteq> None) (ep_Addresses ep)))
               (eps_Endpoints eps))"

text \<open>\<open>collectBackends\<close>; the store is \<^const>\<open>None\<close> before \<open>Start\<close> has set it.\<close>

definition collectBackends :: "EndpointSlice list option \<Rightarrow> Service \<Rightarrow> backendInfo list" where
  "collectBackends epsStore svc =
     (case epsStore of
        None \<Rightarrow> []
      | Some slices \<Rightarrow>
          concat (map (\<lambda>eps. if eps_Namespace eps = svc_Namespace svc \<and> eps_Labels eps LabelServiceName = Some (svc_Name svc)
                             then slice_backends eps else []) slices))"

section \<open>Dataplane calls\<close>

definition svc_key :: "ServicePort \<Rightarrow> u32 \<Rightarrow> string \<Rightarrow> SvcKey" where
  "svc_key port scope clusterIP =
     \<lparr>sk_Ip = serviceIPForScope clusterIP scope '''', sk_Port = servicePortForScope port scope,
      sk_Protocol = ProtocolToNumber (sp_Protocol port), sk_Scope = scope\<rparr>"

definition ip_key :: "ServicePort \<Rightarrow> u32 \<Rightarrow> string \<Rightarrow> SvcKey" where
  "ip_key port scope ip =
     \<lparr>sk_Ip = ip, sk_Port = portToU32 (sp_Port port), sk_Protocol = ProtocolToNumber (sp_Protocol port), sk_Scope = scope\<rparr>"

definition pushBackends :: "u32 \<Rightarrow> backendInfo list \<Rightarrow> ServicePort list \<Rightarrow> Rpc list" where
  "pushBackends off backends ports =
     (let pbBackends = concat (map (\<lambda>(portIdx, port).
            map (\<lambda>(i, be). \<lparr>bk_Index = off + intToU32 (int (portIdx * length backends + i)), bk_Ip = be_ip be,
                            bk_Port = resolveTargetPort port be, bk_NodeIp = be_nodeIP be\<rparr>)
              (enumerate 0 backends)) (enumerate 0 ports))
      in if 0 < length pbBackends then [UpsertBackends pbBackends] else [])"

definition port_entry :: "Watcher \<Rightarrow> Service \<Rightarrow> u32 \<Rightarrow> backendInfo list \<Rightarrow> u32 \<Rightarrow> u32 \<Rightarrow> nat \<Rightarrow> SvcEntry" where
  "port_entry w svc off backends alg maglevOff portIdx =
     \<lparr>se_BackendCount = intToU32 (int (length backends)),
      se_BackendOffset = off + intToU32 (int (portIdx * length backends)),
      se_Algorithm = alg, se_Flags = computeFlags w svc,
      se_AffinityTimeout = computeAffinityTimeout svc, se_MaglevOffset = maglevOff\<rparr>"

text \<open>The keys of one port, in the order in which \<open>upsertServiceEntries\<close> writes them.\<close>

definition port_keys :: "Service \<Rightarrow> string list \<Rightarrow> u32 list \<Rightarrow> ServicePort \<Rightarrow> SvcKey list" where
  "port_keys svc clusterIPs scopes port =
     concat (map (\<lambda>scope. map (svc_key port scope) clusterIPs) scopes)
     @ map (ip_key port ScopeExternalIP) (svc_ExternalIPs svc)
     @ (if svc_Type svc = ''LoadBalancer''
        then map (ip_key port ScopeLoadBalancer) (filter (\<lambda>ip. ip \<noteq> '''') (svc_Ingress svc)) else [])"

definition upsertServiceEntries ::
  "Watcher \<Rightarrow> Service \<Rightarrow> string list \<Rightarrow> u32 \<Rightarrow> backendInfo list \<Rightarrow> u32 \<Rightarrow> u32 \<Rightarrow> u32 list \<Rightarrow> Rpc list" where
  "upsertServiceEntries w svc clusterIPs off backends alg maglevOff scopes =
     concat (map (\<lambda>(portIdx, port).
         map (\<lambda>k. UpsertService k (port_entry w svc off backends alg maglevOff portIdx)) (port_keys svc clusterIPs scopes port))
       (enumerate 0 (svc_Ports svc)))"

definition deleteClusterEntries :: "Service \<Rightarrow> serviceState \<Rightarrow> u32 \<Rightarrow> Rpc list" where
  "deleteClusterEntries svc st scope =
     concat (map (\<lambda>port. map (\<lambda>ip. DeleteService (svc_key port scope ip)) (st_clusterIPs st)) (svc_Ports svc))"

section \<open>Handlers\<close>

definition free_slots_of :: "serviceState \<Rightarrow> Watcher \<Rightarrow> Watcher" where
  "free_slots_of old w =
     (let w1 = (if 0 < st_backendCount old
                then w\<lparr>w_allocator := Free (st_backendOffset old) (st_backendCount old) (w_allocator w)\<rparr> else w)
      in if st_algorithm old = AlgMaglev \<and> 0 < st_maglevOffset old
         then w1\<lparr>w_maglevAllocator := Free (st_maglevOffset old) (of_int MaglevTableSize) (w_maglevAllocator w1)\<rparr>
         else w1)"

definition freeOldState :: "Service \<Rightarrow> serviceState \<Rightarrow> Watcher \<Rightarrow> Watcher \<times> Rpc list" where
  "freeOldState svc old w =
     (free_slots_of old w, concat (map (deleteClusterEntries svc old) (st_scopes old)))"

definition service_key :: "Service \<Rightarrow> string" where
  "service_key svc = svc_Namespace svc @ ''/'' @ svc_Name svc"

definition deleteServiceLocked :: "Service \<Rightarrow> Watcher \<Rightarrow> Watcher \<times> Rpc list" where
  "deleteServiceLocked svc w =
     (case w_services w (service_key svc) of
        None \<Rightarrow> (w, [])
      | Some state \<Rightarrow>
          let rpcs = concat (map (\<lambda>scope.
                deleteClusterEntries svc state scope
                @ (if scope = ScopeExternalIP
                   then concat (map (\<lambda>ip. map (\<lambda>port. DeleteService (ip_key port ScopeExternalIP ip)) (svc_Ports svc)) (svc_ExternalIPs svc))
                   else [])
                @ (if scope = ScopeLoadBalancer
                   then concat (map (\<lambda>ip. map (\<lambda>port. DeleteService (ip_key port ScopeLoadBalancer ip)) (svc_Ports svc))
                          (filter (\<lambda>ip. ip \<noteq> '''') (svc_Ingress svc)))
                   else [])) (st_scopes state));
              w1 = free_slots_of state w
          in (w1\<lparr>w_services := map_del (w_services w1) (service_key svc)\<rparr>, rpcs))"

text \<open>The Maglev part of \<open>reconcileService\<close>: the algorithm and table offset in effect, and the table sent.\<close>

definition maglev_part ::
  "u32 \<Rightarrow> backendInfo list \<Rightarrow> Service \<Rightarrow> Watcher \<Rightarrow> (u32 \<times> u32 \<times> Rpc list \<times> Watcher) option" where
  "maglev_part alg backends svc w =
     (if alg = AlgMaglev then
        (case Alloc (of_int MaglevTableSize) (w_maglevAllocator w) of
           None \<Rightarrow> Some (AlgRandom, 0, [], w)
         | Some (maglevOff, a) \<Rightarrow>
             (case svc_Ports svc of
                [] \<Rightarrow> None
              | port # _ \<Rightarrow>
                  (case GenerateMaglevTable
                          (map (\<lambda>be. be_ip be @ '':'' @ dec_str (unat (resolveTargetPort port be))) backends) MaglevTableSize of
                     None \<Rightarrow> None
                   | Some table \<Rightarrow> Some (alg, maglevOff, [UpsertMaglevTable maglevOff table], w\<lparr>w_maglevAllocator := a\<rparr>))))
      else Some (alg, 0, [], w))"

definition reconcileService :: "EndpointSlice list option \<Rightarrow> Service \<Rightarrow> Watcher \<Rightarrow> (Watcher \<times> Rpc list) option" where
  "reconcileService epsStore svc w =
     (let key = service_key svc; clusterIPs = serviceClusterIPs svc
      in if clusterIPs = [] then
           Some (if w_services w key \<noteq> None then deleteServiceLocked svc w else (w, []))
         else
           let backends = collectBackends epsStore svc;
               alg = resolveAlgorithm w;
               (w1, freed) = (case w_services w key of Some old \<Rightarrow> freeOldState svc old w | None \<Rightarrow> (w, []))
           in if backends = [] then Some (w1\<lparr>w_services := map_del (w_services w1) key\<rparr>, freed)
              else
                let totalBackends = intToU32 (int (length backends * length (svc_Ports svc)))
                in (case Alloc totalBackends (w_allocator w1) of
                      None \<Rightarrow> Some (w1\<lparr>w_services := map_del (w_services w1) key\<rparr>, freed)
                    | Some (off, a) \<Rightarrow>
                        let w2 = w1\<lparr>w_allocator := a\<rparr>
                        in (case maglev_part alg backends svc w2 of
                              None \<Rightarrow> None
                            | Some (alg', maglevOff, mrpcs, w3) \<Rightarrow>
                                let scopes = computeScopes svc
                                in Some (w3\<lparr>w_services := (w_services w3)(key \<mapsto>
                                       \<lparr>st_backendOffset = off, st_backendCount = totalBackends, st_algorithm = alg',
                                        st_maglevOffset = maglevOff, st_scopes = scopes, st_clusterIPs = clusterIPs\<rparr>)\<rparr>,
                                     freed @ pushBackends off backends (svc_Ports svc) @ mrpcs
                                     @ upsertServiceEntries w3 svc clusterIPs off backends alg' maglevOff scopes))))"

definition deleteService :: "Service \<Rightarrow> Watcher \<Rightarrow> Watcher \<times> Rpc list" where
  "deleteService svc w = deleteServiceLocked svc w"

text \<open>The informer callbacks. An object of another type, or a tombstone around one, is \<^const>\<open>None\<close>.\<close>

definition onServiceChange :: "EndpointSlice list option \<Rightarrow> Service option \<Rightarrow> Watcher \<Rightarrow> (Watcher \<times> Rpc list) option" where
  "onServiceChange epsStore obj w =
     (case obj of None \<Rightarrow> Some (w, []) | Some svc \<Rightarrow> reconcileService epsStore svc w)"

definition onServiceDelete :: "Service option \<Rightarrow> Watcher \<Rightarrow> Watcher \<times> Rpc list" where
  "onServiceDelete obj w = (case obj of None \<Rightarrow> (w, []) | Some svc \<Rightarrow> deleteService svc w)"

definition onEndpointSliceChange ::
  "(string \<rightharpoonup> Service) \<Rightarrow> EndpointSlice list option \<Rightarrow> EndpointSlice option \<Rightarrow> Watcher \<Rightarrow> (Watcher \<times> Rpc list) option" where
  "onEndpointSliceChange svcStore epsStore obj w =
     (case obj of
        None \<Rightarrow> Some (w, [])
      | Some eps \<Rightarrow>
          (case eps_Labels eps LabelServiceName of
             None \<Rightarrow> Some (w, [])
           | Some svcName \<Rightarrow>
               (case svcStore (eps_Namespace eps @ ''/'' @ svcName) of
                  None \<Rightarrow> Some (w, [])
                | Some svc \<Rightarrow> reconcileService epsStore svc w)))"

definition ServiceCount :: "Watcher \<Rightarrow> nat" where
  "ServiceCount w = map_len (w_services w)"

section \<open>Listing\<close>

definition scopeName :: "u32 \<Rightarrow> string" where
  "scopeName scope =
     (if scope = ScopeClusterIP then ''ClusterIP''
      else if scope = ScopeNodePort then ''NodePort''
      else if scope = ScopeExternalIP then ''ExternalIP''
      else if scope = ScopeLoadBalancer then ''LoadBalancer''
      else ''scope-'' @ dec_str (unat scope))"

definition algName :: "u32 \<Rightarrow> string" where
  "algName alg =
     (if alg = AlgRandom then ''random''
      else if alg = AlgRoundRobin then ''round-robin''
      else if alg = AlgMaglev then ''maglev''
      else ''alg-'' @ dec_str (unat alg))"

record ServiceInfo =
  si_ClusterIp :: string
  si_Port :: u32
  si_Protocol :: string
  si_Scope :: string
  si_BackendCount :: u32
  si_Algorithm :: string
  si_Backends :: "string list"
  si_Dsr :: bool

text \<open>\<open>fmt.Sprintf("%d", n)\<close> of a signed integer.\<close>

definition int_str :: "int \<Rightarrow> string" where
  "int_str n = (if n < 0 then ''-'' @ dec_str (nat (- n)) else dec_str (nat n))"

definition ListTrackedServices :: "Service list option \<Rightarrow> EndpointSlice list option \<Rightarrow> Watcher \<Rightarrow> ServiceInfo list" where
  "ListTrackedServices svcStore epsStore w =
     (case svcStore of
        None \<Rightarrow> []
      | Some svcs \<Rightarrow>
          concat (map (\<lambda>svc.
            case w_services w (service_key svc) of
              None \<Rightarrow> []
            | Some state \<Rightarrow>
                let backends = collectBackends epsStore svc;
                    strs = map (\<lambda>be. be_ip be @ '':'' @ int_str (be_port be)) backends
                in concat (map (\<lambda>clusterIP. concat (map (\<lambda>port. map (\<lambda>scope.
                       \<lparr>si_ClusterIp = clusterIP, si_Port = portToU32 (sp_Port port), si_Protocol = sp_Protocol port,
                        si_Scope = scopeName scope, si_BackendCount = intToU32 (int (length backends)),
                        si_Algorithm = algName (st_algorithm state), si_Backends = strs, si_Dsr = w_dsrEnabled w\<rparr>)
                     (st_scopes state)) (svc_Ports svc))) (st_clusterIPs state))) svcs))"

section \<open>Ownership of slots\<close>

definition backend_blocks :: "Watcher \<Rightarrow> (string \<rightharpoonup> u32 \<times> u32)" where
  "backend_blocks w = (\<lambda>k. map_option (\<lambda>st. (st_backendOffset st, st_backendCount st)) (w_services w k))"

definition maglev_blocks :: "Watcher \<Rightarrow> (string \<rightharpoonup> u32 \<times> u32)" where
  "maglev_blocks w = (\<lambda>k. case w_services w k of
       Some st \<Rightarrow> if st_algorithm st = AlgMaglev then Some (st_maglevOffset st, 65537) else None
     | None \<Rightarrow> None)"

text \<open>
  \<open>N\<close> is the capacity of the backend array, \<open>U\<close> the part of the Maglev table space that is still
  accounted for.
\<close>

definition W_inv :: "u32 \<Rightarrow> nat set \<Rightarrow> Watcher \<Rightarrow> bool" where
  "W_inv N U w \<longleftrightarrow>
     Slot_wf (w_allocator w) \<and> sa_maxSlots (w_allocator w) = N \<and> ledger {..<unat N} (free_slots (w_allocator w)) (backend_blocks w) \<and>
     Slot_wf (w_maglevAllocator w) \<and> sa_maxSlots (w_maglevAllocator w) = 1048576 \<and>
     ledger U (free_slots (w_maglevAllocator w)) (maglev_blocks w) \<and> U \<subseteq> {..<1048576}"

text \<open>The state once a service has been dropped: slots freed, bookkeeping removed.\<close>

definition drop_service :: "string \<Rightarrow> Watcher \<Rightarrow> Watcher" where
  "drop_service key w = (case w_services w key of
       None \<Rightarrow> w
     | Some old \<Rightarrow> (free_slots_of old w)\<lparr>w_services := map_del (w_services w) key\<rparr>)"

definition leaks_table :: "string \<Rightarrow> Watcher \<Rightarrow> bool" where
  "leaks_table key w = (case w_services w key of
       None \<Rightarrow> False
     | Some st \<Rightarrow> st_algorithm st = AlgMaglev \<and> st_maglevOffset st = 0)"

definition accounted :: "string \<Rightarrow> Watcher \<Rightarrow> nat set \<Rightarrow> nat set" where
  "accounted key w U = (if leaks_table key w then U - block 0 65537 else U)"

lemma free_slots_of_services [simp]:
  "w_services (free_slots_of old w) = w_services w" "w_defaultAlg (free_slots_of old w) = w_defaultAlg w"
  "w_dsrEnabled (free_slots_of old w) = w_dsrEnabled w"
  by (simp_all add: free_slots_of_def Let_def)

lemma drop_service_config [simp]:
  "w_defaultAlg (drop_service key w) = w_defaultAlg w" "w_dsrEnabled (drop_service key w) = w_dsrEnabled w"
  "w_services (drop_service key w) = map_del (w_services w) key"
  by (auto simp: drop_service_def map_del_notin domIff split: option.split)

lemma unat_65537 [simp]: "unat (65537 :: u32) = 65537"
  by simp

lemma drop_service_inv:
  assumes "W_inv N U w"
  shows "W_inv N (accounted key w U) (drop_service key w)"
proof (cases "w_services w key")
  case None
  then show ?thesis using assms by (simp add: drop_service_def accounted_def leaks_table_def)
next
  case (Some st)
  let ?w = "drop_service key w"
  have inv: "Slot_wf (w_allocator w)" "sa_maxSlots (w_allocator w) = N" "ledger {..<unat N} (free_slots (w_allocator w)) (backend_blocks w)"
     "Slot_wf (w_maglevAllocator w)" "sa_maxSlots (w_maglevAllocator w) = 1048576"
     "ledger U (free_slots (w_maglevAllocator w)) (maglev_blocks w)" "U \<subseteq> {..<1048576}" using assms by (simp_all add: W_inv_def)
  have bb: "backend_blocks ?w = (backend_blocks w)(key := None)" and mb: "maglev_blocks ?w = (maglev_blocks w)(key := None)"
    by (auto simp: backend_blocks_def maglev_blocks_def)
  have b: "backend_blocks w key = Some (st_backendOffset st, st_backendCount st)" using Some by (simp add: backend_blocks_def)
  have "Slot_wf (w_allocator ?w) \<and> sa_maxSlots (w_allocator ?w) = N \<and> ledger {..<unat N} (free_slots (w_allocator ?w)) (backend_blocks ?w)"
  proof (cases "0 < st_backendCount st")
    case True
    have "w_allocator ?w = Free (st_backendOffset st) (st_backendCount st) (w_allocator w)"
      using True Some by (simp add: drop_service_def free_slots_of_def Let_def)
    then show ?thesis unfolding bb using sp.release_ledger [OF inv(1) _ inv(3) b True] inv(2) by (simp add: word_unat_eq_iff)
  next
    case False
    then have z: "st_backendCount st = 0" by (simp add: word_gt_0)
    have "w_allocator ?w = w_allocator w" using Some z by (simp add: drop_service_def free_slots_of_def Let_def)
    then show ?thesis unfolding bb using ledger_remove(1) [OF inv(3) b] inv(1,2) z by simp
  qed
  moreover have "Slot_wf (w_maglevAllocator ?w) \<and> sa_maxSlots (w_maglevAllocator ?w) = 1048576 \<and>
      ledger (accounted key w U) (free_slots (w_maglevAllocator ?w)) (maglev_blocks ?w)"
  proof (cases "st_algorithm st = AlgMaglev")
    case True
    then have m: "maglev_blocks w key = Some (st_maglevOffset st, 65537)" using Some by (simp add: maglev_blocks_def)
    show ?thesis
    proof (cases "0 < st_maglevOffset st")
      case pos: True
      then have "w_maglevAllocator ?w = Free (st_maglevOffset st) 65537 (w_maglevAllocator w)" "accounted key w U = U"
        using True Some by (simp_all add: drop_service_def free_slots_of_def Let_def MaglevTableSize_def accounted_def leaks_table_def word_gt_0)
      then show ?thesis unfolding mb using sp.release_ledger [OF inv(4) _ inv(6) m] inv(5,7) by (simp add: word_unat_eq_iff)
    next
      case zero: False
      then have "st_maglevOffset st = 0" by (simp add: word_gt_0)
      moreover from this have "w_maglevAllocator ?w = w_maglevAllocator w" "accounted key w U = U - block 0 65537"
        using True Some by (simp_all add: drop_service_def free_slots_of_def Let_def accounted_def leaks_table_def)
      ultimately show ?thesis unfolding mb using ledger_remove(2) [OF inv(6) m] inv(4,5) by simp
    qed
  next
    case False
    then have "maglev_blocks w key = None" using Some by (simp add: maglev_blocks_def)
    then have "(maglev_blocks w)(key := None) = maglev_blocks w" by (simp add: fun_upd_idem)
    moreover have "w_maglevAllocator ?w = w_maglevAllocator w" "accounted key w U = U"
      using False Some by (simp_all add: drop_service_def free_slots_of_def Let_def accounted_def leaks_table_def)
    ultimately show ?thesis unfolding mb using inv(4-6) by simp
  qed
  moreover have "accounted key w U \<subseteq> {..<1048576}" using inv(7) by (auto simp: accounted_def)
  ultimately show ?thesis by (simp add: W_inv_def)
qed

section \<open>What a reconciliation does\<close>

lemma deleteServiceLocked_state: "fst (deleteServiceLocked svc w) = drop_service (service_key svc) w"
  by (simp add: deleteServiceLocked_def drop_service_def Let_def split: option.split)

lemma freed_state:
  "\<exists>freed. (case w_services w key of Some old \<Rightarrow> freeOldState svc old w | None \<Rightarrow> (w, [])) =
     ((drop_service key w)\<lparr>w_services := w_services w\<rparr>, freed)"
  by (cases "w_services w key") (simp_all add: drop_service_def freeOldState_def)

text \<open>A Maglev table is allocated exactly when the service ends up with the Maglev algorithm.\<close>

lemma maglev_part_cases:
  assumes "maglev_part alg backends svc w = Some (alg', off, rpcs, w')"
  obtains "alg' \<noteq> AlgMaglev" "w' = w"
  | a where "alg' = AlgMaglev" "Alloc 65537 (w_maglevAllocator w) = Some (off, a)" "w' = w\<lparr>w_maglevAllocator := a\<rparr>"
proof (cases "alg = AlgMaglev")
  case True
  show thesis
  proof (cases "Alloc (of_int MaglevTableSize) (w_maglevAllocator w)")
    case None
    then have "alg' = AlgRandom" "w' = w" using assms True by (simp_all add: maglev_part_def)
    then show thesis using that(1) by (simp add: const_defs)
  next
    case (Some p)
    obtain o' a where p: "p = (o', a)" by (cases p)
    have "alg' = AlgMaglev \<and> off = o' \<and> w' = w\<lparr>w_maglevAllocator := a\<rparr>"
      using assms True Some p by (simp add: maglev_part_def split: list.splits option.splits)
    then show thesis using that(2) Some p by (simp add: MaglevTableSize_def)
  qed
next
  case False
  then have "alg' = alg" "w' = w" using assms by (simp_all add: maglev_part_def)
  with False show thesis by (intro that(1)) simp_all
qed

definition new_state :: "EndpointSlice list option \<Rightarrow> Service \<Rightarrow> u32 \<Rightarrow> u32 \<Rightarrow> u32 \<Rightarrow> serviceState" where
  "new_state epsStore svc off alg maglevOff =
     \<lparr>st_backendOffset = off, st_backendCount = intToU32 (int (length (collectBackends epsStore svc) * length (svc_Ports svc))),
      st_algorithm = alg, st_maglevOffset = maglevOff, st_scopes = computeScopes svc, st_clusterIPs = serviceClusterIPs svc\<rparr>"

lemma reconcile_cases:
  assumes "reconcileService epsStore svc w = Some (w', rpcs)"
  obtains (dropped) "w' = drop_service (service_key svc) w"
  | (installed) off a alg moff mrpcs w3 freed where
      "serviceClusterIPs svc \<noteq> []" "collectBackends epsStore svc \<noteq> []"
      "Alloc (intToU32 (int (length (collectBackends epsStore svc) * length (svc_Ports svc)))) (w_allocator (drop_service (service_key svc) w)) = Some (off, a)"
      "maglev_part (resolveAlgorithm w) (collectBackends epsStore svc) svc
         ((drop_service (service_key svc) w)\<lparr>w_services := w_services w, w_allocator := a\<rparr>) = Some (alg, moff, mrpcs, w3)"
      "w' = w3\<lparr>w_services := (w_services w)(service_key svc \<mapsto> new_state epsStore svc off alg moff)\<rparr>"
      "rpcs = freed @ pushBackends off (collectBackends epsStore svc) (svc_Ports svc) @ mrpcs
         @ upsertServiceEntries w3 svc (serviceClusterIPs svc) off (collectBackends epsStore svc) alg moff (computeScopes svc)"
      "freed = snd (case w_services w (service_key svc) of Some old \<Rightarrow> freeOldState svc old w | None \<Rightarrow> (w, []))"
proof (cases "serviceClusterIPs svc = []")
  case True
  then have "w' = fst (if w_services w (service_key svc) \<noteq> None then deleteServiceLocked svc w else (w, []))"
    using assms by (simp add: reconcileService_def)
  then have "w' = drop_service (service_key svc) w"
    by (auto simp: deleteServiceLocked_state drop_service_def)
  then show thesis by (rule dropped)
next
  case False
  let ?d = "drop_service (service_key svc) w"
  obtain freed where fr: "(case w_services w (service_key svc) of Some old \<Rightarrow> freeOldState svc old w | None \<Rightarrow> (w, [])) =
     (?d\<lparr>w_services := w_services w\<rparr>, freed)" using freed_state by blast
  let ?tot = "intToU32 (int (length (collectBackends epsStore svc) * length (svc_Ports svc)))"
  have dd: "?d\<lparr>w_services := map_del (w_services w) (service_key svc)\<rparr> = ?d"
    using drop_service_config(3) [of "service_key svc" w] by (metis Watcher.surjective Watcher.update_convs(5))
  show thesis
  proof (cases "collectBackends epsStore svc = []")
    case True
    then have "w' = ?d" using assms False fr dd by (simp add: reconcileService_def)
    then show thesis by (rule dropped)
  next
    case ne: False
    show thesis
    proof (cases "Alloc ?tot (w_allocator ?d)")
      case None
      then have "w' = ?d" using assms False ne fr dd by (simp add: reconcileService_def)
      then show thesis by (rule dropped)
    next
      case (Some p)
      obtain off a where p: "p = (off, a)" by (cases p)
      let ?m = "maglev_part (resolveAlgorithm w) (collectBackends epsStore svc) svc
         (?d\<lparr>w_services := w_services w, w_allocator := a\<rparr>)"
      have "?m \<noteq> None" using assms False ne fr Some p by (cases ?m) (simp_all add: reconcileService_def Let_def)
      then obtain alg moff mrpcs w3 where m: "?m = Some (alg, moff, mrpcs, w3)" by (cases ?m) auto
      have s3: "w_services w3 = w_services w" using m by (rule maglev_part_cases) simp_all
      have r: "w' = w3\<lparr>w_services := (w_services w)(service_key svc \<mapsto> new_state epsStore svc off alg moff)\<rparr>"
        "rpcs = freed @ pushBackends off (collectBackends epsStore svc) (svc_Ports svc) @ mrpcs
         @ upsertServiceEntries w3 svc (serviceClusterIPs svc) off (collectBackends epsStore svc) alg moff (computeScopes svc)"
        using assms False ne fr Some p m s3 by (simp_all add: reconcileService_def new_state_def Let_def)
      show thesis by (rule installed [OF False ne Some [unfolded p] m r]) (simp add: fr)
    qed
  qed
qed

lemma reconcile_inv:
  assumes inv: "W_inv N U w" and rec: "reconcileService epsStore svc w = Some (w', rpcs)"
  shows "W_inv N (accounted (service_key svc) w U) w'"
  using rec
proof (cases rule: reconcile_cases)
  case dropped
  with drop_service_inv [OF inv] show ?thesis by simp
next
  case (installed off a alg moff mrpcs w3 freed)
  let ?key = "service_key svc" and ?d = "drop_service (service_key svc) w"
  let ?U = "accounted ?key w U" and ?st = "new_state epsStore svc off alg moff"
  have d: "Slot_wf (w_allocator ?d)" "sa_maxSlots (w_allocator ?d) = N" "ledger {..<unat N} (free_slots (w_allocator ?d)) (backend_blocks ?d)"
     "Slot_wf (w_maglevAllocator ?d)" "sa_maxSlots (w_maglevAllocator ?d) = 1048576"
     "ledger ?U (free_slots (w_maglevAllocator ?d)) (maglev_blocks ?d)" "?U \<subseteq> {..<1048576}"
    using drop_service_inv [OF inv, of ?key] by (simp_all add: W_inv_def)
  have none: "backend_blocks ?d ?key = None" "maglev_blocks ?d ?key = None" by (simp_all add: backend_blocks_def maglev_blocks_def)
  have bb: "backend_blocks w' = (backend_blocks ?d)(?key \<mapsto> (off, st_backendCount ?st))"
    using installed(5) by (auto simp: backend_blocks_def new_state_def)
  have aw: "w_allocator w' = a" using installed(4,5) by (auto elim: maglev_part_cases)
  have "Slot_wf a" "sa_maxSlots a = N" "ledger {..<unat N} (free_slots a) (backend_blocks w')"
    using sp.alloc_wf [OF d(1) installed(3)] sp.alloc_ledger [OF d(1,3) none(1) installed(3)] d(2)
    unfolding bb by (simp_all add: new_state_def word_unat_eq_iff)
  moreover have "Slot_wf (w_maglevAllocator w') \<and> sa_maxSlots (w_maglevAllocator w') = 1048576 \<and>
     ledger ?U (free_slots (w_maglevAllocator w')) (maglev_blocks w')"
    using installed(4)
  proof (cases rule: maglev_part_cases)
    case 1
    then have "maglev_blocks w' = maglev_blocks ?d" "w_maglevAllocator w' = w_maglevAllocator ?d"
      using installed(5) by (auto simp: maglev_blocks_def new_state_def)
    then show ?thesis using d(4-6) by simp
  next
    case (2 ma)
    then have "maglev_blocks w' = (maglev_blocks ?d)(?key \<mapsto> (moff, 65537))" "w_maglevAllocator w' = ma"
      using installed(5) by (auto simp: maglev_blocks_def new_state_def)
    moreover have al: "Alloc 65537 (w_maglevAllocator ?d) = Some (moff, ma)" using 2(2) by simp
    ultimately show ?thesis
      using sp.alloc_wf [OF d(4) al] sp.alloc_ledger [OF d(4,6) none(2) al] d(5) by (simp add: word_unat_eq_iff)
  qed
  ultimately show ?thesis using d(7) aw by (simp add: W_inv_def)
qed

section \<open>Runs\<close>

text \<open>One event of the informers, with whatever the stores hold at that moment.\<close>

inductive watch_step :: "Watcher \<Rightarrow> Watcher \<Rightarrow> bool" where
  step_service: "onServiceChange epsStore obj w = Some (w', rpcs) \<Longrightarrow> watch_step w w'"
| step_delete: "onServiceDelete obj w = (w', rpcs) \<Longrightarrow> watch_step w w'"
| step_slice: "onEndpointSliceChange svcStore epsStore obj w = Some (w', rpcs) \<Longrightarrow> watch_step w w'"

text \<open>Every event either leaves the state alone or drops or reconciles one service.\<close>

lemma watch_step_cases:
  assumes "watch_step w w'"
  obtains "w' = w" | key where "w' = drop_service key w"
  | epsStore svc rpcs where "reconcileService epsStore svc w = Some (w', rpcs)"
  using assms
proof cases
  case (step_service epsStore obj rpcs)
  then show ?thesis using that by (cases obj) (auto simp: onServiceChange_def)
next
  case (step_delete obj rpcs)
  then show ?thesis using that deleteServiceLocked_state [of _ w]
    by (cases obj) (auto simp: onServiceDelete_def deleteService_def, metis fst_conv)
next
  case (step_slice svcStore epsStore obj rpcs)
  then show ?thesis using that by (auto simp: onEndpointSliceChange_def split: option.splits)
qed

lemma accounted_sub: "accounted key w U \<subseteq> U"
  by (auto simp: accounted_def)

lemma watch_step_inv:
  assumes "W_inv N U w" "watch_step w w'"
  shows "\<exists>U' \<subseteq> U. W_inv N U' w'"
  using assms(2)
proof (cases rule: watch_step_cases)
  case (2 key)
  show ?thesis unfolding 2 by (intro exI [of _ "accounted key w U"] conjI accounted_sub drop_service_inv assms(1))
next
  case (3 epsStore svc rpcs)
  show ?thesis
    by (intro exI [of _ "accounted (service_key svc) w U"] conjI accounted_sub reconcile_inv [OF assms(1) 3])
next
  case 1
  then show ?thesis using assms(1) by (intro exI [of _ U]) simp
qed

lemma watch_run_inv:
  assumes "watch_step\<^sup>*\<^sup>* w w'" "W_inv N U w"
  shows "\<exists>U' \<subseteq> U. W_inv N U' w'"
  using assms
proof (induction rule: rtranclp_induct)
  case (step y z)
  then show ?case by (meson subset_trans watch_step_inv)
qed blast

lemma NewWatcher_inv:
  assumes "0 < N"
  shows "W_inv N {..<1048576} (NewWatcher (NewSlotAllocator N) alg dsr)"
proof -
  have "backend_blocks (NewWatcher (NewSlotAllocator N) alg dsr) = Map.empty" "maglev_blocks (NewWatcher (NewSlotAllocator N) alg dsr) = Map.empty"
    by (auto simp: backend_blocks_def maglev_blocks_def NewWatcher_def)
  then show ?thesis using NewSlotAllocator_wf [OF assms] NewSlotAllocator_wf [of 1048576]
    by (simp add: W_inv_def NewWatcher_def ledger_empty)
qed

section \<open>The effect on the dataplane\<close>

text \<open>
  The maps of the dataplane that the calls write: service entries by key, backends by index and Maglev
  entries by index. Deleting a missing key has no effect.
\<close>

record DP =
  dp_services :: "SvcKey \<rightharpoonup> SvcEntry"
  dp_backends :: "u32 \<rightharpoonup> BackendEntry"
  dp_maglev :: "u32 \<rightharpoonup> u32"

fun dp_apply :: "Rpc \<Rightarrow> DP \<Rightarrow> DP" where
  "dp_apply (UpsertService k e) dp = dp\<lparr>dp_services := (dp_services dp)(k \<mapsto> e)\<rparr>"
| "dp_apply (DeleteService k) dp = dp\<lparr>dp_services := map_del (dp_services dp) k\<rparr>"
| "dp_apply (UpsertBackends bs) dp = dp\<lparr>dp_backends := dp_backends dp ++ map_of (rev (map (\<lambda>b. (bk_Index b, b)) bs))\<rparr>"
| "dp_apply (UpsertMaglevTable off es) dp =
     dp\<lparr>dp_maglev := dp_maglev dp ++ map_of (map (\<lambda>(i, e). (off + of_nat i, e)) (enumerate 0 es))\<rparr>"

definition dp_run :: "Rpc list \<Rightarrow> DP \<Rightarrow> DP" where
  "dp_run rpcs dp = fold dp_apply rpcs dp"

lemma dp_run_append: "dp_run (a @ b) dp = dp_run b (dp_run a dp)"
  by (simp add: dp_run_def)

definition is_delete :: "Rpc \<Rightarrow> bool" where
  "is_delete r = (case r of DeleteService _ \<Rightarrow> True | _ \<Rightarrow> False)"

definition svc_upserts :: "(SvcKey \<times> SvcEntry) list \<Rightarrow> Rpc list" where
  "svc_upserts ps = map (\<lambda>(k, e). UpsertService k e) ps"

lemma dp_run_upserts:
  "dp_services (dp_run (svc_upserts ps) dp) = dp_services dp ++ map_of (rev ps)"
  "dp_backends (dp_run (svc_upserts ps) dp) = dp_backends dp"
proof (induction ps arbitrary: dp)
  case (Cons p ps)
  obtain k e where p: "p = (k, e)" by (cases p)
  { case 1
    then show ?case using Cons(1) [of "dp_apply (UpsertService k e) dp"]
      by (simp add: p dp_run_def svc_upserts_def map_add_upd_left [symmetric] fun_eq_iff map_add_def split: option.split) }
  { case 2
    then show ?case using Cons(2) [of "dp_apply (UpsertService k e) dp"] by (simp add: p dp_run_def svc_upserts_def) }
qed (simp_all add: dp_run_def svc_upserts_def)

text \<open>A list of deletions removes exactly its keys.\<close>

lemma dp_run_deletes:
  "dp_services (dp_run (map DeleteService ks) dp) = dp_services dp |` (- set ks)"
proof (induction ks arbitrary: dp)
  case (Cons k ks)
  then show ?case using Cons [of "dp_apply (DeleteService k) dp"]
    by (auto simp: dp_run_def fun_eq_iff restrict_map_def)
qed (simp add: dp_run_def fun_eq_iff restrict_map_def)

lemma map_of_agree:
  assumes "(k, v) \<in> set ps" "\<And>v'. (k, v') \<in> set ps \<Longrightarrow> v' = v"
  shows "map_of (rev ps) k = Some v"
proof -
  obtain v' where v': "map_of (rev ps) k = Some v'" using weak_map_of_SomeI [of k v "rev ps"] assms(1) by auto
  then have "(k, v') \<in> set ps" using map_of_SomeD by fastforce
  with assms(2) v' show ?thesis by simp
qed

lemma map_of_not_key: "k \<notin> fst ` set ps \<Longrightarrow> map_of (rev ps) k = None"
  by (simp add: map_of_eq_None_iff)

definition service_pairs ::
  "Watcher \<Rightarrow> Service \<Rightarrow> u32 \<Rightarrow> backendInfo list \<Rightarrow> u32 \<Rightarrow> u32 \<Rightarrow> (SvcKey \<times> SvcEntry) list" where
  "service_pairs w svc off backends alg moff =
     concat (map (\<lambda>(j, port). map (\<lambda>k. (k, port_entry w svc off backends alg moff j))
       (port_keys svc (serviceClusterIPs svc) (computeScopes svc) port)) (enumerate 0 (svc_Ports svc)))"

lemma upsertServiceEntries_pairs:
  "upsertServiceEntries w svc (serviceClusterIPs svc) off backends alg moff (computeScopes svc) =
   svc_upserts (service_pairs w svc off backends alg moff)"
  by (simp add: upsertServiceEntries_def svc_upserts_def service_pairs_def map_concat o_def split_def)

lemma mem_enumerate0: "(j, x) \<in> set (enumerate 0 xs) \<longleftrightarrow> j < length xs \<and> x = xs ! j"
  by (auto simp: in_set_enumerate_eq)

lemma mem_service_pairs:
  "(k, e) \<in> set (service_pairs w svc off backends alg moff) \<longleftrightarrow>
   (\<exists>j < length (svc_Ports svc). k \<in> set (port_keys svc (serviceClusterIPs svc) (computeScopes svc) (svc_Ports svc ! j)) \<and>
      e = port_entry w svc off backends alg moff j)"
proof -
  have "(k, e) \<in> set (service_pairs w svc off backends alg moff) \<longleftrightarrow>
      (\<exists>j port. (j, port) \<in> set (enumerate 0 (svc_Ports svc)) \<and>
        k \<in> set (port_keys svc (serviceClusterIPs svc) (computeScopes svc) port) \<and> e = port_entry w svc off backends alg moff j)"
    unfolding service_pairs_def by (simp add: split_def image_iff) force
  then show ?thesis unfolding mem_enumerate0 by blast
qed

definition ports_distinct :: "Service \<Rightarrow> bool" where
  "ports_distinct svc \<longleftrightarrow>
     list_all (\<lambda>scope. distinct (map (\<lambda>p. (servicePortForScope p scope, ProtocolToNumber (sp_Protocol p))) (svc_Ports svc)))
       (computeScopes svc)"

text \<open>Every key of a port carries a scope of the service and that port's number in the scope.\<close>

lemma port_keys_port:
  assumes "k \<in> set (port_keys svc ips (computeScopes svc) port)"
  shows "sk_Scope k \<in> set (computeScopes svc) \<and> sk_Port k = servicePortForScope port (sk_Scope k) \<and>
    sk_Protocol k = ProtocolToNumber (sp_Protocol port)"
proof -
  consider (cluster) scope ip where "scope \<in> set (computeScopes svc)" "k = svc_key port scope ip"
    | (ext) ip where "ip \<in> set (svc_ExternalIPs svc)" "k = ip_key port ScopeExternalIP ip"
    | (lb) ip where "svc_Type svc = ''LoadBalancer''" "k = ip_key port ScopeLoadBalancer ip"
    using assms by (auto simp: port_keys_def split: if_splits)
  then show ?thesis
  proof cases
    case cluster
    then show ?thesis by (simp add: svc_key_def)
  next
    case ext
    then have "svc_ExternalIPs svc \<noteq> []" by auto
    with ext(2) show ?thesis by (simp add: ip_key_def computeScopes_def servicePortForScope_def const_defs)
  next
    case lb
    then show ?thesis by (simp add: ip_key_def computeScopes_def servicePortForScope_def const_defs)
  qed
qed

lemma ports_distinct_key:
  assumes "ports_distinct svc" "i < length (svc_Ports svc)" "j < length (svc_Ports svc)"
    and "k \<in> set (port_keys svc ips (computeScopes svc) (svc_Ports svc ! i))"
    and "k \<in> set (port_keys svc ips (computeScopes svc) (svc_Ports svc ! j))"
  shows "i = j"
proof -
  note ki = port_keys_port [OF assms(4)] and kj = port_keys_port [OF assms(5)]
  have d: "distinct (map (\<lambda>p. (servicePortForScope p (sk_Scope k), ProtocolToNumber (sp_Protocol p))) (svc_Ports svc))"
    using assms(1) ki by (simp add: ports_distinct_def list_all_iff)
  show ?thesis using nth_eq_iff_index_eq [OF d, of i j] assms(2,3) ki kj by simp
qed

lemma service_pairs_lookup:
  assumes "ports_distinct svc" "j < length (svc_Ports svc)"
    and "k \<in> set (port_keys svc (serviceClusterIPs svc) (computeScopes svc) (svc_Ports svc ! j))"
  shows "map_of (rev (service_pairs w svc off backends alg moff)) k = Some (port_entry w svc off backends alg moff j)"
proof (rule map_of_agree)
  show "(k, port_entry w svc off backends alg moff j) \<in> set (service_pairs w svc off backends alg moff)"
    unfolding mem_service_pairs using assms(2,3) by blast
  fix e assume "(k, e) \<in> set (service_pairs w svc off backends alg moff)"
  then obtain i where "i < length (svc_Ports svc)" "e = port_entry w svc off backends alg moff i"
    "k \<in> set (port_keys svc (serviceClusterIPs svc) (computeScopes svc) (svc_Ports svc ! i))" unfolding mem_service_pairs by blast
  then show "e = port_entry w svc off backends alg moff j" using ports_distinct_key [OF assms(1) _ assms(2) _ assms(3)] by blast
qed

text \<open>The entry that \<open>pushBackends\<close> sends for a port and a backend.\<close>

definition backend_entry :: "u32 \<Rightarrow> backendInfo list \<Rightarrow> ServicePort list \<Rightarrow> nat \<Rightarrow> nat \<Rightarrow> BackendEntry" where
  "backend_entry off backends ports j i =
     \<lparr>bk_Index = off + of_nat (j * length backends + i), bk_Ip = be_ip (backends ! i),
      bk_Port = resolveTargetPort (ports ! j) (backends ! i), bk_NodeIp = be_nodeIP (backends ! i)\<rparr>"

definition backend_list :: "u32 \<Rightarrow> backendInfo list \<Rightarrow> ServicePort list \<Rightarrow> BackendEntry list" where
  "backend_list off backends ports =
     concat (map (\<lambda>(j, port). map (\<lambda>(i, be). \<lparr>bk_Index = off + of_nat (j * length backends + i), bk_Ip = be_ip be,
         bk_Port = resolveTargetPort port be, bk_NodeIp = be_nodeIP be\<rparr>) (enumerate 0 backends)) (enumerate 0 ports))"

lemma intToU32_int [simp]: "intToU32 (int n) = of_nat n"
  by (simp add: intToU32_def)

lemma pushBackends_list:
  "pushBackends off backends ports =
     (if backend_list off backends ports = [] then [] else [UpsertBackends (backend_list off backends ports)])"
  unfolding pushBackends_def backend_list_def intToU32_int Let_def by simp

lemma mem_backend_list:
  "b \<in> set (backend_list off backends ports) \<longleftrightarrow>
   (\<exists>j < length ports. \<exists>i < length backends. b = backend_entry off backends ports j i)"
proof -
  have "b \<in> set (backend_list off backends ports) \<longleftrightarrow>
     (\<exists>j port i be. (j, port) \<in> set (enumerate 0 ports) \<and> (i, be) \<in> set (enumerate 0 backends) \<and>
        b = \<lparr>bk_Index = off + of_nat (j * length backends + i), bk_Ip = be_ip be,
         bk_Port = resolveTargetPort port be, bk_NodeIp = be_nodeIP be\<rparr>)"
    unfolding backend_list_def by (simp add: split_def image_iff) force
  then show ?thesis unfolding mem_enumerate0 backend_entry_def by blast
qed

text \<open>The indices of one service do not collide.\<close>

lemma index_inject:
  assumes "i < n" "i' < n" "j * n + i = j' * n + i'"
  shows "j = j' \<and> i = (i' :: nat)"
proof -
  have "(j * n + i) div n = j" "(j' * n + i') div n = j'" using assms(1,2) by simp_all
  with assms(3) show ?thesis by simp
qed

lemma backend_offset_bound2:
  assumes "j < p" "i < (n :: nat)"
  shows "j * n + i < n * p"
proof -
  have "j * n + i < Suc j * n" using assms(2) by simp
  also have "\<dots> \<le> p * n" using assms(1) by (intro mult_le_mono1) simp
  finally show ?thesis by (simp add: mult.commute)
qed

lemma backend_list_lookup:
  assumes "length backends * length ports < 2 ^ 32" "j < length ports" "i < length backends"
  shows "map_of (rev (map (\<lambda>b. (bk_Index b, b)) (backend_list off backends ports))) (off + of_nat (j * length backends + i)) =
    Some (backend_entry off backends ports j i)"
proof (rule map_of_agree)
  let ?x = "off + of_nat (j * length backends + i)"
  have "backend_entry off backends ports j i \<in> set (backend_list off backends ports)" unfolding mem_backend_list using assms(2,3) by blast
  moreover have "bk_Index (backend_entry off backends ports j i) = ?x" by (simp add: backend_entry_def)
  ultimately show "(?x, backend_entry off backends ports j i) \<in> set (map (\<lambda>b. (bk_Index b, b)) (backend_list off backends ports))"
    by (metis (mono_tags) image_eqI list.set_map)
  fix b assume "(?x, b) \<in> set (map (\<lambda>b. (bk_Index b, b)) (backend_list off backends ports))"
  then have "b \<in> set (backend_list off backends ports)" "bk_Index b = ?x" by auto
  then obtain j' i' where b: "j' < length ports" "i' < length backends" "b = backend_entry off backends ports j' i'"
    unfolding mem_backend_list by blast
  have u: "unat (of_nat m :: u32) = m" if "m < 2 ^ 32" for m using that by (simp add: unat_of_nat take_bit_eq_mod)
  have "(of_nat (j' * length backends + i') :: u32) = of_nat (j * length backends + i)"
    using \<open>bk_Index b = ?x\<close> b(3) by (simp add: backend_entry_def)
  moreover have "j' * length backends + i' < 2 ^ 32" "j * length backends + i < 2 ^ 32"
    using backend_offset_bound2 [OF b(1,2)] backend_offset_bound2 [OF assms(2,3)] assms(1) by simp_all
  ultimately have "j' * length backends + i' = j * length backends + i"
    using u by metis
  then show "b = backend_entry off backends ports j i" using index_inject [OF b(2) assms(3)] b(3) by blast
qed

section \<open>Properties\<close>

abbreviation watcher_run :: "u32 \<Rightarrow> string \<Rightarrow> bool \<Rightarrow> Watcher \<Rightarrow> bool" where
  "watcher_run N alg dsr w \<equiv> watch_step\<^sup>*\<^sup>* (NewWatcher (NewSlotAllocator N) alg dsr) w"

lemma watcher_run_inv: "0 < N \<Longrightarrow> watcher_run N alg dsr w \<Longrightarrow> \<exists>U \<subseteq> {..<1048576}. W_inv N U w"
  by (rule watch_run_inv [OF _ NewWatcher_inv])

subsection \<open>An example\<close>

definition ex_port :: ServicePort where
  "ex_port = \<lparr>sp_Name = '''', sp_Protocol = ''TCP'', sp_Port = 80, sp_TargetPort = 8080, sp_NodePort = 0\<rparr>"

definition ex_svc :: "string \<Rightarrow> string list \<Rightarrow> Service" where
  "ex_svc name ext = \<lparr>svc_Namespace = ''ns'', svc_Name = name, svc_Type = ''ClusterIP'', svc_ClusterIP = ''10.96.0.1'',
     svc_ClusterIPs = [''10.96.0.1''], svc_Ports = [ex_port], svc_ExternalIPs = ext, svc_Ingress = [],
     svc_SessionAffinity = ''None'', svc_ExternalTrafficPolicy = '''', svc_InternalTrafficPolicy = None, svc_AffinityTimeout = None\<rparr>"

definition ex_slice :: EndpointSlice where
  "ex_slice = \<lparr>eps_Namespace = ''ns'', eps_Labels = [LabelServiceName \<mapsto> ''web''],
     eps_Endpoints = [\<lparr>ep_Ready = Some True, ep_Addresses = [''10.0.0.5'', ''worker-21'']\<rparr>, \<lparr>ep_Ready = Some False, ep_Addresses = [''10.0.0.6'']\<rparr>],
     eps_Ports = [(None, Some 8080)]\<rparr>"

definition ex_backend :: backendInfo where
  "ex_backend = \<lparr>be_ip = ''10.0.0.5'', be_nodeIP = '''', be_port = 8080, be_portName = ''''\<rparr>"

lemma ex_addr: "ParseIP ''10.0.0.5'' \<noteq> None" "ParseIP ''worker-21'' = None"
  by (simp_all add: ParseIP_def ParseAddr_def dec_val_def)

lemma ex_collect: "collectBackends (Some [ex_slice]) (ex_svc ''web'' ext) = [ex_backend]"
  using ex_addr by (auto simp: collectBackends_def ex_slice_def ex_svc_def slice_backends_def slice_backend_def ex_backend_def)

definition ex_watcher :: Watcher where
  "ex_watcher = NewWatcher (NewSlotAllocator 64) ''random'' False"

lemma ex_alg: "resolveAlgorithm ex_watcher = AlgRandom"
  by (simp add: resolveAlgorithm_def ex_watcher_def NewWatcher_def lower_char_def)

lemma ex_Alloc: "Alloc 1 (NewSlotAllocator 64) = Some (0, \<lparr>sa_maxSlots = 64, sa_free = [\<lparr>sr_offset = 1, sr_count = 63\<rparr>]\<rparr>)"
  by (simp add: Alloc_def NewSlotAllocator_def)

definition ex_installed :: "string list \<Rightarrow> Watcher" where
  "ex_installed ext = ex_watcher\<lparr>w_allocator := \<lparr>sa_maxSlots = 64, sa_free = [\<lparr>sr_offset = 1, sr_count = 63\<rparr>]\<rparr>,
     w_services := [''ns/web'' \<mapsto> \<lparr>st_backendOffset = 0, st_backendCount = 1, st_algorithm = AlgRandom, st_maglevOffset = 0,
       st_scopes = computeScopes (ex_svc ''web'' ext), st_clusterIPs = [''10.96.0.1'']\<rparr>]\<rparr>"

lemma ex_parts: "service_key (ex_svc ''web'' ext) = ''ns/web''" "serviceClusterIPs (ex_svc ''web'' ext) = [''10.96.0.1'']"
  "svc_Ports (ex_svc ''web'' ext) = [ex_port]" "w_services ex_watcher = Map.empty" "w_allocator ex_watcher = NewSlotAllocator 64"
  by (simp_all add: service_key_def ex_svc_def serviceClusterIPs_def ex_watcher_def NewWatcher_def)

lemma ex_reconcile:
  "\<exists>rpcs. reconcileService (Some [ex_slice]) (ex_svc ''web'' ext) ex_watcher = Some (ex_installed ext, rpcs)"
  by (simp add: reconcileService_def ex_parts ex_collect ex_alg ex_Alloc intToU32_def maglev_part_def const_defs ex_installed_def Let_def)

lemma ex_watcher_run: "watcher_run 64 ''random'' False (ex_installed ext)"
proof -
  obtain rpcs where "reconcileService (Some [ex_slice]) (ex_svc ''web'' ext) ex_watcher = Some (ex_installed ext, rpcs)"
    using ex_reconcile by blast
  then have "watch_step ex_watcher (ex_installed ext)"
    using step_service [of "Some [ex_slice]" "Some (ex_svc ''web'' ext)"] by (simp add: onServiceChange_def)
  then show ?thesis unfolding ex_watcher_def by (rule r_into_rtranclp)
qed

subsection \<open>Slots\<close>

text \<open>
  (C17) In every state that the watcher can reach, whatever the informers deliver and in whatever order, the
  backend slots of two different services never overlap, no service's slots are free, and no slot is
  lost: the free slots and the slots of the services are all slots of the array.
\<close>

theorem watcher_slots_partition:
  assumes "0 < N" "watcher_run N alg dsr w"
  shows "(\<forall>k1 k2 s1 s2. k1 \<noteq> k2 \<and> w_services w k1 = Some s1 \<and> w_services w k2 = Some s2 \<longrightarrow>
      block (st_backendOffset s1) (st_backendCount s1) \<inter> block (st_backendOffset s2) (st_backendCount s2) = {}) \<and>
    (\<forall>k s. w_services w k = Some s \<longrightarrow> block (st_backendOffset s) (st_backendCount s) \<inter> free_slots (w_allocator w) = {}) \<and>
    free_slots (w_allocator w) \<union> (\<Union>s \<in> ran (w_services w). block (st_backendOffset s) (st_backendCount s)) = {..<unat N}"
proof -
  obtain U where "W_inv N U w" using watcher_run_inv [OF assms] by blast
  then have led: "ledger {..<unat N} (free_slots (w_allocator w)) (backend_blocks w)" by (simp add: W_inv_def)
  have b: "backend_blocks w k = Some (st_backendOffset s, st_backendCount s)" if "w_services w k = Some s" for k s
    using that by (simp add: backend_blocks_def)
  have dj: "block (st_backendOffset s1) (st_backendCount s1) \<inter> block (st_backendOffset s2) (st_backendCount s2) = {}"
    if "k1 \<noteq> k2" "w_services w k1 = Some s1" "w_services w k2 = Some s2" for k1 k2 s1 s2
    by (rule ledgerD(3) [OF led b [OF that(2)] that(1) [symmetric] b [OF that(3)]])
  have sub: "(\<Union>s \<in> ran (w_services w). block (st_backendOffset s) (st_backendCount s)) \<subseteq> {..<unat N}"
    using ledgerD(1) [OF led b] unfolding ran_def by blast
  have "x \<in> (\<Union>s \<in> ran (w_services w). block (st_backendOffset s) (st_backendCount s))"
    if "x \<in> {..<unat N} - free_slots (w_allocator w)" for x
  proof -
    have "\<exists>k off n. backend_blocks w k = Some (off, n) \<and> x \<in> block off n" using led that unfolding ledger_def by blast
    then obtain k off n where "backend_blocks w k = Some (off, n)" "x \<in> block off n" by (elim exE conjE)
    then show ?thesis by (auto simp: backend_blocks_def intro: ranI)
  qed
  moreover have "free_slots (w_allocator w) \<subseteq> {..<unat N}" using led by (simp add: ledger_def)
  ultimately have all: "free_slots (w_allocator w) \<union> (\<Union>s \<in> ran (w_services w). block (st_backendOffset s) (st_backendCount s)) = {..<unat N}"
    using sub by blast
  show ?thesis
  proof (intro conjI allI impI all)
    show "block (st_backendOffset s1) (st_backendCount s1) \<inter> block (st_backendOffset s2) (st_backendCount s2) = {}"
      if "k1 \<noteq> k2 \<and> w_services w k1 = Some s1 \<and> w_services w k2 = Some s2" for k1 k2 s1 s2
      using dj that by (elim conjE)
    show "block (st_backendOffset s) (st_backendCount s) \<inter> free_slots (w_allocator w) = {}" if "w_services w k = Some s" for k s
      by (rule ledgerD(2) [OF led b [OF that]])
  qed
qed

theorem watcher_slots_partition_witness:
  "watcher_run 64 ''random'' False (ex_installed []) \<and> w_services (ex_installed []) ''ns/web'' \<noteq> None \<and>
   free_slots (w_allocator (ex_installed [])) \<union>
     (\<Union>s \<in> ran (w_services (ex_installed [])). block (st_backendOffset s) (st_backendCount s)) = {..<64}"
  using watcher_slots_partition [OF _ ex_watcher_run [of "[]"]] ex_watcher_run [of "[]"] by (simp add: ex_installed_def)

subsection \<open>Entries in the dataplane\<close>

lemma maglev_part_rpcs:
  assumes "maglev_part alg backends svc w = Some (alg', off, mrpcs, w')"
  shows "dp_backends (dp_run mrpcs dp) = dp_backends dp" "dp_services (dp_run mrpcs dp) = dp_services dp"
proof -
  have "mrpcs = [] \<or> (\<exists>o' t. mrpcs = [UpsertMaglevTable o' t])"
    using assms by (simp add: maglev_part_def split: if_splits option.splits prod.splits list.splits) blast
  then show "dp_backends (dp_run mrpcs dp) = dp_backends dp" "dp_services (dp_run mrpcs dp) = dp_services dp"
    by (auto simp: dp_run_def)
qed

lemma pushBackends_services: "dp_services (dp_run (pushBackends off backends ports) dp) = dp_services dp"
  by (simp add: pushBackends_list dp_run_def)

lemma pushBackends_lookup:
  assumes "length backends * length ports < 2 ^ 32" "j < length ports" "i < length backends"
  shows "dp_backends (dp_run (pushBackends off backends ports) dp) (off + of_nat (j * length backends + i)) =
    Some (backend_entry off backends ports j i)"
proof -
  have "backend_entry off backends ports j i \<in> set (backend_list off backends ports)"
    unfolding mem_backend_list using assms(2,3) by blast
  then have "backend_list off backends ports \<noteq> []" by auto
  then show ?thesis using backend_list_lookup [OF assms] by (simp add: pushBackends_list dp_run_def map_add_def)
qed


definition ex_state :: "string list \<Rightarrow> serviceState" where
  "ex_state ext = \<lparr>st_backendOffset = 0, st_backendCount = 1, st_algorithm = AlgRandom, st_maglevOffset = 0,
     st_scopes = computeScopes (ex_svc ''web'' ext), st_clusterIPs = [''10.96.0.1'']\<rparr>"

definition ex_dp :: DP where
  "ex_dp = \<lparr>dp_services = Map.empty, dp_backends = Map.empty, dp_maglev = Map.empty\<rparr>"

lemma ex_installed_state: "w_services (ex_installed ext) ''ns/web'' = Some (ex_state ext)"
  by (simp add: ex_installed_def ex_state_def)


definition all_keys :: "Service \<Rightarrow> SvcKey set" where
  "all_keys svc = (\<Union>p \<in> set (svc_Ports svc). set (port_keys svc (serviceClusterIPs svc) (computeScopes svc) p))"

text \<open>The deletions of a service, as keys in the order in which they are sent.\<close>

definition delete_keys :: "Service \<Rightarrow> serviceState \<Rightarrow> SvcKey list" where
  "delete_keys svc st = concat (map (\<lambda>scope.
     concat (map (\<lambda>port. map (svc_key port scope) (st_clusterIPs st)) (svc_Ports svc))
     @ (if scope = ScopeExternalIP
        then concat (map (\<lambda>ip. map (\<lambda>port. ip_key port ScopeExternalIP ip) (svc_Ports svc)) (svc_ExternalIPs svc)) else [])
     @ (if scope = ScopeLoadBalancer
        then concat (map (\<lambda>ip. map (\<lambda>port. ip_key port ScopeLoadBalancer ip) (svc_Ports svc)) (filter (\<lambda>ip. ip \<noteq> '''') (svc_Ingress svc)))
        else [])) (st_scopes st))"

lemma deleteServiceLocked_rpcs:
  "w_services w (service_key svc) = Some st \<Longrightarrow> snd (deleteServiceLocked svc w) = map DeleteService (delete_keys svc st)"
  unfolding deleteServiceLocked_def delete_keys_def deleteClusterEntries_def
  by (simp add: Let_def map_concat o_def if_distrib [of "map DeleteService"] cong: if_cong)

lemma computeScopes_ext: "ScopeExternalIP \<in> set (computeScopes svc) \<longleftrightarrow> svc_ExternalIPs svc \<noteq> []"
  by (simp add: computeScopes_def const_defs)

lemma computeScopes_lb: "ScopeLoadBalancer \<in> set (computeScopes svc) \<longleftrightarrow> svc_Type svc = ''LoadBalancer''"
  by (simp add: computeScopes_def const_defs)

lemma UN_if_eq: "(\<Union>x \<in> S. if x = c then E else {}) = (if c \<in> S then E else {})"
  by auto

lemma UN_image_swap: "(\<Union>p \<in> P. f p ` X) = (\<Union>x \<in> X. (\<lambda>p. f p x) ` P)"
  by blast

lemma all_keys_parts:
  "all_keys svc =
     (\<Union>scope \<in> set (computeScopes svc). \<Union>p \<in> set (svc_Ports svc). svc_key p scope ` set (serviceClusterIPs svc))
     \<union> ((\<Union>ip \<in> set (svc_ExternalIPs svc). (\<lambda>p. ip_key p ScopeExternalIP ip) ` set (svc_Ports svc))
     \<union> (if svc_Type svc = ''LoadBalancer''
        then (\<Union>ip \<in> {ip \<in> set (svc_Ingress svc). ip \<noteq> ''''}. (\<lambda>p. ip_key p ScopeLoadBalancer ip) ` set (svc_Ports svc)) else {}))"
proof -
  have keys: "set (port_keys svc (serviceClusterIPs svc) (computeScopes svc) p) =
      (\<Union>scope \<in> set (computeScopes svc). svc_key p scope ` set (serviceClusterIPs svc))
      \<union> (ip_key p ScopeExternalIP ` set (svc_ExternalIPs svc)
      \<union> (if svc_Type svc = ''LoadBalancer'' then ip_key p ScopeLoadBalancer ` {ip \<in> set (svc_Ingress svc). ip \<noteq> ''''} else {}))" for p
    by (simp add: port_keys_def)
  show ?thesis
    unfolding all_keys_def keys UN_Un_distrib UN_image_swap [symmetric, of "\<lambda>p. ip_key p ScopeExternalIP"]
      UN_image_swap [symmetric, of "\<lambda>p. ip_key p ScopeLoadBalancer"]
    by (subst SUP_commute) simp
qed

lemma set_delete_keys:
  assumes "st_scopes st = computeScopes svc" "st_clusterIPs st = serviceClusterIPs svc"
  shows "set (delete_keys svc st) = all_keys svc"
proof -
  let ?P = "set (svc_Ports svc)" and ?S = "set (computeScopes svc)"
  let ?C = "\<lambda>scope. \<Union>p \<in> ?P. svc_key p scope ` set (serviceClusterIPs svc)"
  let ?E = "\<Union>ip \<in> set (svc_ExternalIPs svc). (\<lambda>p. ip_key p ScopeExternalIP ip) ` ?P"
  let ?L = "\<Union>ip \<in> {ip \<in> set (svc_Ingress svc). ip \<noteq> ''''}. (\<lambda>p. ip_key p ScopeLoadBalancer ip) ` ?P"
  have c: "set (concat (map (\<lambda>port. map (svc_key port scope) (serviceClusterIPs svc)) (svc_Ports svc))) = ?C scope" for scope
    by (simp only: set_concat set_map image_image)
  have e: "set (concat (map (\<lambda>ip. map (\<lambda>port. ip_key port ScopeExternalIP ip) (svc_Ports svc)) (svc_ExternalIPs svc))) = ?E"
    by (simp only: set_concat set_map image_image)
  have l: "set (concat (map (\<lambda>ip. map (\<lambda>port. ip_key port ScopeLoadBalancer ip) (svc_Ports svc)) (filter (\<lambda>ip. ip \<noteq> '''') (svc_Ingress svc)))) = ?L"
    by (simp only: set_concat set_map image_image set_filter)
  have el: "set (if P then xs else []) = (if P then set xs else {})" for P and xs :: "SvcKey list" by simp
  have "set (delete_keys svc st) = (\<Union>scope \<in> ?S. ?C scope \<union> ((if scope = ScopeExternalIP then ?E else {}) \<union> (if scope = ScopeLoadBalancer then ?L else {})))"
    unfolding delete_keys_def assms set_concat [of "map _ (computeScopes svc)"] set_map image_image set_append el c e l ..
  also have "\<dots> = (\<Union>scope \<in> ?S. ?C scope) \<union> ((if ScopeExternalIP \<in> ?S then ?E else {}) \<union> (if ScopeLoadBalancer \<in> ?S then ?L else {}))"
    by (simp only: UN_Un_distrib UN_if_eq)
  also have "(if ScopeExternalIP \<in> ?S then ?E else {}) = ?E" unfolding computeScopes_ext by simp
  also have "(if ScopeLoadBalancer \<in> ?S then ?L else {}) = (if svc_Type svc = ''LoadBalancer'' then ?L else {})"
    by (simp only: computeScopes_lb)
  finally show ?thesis unfolding all_keys_parts .
qed

lemma service_pairs_keys: "fst ` set (service_pairs w svc off backends alg moff) = all_keys svc"
proof (rule set_eqI)
  fix k
  have "k \<in> fst ` set (service_pairs w svc off backends alg moff) \<longleftrightarrow> (\<exists>e. (k, e) \<in> set (service_pairs w svc off backends alg moff))"
    by force
  also have "\<dots> \<longleftrightarrow> k \<in> all_keys svc" unfolding mem_service_pairs all_keys_def UN_iff Bex_def in_set_conv_nth [of _ "svc_Ports svc"] by blast
  finally show "k \<in> fst ` set (service_pairs w svc off backends alg moff) \<longleftrightarrow> k \<in> all_keys svc" .
qed

subsection \<open>Deleting what was installed\<close>

lemma restrict_add_keys: "dom q \<subseteq> K \<Longrightarrow> (m ++ q) |` (- K) = m |` (- K)"
  by (auto simp: fun_eq_iff restrict_map_def map_add_def split: option.split)

lemma free_slots_of_allocs:
  "w_allocator (free_slots_of old w) =
     (if 0 < st_backendCount old then Free (st_backendOffset old) (st_backendCount old) (w_allocator w) else w_allocator w)"
  "w_maglevAllocator (free_slots_of old w) =
     (if st_algorithm old = AlgMaglev \<and> 0 < st_maglevOffset old
      then Free (st_maglevOffset old) 65537 (w_maglevAllocator w) else w_maglevAllocator w)"
  by (simp_all add: free_slots_of_def Let_def MaglevTableSize_def)



subsection \<open>Maglev tables\<close>

text \<open>
  The Maglev table at offset 0 is lost: once the service that was given it is deleted, none of its
  65537 entries is ever free again and no service is ever given one of them, in any later state.
\<close>

theorem maglev_offset_zero_leaks:
  assumes "0 < N" "watcher_run N alg dsr w" "w_services w (service_key svc) = Some st"
    and "st_algorithm st = AlgMaglev" "st_maglevOffset st = 0"
    and "watch_step\<^sup>*\<^sup>* (fst (deleteService svc w)) w'"
  shows "free_slots (w_maglevAllocator w') \<inter> {..<65537} = {} \<and>
    (\<forall>k s. w_services w' k = Some s \<and> st_algorithm s = AlgMaglev \<longrightarrow> 65537 \<le> unat (st_maglevOffset s))"
proof -
  obtain U where inv: "W_inv N U w" using watcher_run_inv [OF assms(1,2)] by blast
  have leak: "leaks_table (service_key svc) w" using assms(3-5) by (simp add: leaks_table_def)
  have "W_inv N (U - block 0 65537) (fst (deleteService svc w))"
    using drop_service_inv [OF inv, of "service_key svc"] leak by (simp add: deleteService_def deleteServiceLocked_state accounted_def)
  from watch_run_inv [OF assms(6) this] obtain U' where U': "U' \<subseteq> U - block 0 65537" "W_inv N U' w'" by blast
  then have led: "ledger U' (free_slots (w_maglevAllocator w')) (maglev_blocks w')" by (simp add: W_inv_def)
  have no: "U' \<inter> {..<65537} = {}" using U'(1) by (auto simp: block_def)
  moreover have "free_slots (w_maglevAllocator w') \<subseteq> U'" using led by (simp add: ledger_def)
  moreover have "65537 \<le> unat (st_maglevOffset s)" if "w_services w' k = Some s" "st_algorithm s = AlgMaglev" for k s
  proof -
    have "maglev_blocks w' k = Some (st_maglevOffset s, 65537)" using that by (simp add: maglev_blocks_def)
    from ledgerD(1) [OF led this] have "unat (st_maglevOffset s) \<in> U'" by (auto simp: block_def)
    then show ?thesis using no by (metis disjoint_iff lessThan_iff not_le)
  qed
  ultimately show ?thesis by blast
qed

lemma maglev_part_total:
  assumes "svc_Ports svc \<noteq> [] \<or> alg \<noteq> AlgMaglev" "backends \<noteq> []" "length backends < 2 ^ 32 - 1"
  shows "maglev_part alg backends svc w \<noteq> None"
proof (cases "svc_Ports svc")
  case (Cons port ps)
  let ?bs = "map (\<lambda>be. be_ip be @ '':'' @ dec_str (unat (resolveTargetPort port be))) backends"
  have "?bs \<noteq> []" "length ?bs < 2 ^ 32 - 1" using assms(2,3) by simp_all
  then obtain table where "GenerateMaglevTable ?bs (int 65537) = Some table"
    using GenerateMaglevTable_ok [OF good_size_65537] by blast
  then show ?thesis using Cons
    by (simp add: maglev_part_def MaglevTableSize_def split: option.split)
qed (use assms(1) in \<open>simp add: maglev_part_def\<close>)

text \<open>
  (C30) A reconciliation always returns, with no panic and no endless loop, for every service that has a port
  and in every state of the watcher, whatever the algorithm and whatever the allocators hold.
\<close>

theorem reconcile_returns:
  assumes "svc_Ports svc \<noteq> [] \<or> resolveAlgorithm w \<noteq> AlgMaglev" "length (collectBackends epsStore svc) < 2 ^ 32 - 1"
  shows "\<exists>w' rpcs. reconcileService epsStore svc w = Some (w', rpcs)"
proof (cases "serviceClusterIPs svc = [] \<or> collectBackends epsStore svc = []")
  case True
  then show ?thesis by (auto simp: reconcileService_def Let_def split: prod.split)
next
  case False
  let ?bs = "collectBackends epsStore svc"
  obtain w1 freed where fr: "(case w_services w (service_key svc) of Some old \<Rightarrow> freeOldState svc old w | None \<Rightarrow> (w, [])) = (w1, freed)"
    by fastforce
  show ?thesis
  proof (cases "Alloc (intToU32 (int (length ?bs * length (svc_Ports svc)))) (w_allocator w1)")
    case None
    then show ?thesis using False fr by (simp add: reconcileService_def Let_def)
  next
    case (Some p)
    obtain off a where p: "p = (off, a)" by (cases p)
    have "maglev_part (resolveAlgorithm w) ?bs svc (w1\<lparr>w_allocator := a\<rparr>) \<noteq> None"
      using False by (intro maglev_part_total [OF assms(1) _ assms(2)]) simp
    then obtain alg moff mr w3 where "maglev_part (resolveAlgorithm w) ?bs svc (w1\<lparr>w_allocator := a\<rparr>) = Some (alg, moff, mr, w3)"
      by (cases "maglev_part (resolveAlgorithm w) ?bs svc (w1\<lparr>w_allocator := a\<rparr>)") auto
    then show ?thesis using False fr Some p by (simp add: reconcileService_def Let_def)
  qed
qed

theorem reconcile_returns_witness:
  "\<exists>w' rpcs. reconcileService (Some [ex_slice]) (ex_svc ''web'' []) (NewWatcher (NewSlotAllocator 64) ''maglev'' False) = Some (w', rpcs)"
  by (rule reconcile_returns) (simp_all add: ex_parts ex_collect)

lemma ex_maglev_alg: "resolveAlgorithm (NewWatcher (NewSlotAllocator 64) ''maglev'' False) = AlgMaglev"
  by (simp add: resolveAlgorithm_def NewWatcher_def lower_char_def)

lemma ex_maglev_Alloc: "Alloc 65537 (NewSlotAllocator 1048576) = Some (0, \<lparr>sa_maxSlots = 1048576, sa_free = [\<lparr>sr_offset = 65537, sr_count = 983039\<rparr>]\<rparr>)"
  by (simp add: Alloc_def NewSlotAllocator_def)

lemma NewWatcher_sel:
  "w_services (NewWatcher a alg dsr) = Map.empty" "w_allocator (NewWatcher a alg dsr) = a"
  "w_maglevAllocator (NewWatcher a alg dsr) = NewSlotAllocator 1048576"
  by (simp_all add: NewWatcher_def)

lemma ex_maglev_service:
  "\<exists>w st rpcs. reconcileService (Some [ex_slice]) (ex_svc ''web'' []) (NewWatcher (NewSlotAllocator 64) ''maglev'' False) = Some (w, rpcs) \<and>
    w_services w ''ns/web'' = Some st \<and> st_algorithm st = AlgMaglev \<and> st_maglevOffset st = 0"
proof -
  let ?w = "NewWatcher (NewSlotAllocator 64) ''maglev'' False"
  let ?a = "\<lparr>sa_maxSlots = 64, sa_free = [\<lparr>sr_offset = 1, sr_count = 63\<rparr>]\<rparr> :: SlotAllocator"
  let ?b = "be_ip ex_backend @ '':'' @ dec_str (unat (resolveTargetPort ex_port ex_backend))"
  obtain table where t: "GenerateMaglevTable [?b] (int 65537) = Some table"
    using GenerateMaglevTable_ok [OF good_size_65537, of "[?b]"] by auto
  obtain mr w3 where m: "maglev_part AlgMaglev [ex_backend] (ex_svc ''web'' []) (?w\<lparr>w_allocator := ?a\<rparr>) = Some (AlgMaglev, 0, mr, w3)"
      "w_services w3 = Map.empty"
    using t by (simp add: maglev_part_def MaglevTableSize_def NewWatcher_sel ex_maglev_Alloc ex_parts)
  show ?thesis
    by (simp add: reconcileService_def ex_parts ex_collect ex_maglev_alg intToU32_def Let_def NewWatcher_sel ex_Alloc m)
qed

theorem maglev_offset_zero_leaks_witness:
  "\<exists>w st. watcher_run 64 ''maglev'' False w \<and> w_services w ''ns/web'' = Some st \<and> st_algorithm st = AlgMaglev \<and>
    free_slots (w_maglevAllocator (fst (deleteService (ex_svc ''web'' []) w))) \<inter> {..<65537} = {}"
proof -
  let ?w = "NewWatcher (NewSlotAllocator 64) ''maglev'' False"
  obtain w st rpcs where r: "reconcileService (Some [ex_slice]) (ex_svc ''web'' []) ?w = Some (w, rpcs)"
    and st: "w_services w ''ns/web'' = Some st" "st_algorithm st = AlgMaglev" "st_maglevOffset st = 0" using ex_maglev_service by blast
  have "watch_step ?w w" using step_service [of "Some [ex_slice]" "Some (ex_svc ''web'' [])"] r by (simp add: onServiceChange_def)
  then have run: "watcher_run 64 ''maglev'' False w" by (rule r_into_rtranclp)
  have "w_services w (service_key (ex_svc ''web'' [])) = Some st" using st(1) by (simp add: ex_parts)
  from maglev_offset_zero_leaks [OF _ run this st(2,3) rtranclp.rtrancl_refl]
  have "free_slots (w_maglevAllocator (fst (deleteService (ex_svc ''web'' []) w))) \<inter> {..<65537} = {}" by simp
  then show ?thesis using run st by blast
qed

subsection \<open>Stale entries\<close>

text \<open>
  Entries of external addresses outlive their service: when the last ready endpoint of a service
  disappears, the watcher frees the backend slots and forgets the service but deletes only the entries
  of the cluster address, so the entry of the external address stays in the dataplane and points at
  slots that the next service will be given.
\<close>

theorem external_ip_entry_stale:
  "\<exists>rpcs1 w2 rpcs2 e.
     reconcileService (Some [ex_slice]) (ex_svc ''web'' [''1.2.3.4'']) ex_watcher = Some (ex_installed [''1.2.3.4''], rpcs1) \<and>
     reconcileService (Some []) (ex_svc ''web'' [''1.2.3.4'']) (ex_installed [''1.2.3.4'']) = Some (w2, rpcs2) \<and>
     w_services w2 = Map.empty \<and> w_allocator w2 = NewSlotAllocator 64 \<and>
     dp_services (dp_run (rpcs1 @ rpcs2) ex_dp) \<lparr>sk_Ip = ''1.2.3.4'', sk_Port = 80, sk_Protocol = 6, sk_Scope = ScopeExternalIP\<rparr> = Some e \<and>
     se_BackendCount e = 1"
proof -
  let ?svc = "ex_svc ''web'' [''1.2.3.4'']" and ?w = "ex_installed [''1.2.3.4'']"
  let ?k = "\<lparr>sk_Ip = ''1.2.3.4'', sk_Port = 80, sk_Protocol = 6, sk_Scope = ScopeExternalIP\<rparr> :: SvcKey"
  obtain rpcs1 where r: "reconcileService (Some [ex_slice]) ?svc ex_watcher = Some (?w, rpcs1)" using ex_reconcile by blast
  have sv: "computeScopes ?svc = [ScopeClusterIP, ScopeExternalIP]" "svc_ExternalIPs ?svc = [''1.2.3.4'']"
    by (simp_all add: computeScopes_def ex_svc_def)
  have pd: "ports_distinct ?svc" by (simp add: ports_distinct_def computeScopes_def ex_parts)
  have k: "?k \<in> set (port_keys ?svc (serviceClusterIPs ?svc) (computeScopes ?svc) (svc_Ports ?svc ! 0))"
    by (simp add: port_keys_def ex_parts sv ip_key_def ex_port_def portToU32_def ProtocolToNumber_def const_defs)
  have e1: "\<exists>e. dp_services (dp_run rpcs1 ex_dp) ?k = Some e \<and> se_BackendCount e = 1"
    using r
  proof (cases rule: reconcile_cases)
    case dropped
    then show ?thesis using ex_installed_state [of "[''1.2.3.4'']"] by (simp add: ex_parts drop_service_def)
  next
    case (installed off a alg' moff mrpcs w3 freed)
    have "dp_services (dp_run rpcs1 ex_dp) ?k = Some (port_entry w3 ?svc off [ex_backend] alg' moff 0)"
      unfolding installed(6) dp_run_append upsertServiceEntries_pairs dp_run_upserts
      using service_pairs_lookup [OF pd _ k] by (simp add: map_add_def ex_parts ex_collect)
    then show ?thesis by (simp add: port_entry_def intToU32_def)
  qed
  define ks where "ks = [svc_key ex_port ScopeClusterIP ''10.96.0.1'', svc_key ex_port ScopeExternalIP ''10.96.0.1'']"
  have fr: "freeOldState ?svc (ex_state [''1.2.3.4'']) ?w = (free_slots_of (ex_state [''1.2.3.4'']) ?w, map DeleteService ks)"
    by (simp add: freeOldState_def deleteClusterEntries_def ex_state_def sv ex_parts ks_def)
  have al: "w_allocator (free_slots_of (ex_state [''1.2.3.4'']) ?w) = NewSlotAllocator 64"
    by (simp add: free_slots_of_allocs ex_state_def ex_installed_def Free_def merge_free_def merge_step_def NewSlotAllocator_def)
  have "\<exists>w2. reconcileService (Some []) ?svc ?w = Some (w2, map DeleteService ks) \<and> w_services w2 = Map.empty \<and> w_allocator w2 = NewSlotAllocator 64"
    using ex_installed_state [of "[''1.2.3.4'']"] fr al
    by (simp add: reconcileService_def ex_parts collectBackends_def Let_def) (simp add: ex_installed_def map_del_def)
  moreover have "dp_services (dp_run (rpcs1 @ map DeleteService ks) ex_dp) ?k = dp_services (dp_run rpcs1 ex_dp) ?k"
    unfolding dp_run_append dp_run_deletes by (simp add: ks_def svc_key_def serviceIPForScope_def const_defs)
  ultimately show ?thesis using r e1 by (metis (no_types, lifting))
qed

end
