(* ===== verification/Dataplane_Server.thy ===== *)
theory Dataplane_Server
  imports Dataplane_Types Service_Watcher
begin

text \<open>
  The dataplane process: the gRPC service that the agent calls (\<open>dataplane/novanet-dataplane/src/server.rs\<close>)
  and the map layer under it (\<open>RealMaps\<close> of \<open>maps.rs\<close>).

  A handler returns the error it answers with, if any, and the maps; what it wrote before an error
  stays written. Protobuf enumerations arrive as integers. The requests of the service watcher are the
  messages of \<open>Service_Watcher\<close>, so the calls of the watcher can be run against the maps.
\<close>

section \<open>Status codes and parsing\<close>

datatype Status = InvalidArgument | Internal

text \<open>
  \<open>str::parse::<IpAddr>\<close> accepts the texts of \<open>netip.ParseAddr\<close> that have no zone, and tells the two families apart.
\<close>

datatype IpAddr = V4 "u8 list" | V6 "u8 list"

definition parse_ip :: "string \<Rightarrow> IpAddr option" where
  "parse_ip s =
     (case ParseAddr s of
        Some (Addr4 a) \<Rightarrow> Some (V4 a)
      | Some (Addr6 a z) \<Rightarrow> if z = [] then Some (V6 a) else None
      | None \<Rightarrow> None)"

definition PolicyAction_try_from :: "int \<Rightarrow> u8" where
  "PolicyAction_try_from a = (if a = 1 then ACTION_ALLOW else ACTION_DENY)"

definition EgressAction_try_from :: "int \<Rightarrow> u8" where
  "EgressAction_try_from a = (if a = 1 then EGRESS_ALLOW else if a = 2 then EGRESS_SNAT else EGRESS_DENY)"

text \<open>Storing the result of a map operation, or answering with an internal error.\<close>

definition store :: "('a \<Rightarrow> Maps) \<Rightarrow> Maps \<Rightarrow> 'a option \<Rightarrow> Status option \<times> Maps" where
  "store put m r = (case r of None \<Rightarrow> (Some Internal, m) | Some a \<Rightarrow> (None, put a))"

section \<open>Endpoints\<close>

record UpsertEndpointRequest =
  ue_ip :: string
  ue_ifindex :: u32
  ue_mac :: "u8 list"
  ue_identity_id :: u32
  ue_node_ip :: string

definition upsert_endpoint :: "UpsertEndpointRequest \<Rightarrow> Maps \<Rightarrow> Status option \<times> Maps" where
  "upsert_endpoint req m =
     (if length (ue_mac req) \<noteq> 6 then (Some InvalidArgument, m)
      else (case (parse_ip (ue_ip req), parse_ip (ue_node_ip req)) of
              (Some (V4 v4), Some (V4 node_v4)) \<Rightarrow>
                store (\<lambda>x. m\<lparr>m_endpoints := x\<rparr>) m
                  (hm_insert MAX_ENDPOINTS \<lparr>ek_ip = ipv4_to_u32 v4\<rparr>
                     \<lparr>ev_ifindex = ue_ifindex req, ev_mac = ue_mac req, ev_identity = ue_identity_id req,
                      ev_node_ip = ipv4_to_u32 node_v4\<rparr> (m_endpoints m))
            | (Some (V6 v6), Some (V6 node_v6)) \<Rightarrow>
                store (\<lambda>x. m\<lparr>m_endpoints_v6 := Some x\<rparr>) m
                  (Option.bind (m_endpoints_v6 m)
                     (hm_insert MAX_ENDPOINTS \<lparr>ek6_ip = v6\<rparr>
                        \<lparr>ev6_ifindex = ue_ifindex req, ev6_mac = ue_mac req, ev6_identity = ue_identity_id req,
                         ev6_node_ip = node_v6\<rparr>))
            | _ \<Rightarrow> (Some InvalidArgument, m)))"

definition delete_endpoint :: "string \<Rightarrow> Maps \<Rightarrow> Status option \<times> Maps" where
  "delete_endpoint ip m =
     (case parse_ip ip of
        None \<Rightarrow> (Some InvalidArgument, m)
      | Some (V4 v4) \<Rightarrow> store (\<lambda>x. m\<lparr>m_endpoints := x\<rparr>) m (hm_remove \<lparr>ek_ip = ipv4_to_u32 v4\<rparr> (m_endpoints m))
      | Some (V6 v6) \<Rightarrow>
          store (\<lambda>x. m\<lparr>m_endpoints_v6 := Some x\<rparr>) m (Option.bind (m_endpoints_v6 m) (hm_remove \<lparr>ek6_ip = v6\<rparr>)))"

section \<open>Policies\<close>

record PolicyEntry =
  pe_src_identity :: u32
  pe_dst_identity :: u32
  pe_protocol :: u32
  pe_dst_port :: u32
  pe_action :: int

definition policy_key :: "PolicyEntry \<Rightarrow> PolicyKey" where
  "policy_key req =
     \<lparr>pk_src_identity = pe_src_identity req, pk_dst_identity = pe_dst_identity req,
      pk_protocol = ucast (pe_protocol req), pk_dst_port = ucast (pe_dst_port req)\<rparr>"

definition policy_value :: "PolicyEntry \<Rightarrow> PolicyValue" where
  "policy_value req = \<lparr>pv_action = PolicyAction_try_from (pe_action req)\<rparr>"

definition upsert_policy :: "PolicyEntry \<Rightarrow> Maps \<Rightarrow> Status option \<times> Maps" where
  "upsert_policy req m =
     store (\<lambda>x. m\<lparr>m_policies := x\<rparr>) m (hm_insert MAX_POLICIES (policy_key req) (policy_value req) (m_policies m))"

definition delete_policy :: "PolicyEntry \<Rightarrow> Maps \<Rightarrow> Status option \<times> Maps" where
  "delete_policy req m = store (\<lambda>x. m\<lparr>m_policies := x\<rparr>) m (hm_remove (policy_key req) (m_policies m))"

text \<open>
  \<open>RealMaps::sync_policies\<close>. The comparison is with the entries found at the start (\<open>existing\<close>), not with
  what the loop itself has written. The result has the number of added and updated entries; the first
  component is false when an insertion failed.
\<close>

fun sync_insert ::
  "(PolicyKey \<rightharpoonup> PolicyValue) \<Rightarrow> (PolicyKey \<times> PolicyValue) list \<Rightarrow> nat \<Rightarrow> nat \<Rightarrow> (PolicyKey \<rightharpoonup> PolicyValue) \<Rightarrow>
   bool \<times> nat \<times> nat \<times> (PolicyKey \<rightharpoonup> PolicyValue)" where
  "sync_insert existing [] added updated mp = (True, added, updated, mp)"
| "sync_insert existing ((key, val) # ps) added updated mp =
     (case existing key of
        Some old \<Rightarrow>
          if pv_action old = pv_action val then sync_insert existing ps added updated mp
          else (case hm_insert MAX_POLICIES key val mp of
                  None \<Rightarrow> (False, added, updated, mp)
                | Some mp' \<Rightarrow> sync_insert existing ps added (Suc updated) mp')
      | None \<Rightarrow>
          (case hm_insert MAX_POLICIES key val mp of
             None \<Rightarrow> (False, added, updated, mp)
           | Some mp' \<Rightarrow> sync_insert existing ps (Suc added) updated mp'))"

definition stale_keys :: "(PolicyKey \<times> PolicyValue) list \<Rightarrow> (PolicyKey \<rightharpoonup> PolicyValue) \<Rightarrow> (PolicyKey \<rightharpoonup> PolicyValue)" where
  "stale_keys ps existing = (\<lambda>k. if k \<in> fst ` set ps then None else existing k)"

definition maps_sync_policies ::
  "(PolicyKey \<times> PolicyValue) list \<Rightarrow> (PolicyKey \<rightharpoonup> PolicyValue) \<Rightarrow> (nat \<times> nat \<times> nat) option \<times> (PolicyKey \<rightharpoonup> PolicyValue)" where
  "maps_sync_policies ps existing =
     (case sync_insert existing ps 0 0 existing of
        (ok, added, updated, mp) \<Rightarrow>
          if \<not> ok then (None, mp)
          else (Some (added, map_len (stale_keys ps existing), updated),
                (\<lambda>k. if stale_keys ps existing k = None then mp k else None)))"

definition sync_policies :: "PolicyEntry list \<Rightarrow> Maps \<Rightarrow> (Status + nat \<times> nat \<times> nat) \<times> Maps" where
  "sync_policies entries m =
     (case maps_sync_policies (map (\<lambda>e. (policy_key e, policy_value e)) entries) (m_policies m) of
        (None, mp) \<Rightarrow> (Inl Internal, m\<lparr>m_policies := mp\<rparr>)
      | (Some counts, mp) \<Rightarrow> (Inr counts, m\<lparr>m_policies := mp\<rparr>))"

section \<open>Egress policies\<close>

record EgressPolicyRequest =
  ge_src_identity :: u32
  ge_dst_cidr :: string
  ge_dst_cidr_prefix_len :: u32
  ge_action :: int
  ge_snat_ip :: string

definition cidr_str :: "string \<Rightarrow> string" where
  "cidr_str s = takeWhile (\<lambda>c. c \<noteq> CHR ''/'') s"

definition upsert_egress_policy :: "EgressPolicyRequest \<Rightarrow> Maps \<Rightarrow> Status option \<times> Maps" where
  "upsert_egress_policy req m =
     (case (parse_ip (cidr_str (ge_dst_cidr req)), parse_ip (ge_snat_ip req)) of
        (Some (V4 dst_v4), Some (V4 snat_v4)) \<Rightarrow>
          store (\<lambda>x. m\<lparr>m_egress := x\<rparr>) m
            (hm_insert MAX_EGRESS_POLICIES
               \<lparr>gk_src_identity = ge_src_identity req, gk_dst_ip = ipv4_to_u32 dst_v4,
                gk_dst_prefix_len = ucast (ge_dst_cidr_prefix_len req)\<rparr>
               \<lparr>gv_action = EgressAction_try_from (ge_action req), gv_snat_ip = ipv4_to_u32 snat_v4\<rparr> (m_egress m))
      | (Some (V6 dst_v6), Some (V6 snat_v6)) \<Rightarrow>
          store (\<lambda>x. m\<lparr>m_egress_v6 := Some x\<rparr>) m
            (Option.bind (m_egress_v6 m)
              (hm_insert MAX_EGRESS_POLICIES
                 \<lparr>gk6_src_identity = ge_src_identity req, gk6_dst_ip = dst_v6,
                  gk6_dst_prefix_len = ucast (ge_dst_cidr_prefix_len req)\<rparr>
                 \<lparr>gv6_action = EgressAction_try_from (ge_action req), gv6_snat_ip = snat_v6\<rparr>))
      | _ \<Rightarrow> (Some InvalidArgument, m))"

definition delete_egress_policy :: "u32 \<Rightarrow> string \<Rightarrow> u32 \<Rightarrow> Maps \<Rightarrow> Status option \<times> Maps" where
  "delete_egress_policy src_identity dst_cidr prefix_len m =
     (case parse_ip (cidr_str dst_cidr) of
        None \<Rightarrow> (Some InvalidArgument, m)
      | Some (V4 dst_v4) \<Rightarrow>
          store (\<lambda>x. m\<lparr>m_egress := x\<rparr>) m
            (hm_remove \<lparr>gk_src_identity = src_identity, gk_dst_ip = ipv4_to_u32 dst_v4,
                        gk_dst_prefix_len = ucast prefix_len\<rparr> (m_egress m))
      | Some (V6 dst_v6) \<Rightarrow>
          store (\<lambda>x. m\<lparr>m_egress_v6 := Some x\<rparr>) m
            (Option.bind (m_egress_v6 m)
              (hm_remove \<lparr>gk6_src_identity = src_identity, gk6_dst_ip = dst_v6, gk6_dst_prefix_len = ucast prefix_len\<rparr>)))"

section \<open>Services\<close>

definition service_value :: "SvcEntry \<Rightarrow> ServiceValue" where
  "service_value e =
     \<lparr>sv_backend_count = ucast (se_BackendCount e), sv_backend_offset = ucast (se_BackendOffset e),
      sv_algorithm = ucast (se_Algorithm e), sv_flags = ucast (se_Flags e),
      sv_affinity_timeout = ucast (se_AffinityTimeout e), sv_maglev_offset = se_MaglevOffset e\<rparr>"

definition service_key4 :: "u8 list \<Rightarrow> SvcKey \<Rightarrow> ServiceKey" where
  "service_key4 v4 k =
     \<lparr>sk_ip = ipv4_to_u32 v4, sk_port = ucast (sk_Port k), sk_protocol = ucast (sk_Protocol k), sk_scope = ucast (sk_Scope k)\<rparr>"

definition service_key6 :: "u8 list \<Rightarrow> SvcKey \<Rightarrow> ServiceKeyV6" where
  "service_key6 v6 k =
     \<lparr>sk6_ip = v6, sk6_port = ucast (sk_Port k), sk6_protocol = ucast (sk_Protocol k), sk6_scope = ucast (sk_Scope k)\<rparr>"

definition upsert_service :: "SvcKey \<Rightarrow> SvcEntry \<Rightarrow> Maps \<Rightarrow> Status option \<times> Maps" where
  "upsert_service k e m =
     (case parse_ip (sk_Ip k) of
        None \<Rightarrow> (Some InvalidArgument, m)
      | Some (V4 v4) \<Rightarrow>
          store (\<lambda>x. m\<lparr>m_services := x\<rparr>) m (hm_insert MAX_SERVICES (service_key4 v4 k) (service_value e) (m_services m))
      | Some (V6 v6) \<Rightarrow>
          store (\<lambda>x. m\<lparr>m_services_v6 := Some x\<rparr>) m
            (Option.bind (m_services_v6 m) (hm_insert MAX_SERVICES (service_key6 v6 k) (service_value e))))"

definition delete_service :: "SvcKey \<Rightarrow> Maps \<Rightarrow> Status option \<times> Maps" where
  "delete_service k m =
     (case parse_ip (sk_Ip k) of
        None \<Rightarrow> (Some InvalidArgument, m)
      | Some (V4 v4) \<Rightarrow> store (\<lambda>x. m\<lparr>m_services := x\<rparr>) m (hm_remove (service_key4 v4 k) (m_services m))
      | Some (V6 v6) \<Rightarrow>
          store (\<lambda>x. m\<lparr>m_services_v6 := Some x\<rparr>) m (Option.bind (m_services_v6 m) (hm_remove (service_key6 v6 k))))"

definition upsert_backend :: "BackendEntry \<Rightarrow> Maps \<Rightarrow> Status option \<times> Maps" where
  "upsert_backend b m =
     (case (parse_ip (bk_Ip b), parse_ip (bk_NodeIp b)) of
        (Some (V4 v4), Some (V4 node_v4)) \<Rightarrow>
          store (\<lambda>x. m\<lparr>m_backends := x\<rparr>) m
            (arr_set MAX_BACKENDS (bk_Index b)
               \<lparr>bv_ip = ipv4_to_u32 v4, bv_port = ucast (bk_Port b), bv_node_ip = ipv4_to_u32 node_v4\<rparr> (m_backends m))
      | (Some (V6 v6), Some (V6 node_v6)) \<Rightarrow>
          store (\<lambda>x. m\<lparr>m_backends_v6 := Some x\<rparr>) m
            (Option.bind (m_backends_v6 m)
              (arr_set MAX_BACKENDS (bk_Index b) \<lparr>bv6_ip = v6, bv6_port = ucast (bk_Port b), bv6_node_ip = node_v6\<rparr>))
      | _ \<Rightarrow> (Some InvalidArgument, m))"

fun upsert_backends :: "BackendEntry list \<Rightarrow> Maps \<Rightarrow> Status option \<times> Maps" where
  "upsert_backends [] m = (None, m)"
| "upsert_backends (b # bs) m =
     (case upsert_backend b m of (Some e, m') \<Rightarrow> (Some e, m') | (None, m') \<Rightarrow> upsert_backends bs m')"

fun upsert_services :: "(SvcKey \<times> SvcEntry) list \<Rightarrow> Maps \<Rightarrow> Status option \<times> Maps" where
  "upsert_services [] m = (None, m)"
| "upsert_services ((k, e) # ss) m =
     (case upsert_service k e m of (Some err, m') \<Rightarrow> (Some err, m') | (None, m') \<Rightarrow> upsert_services ss m')"

text \<open>\<open>clear_services\<close> removes the IPv4 entries; \<open>clear_backends\<close> does nothing, array maps cannot be cleared.\<close>

definition sync_services :: "(SvcKey \<times> SvcEntry) list \<Rightarrow> BackendEntry list \<Rightarrow> Maps \<Rightarrow> (Status + nat \<times> nat) \<times> Maps" where
  "sync_services services backends m =
     (case upsert_services services (m\<lparr>m_services := Map.empty\<rparr>) of
        (Some e, m1) \<Rightarrow> (Inl e, m1)
      | (None, m1) \<Rightarrow>
          (case upsert_backends backends m1 of
             (Some e, m2) \<Rightarrow> (Inl e, m2)
           | (None, m2) \<Rightarrow> (Inr (length services, length backends), m2)))"

fun upsert_maglev_table :: "u32 \<Rightarrow> u32 list \<Rightarrow> Maps \<Rightarrow> Status option \<times> Maps" where
  "upsert_maglev_table map_index [] m = (None, m)"
| "upsert_maglev_table map_index (backend_index # es) m =
     (case arr_set MAX_MAGLEV map_index backend_index (m_maglev m) of
        None \<Rightarrow> (Some Internal, m)
      | Some t \<Rightarrow> upsert_maglev_table (map_index + 1) es (m\<lparr>m_maglev := t\<rparr>))"

section \<open>Tunnels, configuration and the service interfaces\<close>

definition upsert_tunnel :: "string \<Rightarrow> u32 \<Rightarrow> u32 \<Rightarrow> Maps \<Rightarrow> Status option \<times> Maps" where
  "upsert_tunnel node_ip ifindex vni m =
     (case parse_ip node_ip of
        None \<Rightarrow> (Some InvalidArgument, m)
      | Some (V4 v4) \<Rightarrow>
          store (\<lambda>x. m\<lparr>m_tunnels := x\<rparr>) m
            (hm_insert MAX_TUNNELS \<lparr>tk_node_ip = ipv4_to_u32 v4\<rparr>
               \<lparr>tv_ifindex = ifindex, tv_remote_ip = ipv4_to_u32 v4, tv_vni = vni\<rparr> (m_tunnels m))
      | Some (V6 v6) \<Rightarrow>
          store (\<lambda>x. m\<lparr>m_tunnels_v6 := Some x\<rparr>) m
            (Option.bind (m_tunnels_v6 m)
              (hm_insert MAX_TUNNELS \<lparr>tk6_node_ip = v6\<rparr> \<lparr>tv6_ifindex = ifindex, tv6_remote_ip = v6, tv6_vni = vni\<rparr>)))"

definition delete_tunnel :: "string \<Rightarrow> Maps \<Rightarrow> Status option \<times> Maps" where
  "delete_tunnel node_ip m =
     (case parse_ip node_ip of
        None \<Rightarrow> (Some InvalidArgument, m)
      | Some (V4 v4) \<Rightarrow> store (\<lambda>x. m\<lparr>m_tunnels := x\<rparr>) m (hm_remove \<lparr>tk_node_ip = ipv4_to_u32 v4\<rparr> (m_tunnels m))
      | Some (V6 v6) \<Rightarrow>
          store (\<lambda>x. m\<lparr>m_tunnels_v6 := Some x\<rparr>) m (Option.bind (m_tunnels_v6 m) (hm_remove \<lparr>tk6_node_ip = v6\<rparr>)))"

text \<open>\<open>entries\<close> is the request's map in the order in which it is iterated.\<close>

fun update_config :: "(u32 \<times> u64) list \<Rightarrow> Maps \<Rightarrow> Status option \<times> Maps" where
  "update_config [] m = (None, m)"
| "update_config ((k, v) # es) m =
     (case hm_insert MAX_CONFIG_ENTRIES k v (m_config m) of
        None \<Rightarrow> (Some Internal, m)
      | Some c \<Rightarrow> update_config es (m\<lparr>m_config := c\<rparr>))"

definition upsert_sockmap_endpoint :: "string \<Rightarrow> u32 \<Rightarrow> Maps \<Rightarrow> Status option \<times> Maps" where
  "upsert_sockmap_endpoint ip port m =
     (case parse_ip ip of
        Some (V4 v4) \<Rightarrow>
          store (\<lambda>x. m\<lparr>m_sockmap_endpoints := x\<rparr>) m
            (hm_insert 4096 \<lparr>se_ip = ipv4_to_u32 v4, se_port = port\<rparr> 1 (m_sockmap_endpoints m))
      | _ \<Rightarrow> (Some InvalidArgument, m))"

definition delete_sockmap_endpoint :: "string \<Rightarrow> u32 \<Rightarrow> Maps \<Rightarrow> Status option \<times> Maps" where
  "delete_sockmap_endpoint ip port m =
     (case parse_ip ip of
        Some (V4 v4) \<Rightarrow>
          store (\<lambda>x. m\<lparr>m_sockmap_endpoints := x\<rparr>) m
            (hm_remove \<lparr>se_ip = ipv4_to_u32 v4, se_port = port\<rparr> (m_sockmap_endpoints m))
      | _ \<Rightarrow> (Some InvalidArgument, m))"

definition upsert_mesh_service :: "string \<Rightarrow> u32 \<Rightarrow> u32 \<Rightarrow> Maps \<Rightarrow> Status option \<times> Maps" where
  "upsert_mesh_service ip port redirect_port m =
     (case parse_ip ip of
        Some (V4 v4) \<Rightarrow>
          store (\<lambda>x. m\<lparr>m_mesh_services := x\<rparr>) m
            (hm_insert 4096 \<lparr>mk_ip = ipv4_to_u32 v4, mk_port = port\<rparr> \<lparr>mr_redirect_port = redirect_port\<rparr> (m_mesh_services m))
      | _ \<Rightarrow> (Some InvalidArgument, m))"

definition delete_mesh_service :: "string \<Rightarrow> u32 \<Rightarrow> Maps \<Rightarrow> Status option \<times> Maps" where
  "delete_mesh_service ip port m =
     (case parse_ip ip of
        Some (V4 v4) \<Rightarrow>
          store (\<lambda>x. m\<lparr>m_mesh_services := x\<rparr>) m
            (hm_remove \<lparr>mk_ip = ipv4_to_u32 v4, mk_port = port\<rparr> (m_mesh_services m))
      | _ \<Rightarrow> (Some InvalidArgument, m))"

definition update_rate_limit_config :: "u32 \<Rightarrow> u32 \<Rightarrow> u64 \<Rightarrow> Maps \<Rightarrow> Maps" where
  "update_rate_limit_config rate burst window_ns m =
     m\<lparr>m_rl_config := \<lparr>rl_rate = rate, rl_burst = burst, rl_window_ns = window_ns\<rparr>\<rparr>"

text \<open>\<open>get_backend_health\<close>: the counters of a backend over all CPUs.\<close>

definition combine_counters :: "BackendHealthCounters \<Rightarrow> BackendHealthCounters \<Rightarrow> BackendHealthCounters" where
  "combine_counters c v =
     \<lparr>hc_total_conns = hc_total_conns c + hc_total_conns v, hc_failed_conns = hc_failed_conns c + hc_failed_conns v,
      hc_timeout_conns = hc_timeout_conns c + hc_timeout_conns v, hc_success_conns = hc_success_conns c + hc_success_conns v,
      hc_last_success_ns = (if hc_last_success_ns v > hc_last_success_ns c then hc_last_success_ns v else hc_last_success_ns c),
      hc_last_failure_ns = (if hc_last_failure_ns v > hc_last_failure_ns c then hc_last_failure_ns v else hc_last_failure_ns c),
      hc_total_rtt_ns = hc_total_rtt_ns c + hc_total_rtt_ns v\<rparr>"

definition get_backend_health :: "nat \<Rightarrow> BackendHealthKey \<Rightarrow> Maps \<Rightarrow> BackendHealthCounters option" where
  "get_backend_health ncpu key m =
     map_option (\<lambda>per_cpu. fold (\<lambda>cpu c. combine_counters c (per_cpu cpu)) [0..<ncpu] zero_counters) (m_backend_health m key)"

text \<open>
  \<open>attach_program\<close>: the program that is attached depends on the name of the interface and the direction of the
  hook.
\<close>

definition starts_with :: "string \<Rightarrow> string \<Rightarrow> bool" where
  "starts_with s p \<longleftrightarrow> take (length p) s = p"

definition attach_prog_name :: "string \<Rightarrow> AttachDirection \<Rightarrow> string" where
  "attach_prog_name interface attach_type =
     (if starts_with interface ''geneve'' \<or> starts_with interface ''vxlan'' \<or> starts_with interface ''nv_''
         \<or> starts_with interface ''nvx''
      then (case attach_type of Ingress \<Rightarrow> ''tc_tunnel_ingress'' | Egress \<Rightarrow> ''tc_tunnel_egress'')
      else (case attach_type of Ingress \<Rightarrow> ''tc_egress'' | Egress \<Rightarrow> ''tc_ingress''))"

text \<open>Whether the kernel accepts the program is the argument \<open>ok\<close>.\<close>

definition attach_program :: "bool \<Rightarrow> string \<Rightarrow> AttachDirection \<Rightarrow> Maps \<Rightarrow> Status option \<times> Maps" where
  "attach_program ok interface direction m =
     (if ok then (None, m\<lparr>m_attached := m_attached m @ [(interface, direction, attach_prog_name interface direction)]\<rparr>)
      else (Some Internal, m))"

definition detach_program :: "string \<Rightarrow> AttachDirection \<Rightarrow> Maps \<Rightarrow> Maps" where
  "detach_program interface direction m =
     m\<lparr>m_attached := filter (\<lambda>(i, d, _). \<not> (i = interface \<and> d = direction)) (m_attached m)\<rparr>"

text \<open>The calls of the service watcher, which ignores the answers.\<close>

fun dp_handle :: "Rpc \<Rightarrow> Maps \<Rightarrow> Maps" where
  "dp_handle (UpsertService k e) m = snd (upsert_service k e m)"
| "dp_handle (DeleteService k) m = snd (delete_service k m)"
| "dp_handle (UpsertBackends bs) m = snd (upsert_backends bs m)"
| "dp_handle (UpsertMaglevTable off es) m = snd (upsert_maglev_table off es m)"

definition dp_handle_all :: "Rpc list \<Rightarrow> Maps \<Rightarrow> Maps" where
  "dp_handle_all rpcs m = fold dp_handle rpcs m"

section \<open>Synchronising policies\<close>

text \<open>
  The entries that the loop writes: those whose action differs from the entry found at the start. A later
  entry overwrites an earlier one.
\<close>

definition effective :: "(PolicyKey \<rightharpoonup> PolicyValue) \<Rightarrow> (PolicyKey \<times> PolicyValue) list \<Rightarrow> (PolicyKey \<times> PolicyValue) list" where
  "effective existing ps = filter (\<lambda>(k, v). existing k \<noteq> Some v) ps"

lemma PolicyValue_eq_iff: "pv_action a = pv_action b \<longleftrightarrow> a = (b :: PolicyValue)"
  by (cases a; cases b) simp

lemma hm_insert_room:
  assumes "finite K" and "card K \<le> cap" and "dom m \<subseteq> K" and "k \<in> K"
  shows "hm_insert cap k v m = Some (m(k \<mapsto> v))"
proof (cases "m k")
  case None
  then have "dom m \<subset> K" using assms(3,4) by auto
  then have "map_len m < card K" unfolding map_len_def by (rule psubset_card_mono [OF assms(1)])
  then show ?thesis using assms(2) by (simp add: hm_insert_def)
qed (simp add: hm_insert_def)

lemma sync_insert_effective:
  assumes "finite K" and "card K \<le> MAX_POLICIES" and "dom mp \<subseteq> K" and "fst ` set ps \<subseteq> K"
  shows "\<exists>added updated. sync_insert existing ps a u mp = (True, added, updated, mp ++ map_of (rev (effective existing ps)))"
  using assms(3,4)
proof (induction ps arbitrary: a u mp)
  case (Cons p ps)
  obtain k v where p: "p = (k, v)" by (cases p)
  have k: "k \<in> K" and ps: "fst ` set ps \<subseteq> K" using Cons.prems(2) p by auto
  have ins: "hm_insert MAX_POLICIES k v mp = Some (mp(k \<mapsto> v))"
    by (rule hm_insert_room [OF assms(1,2) Cons.prems(1) k])
  have dm: "dom (mp(k \<mapsto> v)) \<subseteq> K" using Cons.prems(1) k by auto
  show ?case
  proof (cases "existing k = Some v")
    case True
    then show ?thesis using Cons.IH [OF Cons.prems(1) ps] p by (simp add: effective_def)
  next
    case False
    have eq: "mp ++ map_of (rev (effective existing (p # ps))) = mp(k \<mapsto> v) ++ map_of (rev (effective existing ps))"
      using False p by (simp add: effective_def)
    show ?thesis
    proof (cases "existing k")
      case None
      then have "sync_insert existing (p # ps) a u mp = sync_insert existing ps (Suc a) u (mp(k \<mapsto> v))" using p ins by simp
      then show ?thesis unfolding eq using Cons.IH [OF dm ps] by metis
    next
      case (Some old)
      then have "pv_action old \<noteq> pv_action v" using False by (simp add: PolicyValue_eq_iff)
      then have "sync_insert existing (p # ps) a u mp = sync_insert existing ps a (Suc u) (mp(k \<mapsto> v))" using p ins Some by simp
      then show ?thesis unfolding eq using Cons.IH [OF dm ps] by metis
    qed
  qed
qed (simp add: effective_def)

lemma maps_sync_effective:
  assumes "finite (dom existing)" and "card (dom existing \<union> fst ` set ps) \<le> MAX_POLICIES"
  shows "\<exists>added updated. maps_sync_policies ps existing =
           (Some (added, map_len (stale_keys ps existing), updated),
            (\<lambda>k. if k \<in> fst ` set ps then (existing ++ map_of (rev (effective existing ps))) k else None))"
proof -
  let ?K = "dom existing \<union> fst ` set ps"
  obtain a u where si: "sync_insert existing ps 0 0 existing = (True, a, u, existing ++ map_of (rev (effective existing ps)))"
    using sync_insert_effective [of ?K existing ps existing 0 0] assms by auto
  have "(if stale_keys ps existing k = None then (existing ++ map_of (rev (effective existing ps))) k else None) =
        (if k \<in> fst ` set ps then (existing ++ map_of (rev (effective existing ps))) k else None)" for k
  proof (cases "k \<in> fst ` set ps")
    case False
    then have "k \<notin> fst ` set (rev (effective existing ps))" by (auto simp: effective_def)
    then have "map_of (rev (effective existing ps)) k = None" by (simp add: map_of_eq_None_iff)
    then show ?thesis using False by (cases "existing k") (simp_all add: stale_keys_def map_add_def)
  qed (simp add: stale_keys_def)
  then show ?thesis using si by (simp add: maps_sync_policies_def)
qed

definition policy_pairs :: "PolicyEntry list \<Rightarrow> (PolicyKey \<times> PolicyValue) list" where
  "policy_pairs entries = map (\<lambda>e. (policy_key e, policy_value e)) entries"

lemma sync_policies_result:
  assumes "finite (dom (m_policies m))" and "card (dom (m_policies m) \<union> policy_key ` set entries) \<le> MAX_POLICIES"
  shows "\<exists>added updated. sync_policies entries m =
           (Inr (added, map_len (stale_keys (policy_pairs entries) (m_policies m)), updated),
            m\<lparr>m_policies := (\<lambda>k. if k \<in> policy_key ` set entries
                                 then (m_policies m ++ map_of (rev (effective (m_policies m) (policy_pairs entries)))) k
                                 else None)\<rparr>)"
proof -
  have keys: "fst ` set (policy_pairs entries) = policy_key ` set entries"
    by (simp add: policy_pairs_def image_image)
  show ?thesis
    using maps_sync_effective [of "m_policies m" "policy_pairs entries"] assms
    by (auto simp: keys sync_policies_def policy_pairs_def [symmetric])
qed

lemma map_of_consistent:
  assumes "(k, v) \<in> set ps" and "\<And>v'. (k, v') \<in> set ps \<Longrightarrow> v' = v"
  shows "map_of ps k = Some v"
  using assms by (metis map_of_SomeD not_None_eq weak_map_of_SomeI)

lemma effective_consistent:
  assumes "(k, v) \<in> set ps" and "\<And>v'. (k, v') \<in> set ps \<Longrightarrow> v' = v"
  shows "(existing ++ map_of (rev (effective existing ps))) k = Some v"
proof (cases "existing k = Some v")
  case True
  then have "k \<notin> fst ` set (effective existing ps)" using assms(2) by (auto simp: effective_def)
  then have "map_of (rev (effective existing ps)) k = None" unfolding map_of_eq_None_iff set_rev .
  then show ?thesis using True by (simp add: map_add_def)
next
  case False
  have sub: "set (rev (effective existing ps)) \<subseteq> set ps" by (auto simp: effective_def)
  have "(k, v) \<in> set (rev (effective existing ps))" using assms(1) False by (simp add: effective_def)
  then have "map_of (rev (effective existing ps)) k = Some v"
    by (rule map_of_consistent) (use sub assms(2) in blast)
  then show ?thesis by simp
qed

lemma effective_synced: "(\<And>k v. (k, v) \<in> set ps \<Longrightarrow> existing k = Some v) \<Longrightarrow> effective existing ps = []"
  by (auto simp: effective_def filter_empty_conv)

lemma sync_insert_nothing: "effective existing ps = [] \<Longrightarrow> sync_insert existing ps a u mp = (True, a, u, mp)"
proof (induction ps)
  case (Cons p ps)
  then show ?case by (cases p) (auto simp: effective_def split: if_splits)
qed simp

lemma policy_pairs_consistent:
  assumes "\<forall>e \<in> set entries. \<forall>e' \<in> set entries. policy_key e = policy_key e' \<longrightarrow> policy_value e = policy_value e'"
    and kv: "(k, v) \<in> set (policy_pairs entries)" and kv': "(k, v') \<in> set (policy_pairs entries)"
  shows "v' = v"
proof -
  obtain e where e: "e \<in> set entries" "k = policy_key e" "v = policy_value e"
    using kv unfolding policy_pairs_def by auto
  obtain e' where e': "e' \<in> set entries" "k = policy_key e'" "v' = policy_value e'"
    using kv' unfolding policy_pairs_def by auto
  have "policy_key e' = policy_key e" using e(2) e'(2) by simp
  then have "policy_value e' = policy_value e" using assms(1) e(1) e'(1) by blast
  then show ?thesis using e(3) e'(3) by simp
qed

lemma map_of_policy_pairs_None: "k \<notin> policy_key ` set entries \<Longrightarrow> map_of (policy_pairs entries) k = None"
  by (simp add: map_of_eq_None_iff policy_pairs_def image_image)

lemma sync_policies_consistent:
  assumes "finite (dom (m_policies m))" and "card (dom (m_policies m) \<union> policy_key ` set entries) \<le> MAX_POLICIES"
    and "\<forall>e \<in> set entries. \<forall>e' \<in> set entries. policy_key e = policy_key e' \<longrightarrow> policy_value e = policy_value e'"
  shows "\<exists>added removed updated. sync_policies entries m =
           (Inr (added, removed, updated), m\<lparr>m_policies := map_of (policy_pairs entries)\<rparr>)"
proof -
  have new: "(if k \<in> policy_key ` set entries then (e ++ map_of (rev (effective e (policy_pairs entries)))) k else None) =
        map_of (policy_pairs entries) k" for k and e :: "PolicyKey \<rightharpoonup> PolicyValue"
  proof (cases "k \<in> policy_key ` set entries")
    case True
    then obtain v where v: "(k, v) \<in> set (policy_pairs entries)" by (auto simp: policy_pairs_def)
    note c = policy_pairs_consistent [OF assms(3) v]
    show ?thesis using effective_consistent [OF v c] map_of_consistent [OF v c] True by simp
  qed (simp add: map_of_policy_pairs_None)
  show ?thesis using sync_policies_result [OF assms(1,2)] by (auto simp: new)
qed


definition ex_entry :: "u32 \<Rightarrow> int \<Rightarrow> PolicyEntry" where
  "ex_entry src act = \<lparr>pe_src_identity = src, pe_dst_identity = 9, pe_protocol = 6, pe_dst_port = 80, pe_action = act\<rparr>"

lemma ex_entry_keys:
  "policy_key (ex_entry s a) = \<lparr>pk_src_identity = s, pk_dst_identity = 9, pk_protocol = 6, pk_dst_port = 80\<rparr>"
  by (simp add: ex_entry_def policy_key_def)


lemma map_of_filter_key: "map_of (filter (\<lambda>p. fst p = k) l) k = map_of l k"
  by (induction l) auto

lemma rev_effective_key:
  "map_of (rev (effective existing ps)) k = map_of (rev (effective existing (filter (\<lambda>p. fst p = k) ps))) k"
proof -
  have "filter (\<lambda>p. fst p = k) (rev (effective existing ps)) = rev (effective existing (filter (\<lambda>p. fst p = k) ps))"
    by (simp add: effective_def rev_filter conj_commute)
  then show ?thesis using map_of_filter_key [of k "rev (effective existing ps)"] by simp
qed

lemma policy_pairs_key:
  "filter (\<lambda>p. fst p = k) (policy_pairs es) = policy_pairs (filter (\<lambda>e. policy_key e = k) es)"
  by (simp add: policy_pairs_def filter_map o_def)

text \<open>
  When the entries contradict each other on a key, one denying and a later one allowing it, every
  synchronisation with the same entries turns the action of the key over: what the map had allowed is
  denied and what it had denied is allowed.
\<close>

theorem sync_policies_flips:
  assumes "finite (dom (m_policies m))" and "card (dom (m_policies m) \<union> policy_key ` set es) \<le> MAX_POLICIES"
    and "filter (\<lambda>e. policy_key e = k) es = [d, a]" and "pe_action d = 0" and "pe_action a = 1"
  shows "m_policies (snd (sync_policies es m)) k =
           Some \<lparr>pv_action = (if m_policies m k = Some \<lparr>pv_action = ACTION_ALLOW\<rparr> then ACTION_DENY else ACTION_ALLOW)\<rparr>"
proof -
  have "set [d, a] = {e \<in> set es. policy_key e = k}" unfolding assms(3) [symmetric] by simp
  then have kd: "policy_key d = k" and ka: "policy_key a = k" and mem: "a \<in> set es" by auto
  have k: "k \<in> policy_key ` set es" using ka mem by blast
  have pairs: "filter (\<lambda>p. fst p = k) (policy_pairs es) = [(k, \<lparr>pv_action = ACTION_DENY\<rparr>), (k, \<lparr>pv_action = ACTION_ALLOW\<rparr>)]"
    using assms(3-5) kd ka
    by (simp add: policy_pairs_key) (simp add: policy_pairs_def policy_value_def PolicyAction_try_from_def)
  have "m_policies (snd (sync_policies es m)) k = (m_policies m ++ map_of (rev (effective (m_policies m) (policy_pairs es)))) k"
    using sync_policies_result [OF assms(1,2)] k by auto
  also have "\<dots> = Some \<lparr>pv_action = (if m_policies m k = Some \<lparr>pv_action = ACTION_ALLOW\<rparr> then ACTION_DENY else ACTION_ALLOW)\<rparr>"
    using rev_effective_key [of "m_policies m" "policy_pairs es" k] unfolding pairs
    by (cases "m_policies m k") (simp_all add: map_add_def effective_def action_defs)
  finally show ?thesis .
qed

theorem sync_policies_flips_witness:
  "m_policies (snd (sync_policies [ex_entry 4 0, ex_entry 4 1] fresh_maps)) (policy_key (ex_entry 4 1)) =
     Some \<lparr>pv_action = ACTION_ALLOW\<rparr>"
proof -
  have "card (dom (m_policies fresh_maps) \<union> policy_key ` set [ex_entry 4 0, ex_entry 4 1]) \<le> MAX_POLICIES"
    by (simp add: fresh_maps_def ex_entry_keys MAX_POLICIES_def)
  then show ?thesis
    using sync_policies_flips [of fresh_maps "[ex_entry 4 0, ex_entry 4 1]" "policy_key (ex_entry 4 1)" "ex_entry 4 0" "ex_entry 4 1"]
    by (simp add: fresh_maps_def ex_entry_keys) (simp add: ex_entry_def)
qed

section \<open>The calls of the service watcher\<close>

lemma parse_ip_empty: "parse_ip '''' = None"
  by (simp add: parse_ip_def ParseAddr_def)

lemma upsert_backends_no_node:
  "(\<And>b. b \<in> set bs \<Longrightarrow> bk_NodeIp b = '''') \<Longrightarrow> bs \<noteq> [] \<Longrightarrow> upsert_backends bs m = (Some InvalidArgument, m)"
  by (cases bs) (auto simp: upsert_backend_def parse_ip_empty split: option.splits IpAddr.splits)

lemma slice_backends_no_node: "b \<in> set (collectBackends st svc) \<Longrightarrow> be_nodeIP b = ''''"
  by (auto simp: collectBackends_def slice_backends_def slice_backend_def split: option.splits list.splits if_splits)

definition no_node :: "Rpc \<Rightarrow> bool" where
  "no_node r \<longleftrightarrow> (\<forall>bs. r = UpsertBackends bs \<longrightarrow> (\<forall>b \<in> set bs. bk_NodeIp b = ''''))"

lemma upsert_maglev_table_backends: "m_backends (snd (upsert_maglev_table off es m)) = m_backends m"
  by (induction off es m rule: upsert_maglev_table.induct) (auto split: option.splits)

lemma store_backends:
  "(\<And>x. m_backends (put x) = m_backends m) \<Longrightarrow> m_backends (snd (store put m r)) = m_backends m"
  by (cases r) (simp_all add: store_def)

lemma dp_handle_no_node: "no_node r \<Longrightarrow> m_backends (dp_handle r m) = m_backends m"
proof (cases r)
  case (UpsertBackends bs)
  assume "no_node r"
  then have "bk_NodeIp b = ''''" if "b \<in> set bs" for b using that UpsertBackends by (simp add: no_node_def)
  then have "snd (upsert_backends bs m) = m" using upsert_backends_no_node [of bs m] by (cases "bs = []") simp_all
  then show ?thesis using UpsertBackends by simp
qed (auto simp: upsert_service_def delete_service_def upsert_maglev_table_backends intro!: store_backends
       split: option.splits IpAddr.splits)

lemma dp_handle_all_no_node:
  "(\<And>r. r \<in> set rpcs \<Longrightarrow> no_node r) \<Longrightarrow> m_backends (dp_handle_all rpcs m) = m_backends m"
  unfolding dp_handle_all_def by (induction rpcs arbitrary: m) (simp_all add: dp_handle_no_node)

lemma no_node_other [simp]:
  "no_node (UpsertService k e)" "no_node (DeleteService k)" "no_node (UpsertMaglevTable off t)"
  by (simp_all add: no_node_def)

lemma pushBackends_no_node:
  "r \<in> set (pushBackends off (collectBackends st svc) ports) \<Longrightarrow> no_node r"
  by (auto simp: pushBackends_def no_node_def Let_def in_set_enumerate_eq split: if_splits
        dest!: slice_backends_no_node [OF nth_mem])

lemma deletes_no_node:
  "r \<in> set (deleteClusterEntries svc st scope) \<Longrightarrow> no_node r"
  "freeOldState svc st w = (w1, rs) \<Longrightarrow> r \<in> set rs \<Longrightarrow> no_node r"
  "deleteServiceLocked svc w = (w1, rs) \<Longrightarrow> r \<in> set rs \<Longrightarrow> no_node r"
  by (auto simp: deleteClusterEntries_def freeOldState_def deleteServiceLocked_def Let_def split: option.splits if_splits)

lemma maglev_part_no_node: "maglev_part alg bs svc w = Some (alg', off, rpcs, w') \<Longrightarrow> r \<in> set rpcs \<Longrightarrow> no_node r"
  by (auto simp: maglev_part_def split: if_splits option.splits list.splits)

lemma reconcile_no_node:
  assumes "reconcileService st svc w = Some (w', rpcs)" and "r \<in> set rpcs"
  shows "no_node r"
  using assms
  by (auto simp: reconcileService_def Let_def upsertServiceEntries_def split: option.splits if_splits prod.splits
        dest: pushBackends_no_node deletes_no_node maglev_part_no_node)

text \<open>
  (C38) The watcher never sets the node address of a backend, and the dataplane refuses a backend without one. So
  every call that sends backends is answered with an error, and no reconciliation ever changes the
  backends that the dataplane has.
\<close>

theorem backends_never_installed:
  assumes "reconcileService st svc w = Some (w', rpcs)"
  shows "m_backends (dp_handle_all rpcs m) = m_backends m
         \<and> (\<forall>bs m'. UpsertBackends bs \<in> set rpcs \<and> bs \<noteq> [] \<longrightarrow> upsert_backends bs m' = (Some InvalidArgument, m'))"
proof (intro conjI allI impI)
  show "m_backends (dp_handle_all rpcs m) = m_backends m"
    by (rule dp_handle_all_no_node) (rule reconcile_no_node [OF assms])
next
  fix bs m' assume a: "UpsertBackends bs \<in> set rpcs \<and> bs \<noteq> []"
  then have "no_node (UpsertBackends bs)" using reconcile_no_node [OF assms] by blast
  then show "upsert_backends bs m' = (Some InvalidArgument, m')"
    using a upsert_backends_no_node [of bs m'] by (simp add: no_node_def)
qed

theorem backends_never_installed_witness:
  "\<exists>rpcs. reconcileService (Some [ex_slice]) (ex_svc ''web'' []) ex_watcher = Some (ex_installed [], rpcs)
     \<and> m_backends (dp_handle_all rpcs fresh_maps) = m_backends fresh_maps"
proof -
  obtain rpcs where r: "reconcileService (Some [ex_slice]) (ex_svc ''web'' []) ex_watcher = Some (ex_installed [], rpcs)"
    using ex_reconcile by blast
  then show ?thesis using backends_never_installed [OF r, of fresh_maps] by blast
qed

text \<open>
  No interface and no direction ever has \<open>tc_host_ingress\<close> attached. The interface of the host gets
  \<open>tc_egress\<close>, the program for traffic that leaves a pod, where the agent reports \<open>tc_host_ingress\<close>.
\<close>

theorem host_ingress_never_attached:
  "attach_prog_name interface direction \<noteq> ''tc_host_ingress'' \<and> attach_prog_name ''eth0'' Ingress = ''tc_egress''"
  by (cases direction) (simp_all add: attach_prog_name_def starts_with_def)

end
