(* ===== verification/Agent_Server.thy ===== *)
theory Agent_Server
  imports IPAM_Allocator Policy_Compiler Dataplane_Server
begin

text \<open>
  The agent: the CNI handlers and the policy callback of its server (\<open>internal/agent/server.go\<close>), the
  configuration it pushes (\<open>internal/agent/setup_dataplane.go\<close>) and the egress manager
  (\<open>internal/egress/manager.go\<close>).

  The server owns the pod address allocator with its state directory, the identity allocator and the
  table of endpoints; its calls are run on the maps of the dataplane. The answers of Kubernetes and of
  the network set-up, the outcome of file system calls, and enumeration orders are arguments. A call
  that the dataplane refuses is only logged. \<^const>\<open>None\<close> is a panic or a call that never returns.
\<close>

section \<open>Egress manager\<close>

record EgressRule =
  er_Name :: string
  er_SrcIdentity :: u64
  er_DstCIDR :: string
  er_Protocol :: u8
  er_DstPort :: u16
  er_Action :: u8

record CompiledEgressRule =
  ce_Namespace :: string
  ce_Name :: string
  ce_SrcIdentity :: u64
  ce_DstCIDR :: IPNet
  ce_Protocol :: u8
  ce_DstPort :: u16
  ce_Action :: u8

record EgressManager =
  em_nodeIP :: IP
  em_clusterCIDR :: IPNet
  em_masquerade :: bool
  em_rules :: "string \<rightharpoonup> CompiledEgressRule"

definition NewEgressManager :: "IP \<Rightarrow> IPNet \<Rightarrow> EgressManager" where
  "NewEgressManager nodeIP clusterCIDR =
     \<lparr>em_nodeIP = nodeIP, em_clusterCIDR = clusterCIDR, em_masquerade = True, em_rules = Map.empty\<rparr>"

definition SetMasqueradeEnabled :: "bool \<Rightarrow> EgressManager \<Rightarrow> EgressManager" where
  "SetMasqueradeEnabled enabled em = em\<lparr>em_masquerade := enabled\<rparr>"

definition ruleKey :: "string \<Rightarrow> string \<Rightarrow> string" where
  "ruleKey ns name = ns @ ''/'' @ name"

definition AddEgressRule :: "string \<Rightarrow> EgressRule \<Rightarrow> EgressManager \<Rightarrow> EgressManager option" where
  "AddEgressRule ns rule em =
     (case ParseCIDR (er_DstCIDR rule) of
        None \<Rightarrow> None
      | Some (_, cidr) \<Rightarrow>
          Some (em\<lparr>em_rules := (em_rules em)(ruleKey ns (er_Name rule) \<mapsto>
                 \<lparr>ce_Namespace = ns, ce_Name = er_Name rule, ce_SrcIdentity = er_SrcIdentity rule, ce_DstCIDR = cidr,
                  ce_Protocol = er_Protocol rule, ce_DstPort = er_DstPort rule, ce_Action = er_Action rule\<rparr>)\<rparr>))"

definition RemoveEgressRule :: "string \<Rightarrow> string \<Rightarrow> EgressManager \<Rightarrow> EgressManager" where
  "RemoveEgressRule ns name em = em\<lparr>em_rules := map_del (em_rules em) (ruleKey ns name)\<rparr>"

text \<open>\<open>GetRules\<close>, with the order in which the map is enumerated.\<close>

definition GetRules :: "string list \<Rightarrow> EgressManager \<Rightarrow> CompiledEgressRule list" where
  "GetRules ks em = map (\<lambda>k. the (em_rules em k)) ks"

definition GetRule :: "string \<Rightarrow> string \<Rightarrow> EgressManager \<Rightarrow> CompiledEgressRule option" where
  "GetRule ns name em = em_rules em (ruleKey ns name)"

definition egress_Count :: "EgressManager \<Rightarrow> nat" where
  "egress_Count em = map_len (em_rules em)"

section \<open>The server\<close>

record AgentEndpoint =
  ae_PodName :: string
  ae_PodNamespace :: string
  ae_ContainerID :: string
  ae_IP :: IP
  ae_MAC :: "u8 list"
  ae_IfIndex :: u32
  ae_IdentityID :: u64
  ae_Netns :: string
  ae_IfName :: string
  ae_HostVeth :: string

record EgressMapKey =
  mk_SrcIdentity :: u64
  mk_DstCidr :: string
  mk_DstPrefixLen :: u32

record Server =
  s_IPAlloc :: Allocator
  s_StateDir :: StateDir
  s_IDAlloc :: IdAllocator
  s_NodeIP :: IP
  s_DpConnected :: bool
  s_EgressMgr :: "EgressManager option"
  s_PolicyRules :: "CompiledRule list"
  s_PrevEgressKeys :: "EgressMapKey set"
  s_Endpoints :: "string \<rightharpoonup> AgentEndpoint"

record AddPodRequest =
  ap_PodName :: string
  ap_PodNamespace :: string
  ap_ContainerId :: string
  ap_Netns :: string
  ap_IfName :: string
  ap_Labels :: Labels

record AddPodResponse =
  ar_Ip :: string
  ar_Gateway :: string
  ar_Mac :: "u8 list"
  ar_PrefixLength :: nat

datatype GrpcCode = CodeInvalidArgument | CodeResourceExhausted | CodeInternal

definition validateAddPodRequest :: "AddPodRequest \<Rightarrow> GrpcCode option" where
  "validateAddPodRequest req =
     (if ap_PodName req = '''' \<or> ap_PodNamespace req = '''' \<or> ap_ContainerId req = '''' \<or> ap_Netns req = ''''
         \<or> ap_IfName req = '''' \<or> length (ap_ContainerId req) < 11
      then Some CodeInvalidArgument else None)"

text \<open>\<open>GenerateMAC\<close>; the hash of the standard library is only used for IPv6.\<close>

definition GenerateMAC :: "(u8 list \<Rightarrow> u8 list) \<Rightarrow> IP \<Rightarrow> u8 list" where
  "GenerateMAC sha256 ip =
     (case IP_To4 ip of
        Some ip4 \<Rightarrow> [0x02, 0xfe] @ ip4
      | None \<Rightarrow>
          (case IP_To16 ip of
             None \<Rightarrow> [0x02, 0, 0, 0, 0, 0]
           | Some ip16 \<Rightarrow> [0x02, 0xfe] @ drop 28 (sha256 ip16)))"

section \<open>Policies\<close>

definition policy_entry :: "CompiledRule \<Rightarrow> PolicyEntry" where
  "policy_entry r =
     \<lparr>pe_src_identity = ucast (cr_SrcIdentity r), pe_dst_identity = ucast (cr_DstIdentity r),
      pe_protocol = ucast (cr_Protocol r), pe_dst_port = ucast (cr_DstPort r),
      pe_action = (if cr_Action r = ActionAllow then 1 else 0)\<rparr>"

definition policy_entries :: "CompiledRule list \<Rightarrow> PolicyEntry list" where
  "policy_entries rules = map policy_entry (filter (\<lambda>r. cr_CIDR r = '''') rules)"

definition IPNet_String :: "IPNet \<Rightarrow> string" where
  "IPNet_String n =
     (case networkNumberAndMask n of
        None \<Rightarrow> ''<nil>''
      | Some (nn, msk) \<Rightarrow>
          (case simpleMaskLength msk of
             None \<Rightarrow> IP_String nn @ ''/'' @ hexString msk
           | Some l \<Rightarrow> IP_String nn @ ''/'' @ dec_str l))"

definition egress_map_key :: "u64 \<Rightarrow> IPNet \<Rightarrow> EgressMapKey" where
  "egress_map_key src n =
     \<lparr>mk_SrcIdentity = src, mk_DstCidr = IPNet_String n, mk_DstPrefixLen = of_nat (fst (Mask_Size (net_Mask n)))\<rparr>"

text \<open>One round of the loop of \<open>SyncEgressRules\<close> over the compiled rules.\<close>

definition sync_egress_rule ::
  "IP \<Rightarrow> nat \<times> CompiledRule \<Rightarrow> EgressMapKey set \<times> EgressManager \<times> Maps \<Rightarrow> EgressMapKey set \<times> EgressManager \<times> Maps" where
  "sync_egress_rule nodeIP ir st =
     (case (ir, st) of ((i, r), (newKeys, em, m)) \<Rightarrow>
        if cr_CIDR r = '''' then st
        else (case ParseCIDR (cr_CIDR r) of
                None \<Rightarrow> st
              | Some (_, cidrNet) \<Rightarrow>
                  let action = (if cr_Action r = ActionAllow then 1 else 0) :: int;
                      key = egress_map_key (cr_SrcIdentity r) cidrNet;
                      rule = \<lparr>er_Name = ''np-cidr-'' @ dec_str i, er_SrcIdentity = cr_SrcIdentity r, er_DstCIDR = cr_CIDR r,
                              er_Protocol = cr_Protocol r, er_DstPort = cr_DstPort r, er_Action = of_int action\<rparr>;
                      em' = (case AddEgressRule (cr_Namespace r) rule em of Some e \<Rightarrow> e | None \<Rightarrow> em);
                      snat = (if em_masquerade em' then IP_String nodeIP else '''');
                      req = \<lparr>ge_src_identity = ucast (cr_SrcIdentity r), ge_dst_cidr = IPNet_String cidrNet,
                             ge_dst_cidr_prefix_len = mk_DstPrefixLen key, ge_action = action, ge_snat_ip = snat\<rparr>
                  in (insert key newKeys, em', snd (upsert_egress_policy req m))))"

definition delete_egress_key :: "EgressMapKey \<Rightarrow> Maps \<Rightarrow> Maps" where
  "delete_egress_key k m = snd (delete_egress_policy (ucast (mk_SrcIdentity k)) (mk_DstCidr k) (mk_DstPrefixLen k) m)"

text \<open>\<open>olds\<close> enumerates the previous keys and \<open>ks\<close> the names of the rules of the manager.\<close>

definition SyncEgressRules ::
  "EgressMapKey list \<Rightarrow> (EgressManager \<Rightarrow> string list) \<Rightarrow> CompiledRule list \<Rightarrow> Server \<Rightarrow> Maps \<Rightarrow> Server \<times> Maps" where
  "SyncEgressRules olds ks rules s m =
     (case s_EgressMgr s of
        None \<Rightarrow> (s, m)
      | Some em \<Rightarrow>
          if \<not> s_DpConnected s then (s, m)
          else (case fold (sync_egress_rule (s_NodeIP s)) (enumerate 0 rules) ({}, em, m) of
                  (newKeys, em1, m1) \<Rightarrow>
                    let m2 = fold delete_egress_key (filter (\<lambda>k. k \<notin> newKeys) olds) m1;
                        em2 = fold (\<lambda>r e. if egress_map_key (ce_SrcIdentity r) (ce_DstCIDR r) \<notin> newKeys
                                          then RemoveEgressRule (ce_Namespace r) (ce_Name r) e else e)
                                (GetRules (ks em1) em1) em1
                    in (s\<lparr>s_EgressMgr := Some em2, s_PrevEgressKeys := newKeys\<rparr>, m2)))"

definition OnPolicyChange ::
  "EgressMapKey list \<Rightarrow> (EgressManager \<Rightarrow> string list) \<Rightarrow> CompiledRule list \<Rightarrow> Server \<Rightarrow> Maps \<Rightarrow> Server \<times> Maps" where
  "OnPolicyChange olds ks rules s m =
     (let s1 = s\<lparr>s_PolicyRules := rules\<rparr>
      in if \<not> s_DpConnected s then (s1, m)
         else (case sync_policies (policy_entries rules) m of
                 (Inl e, m1) \<Rightarrow> (s1, m1)
               | (Inr counts, m1) \<Rightarrow> SyncEgressRules olds ks rules s1 m1))"

section \<open>Pods\<close>

text \<open>
  \<open>pod\<close> is the answer of Kubernetes: \<^const>\<open>None\<close> without a client, \<open>Some None\<close> for an error. \<open>w\<close> and \<open>rmOK\<close> are
  the outcomes of the file system calls, \<open>setup\<close> is the interface index or an error, and \<open>attachOK\<close> tells
  whether the kernel accepts the programs. \<open>policies\<close> is the store of the policy watcher.
\<close>

record PodEnv =
  pn_pod :: "Labels option option"
  pn_write :: WriteOutcome
  pn_remove :: bool
  pn_setup :: "u32 option"
  pn_attach :: bool
  pn_sha256 :: "u8 list \<Rightarrow> u8 list"
  pn_policy :: "(PolicyEnv \<times> NetworkPolicy option list option) option"
  pn_olds :: "EgressMapKey list"
  pn_ks :: "EgressManager \<Rightarrow> string list"

definition pod_key :: "string \<Rightarrow> string \<Rightarrow> string" where
  "pod_key ns name = ns @ ''/'' @ name"

definition pod_identity_labels :: "PodEnv \<Rightarrow> AddPodRequest \<Rightarrow> Labels" where
  "pod_identity_labels pe req =
     ((case pn_pod pe of
         Some (Some lbls) \<Rightarrow> lbls
       | Some None \<Rightarrow> Map.empty
       | None \<Rightarrow> ap_Labels req)(''novanet.io/namespace'' \<mapsto> ap_PodNamespace req))"

definition Recompile :: "PodEnv \<Rightarrow> Server \<Rightarrow> Maps \<Rightarrow> Server \<times> Maps" where
  "Recompile pe s m =
     (case pn_policy pe of
        None \<Rightarrow> (s, m)
      | Some (env, items) \<Rightarrow>
          (case recompileAll (env\<lparr>pe_alloc := s_IDAlloc s\<rparr>) items of
             None \<Rightarrow> (s, m)
           | Some rules \<Rightarrow> OnPolicyChange (pn_olds pe) (pn_ks pe) rules s m))"

definition push_endpoint :: "PodEnv \<Rightarrow> AgentEndpoint \<Rightarrow> Server \<Rightarrow> Maps \<Rightarrow> Maps" where
  "push_endpoint pe ep s m =
     (if s_DpConnected s then
        let m1 = snd (upsert_endpoint \<lparr>ue_ip = IP_String (ae_IP ep), ue_ifindex = ae_IfIndex ep, ue_mac = ae_MAC ep,
                        ue_identity_id = ucast (ae_IdentityID ep), ue_node_ip = IP_String (s_NodeIP s)\<rparr> m);
            m2 = snd (attach_program (pn_attach pe) (ae_HostVeth ep) Ingress m1)
        in snd (attach_program (pn_attach pe) (ae_HostVeth ep) Egress m2)
      else m)"

definition AddPod :: "PodEnv \<Rightarrow> AddPodRequest \<Rightarrow> Server \<Rightarrow> Maps \<Rightarrow> ((GrpcCode + AddPodResponse) \<times> Server \<times> Maps) option" where
  "AddPod pe req s m =
     (case validateAddPodRequest req of
        Some e \<Rightarrow> Some (Inl e, s, m)
      | None \<Rightarrow>
          (case Allocator_Allocate (pn_write pe) (s_IPAlloc s) (s_StateDir s) of
             (Inl RuntimePanic, _) \<Rightarrow> None
           | (Inl e, ipa, dir) \<Rightarrow> Some (Inl CodeResourceExhausted, s\<lparr>s_IPAlloc := ipa, s_StateDir := dir\<rparr>, m)
           | (Inr podIP, ipa, dir) \<Rightarrow>
               (case AllocateIdentity (pod_identity_labels pe req) (s_IDAlloc s) of
                  None \<Rightarrow> None
                | Some (identityID, ida) \<Rightarrow>
                    (case Allocator_Gateway ipa of
                       None \<Rightarrow> None
                     | Some gateway \<Rightarrow>
                         let mac = GenerateMAC (pn_sha256 pe) podIP;
                             hostVeth = ''nv'' @ take 11 (ap_ContainerId req)
                         in (case pn_setup pe of
                               None \<Rightarrow>
                                 (case Allocator_Release (pn_remove pe) podIP ipa dir of
                                    (Some RuntimePanic, _) \<Rightarrow> None
                                  | (_, ipa', dir') \<Rightarrow>
                                      Some (Inl CodeInternal,
                                            s\<lparr>s_IPAlloc := ipa', s_StateDir := dir', s_IDAlloc := RemoveIdentity identityID ida\<rparr>, m))
                             | Some ifindex \<Rightarrow>
                                 let ep = \<lparr>ae_PodName = ap_PodName req, ae_PodNamespace = ap_PodNamespace req,
                                           ae_ContainerID = ap_ContainerId req, ae_IP = podIP, ae_MAC = mac, ae_IfIndex = ifindex,
                                           ae_IdentityID = identityID, ae_Netns = ap_Netns req, ae_IfName = ap_IfName req,
                                           ae_HostVeth = hostVeth\<rparr>;
                                     s1 = s\<lparr>s_IPAlloc := ipa, s_StateDir := dir, s_IDAlloc := ida,
                                            s_Endpoints := (s_Endpoints s)(pod_key (ap_PodNamespace req) (ap_PodName req) \<mapsto> ep)\<rparr>;
                                     (s2, m2) = Recompile pe s1 (push_endpoint pe ep s1 m)
                                 in Some (Inr \<lparr>ar_Ip = IP_String podIP, ar_Gateway = IP_String gateway, ar_Mac = mac,
                                               ar_PrefixLength = Allocator_PrefixLength ipa\<rparr>, s2, m2))))))"

definition DelPod :: "bool \<Rightarrow> string \<Rightarrow> string \<Rightarrow> string \<Rightarrow> Server \<Rightarrow> Maps \<Rightarrow> (Server \<times> Maps) option" where
  "DelPod rmOK ns name containerId s m =
     (let key = pod_key ns name
      in (case s_Endpoints s key of
            None \<Rightarrow> Some (s, m)
          | Some ep \<Rightarrow>
              if ae_ContainerID ep \<noteq> containerId then Some (s, m)
              else (case Allocator_Release rmOK (ae_IP ep) (s_IPAlloc s) (s_StateDir s) of
                      (Some RuntimePanic, _) \<Rightarrow> None
                    | (_, ipa, dir) \<Rightarrow>
                        Some (s\<lparr>s_Endpoints := map_del (s_Endpoints s) key, s_IPAlloc := ipa, s_StateDir := dir,
                                s_IDAlloc := RemoveIdentity (ae_IdentityID ep) (s_IDAlloc s)\<rparr>,
                              if s_DpConnected s then snd (delete_endpoint (IP_String (ae_IP ep)) m) else m))))"

definition LookupEndpoint :: "string \<Rightarrow> string \<Rightarrow> Server \<Rightarrow> string option" where
  "LookupEndpoint ns name s = map_option (\<lambda>ep. IP_String (ae_IP ep)) (s_Endpoints s (pod_key ns name))"

section \<open>Configuration\<close>

record DataplaneConfig =
  dc_RoutingMode :: string
  dc_TunnelProtocol :: string
  dc_ClusterCIDR :: string
  dc_DefaultDeny :: bool
  dc_Masquerade :: bool
  dc_L4LB :: bool

definition cidr_config :: "u32 \<Rightarrow> u32 \<Rightarrow> string \<Rightarrow> (u32 \<times> u64) list" where
  "cidr_config ipKey plKey cidr =
     (case ParseCIDR cidr of
        None \<Rightarrow> []
      | Some (ip, n) \<Rightarrow>
          (case IP_To4 ip of Some ip4 \<Rightarrow> [(ipKey, of_nat (be_nat ip4))] | None \<Rightarrow> [])
          @ [(plKey, of_nat (fst (Mask_Size (net_Mask n))))])"

definition config_entries :: "DataplaneConfig \<Rightarrow> IP \<Rightarrow> string \<Rightarrow> (u32 \<times> u64) list" where
  "config_entries cfg nodeIP podCIDR =
     (if ToLower (dc_RoutingMode cfg) = ''overlay'' then [(0, 0)]
      else if ToLower (dc_RoutingMode cfg) = ''native'' then [(0, 1)] else [])
     @ (if ToLower (dc_TunnelProtocol cfg) = ''geneve'' then [(1, 0)]
        else if ToLower (dc_TunnelProtocol cfg) = ''vxlan'' then [(1, 1)] else [])
     @ (case IP_To4 nodeIP of Some ip4 \<Rightarrow> [(2, of_nat (be_nat ip4))] | None \<Rightarrow> [])
     @ cidr_config 3 4 (dc_ClusterCIDR cfg)
     @ cidr_config 8 9 podCIDR
     @ [(5, if dc_DefaultDeny cfg then 1 else 0), (6, if dc_Masquerade cfg then 1 else 0), (10, if dc_L4LB cfg then 1 else 0)]"

text \<open>The order in which the entries of the request are iterated does not matter: the keys are distinct.\<close>

definition PushDataplaneConfig :: "DataplaneConfig \<Rightarrow> IP \<Rightarrow> string \<Rightarrow> Maps \<Rightarrow> Status option \<times> Maps" where
  "PushDataplaneConfig cfg nodeIP podCIDR m = update_config (config_entries cfg nodeIP podCIDR) m"

end
