(* ===== verification/Dataplane_Programs.thy ===== *)
theory Dataplane_Programs
  imports Dataplane_Types
begin

unbundle bit_operations_syntax

text \<open>
  The eBPF programs (\<open>dataplane/novanet-ebpf/src/main.rs\<close>): the classifiers on pod, tunnel and host
  interfaces, the socket load balancer, the socket redirection programs and their helpers.

  A program maps the packet and the maps to a verdict, a packet and maps. What the kernel answers to a
  helper call, the clock, the CPU, and the entries that LRU maps evict are the environment \<open>Env\<close>; the
  two checksum helpers are functions of the environment too. The programs are compiled for a little
  endian machine, so \<open>to_be\<close> and \<open>from_be\<close> swap bytes. Headers are read at the offsets of the
  standard Ethernet, IPv4, TCP and UDP layouts. \<open>Err\<close> is \<^const>\<open>None\<close>.
\<close>

section \<open>Environment and packets\<close>

record Env =
  en_cpu :: nat
  en_rl_ns :: u64
  en_success_ns :: u64
  en_failure_ns :: u64
  en_flow_ns :: u64
  en_ring_ok :: bool
  en_evict_ct :: "(CtKey \<rightharpoonup> CtValue) \<Rightarrow> CtKey option"
  en_evict_rl :: "(RateLimitKey \<rightharpoonup> TokenBucketState) \<Rightarrow> RateLimitKey option"
  en_evict_so :: "(u64 \<rightharpoonup> SockLbOrigin) \<Rightarrow> u64 option"
  en_l3_csum :: "nat \<Rightarrow> u64 \<Rightarrow> u64 \<Rightarrow> u64 \<Rightarrow> u8 list \<Rightarrow> u8 list option"
  en_l4_csum :: "nat \<Rightarrow> u64 \<Rightarrow> u64 \<Rightarrow> u64 \<Rightarrow> u8 list \<Rightarrow> u8 list option"
  en_tunnel_ok :: bool
  en_redirect :: "u32 \<Rightarrow> int"
  en_cookie :: u64
  en_sk_lookup :: "u32 \<Rightarrow> u16 \<Rightarrow> u64 option"
  en_sk_assign :: "u64 \<Rightarrow> int"

record Skb =
  sb_data :: "u8 list"
  sb_mark :: u32
  sb_tunnel :: "(u32 \<times> u32) option"
  sb_redirect :: "u32 option"

definition load_bytes :: "nat \<Rightarrow> nat \<Rightarrow> u8 list \<Rightarrow> u8 list option" where
  "load_bytes off n data = (if off + n \<le> length data then Some (take n (drop off data)) else None)"

definition store_bytes :: "nat \<Rightarrow> u8 list \<Rightarrow> u8 list \<Rightarrow> u8 list option" where
  "store_bytes off bs data =
     (if off + length bs \<le> length data then Some (take off data @ bs @ drop (off + length bs) data) else None)"

definition be16 :: "u8 list \<Rightarrow> u16" where
  "be16 bytes = of_nat (be_nat bytes)"

definition u16_bytes :: "u16 \<Rightarrow> u8 list" where
  "u16_bytes x = nat_be 2 (unat x)"

definition swap16 :: "u16 \<Rightarrow> u16" where
  "swap16 x = be16 (rev (u16_bytes x))"

definition swap32 :: "u32 \<Rightarrow> u32" where
  "swap32 x = ipv4_to_u32 (rev (u32_to_ipv4 x))"

text \<open>The fields that a classifier reads from the headers.\<close>

record Pkt =
  pt_src_ip :: u32
  pt_dst_ip :: u32
  pt_protocol :: u8
  pt_l4_offset :: nat
  pt_total_len :: u64
  pt_src_port :: u16
  pt_dst_port :: u16
  pt_tcp_flags :: u8

definition parse_l4_ports :: "u8 list \<Rightarrow> nat \<Rightarrow> u8 \<Rightarrow> u16 \<times> u16 \<times> u8" where
  "parse_l4_ports data l4_offset protocol =
     (if protocol = 6 then
        (case load_bytes l4_offset 20 data of
           Some tcp \<Rightarrow>
             (be16 (take 2 tcp), be16 (take 2 (drop 2 tcp)),
              (case load_bytes (l4_offset + 13) 1 data of Some f \<Rightarrow> hd f | None \<Rightarrow> 0))
         | None \<Rightarrow> (0, 0, 0))
      else if protocol = 17 then
        (case load_bytes l4_offset 8 data of
           Some udp \<Rightarrow> (be16 (take 2 udp), be16 (take 2 (drop 2 udp)), 0)
         | None \<Rightarrow> (0, 0, 0))
      else (0, 0, 0))"

text \<open>
  The parsing that opens every classifier. The outer \<^const>\<open>None\<close> is a header that could not be loaded, the
  inner one a frame that is not IPv4.
\<close>

definition parse_packet :: "u8 list \<Rightarrow> Pkt option option" where
  "parse_packet data =
     (case load_bytes 0 14 data of
        None \<Rightarrow> None
      | Some eth \<Rightarrow>
          if drop 12 eth \<noteq> [8, 0] then Some None
          else (case load_bytes ETH_HLEN 20 data of
                  None \<Rightarrow> None
                | Some ipv4 \<Rightarrow>
                    let protocol = ipv4 ! 9;
                        ihl = unat (ipv4 ! 0 AND 15) * 4;
                        l4_offset = ETH_HLEN + ihl;
                        (src_port, dst_port, tcp_flags) = parse_l4_ports data l4_offset protocol
                    in Some (Some \<lparr>pt_src_ip = ipv4_to_u32 (take 4 (drop 12 ipv4)), pt_dst_ip = ipv4_to_u32 (take 4 (drop 16 ipv4)),
                                   pt_protocol = protocol, pt_l4_offset = l4_offset,
                                   pt_total_len = of_nat (be_nat (take 2 (drop 2 ipv4))),
                                   pt_src_port = src_port, pt_dst_port = dst_port, pt_tcp_flags = tcp_flags\<rparr>)))"

section \<open>Helpers\<close>

definition get_config :: "u32 \<Rightarrow> Maps \<Rightarrow> u64" where
  "get_config key m = (case m_config m key of Some v \<Rightarrow> v | None \<Rightarrow> 0)"

definition pol_key :: "u32 \<Rightarrow> u32 \<Rightarrow> u8 \<Rightarrow> u16 \<Rightarrow> PolicyKey" where
  "pol_key src dst proto port = \<lparr>pk_src_identity = src, pk_dst_identity = dst, pk_protocol = proto, pk_dst_port = port\<rparr>"

text \<open>One round of the loop of \<open>check_policy\<close>: exact port, any port, any protocol and port.\<close>

definition check_pair :: "(PolicyKey \<rightharpoonup> PolicyValue) \<Rightarrow> u8 \<Rightarrow> u16 \<Rightarrow> u32 \<times> u32 \<Rightarrow> u8 option" where
  "check_pair policies proto dst_port pair =
     (case pair of (src, dst) \<Rightarrow>
        (case policies (pol_key src dst proto dst_port) of
           Some v \<Rightarrow> Some (pv_action v)
         | None \<Rightarrow>
             (case (if dst_port \<noteq> 0 then policies (pol_key src dst proto 0) else None) of
                Some v \<Rightarrow> Some (pv_action v)
              | None \<Rightarrow>
                  (case (if proto \<noteq> 0 then policies (pol_key src dst 0 0) else None) of
                     Some v \<Rightarrow> Some (pv_action v)
                   | None \<Rightarrow> None))))"

fun first_match :: "('a \<Rightarrow> 'b option) \<Rightarrow> 'a list \<Rightarrow> 'b option" where
  "first_match f [] = None"
| "first_match f (x # xs) = (case f x of Some y \<Rightarrow> Some y | None \<Rightarrow> first_match f xs)"

definition check_policy :: "Maps \<Rightarrow> u32 \<Rightarrow> u32 \<Rightarrow> u8 \<Rightarrow> u16 \<Rightarrow> u8 option" where
  "check_policy m src_id dst_id proto dst_port =
     first_match (check_pair (m_policies m) proto dst_port) [(src_id, dst_id), (src_id, 0), (0, dst_id)]"

definition inc_drop_counter :: "Env \<Rightarrow> u8 \<Rightarrow> Maps \<Rightarrow> Maps" where
  "inc_drop_counter env reason m =
     (let idx = ucast reason :: u32; c = m_drop_counters m
      in if idx < DROP_REASON_MAX
         then m\<lparr>m_drop_counters := c(en_cpu env := (c (en_cpu env))(idx := c (en_cpu env) idx + 1))\<rparr>
         else m)"

definition ip_bytes16 :: "u32 \<Rightarrow> u8 list" where
  "ip_bytes16 ip = [ucast (drop_bit 24 ip), ucast (drop_bit 16 ip), ucast (drop_bit 8 ip), ucast ip] @ replicate 12 0"

definition emit_flow_event :: "Env \<Rightarrow> Pkt \<Rightarrow> u32 \<Rightarrow> u32 \<Rightarrow> u8 \<Rightarrow> u8 \<Rightarrow> Maps \<Rightarrow> Maps" where
  "emit_flow_event env p src_identity dst_identity verdict drop_reason m =
     (if en_ring_ok env then
        m\<lparr>m_flow_events := m_flow_events m @
            [\<lparr>fe_family = AF_INET, fe_verdict = verdict, fe_drop_reason = drop_reason, fe_tcp_flags = pt_tcp_flags p,
              fe_src_identity = src_identity, fe_dst_identity = dst_identity, fe_protocol = pt_protocol p,
              fe_src_port = pt_src_port p, fe_dst_port = pt_dst_port p, fe_src_ip = ip_bytes16 (pt_src_ip p),
              fe_dst_ip = ip_bytes16 (pt_dst_ip p), fe_bytes = pt_total_len p, fe_packets = 1,
              fe_timestamp_ns = en_flow_ns env\<rparr>]\<rparr>
      else m)"

definition prefix_mask :: "nat \<Rightarrow> u32" where
  "prefix_mask plen = NOT (push_bit (32 - plen) 1 - 1)"

definition is_cluster_ip :: "u32 \<Rightarrow> Maps \<Rightarrow> bool" where
  "is_cluster_ip ip m =
     (let cidr_ip = ucast (get_config CONFIG_KEY_CLUSTER_CIDR_IP m) :: u32;
          prefix_len = ucast (get_config CONFIG_KEY_CLUSTER_CIDR_PREFIX_LEN m) :: u32
      in if prefix_len = 0 \<or> 32 < prefix_len then False
         else let msk = (if prefix_len = 32 then 0xFFFFFFFF else prefix_mask (unat prefix_len))
              in ip AND msk = cidr_ip AND msk)"

definition fnv_step :: "u32 \<Rightarrow> u32 \<Rightarrow> u32" where
  "fnv_step h x = (h XOR x) * 16777619"

definition hash_5tuple :: "u32 \<Rightarrow> u32 \<Rightarrow> u16 \<Rightarrow> u16 \<Rightarrow> u8 \<Rightarrow> u32" where
  "hash_5tuple src_ip dst_ip src_port dst_port proto =
     fnv_step (fnv_step (fnv_step (fnv_step (fnv_step 2166136261 src_ip) dst_ip) (ucast src_port)) (ucast dst_port)) (ucast proto)"

definition hash_3tuple :: "u32 \<Rightarrow> u16 \<Rightarrow> u8 \<Rightarrow> u32" where
  "hash_3tuple dst_ip dst_port proto = fnv_step (fnv_step (fnv_step 2166136261 dst_ip) (ucast dst_port)) (ucast proto)"

definition lookup_identity :: "u32 \<Rightarrow> Maps \<Rightarrow> (u32 \<times> EndpointValue) option" where
  "lookup_identity ip m = map_option (\<lambda>v. (ev_identity v, v)) (m_endpoints m \<lparr>ek_ip = ip\<rparr>)"

section \<open>Services\<close>

text \<open>The choice of a backend index, which both lookups make in the same way from different hashes.\<close>

definition select_index :: "Env \<Rightarrow> u32 \<Rightarrow> ServiceValue \<Rightarrow> Maps \<Rightarrow> u32 \<times> Maps" where
  "select_index env hash svc m =
     (let count = ucast (sv_backend_count svc) :: u32; offset = ucast (sv_backend_offset svc) :: u32; c = m_rr_counters m
      in if sv_algorithm svc = LB_ALG_ROUND_ROBIN then
           (if unat offset < MAX_SERVICES
            then (c (en_cpu env) offset mod count,
                  m\<lparr>m_rr_counters := c(en_cpu env := (c (en_cpu env))(offset := c (en_cpu env) offset + 1))\<rparr>)
            else (0, m))
         else if sv_algorithm svc = LB_ALG_MAGLEV then
           ((case arr_get MAX_MAGLEV (sv_maglev_offset svc + hash mod MAGLEV_TABLE_SIZE) (m_maglev m) of
               Some backend_idx \<Rightarrow> backend_idx | None \<Rightarrow> 0), m)
         else (hash mod count, m))"

definition service_lookup ::
  "Env \<Rightarrow> u32 \<Rightarrow> u16 \<Rightarrow> u8 \<Rightarrow> u32 \<Rightarrow> u16 \<Rightarrow> u8 \<Rightarrow> Maps \<Rightarrow> (u32 \<times> u16 \<times> u32 \<times> u16) option \<times> Maps" where
  "service_lookup env dst_ip dst_port protocol src_ip src_port scope m =
     (if get_config CONFIG_KEY_L4LB_ENABLED m = 0 then (None, m)
      else
        let ct_key = \<lparr>ck_src_ip = src_ip, ck_dst_ip = dst_ip, ck_src_port = src_port, ck_dst_port = dst_port, ck_protocol = protocol\<rparr>
        in (case m_conntrack m ct_key of
              Some ct \<Rightarrow> (Some (cv_backend_ip ct, cv_backend_port ct, cv_origin_ip ct, cv_origin_port ct), m)
            | None \<Rightarrow>
                (case m_services m \<lparr>sk_ip = dst_ip, sk_port = dst_port, sk_protocol = protocol, sk_scope = scope\<rparr> of
                   None \<Rightarrow> (None, m)
                 | Some svc \<Rightarrow>
                     if sv_backend_count svc = 0 then (None, m)
                     else
                       let (idx, m1) = select_index env (hash_5tuple src_ip dst_ip src_port dst_port protocol) svc m
                       in (case arr_get MAX_BACKENDS (ucast (sv_backend_offset svc) + idx) (m_backends m1) of
                             None \<Rightarrow> (None, m1)
                           | Some backend \<Rightarrow>
                               let ct_val = \<lparr>cv_timestamp = 0, cv_backend_ip = bv_ip backend, cv_origin_ip = dst_ip,
                                             cv_backend_port = bv_port backend, cv_origin_port = dst_port, cv_flags = 0\<rparr>;
                                   ct1 = lru_insert (en_evict_ct env (m_conntrack m1)) ct_key ct_val (m_conntrack m1);
                                   rev_key = \<lparr>ck_src_ip = bv_ip backend, ck_dst_ip = src_ip, ck_src_port = bv_port backend,
                                              ck_dst_port = src_port, ck_protocol = protocol\<rparr>;
                                   rev_val = \<lparr>cv_timestamp = 0, cv_backend_ip = 0, cv_origin_ip = dst_ip,
                                              cv_backend_port = 0, cv_origin_port = dst_port, cv_flags = 0\<rparr>;
                                   ct2 = lru_insert (en_evict_ct env ct1) rev_key rev_val ct1
                               in (Some (bv_ip backend, bv_port backend, dst_ip, dst_port), m1\<lparr>m_conntrack := ct2\<rparr>)))))"

definition sock_service_lookup :: "Env \<Rightarrow> u32 \<Rightarrow> u16 \<Rightarrow> u8 \<Rightarrow> Maps \<Rightarrow> (u32 \<times> u16) option \<times> Maps" where
  "sock_service_lookup env dst_ip dst_port protocol m =
     (if get_config CONFIG_KEY_L4LB_ENABLED m = 0 then (None, m)
      else
        (case m_services m \<lparr>sk_ip = dst_ip, sk_port = dst_port, sk_protocol = protocol, sk_scope = SVC_SCOPE_CLUSTER_IP\<rparr> of
           None \<Rightarrow> (None, m)
         | Some svc \<Rightarrow>
             if sv_backend_count svc = 0 then (None, m)
             else
               let (idx, m1) = select_index env (hash_3tuple dst_ip dst_port protocol) svc m
               in (map_option (\<lambda>backend. (bv_ip backend, bv_port backend))
                     (arr_get MAX_BACKENDS (ucast (sv_backend_offset svc) + idx) (m_backends m1)), m1)))"

section \<open>Address translation\<close>

text \<open>
  The common body of \<open>perform_dnat\<close> and \<open>perform_snat\<close>, which differ in the offsets of the address in the IP
  header and of the port in the transport header. The callers ignore the result, so a failing step
  leaves the packet as it is at that point.
\<close>

definition rewrite_addr ::
  "Env \<Rightarrow> nat \<Rightarrow> nat \<Rightarrow> nat \<Rightarrow> u8 \<Rightarrow> u32 \<Rightarrow> u32 \<Rightarrow> u16 \<Rightarrow> u16 \<Rightarrow> u8 list \<Rightarrow> u8 list" where
  "rewrite_addr env ip_off port_off l4_offset protocol old_ip new_ip old_port new_port data =
     (case en_l3_csum env (ETH_HLEN + 10) (ucast (swap32 old_ip)) (ucast (swap32 new_ip)) 4 data of
        None \<Rightarrow> data
      | Some d1 \<Rightarrow>
          (case store_bytes (ETH_HLEN + ip_off) (u32_to_ipv4 new_ip) d1 of
             None \<Rightarrow> d1
           | Some d2 \<Rightarrow>
               if protocol = 6 \<or> protocol = 17 then
                 let csum_offset = (if protocol = 6 then l4_offset + 16 else l4_offset + 6)
                 in (case en_l4_csum env csum_offset (ucast (swap32 old_ip)) (ucast (swap32 new_ip)) 0x14 d2 of
                       None \<Rightarrow> d2
                     | Some d3 \<Rightarrow>
                         (case en_l4_csum env csum_offset (ucast (swap16 old_port)) (ucast (swap16 new_port)) 2 d3 of
                            None \<Rightarrow> d3
                          | Some d4 \<Rightarrow>
                              (case store_bytes (l4_offset + port_off) (u16_bytes new_port) d4 of
                                 None \<Rightarrow> d4
                               | Some d5 \<Rightarrow> d5)))
               else d2))"

definition perform_dnat :: "Env \<Rightarrow> nat \<Rightarrow> u8 \<Rightarrow> u32 \<Rightarrow> u32 \<Rightarrow> u16 \<Rightarrow> u16 \<Rightarrow> u8 list \<Rightarrow> u8 list" where
  "perform_dnat env = rewrite_addr env 16 2"

definition perform_snat :: "Env \<Rightarrow> nat \<Rightarrow> u8 \<Rightarrow> u32 \<Rightarrow> u32 \<Rightarrow> u16 \<Rightarrow> u16 \<Rightarrow> u8 list \<Rightarrow> u8 list" where
  "perform_snat env = rewrite_addr env 12 0"

section \<open>Egress policy, rate limit, backend health\<close>

definition egress_mask :: "nat \<Rightarrow> u32" where
  "egress_mask plen = (if plen = 0 then 0 else if plen = 32 then 0xFFFFFFFF else prefix_mask plen)"

definition egress_at :: "(EgressKey \<rightharpoonup> EgressValue) \<Rightarrow> u32 \<Rightarrow> u32 \<Rightarrow> nat \<Rightarrow> EgressValue option" where
  "egress_at eg src_identity dst_ip plen =
     eg \<lparr>gk_src_identity = src_identity, gk_dst_ip = dst_ip AND egress_mask plen, gk_dst_prefix_len = of_nat plen\<rparr>"

definition check_egress_policy :: "Maps \<Rightarrow> u32 \<Rightarrow> u32 \<Rightarrow> bool \<times> u32" where
  "check_egress_policy m src_identity dst_ip =
     (case first_match (egress_at (m_egress m) src_identity dst_ip) [32, 24, 16, 8, 0] of
        Some v \<Rightarrow>
          (if gv_action v = EGRESS_DENY then (False, 0)
           else if gv_action v = EGRESS_ALLOW then (True, 0)
           else if gv_action v = EGRESS_SNAT then (True, gv_snat_ip v)
           else (False, 0))
      | None \<Rightarrow> (True, 0))"

definition saturating_sub :: "u64 \<Rightarrow> u64 \<Rightarrow> u64" where
  "saturating_sub a b = (if b \<le> a then a - b else 0)"

definition saturating_add :: "u64 \<Rightarrow> u64 \<Rightarrow> u64" where
  "saturating_add a b = (if unat a + unat b < 2 ^ 64 then a + b else - 1)"

definition check_rate_limit :: "Env \<Rightarrow> u32 \<Rightarrow> Maps \<Rightarrow> bool \<times> Maps" where
  "check_rate_limit env src_ip m =
     (let cfg = m_rl_config m; key = \<lparr>rk_addr = ip_bytes16 src_ip\<rparr>; now_ns = en_rl_ns env;
          put = (\<lambda>st. m\<lparr>m_rl_tokens := lru_insert (en_evict_rl env (m_rl_tokens m)) key st (m_rl_tokens m)\<rparr>);
          burst = ucast (rl_burst cfg) :: u64
      in if rl_rate cfg = 0 then (True, m)
         else (case m_rl_tokens m key of
                 Some state \<Rightarrow>
                   let elapsed = saturating_sub now_ns (tb_last_refill_ns state);
                       tokens = (if rl_window_ns cfg \<le> elapsed \<and> 0 < rl_window_ns cfg
                                 then min (saturating_add (tb_tokens state) (elapsed div rl_window_ns cfg * ucast (rl_rate cfg))) burst
                                 else tb_tokens state)
                   in if 0 < tokens then (True, put \<lparr>tb_tokens = tokens - 1, tb_last_refill_ns = now_ns\<rparr>)
                      else (False, m)
               | None \<Rightarrow>
                   (True, put \<lparr>tb_tokens = (if 0 < rl_burst cfg then burst - 1 else 0), tb_last_refill_ns = now_ns\<rparr>)))"

definition count_flags :: "Env \<Rightarrow> u8 \<Rightarrow> BackendHealthCounters \<Rightarrow> BackendHealthCounters" where
  "count_flags env tcp_flags c =
     (let c1 = (if tcp_flags AND 0x02 \<noteq> 0 \<and> tcp_flags AND 0x10 = 0
                then c\<lparr>hc_total_conns := hc_total_conns c + 1\<rparr> else c);
          c2 = (if tcp_flags AND 0x12 = 0x12
                then c1\<lparr>hc_success_conns := hc_success_conns c1 + 1, hc_last_success_ns := en_success_ns env\<rparr> else c1)
      in if tcp_flags AND 0x04 \<noteq> 0
         then c2\<lparr>hc_failed_conns := hc_failed_conns c2 + 1, hc_last_failure_ns := en_failure_ns env\<rparr> else c2)"

definition track_backend_health :: "Env \<Rightarrow> u32 \<Rightarrow> u16 \<Rightarrow> u8 \<Rightarrow> Maps \<Rightarrow> Maps" where
  "track_backend_health env dst_ip dst_port tcp_flags m =
     (if tcp_flags = 0 then m
      else
        let key = \<lparr>bh_ip = dst_ip, bh_port = ucast dst_port\<rparr>; h = m_backend_health m; cpu = en_cpu env
        in (case h key of
              Some cs \<Rightarrow> m\<lparr>m_backend_health := h(key \<mapsto> cs(cpu := count_flags env tcp_flags (cs cpu)))\<rparr>
            | None \<Rightarrow>
                (case hm_insert 4096 key ((\<lambda>_. zero_counters)(cpu := count_flags env tcp_flags zero_counters)) h of
                   None \<Rightarrow> m
                 | Some h' \<Rightarrow> m\<lparr>m_backend_health := h'\<rparr>)))"

section \<open>Classifiers\<close>

definition ip_to_tunnel_mac :: "u64 \<Rightarrow> u8 list" where
  "ip_to_tunnel_mac ip = [0xaa, 0xbb] @ u32_to_ipv4 (ucast ip)"

definition set_tunnel_key :: "Env \<Rightarrow> u32 \<Rightarrow> u32 \<Rightarrow> Skb \<Rightarrow> bool \<times> Skb" where
  "set_tunnel_key env remote_ip vni skb =
     (if en_tunnel_ok env then (True, skb\<lparr>sb_tunnel := Some (remote_ip, vni)\<rparr>) else (False, skb))"

definition bpf_redirect :: "Env \<Rightarrow> u32 \<Rightarrow> Skb \<Rightarrow> int \<times> Skb" where
  "bpf_redirect env ifindex skb = (en_redirect env ifindex, skb\<lparr>sb_redirect := Some ifindex\<rparr>)"

text \<open>A drop that is counted and reported, and the decision that the classifiers take on a pair of identities.\<close>

definition drop_packet :: "Env \<Rightarrow> u8 \<Rightarrow> Pkt \<Rightarrow> u32 \<Rightarrow> u32 \<Rightarrow> Maps \<Rightarrow> Maps" where
  "drop_packet env reason p src_identity dst_identity m =
     emit_flow_event env p src_identity dst_identity ACTION_DENY reason (inc_drop_counter env reason m)"

definition enforce :: "Env \<Rightarrow> Pkt \<Rightarrow> u32 \<Rightarrow> u32 \<Rightarrow> Maps \<Rightarrow> int \<times> Maps" where
  "enforce env p src_identity dst_identity m =
     (let deny = (TC_ACT_SHOT, drop_packet env DROP_REASON_POLICY_DENIED p src_identity dst_identity m);
          verdict = check_policy m src_identity dst_identity (pt_protocol p) (pt_dst_port p)
      in if verdict = Some ACTION_DENY then deny
         else if verdict = Some ACTION_ALLOW
         then (TC_ACT_OK, emit_flow_event env p src_identity dst_identity ACTION_ALLOW DROP_REASON_NONE m)
         else if get_config CONFIG_KEY_DEFAULT_DENY m = 1 then deny
         else (TC_ACT_OK, m))"

definition try_tc_ingress :: "Env \<Rightarrow> Skb \<Rightarrow> Maps \<Rightarrow> int option \<times> Skb \<times> Maps" where
  "try_tc_ingress env skb m =
     (case parse_packet (sb_data skb) of
        None \<Rightarrow> (None, skb, m)
      | Some None \<Rightarrow> (Some TC_ACT_OK, skb, m)
      | Some (Some p) \<Rightarrow>
          (case check_rate_limit env (pt_src_ip p) m of
             (False, m1) \<Rightarrow> (Some TC_ACT_SHOT, skb, inc_drop_counter env DROP_REASON_RATE_LIMITED m1)
           | (True, m1) \<Rightarrow>
               let m2 = (if pt_protocol p = 6 then track_backend_health env (pt_dst_ip p) (pt_dst_port p) (pt_tcp_flags p) m1 else m1)
               in if get_config CONFIG_KEY_MODE m2 = MODE_OVERLAY then (Some TC_ACT_OK, skb, m2)
                  else (case lookup_identity (pt_src_ip p) m2 of
                          None \<Rightarrow>
                            if get_config CONFIG_KEY_DEFAULT_DENY m2 = 1
                            then (Some TC_ACT_SHOT, skb, drop_packet env DROP_REASON_NO_IDENTITY p 0 0 m2)
                            else (Some TC_ACT_OK, skb, m2)
                        | Some (src_identity, _) \<Rightarrow>
                            let dst_identity = (case lookup_identity (pt_dst_ip p) m2 of Some (i, _) \<Rightarrow> i | None \<Rightarrow> 0);
                                (act, m3) = enforce env p src_identity dst_identity m2
                            in (Some act, skb, m3))))"

definition tc_ingress :: "Env \<Rightarrow> Skb \<Rightarrow> Maps \<Rightarrow> int \<times> Skb \<times> Maps" where
  "tc_ingress env skb m = (case try_tc_ingress env skb m of (r, skb', m') \<Rightarrow> (case r of Some a \<Rightarrow> a | None \<Rightarrow> TC_ACT_OK, skb', m'))"

text \<open>The path of \<open>tc_egress\<close> to an endpoint on another node through the overlay.\<close>

definition overlay_egress :: "Env \<Rightarrow> Pkt \<Rightarrow> u32 \<Rightarrow> u32 \<Rightarrow> EndpointValue \<Rightarrow> Skb \<Rightarrow> Maps \<Rightarrow> int \<times> Skb \<times> Maps" where
  "overlay_egress env p src_identity dst_identity dst_ep skb m =
     (case m_tunnels m \<lparr>tk_node_ip = ev_node_ip dst_ep\<rparr> of
        None \<Rightarrow> (TC_ACT_SHOT, skb, drop_packet env DROP_REASON_NO_TUNNEL p src_identity dst_identity m)
      | Some tunnel \<Rightarrow>
          let verdict = check_policy m src_identity dst_identity (pt_protocol p) (pt_dst_port p)
          in if verdict = Some ACTION_DENY \<or> verdict \<noteq> Some ACTION_ALLOW \<and> get_config CONFIG_KEY_DEFAULT_DENY m = 1
             then (TC_ACT_SHOT, skb, drop_packet env DROP_REASON_POLICY_DENIED p src_identity dst_identity m)
             else (case set_tunnel_key env (tv_remote_ip tunnel) (tv_vni tunnel) skb of
                     (False, skb1) \<Rightarrow> (TC_ACT_SHOT, skb1, inc_drop_counter env DROP_REASON_NO_TUNNEL m)
                   | (True, skb1) \<Rightarrow>
                       let m1 = emit_flow_event env p src_identity dst_identity ACTION_ALLOW DROP_REASON_NONE m;
                           (act, skb2) = bpf_redirect env (tv_ifindex tunnel) skb1
                       in (act, skb2, m1)))"

text \<open>The path of \<open>tc_egress\<close> to a destination that is no endpoint.\<close>

definition external_egress :: "Env \<Rightarrow> Pkt \<Rightarrow> u32 \<Rightarrow> Maps \<Rightarrow> int \<times> Maps" where
  "external_egress env p src_identity m =
     (if \<not> is_cluster_ip (pt_dst_ip p) m then
        (case check_egress_policy m src_identity (pt_dst_ip p) of (allowed, _) \<Rightarrow>
           if \<not> allowed then (TC_ACT_SHOT, drop_packet env DROP_REASON_POLICY_DENIED p src_identity 0 m)
           else (TC_ACT_OK, emit_flow_event env p src_identity 0 ACTION_ALLOW DROP_REASON_NONE m))
      else if get_config CONFIG_KEY_MODE m = MODE_OVERLAY
      then (TC_ACT_SHOT, drop_packet env DROP_REASON_NO_ROUTE p src_identity 0 m)
      else (TC_ACT_OK, m))"

definition try_tc_egress :: "Env \<Rightarrow> Skb \<Rightarrow> Maps \<Rightarrow> int option \<times> Skb \<times> Maps" where
  "try_tc_egress env skb m =
     (case parse_packet (sb_data skb) of
        None \<Rightarrow> (None, skb, m)
      | Some None \<Rightarrow> (Some TC_ACT_OK, skb, m)
      | Some (Some p) \<Rightarrow>
          let src_identity = (case lookup_identity (pt_src_ip p) m of Some (i, _) \<Rightarrow> i | None \<Rightarrow> 0)
          in (case lookup_identity (pt_dst_ip p) m of
                Some (dst_identity, dst_ep) \<Rightarrow>
                  let node_ip = ucast (get_config CONFIG_KEY_NODE_IP m) :: u32
                  in if ev_node_ip dst_ep = node_ip \<or> ev_node_ip dst_ep = 0
                     then (let (act, m1) = enforce env p src_identity dst_identity m in (Some act, skb, m1))
                     else if get_config CONFIG_KEY_MODE m = MODE_OVERLAY
                     then (let (act, skb1, m1) = overlay_egress env p src_identity dst_identity dst_ep skb m in (Some act, skb1, m1))
                     else (let (act, m1) = enforce env p src_identity dst_identity m in (Some act, skb, m1))
              | None \<Rightarrow> (let (act, m1) = external_egress env p src_identity m in (Some act, skb, m1))))"

definition tc_egress :: "Env \<Rightarrow> Skb \<Rightarrow> Maps \<Rightarrow> int \<times> Skb \<times> Maps" where
  "tc_egress env skb m = (case try_tc_egress env skb m of (r, skb', m') \<Rightarrow> (case r of Some a \<Rightarrow> a | None \<Rightarrow> TC_ACT_OK, skb', m'))"

definition redirect_to :: "Env \<Rightarrow> u32 \<Rightarrow> Skb \<Rightarrow> Maps \<Rightarrow> int \<times> Skb \<times> Maps" where
  "redirect_to env dst_ip skb m =
     (case lookup_identity dst_ip m of
        Some (_, dst_ep) \<Rightarrow> (let (act, skb1) = bpf_redirect env (ev_ifindex dst_ep) skb in (act, skb1, m))
      | None \<Rightarrow> (TC_ACT_OK, skb, m))"

definition enforce_tunnel_policy :: "Env \<Rightarrow> Pkt \<Rightarrow> u32 \<Rightarrow> u32 \<Rightarrow> Skb \<Rightarrow> Maps \<Rightarrow> int \<times> Skb \<times> Maps" where
  "enforce_tunnel_policy env p src_identity dst_identity skb m =
     (if src_identity = 0 then
        (if get_config CONFIG_KEY_DEFAULT_DENY m = 1
         then (TC_ACT_SHOT, skb, drop_packet env DROP_REASON_NO_IDENTITY p 0 dst_identity m)
         else redirect_to env (pt_dst_ip p) skb m)
      else
        let deny = (TC_ACT_SHOT, skb, drop_packet env DROP_REASON_POLICY_DENIED p src_identity dst_identity m);
            verdict = check_policy m src_identity dst_identity (pt_protocol p) (pt_dst_port p)
        in if verdict = Some ACTION_DENY then deny
           else if verdict = Some ACTION_ALLOW
           then redirect_to env (pt_dst_ip p) skb (emit_flow_event env p src_identity dst_identity ACTION_ALLOW DROP_REASON_NONE m)
           else if get_config CONFIG_KEY_DEFAULT_DENY m = 1 then deny
           else redirect_to env (pt_dst_ip p) skb m)"

definition packet_ct_key :: "Pkt \<Rightarrow> CtKey" where
  "packet_ct_key p =
     \<lparr>ck_src_ip = pt_src_ip p, ck_dst_ip = pt_dst_ip p, ck_src_port = pt_src_port p, ck_dst_port = pt_dst_port p,
      ck_protocol = pt_protocol p\<rparr>"

definition try_tc_tunnel_ingress :: "Env \<Rightarrow> Skb \<Rightarrow> Maps \<Rightarrow> int option \<times> Skb \<times> Maps" where
  "try_tc_tunnel_ingress env skb m =
     (let skb0 = skb\<lparr>sb_mark := 0x4000\<rparr>
      in (case parse_packet (sb_data skb0) of
            None \<Rightarrow> (None, skb0, m)
          | Some None \<Rightarrow> (Some TC_ACT_OK, skb0, m)
          | Some (Some p) \<Rightarrow>
              let pod_mac = [0x02, 0xfe] @ u32_to_ipv4 (pt_dst_ip p);
                  d1 = (case store_bytes 0 pod_mac (sb_data skb0) of Some d \<Rightarrow> d | None \<Rightarrow> sb_data skb0);
                  d2 = (if get_config CONFIG_KEY_L4LB_ENABLED m \<noteq> 0 then
                          (case m_conntrack m (packet_ct_key p) of
                             Some ct \<Rightarrow>
                               if cv_origin_ip ct \<noteq> 0
                               then perform_snat env (pt_l4_offset p) (pt_protocol p) (pt_src_ip p) (cv_origin_ip ct)
                                      (pt_src_port p) (cv_origin_port ct) d1
                               else d1
                           | None \<Rightarrow> d1)
                        else d1);
                  src_identity = (case lookup_identity (pt_src_ip p) m of Some (i, _) \<Rightarrow> i | None \<Rightarrow> 0);
                  dst_identity = (case lookup_identity (pt_dst_ip p) m of Some (i, _) \<Rightarrow> i | None \<Rightarrow> 0);
                  (act, skb1, m1) = enforce_tunnel_policy env p src_identity dst_identity (skb0\<lparr>sb_data := d2\<rparr>) m
              in (Some act, skb1, m1)))"

definition tc_tunnel_ingress :: "Env \<Rightarrow> Skb \<Rightarrow> Maps \<Rightarrow> int \<times> Skb \<times> Maps" where
  "tc_tunnel_ingress env skb m =
     (case try_tc_tunnel_ingress env skb m of (r, skb', m') \<Rightarrow> (case r of Some a \<Rightarrow> a | None \<Rightarrow> TC_ACT_OK, skb', m'))"

definition tc_tunnel_egress :: "Skb \<Rightarrow> Maps \<Rightarrow> int \<times> Skb \<times> Maps" where
  "tc_tunnel_egress skb m = (TC_ACT_OK, skb, m)"

definition try_tc_host_ingress :: "Env \<Rightarrow> Skb \<Rightarrow> Maps \<Rightarrow> int option \<times> Skb \<times> Maps" where
  "try_tc_host_ingress env skb m =
     (if get_config CONFIG_KEY_L4LB_ENABLED m = 0 then (Some TC_ACT_OK, skb, m)
      else
        (case parse_packet (sb_data skb) of
           None \<Rightarrow> (None, skb, m)
         | Some None \<Rightarrow> (Some TC_ACT_OK, skb, m)
         | Some (Some p) \<Rightarrow>
             let dnat = (\<lambda>ip port. skb\<lparr>sb_data := perform_dnat env (pt_l4_offset p) (pt_protocol p) (pt_dst_ip p) ip
                                                    (pt_dst_port p) port (sb_data skb)\<rparr>)
             in (case m_conntrack m (packet_ct_key p) of
                   Some ct \<Rightarrow>
                     (Some TC_ACT_OK,
                      if cv_origin_ip ct \<noteq> 0
                      then skb\<lparr>sb_data := perform_snat env (pt_l4_offset p) (pt_protocol p) (pt_src_ip p) (cv_origin_ip ct)
                                             (pt_src_port p) (cv_origin_port ct) (sb_data skb)\<rparr>
                      else skb, m)
                 | None \<Rightarrow>
                     (case service_lookup env 0 (pt_dst_port p) (pt_protocol p) (pt_src_ip p) (pt_src_port p) SVC_SCOPE_NODE_PORT m of
                        (Some (ip, port, _, _), m1) \<Rightarrow> (Some TC_ACT_OK, dnat ip port, m1)
                      | (None, m1) \<Rightarrow>
                          (case service_lookup env (pt_dst_ip p) (pt_dst_port p) (pt_protocol p) (pt_src_ip p) (pt_src_port p)
                                  SVC_SCOPE_EXTERNAL_IP m1 of
                             (Some (ip, port, _, _), m2) \<Rightarrow> (Some TC_ACT_OK, dnat ip port, m2)
                           | (None, m2) \<Rightarrow> (Some TC_ACT_OK, skb, m2))))))"

definition tc_host_ingress :: "Env \<Rightarrow> Skb \<Rightarrow> Maps \<Rightarrow> int \<times> Skb \<times> Maps" where
  "tc_host_ingress env skb m =
     (case try_tc_host_ingress env skb m of (r, skb', m') \<Rightarrow> (case r of Some a \<Rightarrow> a | None \<Rightarrow> TC_ACT_OK, skb', m'))"

section \<open>Socket programs\<close>

text \<open>\<open>bpf_sock_addr\<close>: the address and the port as the program reads them from memory.\<close>

record SockAddr =
  sa_user_ip4 :: u32
  sa_user_port :: u32

definition sock_translate :: "u8 \<Rightarrow> Env \<Rightarrow> SockAddr \<Rightarrow> Maps \<Rightarrow> int \<times> SockAddr \<times> Maps" where
  "sock_translate protocol env a m =
     (let dst_ip = sa_user_ip4 a; dst_port = swap16 (ucast (sa_user_port a))
      in (case sock_service_lookup env dst_ip dst_port protocol m of
            (Some (backend_ip, backend_port), m1) \<Rightarrow>
              let origin = \<lparr>so_original_ip = dst_ip, so_original_port = dst_port, so_protocol = protocol\<rparr>;
                  o' = m_sock_lb_origins m1
              in (1, \<lparr>sa_user_ip4 = backend_ip, sa_user_port = ucast (swap16 backend_port)\<rparr>,
                  m1\<lparr>m_sock_lb_origins := lru_insert (en_evict_so env o') (en_cookie env) origin o'\<rparr>)
          | (None, m1) \<Rightarrow> (1, a, m1)))"

definition sock_connect4 :: "Env \<Rightarrow> SockAddr \<Rightarrow> Maps \<Rightarrow> int \<times> SockAddr \<times> Maps" where
  "sock_connect4 = sock_translate 6"

definition sock_sendmsg4 :: "Env \<Rightarrow> SockAddr \<Rightarrow> Maps \<Rightarrow> int \<times> SockAddr \<times> Maps" where
  "sock_sendmsg4 = sock_translate 17"

definition sock_restore :: "Env \<Rightarrow> SockAddr \<Rightarrow> Maps \<Rightarrow> int \<times> SockAddr" where
  "sock_restore env a m =
     (case m_sock_lb_origins m (en_cookie env) of
        Some origin \<Rightarrow> (1, \<lparr>sa_user_ip4 = so_original_ip origin, sa_user_port = ucast (swap16 (so_original_port origin))\<rparr>)
      | None \<Rightarrow> (1, a))"

definition sock_recvmsg4 :: "Env \<Rightarrow> SockAddr \<Rightarrow> Maps \<Rightarrow> int \<times> SockAddr" where
  "sock_recvmsg4 = sock_restore"

definition sock_getpeername4 :: "Env \<Rightarrow> SockAddr \<Rightarrow> Maps \<Rightarrow> int \<times> SockAddr" where
  "sock_getpeername4 = sock_restore"

text \<open>The fields of \<open>bpf_sock_ops\<close> and \<open>sk_msg_md\<close> that the programs read.\<close>

record SockOps =
  op_op :: u32
  op_local_ip4 :: u32
  op_remote_ip4 :: u32
  op_local_port :: u32
  op_remote_port :: u32

definition sockops_sockmap :: "Env \<Rightarrow> SockOps \<Rightarrow> Maps \<Rightarrow> u32 \<times> Maps" where
  "sockops_sockmap env ctx m =
     (if op_op ctx \<noteq> 4 \<and> op_op ctx \<noteq> 5 then (0, m)
      else
        let src_ip = op_local_ip4 ctx; dst_ip = op_remote_ip4 ctx; src_port = ucast (op_local_port ctx) :: u16;
            dst_port = swap16 (ucast (op_remote_port ctx));
            is_local = (\<lambda>ip port. m_sockmap_endpoints m \<lparr>se_ip = ip, se_port = ucast (port :: u16)\<rparr> \<noteq> None);
            key = \<lparr>kk_src_ip = src_ip, kk_dst_ip = dst_ip, kk_src_port = src_port, kk_dst_port = dst_port, kk_family = 2\<rparr>
        in if is_local src_ip src_port \<and> is_local dst_ip dst_port
           then (0, (case hm_insert 65536 key (en_cookie env) (m_sock_hash m) of None \<Rightarrow> m | Some h \<Rightarrow> m\<lparr>m_sock_hash := h\<rparr>))
           else (0, m))"

definition sk_msg_sockmap :: "Env \<Rightarrow> SockOps \<Rightarrow> Maps \<Rightarrow> u32 \<times> u64 option \<times> Maps" where
  "sk_msg_sockmap env msg m =
     (let dst_port = swap16 (ucast (op_remote_port msg));
          peer_key = \<lparr>kk_src_ip = op_remote_ip4 msg, kk_dst_ip = op_local_ip4 msg, kk_src_port = dst_port,
                      kk_dst_port = ucast (op_local_port msg), kk_family = 2\<rparr>;
          peer = m_sock_hash m peer_key;
          i = (if peer \<noteq> None then 0 else 1); st = m_sockmap_stats m; cpu = en_cpu env
      in (1, peer, m\<lparr>m_sockmap_stats := st(cpu := (st cpu)(i := st cpu i + 1))\<rparr>))"

record SkLookup =
  lk_family :: u32
  lk_protocol :: u32
  lk_local_ip4 :: u32
  lk_local_port :: u32

text \<open>\<open>sk_lookup_mesh\<close>: the verdict, which is always to go on, and the socket that was assigned.\<close>

definition sk_lookup_mesh :: "Env \<Rightarrow> SkLookup \<Rightarrow> Maps \<Rightarrow> u32 \<times> u64 option" where
  "sk_lookup_mesh env l m =
     (if lk_family l \<noteq> 2 \<or> lk_protocol l \<noteq> 6 then (0, None)
      else
        (case m_mesh_services m \<lparr>mk_ip = lk_local_ip4 l, mk_port = lk_local_port l\<rparr> of
           None \<Rightarrow> (0, None)
         | Some redirect \<Rightarrow>
             (case en_sk_lookup env 0x0100007f (swap16 (ucast (mr_redirect_port redirect))) of
                None \<Rightarrow> (0, None)
              | Some sk \<Rightarrow> (0, if en_sk_assign env sk \<noteq> 0 then None else Some sk))))"

section \<open>Policy lookup\<close>

text \<open>The entries that cover a packet, most specific first.\<close>

definition policy_keys :: "u32 \<Rightarrow> u32 \<Rightarrow> u8 \<Rightarrow> u16 \<Rightarrow> PolicyKey list" where
  "policy_keys s d proto port =
     concat (map (\<lambda>(a, b). [pol_key a b proto port, pol_key a b proto 0, pol_key a b 0 0]) [(s, d), (s, 0), (0, d)])"

lemma first_match_append:
  "first_match f (xs @ ys) = (case first_match f xs of Some y \<Rightarrow> Some y | None \<Rightarrow> first_match f ys)"
  by (induction xs) (auto split: option.splits)

lemma first_match_None: "first_match f xs = None \<longleftrightarrow> (\<forall>x \<in> set xs. f x = None)"
  by (induction xs) (auto split: option.splits)

lemma first_match_mem: "first_match f xs = Some y \<Longrightarrow> \<exists>x \<in> set xs. f x = Some y"
  by (induction xs) (auto split: option.splits)

lemma first_match_map_option: "map_option g (first_match f xs) = first_match (\<lambda>x. map_option g (f x)) xs"
  by (induction xs) (auto split: option.splits)

lemma first_match_concat: "first_match f (concat (map g xs)) = first_match (\<lambda>x. first_match f (g x)) xs"
  by (induction xs) (auto simp: first_match_append split: option.splits)

lemma check_pair_keys:
  "check_pair P proto port (a, b) =
     map_option pv_action (first_match P [pol_key a b proto port, pol_key a b proto 0, pol_key a b 0 0])"
  by (auto simp: check_pair_def split: option.splits)

lemma check_policy_keys:
  "check_policy m s d proto port = map_option pv_action (first_match (m_policies m) (policy_keys s d proto port))"
proof -
  have "check_pair (m_policies m) proto port =
      (\<lambda>x. map_option pv_action (first_match (m_policies m)
        (case x of (a, b) \<Rightarrow> [pol_key a b proto port, pol_key a b proto 0, pol_key a b 0 0])))"
    by (auto simp: fun_eq_iff check_pair_keys simp del: first_match.simps)
  then show ?thesis unfolding check_policy_def policy_keys_def first_match_concat first_match_map_option by simp
qed

lemma check_policy_uniform:
  assumes "\<And>k v. m_policies m k = Some v \<Longrightarrow> pv_action v = a"
  shows "check_policy m s d proto port = (if \<exists>k \<in> set (policy_keys s d proto port). m_policies m k \<noteq> None then Some a else None)"
proof (cases "first_match (m_policies m) (policy_keys s d proto port)")
  case None
  then show ?thesis by (simp add: check_policy_keys first_match_None)
next
  case (Some v)
  from first_match_mem [OF Some] obtain k where k: "k \<in> set (policy_keys s d proto port)" "m_policies m k = Some v" ..
  have "check_policy m s d proto port = Some a" using Some assms [OF k(2)] by (simp add: check_policy_keys)
  moreover have "\<exists>k \<in> set (policy_keys s d proto port). m_policies m k \<noteq> None" using k by (intro bexI [of _ k]) simp_all
  ultimately show ?thesis by simp
qed

lemma mem_policy_keys:
  "pol_key a b pr po \<in> set (policy_keys s d proto port) \<longleftrightarrow>
     (a = s \<and> b = d \<or> a = s \<and> b = 0 \<or> a = 0 \<and> b = d) \<and> (pr = proto \<and> (po = port \<or> po = 0) \<or> pr = 0 \<and> po = 0)"
  by (auto simp: policy_keys_def pol_key_def)

lemma enforce_verdict:
  "fst (enforce env p s d m) = TC_ACT_OK \<longleftrightarrow>
     (if get_config CONFIG_KEY_DEFAULT_DENY m = 1
      then check_policy m s d (pt_protocol p) (pt_dst_port p) = Some ACTION_ALLOW
      else check_policy m s d (pt_protocol p) (pt_dst_port p) \<noteq> Some ACTION_DENY)"
  by (simp add: enforce_def Let_def tc_defs action_defs)

text \<open>On the node of both pods \<open>tc_egress\<close> enforces the policy on the identities of the endpoints.\<close>

lemma tc_egress_local:
  assumes "parse_packet (sb_data skb) = Some (Some p)"
    and "lookup_identity (pt_src_ip p) m = Some (s, eps)" and "lookup_identity (pt_dst_ip p) m = Some (d, epd)"
    and "ev_node_ip epd = ucast (get_config CONFIG_KEY_NODE_IP m)"
  shows "fst (tc_egress env skb m) = fst (enforce env p s d m)"
  using assms by (simp add: tc_egress_def try_tc_egress_def split: prod.splits)

end
