(* ===== verification/Enforcement.thy ===== *)
theory Enforcement
  imports Agent_Server Dataplane_Programs
begin

text \<open>
  From compiled rules to verdicts on packets: what the agent's policy callback leaves in the maps, and what
  the programs make of it. The lemmas connect the compiler's reading of a rule, over 64 bit identities,
  with the lookup of the dataplane, over 32 bit ones.
\<close>

section \<open>The policy callback\<close>

lemma ucast_back: "ucast (ucast (x :: u8) :: u32) = x" "ucast (ucast (y :: u16) :: u32) = y"
  by (rule bit_word_eqI, simp add: bit_ucast_iff)+

lemma policy_key_entry:
  "policy_key (policy_entry r) = pol_key (ucast (cr_SrcIdentity r)) (ucast (cr_DstIdentity r)) (cr_Protocol r) (cr_DstPort r)"
  by (simp add: policy_key_def policy_entry_def pol_key_def ucast_back)

lemma policy_value_entry:
  "policy_value (policy_entry r) = \<lparr>pv_action = (if cr_Action r = ActionAllow then ACTION_ALLOW else ACTION_DENY)\<rparr>"
  by (simp add: policy_value_def policy_entry_def PolicyAction_try_from_def)

definition identity_rules :: "CompiledRule list \<Rightarrow> CompiledRule list" where
  "identity_rules rules = filter (\<lambda>r. cr_CIDR r = '''') rules"

lemma policy_entries_identity: "policy_entries rules = map policy_entry (identity_rules rules)"
  by (simp add: policy_entries_def identity_rules_def)

definition same_but_egress :: "Maps \<Rightarrow> Maps \<Rightarrow> bool" where
  "same_but_egress m m' \<longleftrightarrow>
     m_policies m' = m_policies m \<and> m_endpoints m' = m_endpoints m \<and> m_config m' = m_config m \<and> m_tunnels m' = m_tunnels m"

lemma same_but_egress_refl [simp]: "same_but_egress m m"
  by (simp add: same_but_egress_def)

lemma same_but_egress_trans: "same_but_egress a b \<Longrightarrow> same_but_egress b c \<Longrightarrow> same_but_egress a c"
  by (simp add: same_but_egress_def)

lemma upsert_egress_same: "same_but_egress m (snd (upsert_egress_policy req m))"
  by (auto simp: upsert_egress_policy_def store_def same_but_egress_def split: option.splits IpAddr.splits)

lemma delete_egress_same: "same_but_egress m (delete_egress_key k m)"
  by (auto simp: delete_egress_key_def delete_egress_policy_def store_def same_but_egress_def split: option.splits IpAddr.splits)

lemma sync_egress_rule_same: "same_but_egress m (snd (snd (sync_egress_rule ip ir (ks, em, m))))"
  by (auto simp: sync_egress_rule_def Let_def upsert_egress_same split: option.splits prod.splits)

lemma fold_sync_egress_same: "same_but_egress m (snd (snd (fold (sync_egress_rule ip) rs (ks, em, m))))"
proof (induction rs arbitrary: ks em m)
  case (Cons r rs)
  obtain ks' em' m' where r: "sync_egress_rule ip r (ks, em, m) = (ks', em', m')" by (metis prod_cases3)
  have "same_but_egress m m'" using sync_egress_rule_same [of m ip r ks em] r by simp
  then show ?case using Cons.IH [of m' ks' em'] r by (auto intro: same_but_egress_trans)
qed simp

lemma fold_delete_egress_same: "same_but_egress m (fold delete_egress_key ks m)"
proof (induction ks arbitrary: m)
  case (Cons k ks)
  then show ?case using delete_egress_same [of m k] by (auto intro: same_but_egress_trans)
qed simp

lemma SyncEgressRules_same: "same_but_egress m (snd (SyncEgressRules olds ks rules s m))"
proof (cases "s_EgressMgr s")
  case (Some em)
  obtain nk em1 m1 where f: "fold (sync_egress_rule (s_NodeIP s)) (enumerate 0 rules) ({}, em, m) = (nk, em1, m1)" by (metis prod_cases3)
  have "same_but_egress m m1" using fold_sync_egress_same [of m "s_NodeIP s" "enumerate 0 rules" "{}" em] f by simp
  then show ?thesis using Some f fold_delete_egress_same by (auto simp: SyncEgressRules_def Let_def intro: same_but_egress_trans)
qed (simp add: SyncEgressRules_def)

lemma OnPolicyChange_maps:
  assumes "s_DpConnected s" and "m' = snd (OnPolicyChange olds ks rules s m)"
  shows "m_policies m' = m_policies (snd (sync_policies (policy_entries rules) m))"
    and "m_endpoints m' = m_endpoints m" and "m_config m' = m_config m"
proof -
  let ?m1 = "snd (sync_policies (policy_entries rules) m)"
  have keep: "m_endpoints ?m1 = m_endpoints m" "m_config ?m1 = m_config m"
    by (auto simp: sync_policies_def split: prod.splits option.splits)
  have "same_but_egress ?m1 m'"
    using assms SyncEgressRules_same by (auto simp: OnPolicyChange_def Let_def split: sum.splits prod.splits)
  then show "m_policies m' = m_policies ?m1" "m_endpoints m' = m_endpoints m" "m_config m' = m_config m"
    using keep by (simp_all add: same_but_egress_def)
qed

section \<open>Rules and verdicts\<close>

definition rule_identities :: "CompiledRule list \<Rightarrow> u64 set" where
  "rule_identities rules = cr_SrcIdentity ` set rules \<union> cr_DstIdentity ` set rules"

text \<open>The shape of the rules that the compiler makes: a rule is about one pod at least, and any protocol means any port.\<close>

definition rule_shape :: "CompiledRule \<Rightarrow> bool" where
  "rule_shape r \<longleftrightarrow> (cr_SrcIdentity r \<noteq> WildcardIdentity \<or> cr_DstIdentity r \<noteq> WildcardIdentity)
     \<and> (cr_Protocol r = ProtocolAny \<longrightarrow> cr_DstPort r = 0)"

definition fits :: "CompiledRule list \<Rightarrow> Maps \<Rightarrow> bool" where
  "fits rules m \<longleftrightarrow> finite (dom (m_policies m))
     \<and> card (dom (m_policies m) \<union> policy_key ` set (policy_entries rules)) \<le> MAX_POLICIES"

lemma uniform_policies:
  assumes "fits rules m" and "s_DpConnected s" and "m' = snd (OnPolicyChange olds ks rules s m)"
    and "\<And>r. r \<in> set (identity_rules rules) \<Longrightarrow> (cr_Action r = ActionAllow) = allow"
  shows "m_policies m' k = (if k \<in> (\<lambda>r. policy_key (policy_entry r)) ` set (identity_rules rules)
           then Some \<lparr>pv_action = (if allow then ACTION_ALLOW else ACTION_DENY)\<rparr> else None)"
proof -
  let ?es = "policy_entries rules" and ?v = "\<lparr>pv_action = (if allow then ACTION_ALLOW else ACTION_DENY)\<rparr>"
  have val: "policy_value e = ?v" if "e \<in> set ?es" for e
    using that assms(4) by (auto simp: policy_entries_identity policy_value_entry)
  then obtain a b c where sync: "sync_policies ?es m = (Inr (a, b, c), m\<lparr>m_policies := map_of (policy_pairs ?es)\<rparr>)"
    using sync_policies_consistent [of m ?es] assms(1) unfolding fits_def by metis
  then have m': "m_policies m' = map_of (policy_pairs ?es)" using OnPolicyChange_maps(1) [OF assms(2,3)] by simp
  have keys: "policy_key ` set ?es = (\<lambda>r. policy_key (policy_entry r)) ` set (identity_rules rules)"
    by (simp add: policy_entries_identity image_image)
  show ?thesis
  proof (cases "k \<in> policy_key ` set ?es")
    case True
    then obtain e where e: "e \<in> set ?es" "k = policy_key e" by blast
    then have "(k, ?v) \<in> set (policy_pairs ?es)" using val by (auto simp: policy_pairs_def)
    then have "map_of (policy_pairs ?es) k = Some ?v" by (rule map_of_consistent) (auto simp: policy_pairs_def val)
    then show ?thesis using True keys m' by simp
  next
    case False
    then show ?thesis using keys m' map_of_policy_pairs_None [OF False] by simp
  qed
qed

lemma rule_covers:
  assumes "rule_shape r" and "cr_CIDR r = ''''" and "cr_Action r = ActionAllow"
    and "inj_on (ucast :: u64 \<Rightarrow> u32) ({0, s, d} \<union> {cr_SrcIdentity r, cr_DstIdentity r})"
  shows "policy_key (policy_entry r) \<in> set (policy_keys (ucast s) (ucast d) proto port) \<longleftrightarrow> rule_admits r s d proto port"
proof -
  have eq: "ucast x = (ucast y :: u32) \<longleftrightarrow> x = y"
    if "x \<in> {cr_SrcIdentity r, cr_DstIdentity r}" "y \<in> {0, s, d}" for x y
    using inj_on_eq_iff [OF assms(4), of x y] that by blast
  have z: "ucast x = (0 :: u32) \<longleftrightarrow> x = 0" if "x \<in> {cr_SrcIdentity r, cr_DstIdentity r}" for x
    using eq [OF that, of 0] by simp
  show ?thesis
    using assms(1-3)
    by (auto simp: policy_key_entry mem_policy_keys eq z rule_admits_def rule_shape_def WildcardIdentity_def ProtocolAny_def)
qed

lemma check_policy_rules:
  assumes "fits rules m" and "s_DpConnected s" and "m' = snd (OnPolicyChange olds ks rules s m)"
    and "\<And>r. r \<in> set (identity_rules rules) \<Longrightarrow> cr_Action r = ActionAllow \<and> rule_shape r"
    and "inj_on (ucast :: u64 \<Rightarrow> u32) ({0, src, dst} \<union> rule_identities (identity_rules rules))"
  shows "check_policy m' (ucast src) (ucast dst) proto port =
           (if \<exists>r \<in> set rules. rule_admits r src dst proto port then Some ACTION_ALLOW else None)"
proof -
  have pol: "m_policies m' k = (if k \<in> (\<lambda>r. policy_key (policy_entry r)) ` set (identity_rules rules)
      then Some \<lparr>pv_action = ACTION_ALLOW\<rparr> else None)" for k
    using uniform_policies [OF assms(1-3), of True k] assms(4) by simp
  have cov: "policy_key (policy_entry r) \<in> set (policy_keys (ucast src) (ucast dst) proto port) \<longleftrightarrow> rule_admits r src dst proto port"
    if r: "r \<in> set (identity_rules rules)" for r
  proof (rule rule_covers)
    show "inj_on (ucast :: u64 \<Rightarrow> u32) ({0, src, dst} \<union> {cr_SrcIdentity r, cr_DstIdentity r})"
      by (rule inj_on_subset [OF assms(5)]) (use r in \<open>auto simp: rule_identities_def\<close>)
  qed (use assms(4) [OF r] r in \<open>simp_all add: identity_rules_def\<close>)
  have "(\<exists>k \<in> set (policy_keys (ucast src) (ucast dst) proto port). m_policies m' k \<noteq> None) \<longleftrightarrow>
      (\<exists>r \<in> set (identity_rules rules). rule_admits r src dst proto port)"
    using cov by (auto simp: pol split: if_splits)
  also have "\<dots> \<longleftrightarrow> (\<exists>r \<in> set rules. rule_admits r src dst proto port)"
    by (auto simp: identity_rules_def rule_admits_def)
  finally have ex: "(\<exists>k \<in> set (policy_keys (ucast src) (ucast dst) proto port). m_policies m' k \<noteq> None) \<longleftrightarrow>
      (\<exists>r \<in> set rules. rule_admits r src dst proto port)" .
  have "check_policy m' (ucast src) (ucast dst) proto port =
      (if \<exists>k \<in> set (policy_keys (ucast src) (ucast dst) proto port). m_policies m' k \<noteq> None then Some ACTION_ALLOW else None)"
    by (rule check_policy_uniform) (auto simp: pol split: if_splits)
  then show ?thesis unfolding ex .
qed

lemma check_policy_denying:
  assumes "fits rules m" and "s_DpConnected s" and "m' = snd (OnPolicyChange olds ks rules s m)"
    and "\<And>r. r \<in> set (identity_rules rules) \<Longrightarrow> cr_Action r \<noteq> ActionAllow"
  shows "check_policy m' a b proto port \<noteq> Some ACTION_ALLOW"
proof -
  have "pv_action v = ACTION_DENY" if "m_policies m' k = Some v" for k v
    using uniform_policies [OF assms(1-3), of False k] assms(4) that by (auto split: if_splits)
  then have "check_policy m' a b proto port \<in> {Some ACTION_DENY, None}" using check_policy_uniform [of m' ACTION_DENY a b proto port] by auto
  then show ?thesis by (auto simp: action_defs)
qed

section \<open>Compiled policies\<close>

lemma resolve_port_protocol: "pp \<in> set (resolvePorts env ports ns sel) \<Longrightarrow> pp_protocol pp \<noteq> ProtocolAny"
proof -
  have pr: "port_protocol x \<noteq> ProtocolAny" for x by (auto simp: port_protocol_def const_defs split: option.split)
  have "pp_protocol pp = port_protocol (np_Protocol p)" if "pp \<in> set (resolve_port env ns sel p)" for pp p
  proof (cases "np_Port p")
    case (Some v)
    then show ?thesis using that by (cases v; cases "pe_portResolver env") (auto simp: resolve_port_def Let_def)
  qed (use that in \<open>simp add: resolve_port_def\<close>)
  then show "pp \<in> set (resolvePorts env ports ns sel) \<Longrightarrow> pp_protocol pp \<noteq> ProtocolAny"
    using pr by (auto simp: resolvePorts_def)
qed

lemma ingress_rule_shape:
  assumes "r \<in> set (compileIngressRule env rule t ns sel)" and "cr_CIDR r = ''''" and "t \<noteq> WildcardIdentity"
  shows "cr_Action r = ActionAllow \<and> rule_shape r"
proof -
  let ?ports = "if resolvePorts env (rule_Ports rule) ns sel = [] then [any_port] else resolvePorts env (rule_Ports rule) ns sel"
  have ports: "pp_protocol pp = ProtocolAny \<longrightarrow> pp_port pp = 0" if "pp \<in> set ?ports" for pp
    using that resolve_port_protocol by (auto simp: any_port_def split: if_splits)
  have "r \<notin> set (buildCIDRRules (resolvePeersWithIPBlock (rule_Peers rule)) t ?ports False ns)"
    using assms(2) resolveIPBlock_nonempty
    by (auto simp: buildCIDRRules_def cidr_rule_def resolvePeersWithIPBlock_def split: option.splits)
  then obtain ids where "r \<in> set (buildIdentityRules ids t ?ports False ns)"
    using assms(1) by (auto simp: compileIngressRule_def Let_def)
  then obtain i pp where "pp \<in> set ?ports" "r = identity_rule t False ns i pp" unfolding buildIdentityRules_def by auto
  then show ?thesis using ports assms(3) by (auto simp: identity_rule_def rule_shape_def)
qed

lemma ingress_policy_rules:
  assumes "\<not> hasPolicyType np ''Egress''"
    and "WildcardIdentity \<notin> set (selectorToIdentities env (pol_PodSelector np) (pol_Namespace np))"
    and "r \<in> set (identity_rules (CompilePolicy env (Some np)))"
  shows "if pol_Ingress np = [] then cr_Action r \<noteq> ActionAllow else cr_Action r = ActionAllow \<and> rule_shape r"
proof -
  obtain t where t: "t \<in> set (selectorToIdentities env (pol_PodSelector np) (pol_Namespace np))"
    "r \<in> set (compile_target env np t)" "cr_CIDR r = ''''"
    using assms(3) by (auto simp: identity_rules_def CompilePolicy_def)
  have "t \<noteq> WildcardIdentity" using t(1) assms(2) by auto
  then show ?thesis
    using t(2,3) assms(1) ingress_rule_shape
    by (auto simp: compile_target_def deny_rule_def const_defs split: if_splits)
qed

section \<open>Packets between pods of one node\<close>

definition local_pods :: "Maps \<Rightarrow> Pkt \<Rightarrow> u64 \<Rightarrow> u64 \<Rightarrow> bool" where
  "local_pods m p src dst \<longleftrightarrow>
     map_option ev_identity (m_endpoints m \<lparr>ek_ip = pt_src_ip p\<rparr>) = Some (ucast src)
     \<and> map_option ev_identity (m_endpoints m \<lparr>ek_ip = pt_dst_ip p\<rparr>) = Some (ucast dst)
     \<and> map_option ev_node_ip (m_endpoints m \<lparr>ek_ip = pt_dst_ip p\<rparr>) = Some (ucast (get_config CONFIG_KEY_NODE_IP m))"

lemma tc_egress_after:
  assumes "s_DpConnected s" and "m' = snd (OnPolicyChange olds ks rules s m)"
    and "parse_packet (sb_data skb) = Some (Some p)" and "local_pods m p src dst"
  shows "fst (tc_egress en skb m') = TC_ACT_OK \<longleftrightarrow>
     (if get_config CONFIG_KEY_DEFAULT_DENY m = 1
      then check_policy m' (ucast src) (ucast dst) (pt_protocol p) (pt_dst_port p) = Some ACTION_ALLOW
      else check_policy m' (ucast src) (ucast dst) (pt_protocol p) (pt_dst_port p) \<noteq> Some ACTION_DENY)"
proof -
  note keep = OnPolicyChange_maps(2,3) [OF assms(1,2)]
  obtain eps where s: "lookup_identity (pt_src_ip p) m' = Some (ucast src, eps)"
    using assms(4) keep by (auto simp: local_pods_def lookup_identity_def)
  obtain epd where d: "lookup_identity (pt_dst_ip p) m' = Some (ucast dst, epd)"
    and n: "ev_node_ip epd = ucast (get_config CONFIG_KEY_NODE_IP m')"
    using assms(4) keep by (auto simp: local_pods_def lookup_identity_def get_config_def)
  show ?thesis
    using tc_egress_local [OF assms(3) s d n] enforce_verdict keep(2) by (simp add: get_config_def)
qed

lemma ingress_verdict:
  assumes "env_ok env" "idToLabels (pe_alloc env) WildcardIdentity = None" "\<not> hasPolicyType np ''Egress''"
    and src: "idToLabels (pe_alloc env) src = Some Ls" "list_all (plain_rule env (pol_Namespace np) src Ls) (pol_Ingress np)"
    and dst: "idToLabels (pe_alloc env) dst = Some Ld" "plain_sel env dst Ld (scope_selector (pol_Namespace np) (pol_PodSelector np))"
    and low: "inj_on (ucast :: u64 \<Rightarrow> u32) ({0, src, dst} \<union> rule_identities (identity_rules (CompilePolicy env (Some np))))"
    and dp: "fits (CompilePolicy env (Some np)) m" "s_DpConnected s" "get_config CONFIG_KEY_DEFAULT_DENY m = 1"
      "m' = snd (OnPolicyChange olds ks (CompilePolicy env (Some np)) s m)"
    and pkt: "parse_packet (sb_data skb) = Some (Some p)" "local_pods m p src dst"
  shows "fst (tc_egress en skb m') = TC_ACT_OK \<longleftrightarrow>
    labels_match (ls_MatchLabels (scope_selector (pol_Namespace np) (pol_PodSelector np))) Ld \<and> hasPolicyType np ''Ingress'' \<and>
    list_ex (\<lambda>rule. rule_selects env (pol_Namespace np) rule Ls (pt_protocol p) (pt_dst_port p)) (pol_Ingress np)"
proof -
  note T = selectorToIdentities_plain(2) [OF assms(1) dst(2,1) assms(2)]
  note rules = ingress_policy_rules [OF assms(3) T]
  note exact = admitted_ingress_iff [OF assms(1,2) src dst]
  have "fst (tc_egress en skb m') = TC_ACT_OK \<longleftrightarrow>
      check_policy m' (ucast src) (ucast dst) (pt_protocol p) (pt_dst_port p) = Some ACTION_ALLOW"
    using tc_egress_after [OF dp(2,4) pkt] dp(3) by simp
  also have "\<dots> \<longleftrightarrow> admitted (CompilePolicy env (Some np)) False src dst (pt_protocol p) (pt_dst_port p)"
  proof (cases "pol_Ingress np = []")
    case True
    then have "check_policy m' (ucast src) (ucast dst) (pt_protocol p) (pt_dst_port p) \<noteq> Some ACTION_ALLOW"
      using check_policy_denying [OF dp(1,2,4)] rules by simp
    then show ?thesis using exact True by simp
  next
    case False
    have "cr_IsEgress r = False" if "r \<in> set (CompilePolicy env (Some np))" for r
      using that assms(3) compiled_direction(1) by (auto simp: CompilePolicy_def compile_target_def deny_rule_def split: if_splits)
    then have "admitted (CompilePolicy env (Some np)) False src dst (pt_protocol p) (pt_dst_port p) \<longleftrightarrow>
        (\<exists>r \<in> set (CompilePolicy env (Some np)). rule_admits r src dst (pt_protocol p) (pt_dst_port p))"
      by (auto simp: admitted_def list_ex_iff)
    then show ?thesis using check_policy_rules [OF dp(1,2,4) _ low] rules False by simp
  qed
  finally show ?thesis unfolding exact .
qed

section \<open>A node with two pods\<close>

definition ex_np :: NetworkPolicy where
  "ex_np = ex_policy ''db'' ''Ingress'' [ex_rule (ex_selector ''web'') (IntVal 80)] []"

definition ex_compiled_rule :: CompiledRule where
  "ex_compiled_rule =
     \<lparr>cr_SrcIdentity = ex_web_id, cr_DstIdentity = ex_db_id, cr_Protocol = ProtocolTCP, cr_DstPort = 80,
      cr_Action = ActionAllow, cr_CIDR = '''', cr_IsEgress = False, cr_Namespace = ''ns''\<rparr>"

definition ex_server :: Server where
  "ex_server =
     \<lparr>s_IPAlloc = IPAM_Allocator.ex_alloc, s_StateDir = Map.empty, s_IDAlloc = Policy_Compiler.ex_alloc, s_NodeIP = [192, 168, 0, 1],
      s_DpConnected = True, s_EgressMgr = None, s_PolicyRules = [], s_PrevEgressKeys = {}, s_Endpoints = Map.empty\<rparr>"

definition ex_en :: Env where
  "ex_en =
     \<lparr>en_cpu = 0, en_rl_ns = 0, en_success_ns = 0, en_failure_ns = 0, en_flow_ns = 0, en_ring_ok = True,
      en_evict_ct = (\<lambda>_. None), en_evict_rl = (\<lambda>_. None), en_evict_so = (\<lambda>_. None),
      en_l3_csum = (\<lambda>_ _ _ _ d. Some d), en_l4_csum = (\<lambda>_ _ _ _ d. Some d), en_tunnel_ok = True,
      en_redirect = (\<lambda>_. 7), en_cookie = 1, en_sk_lookup = (\<lambda>_ _. None), en_sk_assign = (\<lambda>_. 0)\<rparr>"

text \<open>The first packet of a connection from 10.0.0.2, port 40000, to a port of 10.0.0.3.\<close>

definition ex_frame :: "u8 \<Rightarrow> u8 list" where
  "ex_frame port =
     [2, 254, 10, 0, 0, 3, 2, 254, 10, 0, 0, 2, 8, 0]
     @ [69, 0, 0, 40, 0, 0, 64, 0, 64, 6, 0, 0, 10, 0, 0, 2, 10, 0, 0, 3]
     @ [156, 64, 0, port, 0, 0, 0, 0, 0, 0, 0, 0, 80, 2, 0, 0, 0, 0, 0, 0]"

definition ex_skb :: "u8 \<Rightarrow> Skb" where
  "ex_skb port = \<lparr>sb_data = ex_frame port, sb_mark = 0, sb_tunnel = None, sb_redirect = None\<rparr>"

definition ex_pkt :: "u8 \<Rightarrow> Pkt" where
  "ex_pkt port = \<lparr>pt_src_ip = 167772162, pt_dst_ip = 167772163, pt_protocol = 6, pt_l4_offset = 34, pt_total_len = 40,
     pt_src_port = 40000, pt_dst_port = ucast port, pt_tcp_flags = 2\<rparr>"

definition ex_pods :: "u64 \<Rightarrow> u64 \<Rightarrow> u64 \<Rightarrow> Maps" where
  "ex_pods deny src dst = fresh_maps
     \<lparr>m_endpoints := [\<lparr>ek_ip = 167772162\<rparr> \<mapsto> \<lparr>ev_ifindex = 7, ev_mac = [2, 254, 10, 0, 0, 2], ev_identity = ucast src, ev_node_ip = 3232235521\<rparr>,
                      \<lparr>ek_ip = 167772163\<rparr> \<mapsto> \<lparr>ev_ifindex = 8, ev_mac = [2, 254, 10, 0, 0, 3], ev_identity = ucast dst, ev_node_ip = 3232235521\<rparr>],
      m_config := [CONFIG_KEY_NODE_IP \<mapsto> 3232235521, CONFIG_KEY_DEFAULT_DENY \<mapsto> deny]\<rparr>"

lemma ex_selected:
  "selectorToIdentities ex_env (ex_selector ''web'') ''ns'' = [ex_web_id]" "selectorToIdentities ex_env (ex_selector ''db'') ''ns'' = [ex_db_id]"
  "findOrFallback ex_env (scope_selector ''ns'' (ex_selector ''web'')) = [ex_web_id]"
  by (simp_all add: selectorToIdentities_def findOrFallback_def ex_env_def ex_asSelector_def ex_scope matching_def FindMatchingIdentities_def Let_def
      ex_alloc_def ex_id_facts labels_match_def map_le_def ex_web_def ex_db_def)

lemma ex_ports: "resolvePorts ex_env [Policy_Compiler.ex_port (IntVal 80)] ns sel = [\<lparr>pp_protocol = ProtocolTCP, pp_port = 80\<rparr>]"
  by (simp add: resolvePorts_def resolve_port_def Policy_Compiler.ex_port_def port_protocol_def port_value_def)

lemma ex_compiled: "CompilePolicy ex_env (Some ex_np) = [ex_compiled_rule]"
  by (simp add: CompilePolicy_def ex_np_def ex_policy_def ex_selected compile_target_def hasPolicyType_def compileIngressRule_def Let_def
      ex_rule_def ex_ports resolvePeersWithIPBlock_def resolvePeers_def resolvePodAndNsPeers_def buildIdentityRules_def
      buildCIDRRules_def identity_rule_def ex_compiled_rule_def)

lemma ex_parse: "parse_packet (sb_data (ex_skb 80)) = Some (Some (ex_pkt 80))" "parse_packet (sb_data (ex_skb 22)) = Some (Some (ex_pkt 22))"
  by (simp_all add: ex_skb_def ex_frame_def ex_pkt_def parse_packet_def load_bytes_def parse_l4_ports_def Let_def ETH_HLEN_def ipv4_to_u32_def be16_def be_nat_def)

lemma ex_local: "local_pods (ex_pods deny src dst) (ex_pkt port) src dst"
  by (simp add: local_pods_def ex_pods_def ex_pkt_def get_config_def config_key_defs)

lemma ex_deny: "get_config CONFIG_KEY_DEFAULT_DENY (ex_pods deny src dst) = deny"
  by (simp add: get_config_def ex_pods_def)

lemma ex_fits:
  assumes "length rules \<le> MAX_POLICIES"
  shows "fits rules (ex_pods deny src dst)"
proof -
  have "card (policy_key ` set (policy_entries rules)) \<le> length (map policy_key (policy_entries rules))"
    by (metis card_length set_map)
  also have "\<dots> \<le> length rules" by (simp add: policy_entries_def)
  finally show ?thesis using assms by (simp add: fits_def ex_pods_def fresh_maps_def)
qed

lemma ex_hash_forged: "fnv64a ''app=cxbkyih,novanet.io/namespace=ns'' = 10198994247208443400"
  by (simp add: fnv64a_def)

end
