(* ===== verification/Agent_Pods.thy ===== *)
theory Agent_Pods
  imports Enforcement
begin

text \<open>
  Pods that come and go: the invariant of the agent's handlers over its address allocator, its identity
  allocator and its table of endpoints, and what they leave in the maps of the dataplane.
\<close>

section \<open>Identities with a number of references\<close>

definition idcount :: "IdAllocator \<Rightarrow> u64 \<Rightarrow> int" where
  "idcount a i = (case refCount a i of Some n \<Rightarrow> n | None \<Rightarrow> 0)"

lemma idcount_nonneg: "Id_wf a \<Longrightarrow> 0 \<le> idcount a i"
  using Id_wfD(4) [of a i] by (cases "refCount a i") (auto simp: idcount_def)

lemma idcount_live: "Id_wf a \<Longrightarrow> 0 < idcount a i \<Longrightarrow> idToLabels a i \<noteq> None"
  using Id_wfD(3) [of a i] by (auto simp: idcount_def split: option.splits)

lemma AllocateIdentity_effect:
  assumes wf: "Id_wf a" and op: "AllocateIdentity lbls a = Some (i, a')"
  shows "Id_wf a'" and "idcount a' = (idcount a)(i := idcount a i + 1)" and "RemoveIdentity i a' = a"
    and "\<exists>l. idToLabels a' i = Some l \<and> canonicalLabels l = canonicalLabels lbls"
proof -
  show "Id_wf a'" by (rule AllocateIdentity_step_wf [OF assms])
  let ?c = "canonicalLabels lbls"
  consider (known) l n where "labelsToID a ?c = Some i" "idToLabels a i = Some l" "canonicalLabels l = ?c" "refCount a i = Some n" "1 \<le> n"
      "a' = a\<lparr>refCount := (refCount a)(i \<mapsto> n + 1)\<rparr>"
    | (fresh) "labelsToID a ?c = None" "idToLabels a i = None" "refCount a i = None"
      "a' = a\<lparr>idToLabels := (idToLabels a)(i \<mapsto> lbls), labelsToID := (labelsToID a)(?c \<mapsto> i), refCount := (refCount a)(i \<mapsto> 1)\<rparr>"
  proof (cases "labelsToID a ?c")
    case (Some j)
    then have j: "j = i" using op by (auto simp: AllocateIdentity_def)
    from Id_wfD(2) [OF wf Some] obtain l where l: "idToLabels a i = Some l" "canonicalLabels l = ?c" using j by blast
    then obtain n where n: "refCount a i = Some n" using Id_wfD(3) [OF wf, of i] by (cases "refCount a i") auto
    show thesis using known [OF _ l n] Id_wfD(4) [OF wf n] Some j op n by (auto simp: AllocateIdentity_def bump_def)
  next
    case None
    then have p: "probe (idToLabels a) ?c (hashCanonical ?c) = Some i"
      using op by (auto simp: AllocateIdentity_def Let_def split: option.splits)
    have i: "idToLabels a i = None"
      using probe_result [OF p] Id_wfD(1) [OF wf, of i] None by auto
    then have "refCount a i = None" using Id_wfD(3) [OF wf] by simp
    with None i p op show thesis by (intro fresh) (auto simp: AllocateIdentity_def bump_def Let_def)
  qed
  then show "idcount a' = (idcount a)(i := idcount a i + 1)" "RemoveIdentity i a' = a"
    "\<exists>l. idToLabels a' i = Some l \<and> canonicalLabels l = canonicalLabels lbls"
    by (cases; auto simp: idcount_def fun_eq_iff RemoveIdentity_def map_del_notin domIff fun_upd_idem)+
qed

lemma RemoveIdentity_effect:
  assumes "Id_wf a"
  shows "idcount (RemoveIdentity i a) = (idcount a)(i := max 0 (idcount a i - 1))"
  using assms
  by (cases rule: RemoveIdentity_cases [where i = i]) (auto simp: idcount_def fun_eq_iff)

section \<open>The handlers on the state of the agent\<close>

lemma SyncEgressRules_keeps:
  "s_IPAlloc (fst (SyncEgressRules olds ks rules s m)) = s_IPAlloc s" "s_IDAlloc (fst (SyncEgressRules olds ks rules s m)) = s_IDAlloc s"
  "s_Endpoints (fst (SyncEgressRules olds ks rules s m)) = s_Endpoints s" "s_DpConnected (fst (SyncEgressRules olds ks rules s m)) = s_DpConnected s"
  "s_NodeIP (fst (SyncEgressRules olds ks rules s m)) = s_NodeIP s"
  by (auto simp: SyncEgressRules_def Let_def split: option.splits prod.splits)

lemma OnPolicyChange_keeps:
  "s_IPAlloc (fst (OnPolicyChange olds ks rules s m)) = s_IPAlloc s" "s_IDAlloc (fst (OnPolicyChange olds ks rules s m)) = s_IDAlloc s"
  "s_Endpoints (fst (OnPolicyChange olds ks rules s m)) = s_Endpoints s" "s_DpConnected (fst (OnPolicyChange olds ks rules s m)) = s_DpConnected s"
  "s_NodeIP (fst (OnPolicyChange olds ks rules s m)) = s_NodeIP s"
  using SyncEgressRules_keeps by (auto simp: OnPolicyChange_def Let_def split: sum.splits prod.splits)

lemma OnPolicyChange_endpoints: "m_endpoints (snd (OnPolicyChange olds ks rules s m)) = m_endpoints m"
  using OnPolicyChange_maps(2) [of s _ olds ks rules m] by (cases "s_DpConnected s") (auto simp: OnPolicyChange_def)

lemma OnPolicyChange_config: "m_config (snd (OnPolicyChange olds ks rules s m)) = m_config m"
  using OnPolicyChange_maps(3) [of s _ olds ks rules m] by (cases "s_DpConnected s") (auto simp: OnPolicyChange_def)

lemma Recompile_keeps:
  "s_IPAlloc (fst (Recompile pe s m)) = s_IPAlloc s" "s_IDAlloc (fst (Recompile pe s m)) = s_IDAlloc s"
  "s_Endpoints (fst (Recompile pe s m)) = s_Endpoints s" "s_DpConnected (fst (Recompile pe s m)) = s_DpConnected s"
  "s_NodeIP (fst (Recompile pe s m)) = s_NodeIP s" "m_endpoints (snd (Recompile pe s m)) = m_endpoints m"
  "m_config (snd (Recompile pe s m)) = m_config m"
  using OnPolicyChange_keeps OnPolicyChange_endpoints OnPolicyChange_config by (auto simp: Recompile_def split: option.splits)

definition new_endpoint :: "PodEnv \<Rightarrow> AddPodRequest \<Rightarrow> IP \<Rightarrow> u64 \<Rightarrow> u32 \<Rightarrow> AgentEndpoint" where
  "new_endpoint pe req podIP identityID ifindex =
     \<lparr>ae_PodName = ap_PodName req, ae_PodNamespace = ap_PodNamespace req, ae_ContainerID = ap_ContainerId req, ae_IP = podIP,
      ae_MAC = GenerateMAC (pn_sha256 pe) podIP, ae_IfIndex = ifindex, ae_IdentityID = identityID, ae_Netns = ap_Netns req,
      ae_IfName = ap_IfName req, ae_HostVeth = ''nv'' @ take 11 (ap_ContainerId req)\<rparr>"

lemma AddPod_ok:
  assumes "AddPod pe req s m = Some (Inr resp, s', m')"
  obtains podIP ipa dir ident ida ifindex where
    "Allocator_Allocate (pn_write pe) (s_IPAlloc s) (s_StateDir s) = (Inr podIP, ipa, dir)"
    "AllocateIdentity (pod_identity_labels pe req) (s_IDAlloc s) = Some (ident, ida)" "pn_setup pe = Some ifindex"
    "s_IPAlloc s' = ipa" "s_IDAlloc s' = ida" "s_DpConnected s' = s_DpConnected s" "s_NodeIP s' = s_NodeIP s"
    "s_Endpoints s' = (s_Endpoints s)(pod_key (ap_PodNamespace req) (ap_PodName req) \<mapsto> new_endpoint pe req podIP ident ifindex)"
    "m_endpoints m' = m_endpoints (push_endpoint pe (new_endpoint pe req podIP ident ifindex) s m)"
    "m_config m' = m_config (push_endpoint pe (new_endpoint pe req podIP ident ifindex) s m)"
    "ar_Ip resp = IP_String podIP" "ar_Mac resp = GenerateMAC (pn_sha256 pe) podIP"
proof -
  have v: "validateAddPodRequest req = None" using assms by (auto simp: AddPod_def split: option.splits)
  obtain podIP ipa dir where al: "Allocator_Allocate (pn_write pe) (s_IPAlloc s) (s_StateDir s) = (Inr podIP, ipa, dir)"
    using assms v by (auto simp: AddPod_def split: prod.splits sum.splits IpamError.splits)
  obtain ident ida where id: "AllocateIdentity (pod_identity_labels pe req) (s_IDAlloc s) = Some (ident, ida)"
    using assms v al by (cases "AllocateIdentity (pod_identity_labels pe req) (s_IDAlloc s)") (auto simp: AddPod_def)
  obtain gw where gw: "Allocator_Gateway ipa = Some gw"
    using assms v al id by (cases "Allocator_Gateway ipa") (auto simp: AddPod_def)
  obtain ifindex where su: "pn_setup pe = Some ifindex"
  proof (cases "pn_setup pe")
    case None
    obtain e ipa' dir' where "Allocator_Release (pn_remove pe) podIP ipa dir = (e, ipa', dir')" by (metis prod_cases3)
    then have "False" using assms v al id gw None by (cases e; cases "the e") (auto simp: AddPod_def Let_def)
    then show thesis ..
  qed
  let ?ep = "new_endpoint pe req podIP ident ifindex"
  let ?s1 = "s\<lparr>s_IPAlloc := ipa, s_StateDir := dir, s_IDAlloc := ida,
      s_Endpoints := (s_Endpoints s)(pod_key (ap_PodNamespace req) (ap_PodName req) \<mapsto> ?ep)\<rparr>"
  have push: "push_endpoint pe ?ep ?s1 m = push_endpoint pe ?ep s m" by (simp add: push_endpoint_def)
  obtain s2 m2 where r: "Recompile pe ?s1 (push_endpoint pe ?ep ?s1 m) = (s2, m2)" by (metis surj_pair)
  have "s' = s2 \<and> m' = m2 \<and> ar_Ip resp = IP_String podIP \<and> ar_Mac resp = GenerateMAC (pn_sha256 pe) podIP"
    using assms v al id gw su r by (auto simp: AddPod_def Let_def new_endpoint_def)
  then show thesis
    using that [OF al id su] Recompile_keeps [of pe ?s1 "push_endpoint pe ?ep ?s1 m"] push r by simp
qed

lemma AddPod_failed:
  assumes wf: "Allocator_wf (s_IPAlloc s)" "Id_wf (s_IDAlloc s)" and op: "AddPod pe req s m = Some (Inl e, s', m')"
  shows "m' = m" "s_Endpoints s' = s_Endpoints s" "s_IDAlloc s' = s_IDAlloc s"
    "s_DpConnected s' = s_DpConnected s" "s_NodeIP s' = s_NodeIP s"
    "al_upd (s_IPAlloc s) (al_bits (s_IPAlloc s)) (s_IPAlloc s')"
proof -
  let ?a = "s_IPAlloc s"
  have "m' = m \<and> s_Endpoints s' = s_Endpoints s \<and> s_IDAlloc s' = s_IDAlloc s \<and> s_DpConnected s' = s_DpConnected s
      \<and> s_NodeIP s' = s_NodeIP s \<and> al_upd ?a (al_bits ?a) (s_IPAlloc s')"
  proof (cases "validateAddPodRequest req")
    case v: None
    obtain r ipa dir where al: "Allocator_Allocate (pn_write pe) ?a (s_StateDir s) = (r, ipa, dir)" by (metis prod_cases3)
    show ?thesis
    proof (cases r)
      case (Inl err)
      have "ipa = ?a"
        using Allocate_full [OF wf(1), of "pn_write pe" "s_StateDir s"] Allocate_not_full [OF wf(1), of "pn_write pe" "s_StateDir s"] al Inl
        by (cases "al_bits ?a = {..<al_size ?a}") (auto simp: claims_def split: if_splits)
      then show ?thesis using op v al Inl al_upd_refl [OF wf(1)] by (cases err) (auto simp: AddPod_def)
    next
      case (Inr podIP)
      then obtain i where i: "i < al_size ?a" "i \<notin> al_bits ?a" "podIP = al_addr ?a i" and u: "al_upd ?a (insert i (al_bits ?a)) ipa"
        using Allocate_success [OF wf(1)] al by blast
      obtain ident ida where id: "AllocateIdentity (pod_identity_labels pe req) (s_IDAlloc s) = Some (ident, ida)"
        using op v al Inr by (cases "AllocateIdentity (pod_identity_labels pe req) (s_IDAlloc s)") (auto simp: AddPod_def)
      obtain gw where gw: "Allocator_Gateway ipa = Some gw"
        using op v al id Inr by (cases "Allocator_Gateway ipa") (auto simp: AddPod_def)
      have su: "pn_setup pe = None"
        using op v al id gw Inr by (cases "pn_setup pe") (auto simp: AddPod_def Let_def split: prod.splits)
      have "al_index ipa podIP = Some i" using al_upd_derived [OF u] al_index_addr [OF wf(1) i(1)] i(3) by simp
      moreover have "i \<in> al_bits ipa" "i \<notin> al_reserved ipa"
        using al_upd_bits [OF u] al_upd_derived(1) [OF u] i(2) wf(1) by (auto simp: Allocator_wf_def)
      ultimately obtain ipa' where rel: "Allocator_Release (pn_remove pe) podIP ipa dir = (None, ipa', if al_stateDir ipa = [] then dir else removeIP (pn_remove pe) (al_addr ipa i) dir)"
          and u': "al_upd ipa (al_bits ipa - {i}) ipa'"
        using Release_allocated [OF al_upd_wf [OF u]] by blast
      have "al_upd ?a (al_bits ?a) ipa'" using al_upd_trans [OF u u'] al_upd_bits [OF u] i(2) by simp
      then show ?thesis using op v al id gw su rel Inr AllocateIdentity_effect(3) [OF wf(2) id] by (auto simp: AddPod_def Let_def)
    qed
  qed (use op al_upd_refl [OF wf(1)] in \<open>auto simp: AddPod_def\<close>)
  then show "m' = m" "s_Endpoints s' = s_Endpoints s" "s_IDAlloc s' = s_IDAlloc s"
    "s_DpConnected s' = s_DpConnected s" "s_NodeIP s' = s_NodeIP s"
    "al_upd (s_IPAlloc s) (al_bits (s_IPAlloc s)) (s_IPAlloc s')" by blast+
qed

lemma DelPod_effect:
  assumes "DelPod rm ns name c s m = Some (s', m')"
  obtains (ignored) "s' = s" "m' = m" "\<forall>ep. s_Endpoints s (pod_key ns name) = Some ep \<longrightarrow> ae_ContainerID ep \<noteq> c"
  | (removed) ep e dir where "s_Endpoints s (pod_key ns name) = Some ep" "ae_ContainerID ep = c"
      "Allocator_Release rm (ae_IP ep) (s_IPAlloc s) (s_StateDir s) = (e, s_IPAlloc s', dir)"
      "s_IDAlloc s' = RemoveIdentity (ae_IdentityID ep) (s_IDAlloc s)" "s_Endpoints s' = map_del (s_Endpoints s) (pod_key ns name)"
      "s_DpConnected s' = s_DpConnected s" "s_NodeIP s' = s_NodeIP s"
      "m' = (if s_DpConnected s then snd (delete_endpoint (IP_String (ae_IP ep)) m) else m)"
proof (cases "s_Endpoints s (pod_key ns name)")
  case None
  then show thesis using assms ignored by (auto simp: DelPod_def)
next
  case (Some ep)
  show thesis
  proof (cases "ae_ContainerID ep = c")
    case True
    obtain e ipa dir where r: "Allocator_Release rm (ae_IP ep) (s_IPAlloc s) (s_StateDir s) = (e, ipa, dir)" by (metis prod_cases3)
    then have "e \<noteq> Some RuntimePanic" using assms Some True by (auto simp: DelPod_def)
    then show thesis using assms Some True r removed [OF Some True, of e dir]
      by (cases e; cases "the e") (auto simp: DelPod_def)
  qed (use assms Some ignored in \<open>auto simp: DelPod_def\<close>)
qed

section \<open>The invariant\<close>

definition pods_with :: "(string \<rightharpoonup> AgentEndpoint) \<Rightarrow> u64 \<Rightarrow> string set" where
  "pods_with eps ident = {k. \<exists>ep. eps k = Some ep \<and> ae_IdentityID ep = ident}"

definition owns :: "Server \<Rightarrow> string \<Rightarrow> nat \<Rightarrow> bool" where
  "owns s k i \<longleftrightarrow> (\<exists>ep. s_Endpoints s k = Some ep \<and> ae_IP ep = al_addr (s_IPAlloc s) i \<and> i < al_size (s_IPAlloc s))"

definition pods_ok :: "Server \<Rightarrow> bool" where
  "pods_ok s \<longleftrightarrow>
     Allocator_wf (s_IPAlloc s) \<and> Id_wf (s_IDAlloc s) \<and> finite (dom (s_Endpoints s))
     \<and> (\<forall>k \<in> dom (s_Endpoints s). \<exists>i. owns s k i \<and> i \<in> al_bits (s_IPAlloc s) - al_reserved (s_IPAlloc s))
     \<and> (\<forall>k k' i. owns s k i \<and> owns s k' i \<longrightarrow> k = k')
     \<and> (\<forall>ident. int (card (pods_with (s_Endpoints s) ident)) \<le> idcount (s_IDAlloc s) ident)"

lemma pods_okD:
  assumes "pods_ok s"
  shows "Allocator_wf (s_IPAlloc s)" "Id_wf (s_IDAlloc s)" "finite (dom (s_Endpoints s))"
    and "s_Endpoints s k = Some ep \<Longrightarrow> \<exists>i. owns s k i \<and> i \<in> al_bits (s_IPAlloc s) \<and> i \<notin> al_reserved (s_IPAlloc s)"
    and "owns s k i \<Longrightarrow> owns s k' i \<Longrightarrow> k = k'"
    and "int (card (pods_with (s_Endpoints s) ident)) \<le> idcount (s_IDAlloc s) ident"
  using assms unfolding pods_ok_def by (blast, blast, blast, (metis DiffE domI), blast, blast)

lemma owns_index:
  assumes "Allocator_wf (s_IPAlloc s)" "owns s k i" "s_Endpoints s k = Some ep"
  shows "al_index (s_IPAlloc s) (ae_IP ep) = Some i"
  using assms al_index_addr [OF assms(1), of i] by (auto simp: owns_def)

lemma owns_unique: "Allocator_wf (s_IPAlloc s) \<Longrightarrow> owns s k i \<Longrightarrow> owns s k j \<Longrightarrow> i = j"
  using owns_index [of s k i] owns_index [of s k j] by (auto simp: owns_def)

lemma owns_bits:
  assumes "pods_ok s" "owns s k j"
  shows "j \<in> al_bits (s_IPAlloc s) \<and> j \<notin> al_reserved (s_IPAlloc s)"
proof -
  obtain ep where "s_Endpoints s k = Some ep" using assms(2) by (auto simp: owns_def)
  then obtain i where i: "owns s k i" "i \<in> al_bits (s_IPAlloc s)" "i \<notin> al_reserved (s_IPAlloc s)" using pods_okD(4) [OF assms(1)] by blast
  then show ?thesis using owns_unique [OF pods_okD(1) [OF assms(1)] i(1) assms(2)] by simp
qed

lemma finite_pods_with: "finite (dom eps) \<Longrightarrow> finite (pods_with eps ident)"
  by (rule finite_subset [of _ "dom eps"]) (auto simp: pods_with_def)

lemma pods_with_upd: "pods_with (eps(k \<mapsto> ep)) ident \<subseteq> (if ae_IdentityID ep = ident then insert k (pods_with eps ident) else pods_with eps ident)"
  by (auto simp: pods_with_def split: if_splits)

lemma AddPod_pods_ok:
  assumes ok: "pods_ok s" and op: "AddPod pe req s m = Some (r, s', m')"
  shows "pods_ok s'"
proof (cases r)
  case (Inl e)
  note failed = AddPod_failed [OF pods_okD(1,2) [OF ok] op [unfolded Inl]]
  note u = failed(6) and same = failed(2,3)
  have "owns s' = owns s" using same al_upd_derived [OF u] al_upd_const [OF u] by (simp add: owns_def fun_eq_iff)
  then show ?thesis
    using ok same al_upd_wf [OF u] al_upd_bits [OF u] al_upd_derived(1) [OF u] unfolding pods_ok_def by simp
next
  case (Inr resp)
  from op [unfolded Inr] show ?thesis
  proof (cases rule: AddPod_ok)
    case (1 podIP ipa dir ident ida ifindex)
    let ?a = "s_IPAlloc s" and ?k = "pod_key (ap_PodNamespace req) (ap_PodName req)" and ?ep = "new_endpoint pe req podIP ident ifindex"
    obtain i where i: "i < al_size ?a" "i \<notin> al_bits ?a" "podIP = al_addr ?a i" and u: "al_upd ?a (insert i (al_bits ?a)) ipa"
      using Allocate_success [OF pods_okD(1) [OF ok] 1(1)] by blast
    note d = al_upd_derived [OF u] al_upd_const [OF u]
    have ip: "ae_IP ?ep = al_addr ?a i" using i(3) by (simp add: new_endpoint_def)
    have own: "owns s' k j \<longleftrightarrow> (if k = ?k then j = i else owns s k j)" for k j
      using 1(4,8) d ip i(1) al_index_addr [OF pods_okD(1) [OF ok], of j] al_index_addr [OF pods_okD(1) [OF ok] i(1)]
      by (auto simp: owns_def)
    note old = owns_bits [OF ok]
    have nr: "i \<notin> al_reserved ?a" using i(2) pods_okD(1) [OF ok] by (auto simp: Allocator_wf_def)
    note ids = AllocateIdentity_effect [OF pods_okD(2) [OF ok] 1(2)]
    have "int (card (pods_with (s_Endpoints s') x)) \<le> idcount ida x" for x
    proof -
      have "card (pods_with (s_Endpoints s') x) \<le> card (if ident = x then insert ?k (pods_with (s_Endpoints s) x) else pods_with (s_Endpoints s) x)"
        using pods_with_upd [of "s_Endpoints s" ?k ?ep x] finite_pods_with [OF pods_okD(3) [OF ok]]
        by (intro card_mono) (auto simp: 1(8) new_endpoint_def)
      also have "\<dots> \<le> (if ident = x then 1 else 0) + card (pods_with (s_Endpoints s) x)"
        using card_insert_le_m1 finite_pods_with [OF pods_okD(3) [OF ok], of x] by (auto simp: card_insert_if)
      finally show ?thesis using pods_okD(6) [OF ok, of x] ids(2) by (auto split: if_splits)
    qed
    moreover have "\<exists>j. owns s' k j \<and> j \<in> al_bits ipa - al_reserved ipa" if kd: "k \<in> dom (s_Endpoints s')" for k
    proof (cases "k = ?k")
      case True
      then show ?thesis using own [of k i] al_upd_bits [OF u] d(1) nr by auto
    next
      case False
      then obtain ep where "s_Endpoints s k = Some ep" using kd unfolding 1(8) by auto
      then obtain j where j: "owns s k j" "j \<in> al_bits ?a" "j \<notin> al_reserved ?a" using pods_okD(4) [OF ok, of k] by blast
      then show ?thesis using own [of k j] False al_upd_bits [OF u] d(1) by auto
    qed
    moreover have "k = k'" if "owns s' k j" "owns s' k' j" for k k' j
      using that own old i(2) pods_okD(5) [OF ok, of k j k'] by (auto split: if_splits)
    moreover have "finite (dom (s_Endpoints s'))" using pods_okD(3) [OF ok] by (simp add: 1(8))
    ultimately show ?thesis
      using al_upd_wf [OF u] ids(1) unfolding pods_ok_def 1(4,5) by blast
  qed
qed

lemma DelPod_pods_ok:
  assumes ok: "pods_ok s" and op: "DelPod rm ns name c s m = Some (s', m')"
  shows "pods_ok s'"
  using op
proof (cases rule: DelPod_effect)
  case ignored
  then show ?thesis using ok by simp
next
  case (removed ep e dir)
  let ?a = "s_IPAlloc s" and ?k = "pod_key ns name"
  obtain i where i: "owns s ?k i" "i \<in> al_bits ?a" "i \<notin> al_reserved ?a" using pods_okD(4) [OF ok removed(1)] by blast
  have idx: "al_index ?a (ae_IP ep) = Some i" by (rule owns_index [OF pods_okD(1) [OF ok] i(1) removed(1)])
  have u: "al_upd ?a (al_bits ?a - {i}) (s_IPAlloc s')"
    using Release_allocated [OF pods_okD(1) [OF ok] idx i(2,3), of rm "s_StateDir s"] removed(3) by auto
  note d = al_upd_derived [OF u] al_upd_const [OF u]
  have own: "owns s' k j \<longleftrightarrow> k \<noteq> ?k \<and> owns s k j" for k j using removed(5) d by (auto simp: owns_def)
  have "int (card (pods_with (s_Endpoints s') x)) \<le> idcount (s_IDAlloc s') x" for x
  proof -
    have sub: "pods_with (s_Endpoints s') x = pods_with (s_Endpoints s) x - {?k}" using removed(5) by (auto simp: pods_with_def)
    have mem: "?k \<in> pods_with (s_Endpoints s) x \<longleftrightarrow> ae_IdentityID ep = x" using removed(1) by (auto simp: pods_with_def)
    have "0 < card (pods_with (s_Endpoints s) x)" if "ae_IdentityID ep = x"
      using that mem finite_pods_with [OF pods_okD(3) [OF ok], of x] by (auto simp: card_gt_0_iff)
    then show ?thesis
      using pods_okD(6) [OF ok, of x] RemoveIdentity_effect [OF pods_okD(2) [OF ok], of "ae_IdentityID ep"] mem
      unfolding sub removed(4) by (auto simp: card_Diff_singleton_if)
  qed
  moreover have "\<exists>j. owns s' k j \<and> j \<in> al_bits (s_IPAlloc s') - al_reserved (s_IPAlloc s')" if kd: "k \<in> dom (s_Endpoints s')" for k
  proof -
    have ne: "k \<noteq> ?k" using kd removed(5) by auto
    then obtain ep' where "s_Endpoints s k = Some ep'" using kd unfolding removed(5) by auto
    then obtain j where j: "owns s k j" "j \<in> al_bits ?a" "j \<notin> al_reserved ?a" using pods_okD(4) [OF ok] by blast
    moreover have "j \<noteq> i" using pods_okD(5) [OF ok i(1), of k] j(1) ne by blast
    ultimately show ?thesis using own [of k j] ne al_upd_bits [OF u] d(1) by auto
  qed
  moreover have "k = k'" if "owns s' k j" "owns s' k' j" for k k' j
    using that own pods_okD(5) [OF ok, of k j k'] by blast
  moreover have "finite (dom (s_Endpoints s'))" using pods_okD(3) [OF ok] by (simp add: removed(5))
  moreover have "Id_wf (s_IDAlloc s')" using RemoveIdentity_wf [OF pods_okD(2) [OF ok]] by (simp add: removed(4))
  ultimately show ?thesis using al_upd_wf [OF u] unfolding pods_ok_def by blast
qed

text \<open>
  The steps of the agent. A policy callback can come at any time.
\<close>

inductive agent_step :: "Server \<times> Maps \<Rightarrow> Server \<times> Maps \<Rightarrow> bool" where
  step_add: "AddPod pe req s m = Some (r, s', m') \<Longrightarrow> agent_step (s, m) (s', m')"
| step_del: "DelPod rm ns name c s m = Some (s', m') \<Longrightarrow> agent_step (s, m) (s', m')"
| step_policy: "OnPolicyChange olds ks rules s m = (s', m') \<Longrightarrow> agent_step (s, m) (s', m')"

inductive_cases agent_stepE: "agent_step (s, m) (s', m')"

lemma OnPolicyChange_pods_ok:
  assumes "pods_ok s" "OnPolicyChange olds ks rules s m = (s', m')"
  shows "pods_ok s'" "owns s' = owns s" "s_IPAlloc s' = s_IPAlloc s"
proof -
  have same: "s_IPAlloc s' = s_IPAlloc s" "s_IDAlloc s' = s_IDAlloc s" "s_Endpoints s' = s_Endpoints s"
    using OnPolicyChange_keeps [of olds ks rules s m] assms(2) by simp_all
  then show o: "owns s' = owns s" and "s_IPAlloc s' = s_IPAlloc s" by (simp_all add: owns_def fun_eq_iff)
  show "pods_ok s'" using assms(1) same o by (simp add: pods_ok_def)
qed

lemma agent_step_pods_ok: "agent_step (s, m) (s', m') \<Longrightarrow> pods_ok s \<Longrightarrow> pods_ok s'"
  by (erule agent_stepE) (auto dest: AddPod_pods_ok DelPod_pods_ok OnPolicyChange_pods_ok)

lemma agent_run_pods_ok:
  assumes "agent_step\<^sup>*\<^sup>* c c'" "pods_ok (fst c)"
  shows "pods_ok (fst c')"
  using assms
proof (induction rule: rtranclp_induct)
  case (step b c)
  then show ?case using agent_step_pods_ok [of "fst b" "snd b" "fst c" "snd c"] by simp
qed simp

text \<open>A server after its start: the allocators are what their constructors return and there is no endpoint.\<close>

definition server_started :: "Server \<Rightarrow> bool" where
  "server_started s \<longleftrightarrow>
     (\<exists>cidr sd mk es. NewAllocatorWithStateDir cidr sd mk es = Inr (s_IPAlloc s)) \<and> s_IDAlloc s = id_NewAllocator
     \<and> s_Endpoints s = Map.empty"

lemma server_started_pods_ok:
  assumes "server_started s"
  shows "pods_ok s"
proof -
  have "Allocator_wf (s_IPAlloc s)" using assms NewAllocator_wf by (auto simp: server_started_def)
  moreover have "Id_wf id_NewAllocator" by (rule id_run_wf) simp
  moreover have "0 \<le> idcount id_NewAllocator i" for i by (simp add: idcount_def id_NewAllocator_def)
  ultimately show ?thesis using assms by (simp add: pods_ok_def server_started_def owns_def pods_with_def)
qed

text \<open>
  (C3) In every state that the agent reaches, whatever fails on the way, no two pods have the same
  address, every pod's address is allocated, in the network of the node and none of the reserved ones, and
  every pod's identity is live: no other pod's removal has taken it away.
\<close>

theorem pods_have_own_addresses:
  assumes "server_started s0" and "agent_step\<^sup>*\<^sup>* (s0, m0) (s, m)" and ep: "s_Endpoints s k = Some ep"
  shows "(\<forall>k' ep'. s_Endpoints s k' = Some ep' \<and> ae_IP ep' = ae_IP ep \<longrightarrow> k' = k)
    \<and> (\<exists>i. al_index (s_IPAlloc s) (ae_IP ep) = Some i \<and> i \<in> al_bits (s_IPAlloc s) \<and> i \<notin> al_reserved (s_IPAlloc s))
    \<and> idToLabels (s_IDAlloc s) (ae_IdentityID ep) \<noteq> None"
proof -
  have ok: "pods_ok s" using agent_run_pods_ok [OF assms(2)] server_started_pods_ok [OF assms(1)] by simp
  obtain i where i: "owns s k i" "i \<in> al_bits (s_IPAlloc s)" "i \<notin> al_reserved (s_IPAlloc s)" using pods_okD(4) [OF ok ep] by blast
  have "k \<in> pods_with (s_Endpoints s) (ae_IdentityID ep)" using ep by (simp add: pods_with_def)
  then have "0 < card (pods_with (s_Endpoints s) (ae_IdentityID ep))"
    using finite_pods_with [OF pods_okD(3) [OF ok]] by (auto simp: card_gt_0_iff)
  then have "0 < idcount (s_IDAlloc s) (ae_IdentityID ep)" using pods_okD(6) [OF ok, of "ae_IdentityID ep"] by simp
  note live = idcount_live [OF pods_okD(2) [OF ok] this]
  have "k' = k" if "s_Endpoints s k' = Some ep'" "ae_IP ep' = ae_IP ep" for k' ep'
  proof -
    have "owns s k' i" using that i(1) ep by (auto simp: owns_def)
    then show ?thesis by (rule pods_okD(5) [OF ok _ i(1)])
  qed
  then show ?thesis using owns_index [OF pods_okD(1) [OF ok] i(1) ep] i(2,3) live by blast
qed

section \<open>The endpoints of the dataplane\<close>

lemma parse_ip_String4: "length ip = 4 \<Longrightarrow> parse_ip (IP_String ip) = Some (V4 ip)"
  using ParseAddr_string4 [of ip] by (simp add: parse_ip_def IP_String_def IP_To4_def)

definition pod_value :: "IP \<Rightarrow> AgentEndpoint \<Rightarrow> EndpointValue" where
  "pod_value nodeIP ep =
     \<lparr>ev_ifindex = ae_IfIndex ep, ev_mac = ae_MAC ep, ev_identity = ucast (ae_IdentityID ep), ev_node_ip = ipv4_to_u32 nodeIP\<rparr>"

definition addr_key :: "IP \<Rightarrow> EndpointKey" where
  "addr_key ip = \<lparr>ek_ip = ipv4_to_u32 ip\<rparr>"

lemma addr_key_inject: "length x = 4 \<Longrightarrow> length y = 4 \<Longrightarrow> addr_key x = addr_key y \<longleftrightarrow> x = y"
  by (simp add: addr_key_def ipv4_to_u32_inject)

lemma push_endpoint_maps:
  assumes "s_DpConnected s" "length (s_NodeIP s) = 4" "length (ae_IP ep) = 4" "length (ae_MAC ep) = 6"
    and "finite K" "card K \<le> MAX_ENDPOINTS" "dom (m_endpoints m) \<subseteq> K" "addr_key (ae_IP ep) \<in> K"
  shows "m_endpoints (push_endpoint pe ep s m) = (m_endpoints m)(addr_key (ae_IP ep) \<mapsto> pod_value (s_NodeIP s) ep)"
  using assms(1-4) hm_insert_room [OF assms(5-8)]
  by (simp add: push_endpoint_def upsert_endpoint_def parse_ip_String4 store_def attach_program_def addr_key_def pod_value_def Let_def)

lemma delete_endpoint_maps:
  assumes "length ip = 4"
  shows "m_endpoints (snd (delete_endpoint (IP_String ip) m)) = map_del (m_endpoints m) (addr_key ip)"
  using assms map_del_notin [of "addr_key ip" "m_endpoints m"]
  by (auto simp: delete_endpoint_def parse_ip_String4 store_def hm_remove_def addr_key_def domIff split: if_splits)

definition mirrored :: "Server \<Rightarrow> Maps \<Rightarrow> bool" where
  "mirrored s m \<longleftrightarrow>
     s_DpConnected s \<and> length (s_NodeIP s) = 4 \<and> al_ipLen (s_IPAlloc s) = 4 \<and> al_size (s_IPAlloc s) \<le> MAX_ENDPOINTS
     \<and> dom (m_endpoints m) \<subseteq> (\<lambda>i. addr_key (al_addr (s_IPAlloc s) i)) ` {..<al_size (s_IPAlloc s)}
     \<and> (\<forall>k ep. s_Endpoints s k = Some ep \<longrightarrow> m_endpoints m (addr_key (ae_IP ep)) = Some (pod_value (s_NodeIP s) ep))"

lemma owned_length: "pods_ok s \<Longrightarrow> al_ipLen (s_IPAlloc s) = 4 \<Longrightarrow> s_Endpoints s k = Some ep \<Longrightarrow> length (ae_IP ep) = 4"
  using pods_okD(4) [of s k ep] by (auto simp: owns_def al_addr_def)

lemma pods_addresses_differ:
  assumes "pods_ok s" "s_Endpoints s k = Some ep" "s_Endpoints s k' = Some ep'" "k \<noteq> k'"
  shows "ae_IP ep \<noteq> ae_IP ep'"
proof
  assume eq: "ae_IP ep = ae_IP ep'"
  obtain i where "owns s k i" using pods_okD(4) [OF assms(1,2)] by blast
  moreover have "owns s k' i" using calculation assms(2,3) eq by (auto simp: owns_def)
  ultimately show "False" using pods_okD(5) [OF assms(1)] assms(4) by blast
qed

lemma GenerateMAC_4: "length ip = 4 \<Longrightarrow> GenerateMAC sha ip = [0x02, 0xfe] @ ip"
  by (simp add: GenerateMAC_def IP_To4_def)

lemma AddPod_mirrored:
  assumes ok: "pods_ok s" and mir: "mirrored s m" and op: "AddPod pe req s m = Some (r, s', m')"
  shows "mirrored s' m'"
proof (cases r)
  case (Inl e)
  note failed = AddPod_failed [OF pods_okD(1,2) [OF ok] op [unfolded Inl]]
  show ?thesis
    using mir failed al_upd_derived(3) [OF failed(6)] al_upd_const(3,5) [OF failed(6)] by (simp add: mirrored_def)
next
  case (Inr resp)
  from op [unfolded Inr] show ?thesis
  proof (cases rule: AddPod_ok)
    case (1 podIP ipa dir ident ida ifindex)
    let ?a = "s_IPAlloc s" and ?k = "pod_key (ap_PodNamespace req) (ap_PodName req)" and ?ep = "new_endpoint pe req podIP ident ifindex"
    let ?K = "(\<lambda>i. addr_key (al_addr ?a i)) ` {..<al_size ?a}"
    obtain i where i: "i < al_size ?a" "i \<notin> al_bits ?a" "podIP = al_addr ?a i" and u: "al_upd ?a (insert i (al_bits ?a)) ipa"
      using Allocate_success [OF pods_okD(1) [OF ok] 1(1)] by blast
    note d = al_upd_derived [OF u] al_upd_const [OF u]
    have M: "s_DpConnected s" "length (s_NodeIP s) = 4" "al_ipLen ?a = 4" "al_size ?a \<le> MAX_ENDPOINTS" "dom (m_endpoints m) \<subseteq> ?K"
      using mir by (simp_all add: mirrored_def)
    have len: "length podIP = 4" using i(3) M(3) by (simp add: al_addr_def)
    have ep: "ae_IP ?ep = podIP" "length (ae_MAC ?ep) = 6" using len GenerateMAC_4 [OF len] by (simp_all add: new_endpoint_def)
    have mem: "addr_key (ae_IP ?ep) \<in> ?K" using i ep(1) by auto
    have "card ?K \<le> MAX_ENDPOINTS" using card_image_le [of "{..<al_size ?a}" "\<lambda>i. addr_key (al_addr ?a i)"] M(4) by simp
    then have m': "m_endpoints m' = (m_endpoints m)(addr_key podIP \<mapsto> pod_value (s_NodeIP s) ?ep)"
      using push_endpoint_maps [OF M(1,2) _ ep(2) _ _ M(5) mem] 1(9) len ep(1) by simp
    have fresh: "ae_IP ep' \<noteq> podIP" if k: "s_Endpoints s k = Some ep'" for k ep'
    proof -
      obtain j where j: "owns s k j" using pods_okD(4) [OF ok k] by blast
      then have "j \<noteq> i" using owns_bits [OF ok j] i(2) by blast
      moreover have "al_index ?a (ae_IP ep') = Some j" by (rule owns_index [OF pods_okD(1) [OF ok] j k])
      ultimately show ?thesis using al_index_addr [OF pods_okD(1) [OF ok] i(1)] i(3) by auto
    qed
    have "m_endpoints m' (addr_key (ae_IP ep')) = Some (pod_value (s_NodeIP s) ep')" if "s_Endpoints s' k = Some ep'" for k ep'
    proof (cases "k = ?k")
      case True
      then show ?thesis using that m' ep(1) by (simp add: 1(8))
    next
      case False
      then have k: "s_Endpoints s k = Some ep'" using that by (simp add: 1(8))
      then have "addr_key (ae_IP ep') \<noteq> addr_key podIP"
        using addr_key_inject [OF owned_length [OF ok M(3) k] len] fresh [OF k] by simp
      then show ?thesis using m' mir k by (simp add: mirrored_def)
    qed
    moreover have "dom (m_endpoints m') \<subseteq> ?K" using m' M(5) mem ep(1) by simp
    ultimately show ?thesis using M d by (simp add: mirrored_def 1(4,6,7))
  qed
qed

lemma DelPod_mirrored:
  assumes ok: "pods_ok s" and mir: "mirrored s m" and op: "DelPod rm ns name c s m = Some (s', m')"
  shows "mirrored s' m'"
  using op
proof (cases rule: DelPod_effect)
  case (removed ep e dir)
  let ?k = "pod_key ns name" and ?a = "s_IPAlloc s"
  have M: "s_DpConnected s" "al_ipLen ?a = 4" using mir by (simp_all add: mirrored_def)
  obtain i where i: "owns s ?k i" "i \<in> al_bits ?a" "i \<notin> al_reserved ?a" using pods_okD(4) [OF ok removed(1)] by blast
  note idx = owns_index [OF pods_okD(1) [OF ok] i(1) removed(1)]
  have u: "al_upd ?a (al_bits ?a - {i}) (s_IPAlloc s')"
    using Release_allocated [OF pods_okD(1) [OF ok] idx i(2,3), of rm "s_StateDir s"] removed(3) by auto
  note d = al_upd_derived [OF u] al_upd_const [OF u]
  have m': "m_endpoints m' = map_del (m_endpoints m) (addr_key (ae_IP ep))"
    using removed(8) M(1) delete_endpoint_maps [OF owned_length [OF ok M(2) removed(1)]] by simp
  have "m_endpoints m' (addr_key (ae_IP ep')) = Some (pod_value (s_NodeIP s) ep')" if "s_Endpoints s' k = Some ep'" for k ep'
  proof -
    have k: "s_Endpoints s k = Some ep'" "k \<noteq> ?k" using that by (auto simp: removed(5) split: if_splits)
    then have "addr_key (ae_IP ep') \<noteq> addr_key (ae_IP ep)"
      using addr_key_inject [OF owned_length [OF ok M(2) k(1)] owned_length [OF ok M(2) removed(1)]]
        pods_addresses_differ [OF ok k(1) removed(1) k(2)] by simp
    then show ?thesis using m' mir k(1) by (simp add: mirrored_def)
  qed
  moreover have "dom (m_endpoints m') \<subseteq> (\<lambda>i. addr_key (al_addr ?a i)) ` {..<al_size ?a}"
    using m' mir by (auto simp: mirrored_def)
  ultimately show ?thesis using mir d by (simp add: mirrored_def removed(6,7))
qed (use mir in simp)

lemma OnPolicyChange_mirrored:
  assumes "mirrored s m" "OnPolicyChange olds ks rules s m = (s', m')"
  shows "mirrored s' m'"
  using assms OnPolicyChange_keeps [of olds ks rules s m] OnPolicyChange_endpoints [of olds ks rules s m]
  by (simp add: mirrored_def)

lemma agent_run_mirrored:
  assumes "agent_step\<^sup>*\<^sup>* c c'" "pods_ok (fst c)" "mirrored (fst c) (snd c)"
  shows "mirrored (fst c') (snd c')"
  using assms
proof (induction rule: rtranclp_induct)
  case (step b c)
  have ok: "pods_ok (fst b)" by (rule agent_run_pods_ok [OF step.hyps(1) step.prems(1)])
  have mir: "mirrored (fst b) (snd b)" by (rule step.IH [OF step.prems])
  have "agent_step (fst b, snd b) (fst c, snd c)" using step.hyps(2) by simp
  then show ?case
    by (rule agent_stepE) (blast intro: AddPod_mirrored [OF ok mir] DelPod_mirrored [OF ok mir] OnPolicyChange_mirrored [OF mir])+
qed simp


section \<open>Addresses without an owner\<close>

definition orphan :: "Server \<Rightarrow> nat \<Rightarrow> bool" where
  "orphan s i \<longleftrightarrow> i \<in> al_bits (s_IPAlloc s) \<and> (\<forall>k. \<not> owns s k i)"

lemma AddPod_orphan:
  assumes ok: "pods_ok s" and op: "AddPod pe req s m = Some (r, s', m')"
  shows "(\<exists>B. al_upd (s_IPAlloc s) B (s_IPAlloc s')) \<and> (orphan s i \<longrightarrow> orphan s' i)"
proof (cases r)
  case (Inl e)
  note failed = AddPod_failed [OF pods_okD(1,2) [OF ok] op [unfolded Inl]]
  show ?thesis
    using failed al_upd_bits [OF failed(6)] al_upd_derived(3) [OF failed(6)] al_upd_const(3) [OF failed(6)]
    by (auto simp: orphan_def owns_def)
next
  case (Inr resp)
  from op [unfolded Inr] show ?thesis
  proof (cases rule: AddPod_ok)
    case (1 podIP ipa dir ident ida ifindex)
    let ?a = "s_IPAlloc s"
    obtain j where j: "j < al_size ?a" "j \<notin> al_bits ?a" "podIP = al_addr ?a j" and u: "al_upd ?a (insert j (al_bits ?a)) ipa"
      using Allocate_success [OF pods_okD(1) [OF ok] 1(1)] by blast
    note d = al_upd_derived(3) [OF u] al_upd_const(3) [OF u]
    have "orphan s' i" if o: "orphan s i"
    proof -
      have "i \<noteq> j" "i < al_size ?a" using o j(2) pods_okD(1) [OF ok] by (auto simp: orphan_def Allocator_wf_def)
      then have "al_addr ?a i \<noteq> podIP"
        using al_index_addr [OF pods_okD(1) [OF ok], of i] al_index_addr [OF pods_okD(1) [OF ok] j(1)] j(3) by auto
      then show ?thesis using o al_upd_bits [OF u] d by (auto simp: orphan_def owns_def 1(4,8) new_endpoint_def split: if_splits)
    qed
    then show ?thesis using u by (auto simp: 1(4))
  qed
qed

lemma DelPod_orphan:
  assumes ok: "pods_ok s" and op: "DelPod rm ns name c s m = Some (s', m')"
  shows "(\<exists>B. al_upd (s_IPAlloc s) B (s_IPAlloc s')) \<and> (orphan s i \<longrightarrow> orphan s' i)"
  using op
proof (cases rule: DelPod_effect)
  case (removed ep e dir)
  let ?k = "pod_key ns name" and ?a = "s_IPAlloc s"
  obtain j where j: "owns s ?k j" "j \<in> al_bits ?a" "j \<notin> al_reserved ?a" using pods_okD(4) [OF ok removed(1)] by blast
  note idx = owns_index [OF pods_okD(1) [OF ok] j(1) removed(1)]
  have u: "al_upd ?a (al_bits ?a - {j}) (s_IPAlloc s')"
    using Release_allocated [OF pods_okD(1) [OF ok] idx j(2,3), of rm "s_StateDir s"] removed(3) by auto
  have "orphan s' i" if o: "orphan s i"
  proof -
    have "i \<noteq> j" using o j(1) by (auto simp: orphan_def)
    then show ?thesis
      using o al_upd_bits [OF u] al_upd_derived(3) [OF u] al_upd_const(3) [OF u]
      by (auto simp: orphan_def owns_def removed(5) split: if_splits)
  qed
  then show ?thesis using u by blast
qed (use al_upd_refl [OF pods_okD(1) [OF ok]] in auto)

lemma agent_run_orphan:
  assumes "agent_step\<^sup>*\<^sup>* c c'" "pods_ok (fst c)"
  shows "(\<exists>B. al_upd (s_IPAlloc (fst c)) B (s_IPAlloc (fst c'))) \<and> (orphan (fst c) i \<longrightarrow> orphan (fst c') i)"
  using assms
proof (induction rule: rtranclp_induct)
  case base
  then show ?case using al_upd_refl [OF pods_okD(1) [OF base]] by auto
next
  case (step b c)
  have ok: "pods_ok (fst b)" by (rule agent_run_pods_ok [OF step.hyps(1) step.prems])
  have "agent_step (fst b, snd b) (fst c, snd c)" using step.hyps(2) by simp
  then have "(\<exists>B. al_upd (s_IPAlloc (fst b)) B (s_IPAlloc (fst c))) \<and> (orphan (fst b) i \<longrightarrow> orphan (fst c) i)"
  proof (rule agent_stepE)
    fix olds ks rules
    assume "OnPolicyChange olds ks rules (fst b) (snd b) = (fst c, snd c)"
    note same = OnPolicyChange_pods_ok(2,3) [OF ok this]
    then show ?thesis using al_upd_refl [OF pods_okD(1) [OF ok]] by (auto simp: orphan_def)
  qed (use AddPod_orphan [OF ok] DelPod_orphan [OF ok] in blast)+
  then show ?case using step.IH [OF step.prems] al_upd_trans by blast
qed

text \<open>
  (C39) Adding a pod under the name of a pod that is still registered, as happens when a stateful pod is
  recreated before the removal of its old container arrives, loses the old address for ever: whatever
  pods are added and removed later, it stays allocated and no pod has it.
\<close>

theorem replaced_pod_leaks_address:
  assumes "server_started s0" "agent_step\<^sup>*\<^sup>* (s0, m0) (s, m)"
    and ep: "s_Endpoints s (pod_key (ap_PodNamespace req) (ap_PodName req)) = Some ep"
    and op: "AddPod pe req s m = Some (Inr resp, s1, m1)" and run: "agent_step\<^sup>*\<^sup>* (s1, m1) (s2, m2)"
  shows "\<exists>i. al_index (s_IPAlloc s2) (ae_IP ep) = Some i \<and> i \<in> al_bits (s_IPAlloc s2)
    \<and> (\<forall>k ep'. s_Endpoints s2 k = Some ep' \<longrightarrow> ae_IP ep' \<noteq> ae_IP ep)"
proof -
  let ?k = "pod_key (ap_PodNamespace req) (ap_PodName req)"
  have ok: "pods_ok s" using agent_run_pods_ok [OF assms(2)] server_started_pods_ok [OF assms(1)] by simp
  have ok1: "pods_ok s1" by (rule AddPod_pods_ok [OF ok op])
  obtain i where i: "owns s ?k i" using pods_okD(4) [OF ok ep] by blast
  note idx = owns_index [OF pods_okD(1) [OF ok] i ep]
  have "orphan s1 i"
  proof (cases rule: AddPod_ok [OF op])
    case (1 podIP ipa dir ident ida ifindex)
    obtain j where j: "j < al_size (s_IPAlloc s)" "j \<notin> al_bits (s_IPAlloc s)" "podIP = al_addr (s_IPAlloc s) j"
        and u: "al_upd (s_IPAlloc s) (insert j (al_bits (s_IPAlloc s))) ipa"
      using Allocate_success [OF pods_okD(1) [OF ok] 1(1)] by blast
    have "i \<noteq> j" using owns_bits [OF ok i] j(2) by blast
    moreover have "al_addr (s_IPAlloc s) i = ae_IP ep" using i ep by (auto simp: owns_def)
    ultimately have "al_addr (s_IPAlloc s) i \<noteq> podIP"
      using idx al_index_addr [OF pods_okD(1) [OF ok] j(1)] j(3) by auto
    moreover have "\<not> owns s k i" if "k \<noteq> ?k" for k using pods_okD(5) [OF ok i, of k] that by blast
    ultimately show ?thesis
      using owns_bits [OF ok i] al_upd_bits [OF u] al_upd_derived(3) [OF u] al_upd_const(3) [OF u]
      by (auto simp: orphan_def owns_def 1(4,8) new_endpoint_def split: if_splits)
  qed
  then have o: "orphan s2 i" using agent_run_orphan [OF run] ok1 by simp
  obtain B where u1: "al_upd (s_IPAlloc s) B (s_IPAlloc s1)" using AddPod_orphan [OF ok op, of i] by blast
  obtain C where u2: "al_upd (s_IPAlloc s1) C (s_IPAlloc s2)" using agent_run_orphan [OF run] ok1 by auto
  note d = al_upd_derived [OF al_upd_trans [OF u1 u2]] al_upd_const [OF al_upd_trans [OF u1 u2]]
  have "ae_IP ep' \<noteq> ae_IP ep" if "s_Endpoints s2 k = Some ep'" for k ep'
  proof
    assume "ae_IP ep' = ae_IP ep"
    then have "owns s2 k i" using that i ep d by (auto simp: owns_def)
    then show "False" using o by (auto simp: orphan_def)
  qed
  then show ?thesis using idx o d by (auto simp: orphan_def)
qed

section \<open>A pod that is recreated\<close>

definition ex_net :: "nat \<Rightarrow> u64 \<Rightarrow> Allocator" where
  "ex_net used bits =
     \<lparr>al_network = \<lparr>net_IP = [10, 0, 0, 0], net_Mask = [255, 255, 255, 248]\<rparr>, al_baseIP = [10, 0, 0, 0], al_size = 8,
      al_bitmap = \<lparr>bm_words = [bits], bm_size = 8\<rparr>, al_used = int used, al_prefixLen = 29, al_ipLen = 4, al_isIPv4 = True,
      al_stateDir = ''''\<rparr>"

definition ex_started :: Server where
  "ex_started = ex_server\<lparr>s_IPAlloc := ex_net 3 131, s_IDAlloc := id_NewAllocator\<rparr>"

definition ex_pod_env :: PodEnv where
  "ex_pod_env =
     \<lparr>pn_pod = None, pn_write = WriteOK, pn_remove = True, pn_setup = Some 7, pn_attach = True, pn_sha256 = (\<lambda>_. []),
      pn_policy = None, pn_olds = [], pn_ks = (\<lambda>_. [])\<rparr>"

definition ex_request :: "string \<Rightarrow> AddPodRequest" where
  "ex_request c =
     \<lparr>ap_PodName = ''web-0'', ap_PodNamespace = ''ns'', ap_ContainerId = c, ap_Netns = ''netns'', ap_IfName = ''eth0'',
      ap_Labels = [''app'' \<mapsto> ''web'']\<rparr>"

definition ex_ids :: "int \<Rightarrow> IdAllocator" where
  "ex_ids n = \<lparr>idToLabels = [ex_web_id \<mapsto> ex_web], refCount = [ex_web_id \<mapsto> n],
     labelsToID = [''app=web,novanet.io/namespace=ns'' \<mapsto> ex_web_id]\<rparr>"

lemma ex_net_new: "NewAllocatorWithStateDir ''10.0.0.0/29'' '''' True None = Inr (ex_net 3 131)"
proof -
  have "ParseCIDR ''10.0.0.0/29'' =
      Some ([0, 0, 0, 0, 0, 0, 0, 0, 0, 0, 255, 255, 10, 0, 0, 0], \<lparr>net_IP = [10, 0, 0, 0], net_Mask = [255, 255, 255, 248]\<rparr>)"
    by (simp add: ParseCIDR_def ParseAddr_def dec_val_def CIDRMask_def IP_Mask_def and_bytes_def v4InV6Prefix_def upt_rec Let_def)
  moreover have "Mask_Size [255, 255, 255, 248 :: u8] = (29, 32)" by (simp add: Mask_Size_def leading_ones_def upt_rec)
  ultimately show ?thesis
    by (simp add: NewAllocatorWithStateDir_def newAllocatorBase_def ex_net_def Let_def NewBitmap_def Bitmap_Set_def bit64_def IP_To4_def)
qed

lemma ex_net_Allocate:
  "Allocator_Allocate w (ex_net 3 131) d = (Inr [10, 0, 0, 2], ex_net 4 135, d)"
  "Allocator_Allocate w (ex_net 4 135) d = (Inr [10, 0, 0, 3], ex_net 5 143, d)"
  by (simp_all add: Allocator_Allocate_def ex_net_def Bitmap_FindFree_def FindFree_bits.simps
      Bitmap_Set_def bit64_def allocatorIndexToIP_def indexToIP_def be_nat_def big_Bytes.simps Let_def)

lemma ex_net_Gateway: "\<exists>gw. Allocator_Gateway (ex_net n b) = Some gw"
  by (simp add: Allocator_Gateway_def ex_net_def allocatorIndexToIP_def indexToIP_def be_nat_def big_Bytes.simps Let_def)

lemma ex_ids_Allocate: "AllocateIdentity ex_web id_NewAllocator = Some (ex_web_id, ex_ids 1)" "AllocateIdentity ex_web (ex_ids 1) = Some (ex_web_id, ex_ids 2)"
proof -
  have free: "m h = None \<Longrightarrow> probe m c h = Some h" for m c h by (subst probe.simps) simp
  show "AllocateIdentity ex_web id_NewAllocator = Some (ex_web_id, ex_ids 1)" "AllocateIdentity ex_web (ex_ids 1) = Some (ex_web_id, ex_ids 2)"
    by (simp_all add: AllocateIdentity_def ex_canonical_labels hashCanonical_def ex_hash_web free id_NewAllocator_def bump_def Let_def ex_ids_def)
qed

definition ex_pod :: "string \<Rightarrow> IP \<Rightarrow> AgentEndpoint" where
  "ex_pod c ip = new_endpoint ex_pod_env (ex_request c) ip ex_web_id 7"

definition ex_after :: "nat \<Rightarrow> u64 \<Rightarrow> int \<Rightarrow> AgentEndpoint \<Rightarrow> Server" where
  "ex_after used bits n ep =
     ex_started\<lparr>s_IPAlloc := ex_net used bits, s_IDAlloc := ex_ids n, s_Endpoints := [''ns/web-0'' \<mapsto> ep]\<rparr>"

lemma ex_request_facts:
  "11 \<le> length c \<Longrightarrow> validateAddPodRequest (ex_request c) = None" "pod_identity_labels ex_pod_env (ex_request c) = ex_web"
  by (auto simp: validateAddPodRequest_def ex_request_def pod_identity_labels_def ex_pod_env_def ex_web_def)

lemma ex_add_first:
  "\<exists>resp m'. AddPod ex_pod_env (ex_request ''0123456789ab'') ex_started m = Some (Inr resp, ex_after 4 135 1 (ex_pod ''0123456789ab'' [10, 0, 0, 2]), m')"
proof -
  obtain gw where "Allocator_Gateway (ex_net 4 135) = Some gw" using ex_net_Gateway by blast
  moreover have "s_IPAlloc ex_started = ex_net 3 131" "s_IDAlloc ex_started = id_NewAllocator" "s_Endpoints ex_started = Map.empty"
    by (simp_all add: ex_started_def ex_server_def)
  ultimately show ?thesis
    using ex_request_facts [of "''0123456789ab''"] ex_net_Allocate(1) ex_ids_Allocate(1)
    by (simp add: AddPod_def ex_pod_env_def [THEN arg_cong [of _ _ pn_setup]] ex_pod_env_def [THEN arg_cong [of _ _ pn_policy]]
        Recompile_def Let_def ex_after_def ex_pod_def new_endpoint_def pod_key_def ex_request_def ex_started_def)
qed

lemma ex_add_second:
  "\<exists>resp m'. AddPod ex_pod_env (ex_request ''ba9876543210'') (ex_after 4 135 1 ep) m = Some (Inr resp, ex_after 5 143 2 (ex_pod ''ba9876543210'' [10, 0, 0, 3]), m')"
proof -
  obtain gw where "Allocator_Gateway (ex_net 5 143) = Some gw" using ex_net_Gateway by blast
  moreover have "s_IPAlloc (ex_after 4 135 1 ep) = ex_net 4 135" "s_IDAlloc (ex_after 4 135 1 ep) = ex_ids 1" "s_Endpoints (ex_after 4 135 1 ep) = [''ns/web-0'' \<mapsto> ep]"
    by (simp_all add: ex_after_def)
  ultimately show ?thesis
    using ex_request_facts [of "''ba9876543210''"] ex_net_Allocate(2) ex_ids_Allocate(2)
    by (simp add: AddPod_def ex_pod_env_def [THEN arg_cong [of _ _ pn_setup]] ex_pod_env_def [THEN arg_cong [of _ _ pn_policy]]
        Recompile_def Let_def ex_after_def ex_pod_def new_endpoint_def pod_key_def ex_request_def)
qed

lemma ex_server_started: "server_started ex_started"
  using ex_net_new by (auto simp: server_started_def ex_started_def ex_server_def)

lemma ex_first_run: "\<exists>m'. agent_step\<^sup>*\<^sup>* (ex_started, m) (ex_after 4 135 1 (ex_pod ''0123456789ab'' [10, 0, 0, 2]), m')"
  using ex_add_first [of m] step_add by (metis r_into_rtranclp)

lemma ex_pod_facts:
  "s_Endpoints (ex_after used bits n ep) ''ns/web-0'' = Some ep" "s_IPAlloc (ex_after used bits n ep) = ex_net used bits"
  "ae_IP (ex_pod c ip) = ip" "s_NodeIP (ex_after used bits n ep) = [192, 168, 0, 1]"
  "pod_key (ap_PodNamespace (ex_request c)) (ap_PodName (ex_request c)) = ''ns/web-0''"
  by (simp_all add: ex_after_def ex_pod_def new_endpoint_def ex_started_def ex_server_def pod_key_def ex_request_def)

theorem pods_have_own_addresses_witness:
  "\<exists>i. al_index (ex_net 4 135) [10, 0, 0, 2] = Some i \<and> i \<in> al_bits (ex_net 4 135) \<and> i \<notin> al_reserved (ex_net 4 135)"
proof -
  obtain m where "agent_step\<^sup>*\<^sup>* (ex_started, fresh_maps) (ex_after 4 135 1 (ex_pod ''0123456789ab'' [10, 0, 0, 2]), m)"
    using ex_first_run by blast
  from pods_have_own_addresses [OF ex_server_started this ex_pod_facts(1)] show ?thesis by (simp add: ex_pod_facts)
qed


theorem replaced_pod_leaks_address_witness:
  "\<exists>i. al_index (ex_net 5 143) [10, 0, 0, 2] = Some i \<and> i \<in> al_bits (ex_net 5 143)
    \<and> ae_IP (ex_pod ''ba9876543210'' [10, 0, 0, 3]) \<noteq> [10, 0, 0, 2]"
proof -
  let ?p = "ex_pod ''0123456789ab'' [10, 0, 0, 2]"
  obtain m where run: "agent_step\<^sup>*\<^sup>* (ex_started, fresh_maps) (ex_after 4 135 1 ?p, m)" using ex_first_run by blast
  obtain resp m' where add: "AddPod ex_pod_env (ex_request ''ba9876543210'') (ex_after 4 135 1 ?p) m
      = Some (Inr resp, ex_after 5 143 2 (ex_pod ''ba9876543210'' [10, 0, 0, 3]), m')"
    using ex_add_second by blast
  have "s_Endpoints (ex_after 4 135 1 ?p) (pod_key (ap_PodNamespace (ex_request ''ba9876543210'')) (ap_PodName (ex_request ''ba9876543210''))) = Some ?p"
    by (simp add: ex_pod_facts)
  from replaced_pod_leaks_address [OF ex_server_started run this add rtranclp.rtrancl_refl] show ?thesis
    by (auto simp: ex_pod_facts)
qed

section \<open>Configuration and policies over a run\<close>

lemma push_endpoint_frame:
  "m_config (push_endpoint pe ep s m) = m_config m" "m_policies (push_endpoint pe ep s m) = m_policies m"
  by (auto simp: push_endpoint_def Let_def attach_program_def upsert_endpoint_def store_def split: option.splits IpAddr.splits)

lemma delete_endpoint_frame: "m_config (snd (delete_endpoint ip m)) = m_config m"
  by (auto simp: delete_endpoint_def store_def split: option.splits IpAddr.splits)

lemma AddPod_config:
  assumes ok: "pods_ok s" and op: "AddPod pe req s m = Some (r, s', m')"
  shows "m_config m' = m_config m \<and> s_NodeIP s' = s_NodeIP s"
proof (cases r)
  case (Inl e)
  then show ?thesis using AddPod_failed [OF pods_okD(1,2) [OF ok] op [unfolded Inl]] by simp
next
  case (Inr resp)
  from op [unfolded Inr] show ?thesis by (cases rule: AddPod_ok) (simp add: push_endpoint_frame)
qed

lemma agent_run_config:
  assumes "agent_step\<^sup>*\<^sup>* c c'" "pods_ok (fst c)"
  shows "m_config (snd c') = m_config (snd c) \<and> s_NodeIP (fst c') = s_NodeIP (fst c)"
  using assms
proof (induction rule: rtranclp_induct)
  case (step b c)
  have ok: "pods_ok (fst b)" by (rule agent_run_pods_ok [OF step.hyps(1) step.prems])
  have "agent_step (fst b, snd b) (fst c, snd c)" using step.hyps(2) by simp
  then have "m_config (snd c) = m_config (snd b) \<and> s_NodeIP (fst c) = s_NodeIP (fst b)"
  proof (rule agent_stepE)
    fix pe req r
    assume "AddPod pe req (fst b) (snd b) = Some (r, fst c, snd c)"
    then show ?thesis by (rule AddPod_config [OF ok])
  next
    fix rm ns name cid
    assume "DelPod rm ns name cid (fst b) (snd b) = Some (fst c, snd c)"
    then show ?thesis by (cases rule: DelPod_effect) (auto simp: delete_endpoint_frame)
  next
    fix olds ks rules
    assume "OnPolicyChange olds ks rules (fst b) (snd b) = (fst c, snd c)"
    then show ?thesis
      using OnPolicyChange_config [of olds ks rules "fst b" "snd b"] OnPolicyChange_keeps(5) [of olds ks rules "fst b" "snd b"] by simp
  qed
  then show ?case using step.IH [OF step.prems] by simp
qed simp

lemma local_pods_mirrored:
  assumes "mirrored s m" "s_Endpoints s k = Some ep" "s_Endpoints s k' = Some ep'"
    and "pt_src_ip p = ipv4_to_u32 (ae_IP ep)" "pt_dst_ip p = ipv4_to_u32 (ae_IP ep')"
    and "ucast (get_config CONFIG_KEY_NODE_IP m) = ipv4_to_u32 (s_NodeIP s)"
  shows "local_pods m p (ae_IdentityID ep) (ae_IdentityID ep')"
  using assms by (simp add: local_pods_def mirrored_def addr_key_def pod_value_def)

section \<open>A run with two pods\<close>

definition ex_db_request :: AddPodRequest where
  "ex_db_request = (ex_request ''ba9876543210'')\<lparr>ap_PodName := ''db-0'', ap_Labels := [''app'' \<mapsto> ''db'']\<rparr>"

definition ex_db_pod :: AgentEndpoint where
  "ex_db_pod = new_endpoint ex_pod_env ex_db_request [10, 0, 0, 3] ex_db_id 7"

definition ex_two_pods :: Server where
  "ex_two_pods = ex_started\<lparr>s_IPAlloc := ex_net 5 143, s_IDAlloc := Policy_Compiler.ex_alloc,
     s_Endpoints := [''ns/web-0'' \<mapsto> ex_pod ''0123456789ab'' [10, 0, 0, 2], ''ns/db-0'' \<mapsto> ex_db_pod]\<rparr>"

definition ex_conf :: Maps where
  "ex_conf = fresh_maps\<lparr>m_config := [CONFIG_KEY_NODE_IP \<mapsto> 3232235521, CONFIG_KEY_DEFAULT_DENY \<mapsto> 1]\<rparr>"

lemma AddPod_result:
  assumes "validateAddPodRequest req = None" "Allocator_Allocate (pn_write pe) (s_IPAlloc s) (s_StateDir s) = (Inr podIP, ipa, s_StateDir s)"
    and "AllocateIdentity (pod_identity_labels pe req) (s_IDAlloc s) = Some (ident, ida)" "Allocator_Gateway ipa = Some gw"
    and "pn_setup pe = Some ifindex" "pn_policy pe = None"
  shows "\<exists>resp. AddPod pe req s m = Some (Inr resp, s\<lparr>s_IPAlloc := ipa, s_IDAlloc := ida,
      s_Endpoints := (s_Endpoints s)(pod_key (ap_PodNamespace req) (ap_PodName req) \<mapsto> new_endpoint pe req podIP ident ifindex)\<rparr>,
      push_endpoint pe (new_endpoint pe req podIP ident ifindex) s m)"
  using assms by (simp add: AddPod_def Recompile_def Let_def new_endpoint_def push_endpoint_def)

lemma ex_two_pods_run: "\<exists>m. agent_step\<^sup>*\<^sup>* (ex_started, ex_conf) (ex_two_pods, m) \<and> m_policies m = Map.empty"
proof -
  let ?s1 = "ex_after 4 135 1 (ex_pod ''0123456789ab'' [10, 0, 0, 2])"
  have env: "pn_setup ex_pod_env = Some 7" "pn_policy ex_pod_env = None" by (simp_all add: ex_pod_env_def)
  have free: "m h = None \<Longrightarrow> probe m c h = Some h" for m c h by (subst probe.simps) simp
  have st: "s_IPAlloc ex_started = ex_net 3 131" "s_IDAlloc ex_started = id_NewAllocator" "s_Endpoints ex_started = Map.empty"
    by (simp_all add: ex_started_def ex_server_def)
  obtain g1 g2 where gw: "Allocator_Gateway (ex_net 4 135) = Some g1" "Allocator_Gateway (ex_net 5 143) = Some g2"
    using ex_net_Gateway by metis
  have ids: "AllocateIdentity ex_db (ex_ids 1) = Some (ex_db_id, Policy_Compiler.ex_alloc)"
    by (simp add: AllocateIdentity_def ex_canonical_labels hashCanonical_def ex_hash_db free bump_def Let_def ex_ids_def
        ex_alloc_def ex_id_facts)
  have req: "validateAddPodRequest ex_db_request = None" "pod_identity_labels ex_pod_env ex_db_request = ex_db"
    by (auto simp: validateAddPodRequest_def ex_db_request_def ex_request_def pod_identity_labels_def ex_pod_env_def ex_db_def)
  obtain r1 m1 where one: "AddPod ex_pod_env (ex_request ''0123456789ab'') ex_started ex_conf = Some (r1, ?s1, m1)" "m_policies m1 = Map.empty"
    using AddPod_result [OF ex_request_facts(1) _ _ gw(1) env, of "''0123456789ab''" ex_started "[10, 0, 0, 2]" ex_web_id "ex_ids 1" ex_conf]
      ex_net_Allocate(1) ex_ids_Allocate(1) ex_request_facts(2) st push_endpoint_frame(2)
    by (auto simp: ex_after_def ex_pod_def pod_key_def ex_request_def ex_conf_def fresh_maps_def)
  obtain r2 m2 where two: "AddPod ex_pod_env ex_db_request ?s1 m1 = Some (r2, ex_two_pods, m2)" "m_policies m2 = m_policies m1"
    using AddPod_result [OF req(1) _ _ gw(2) env, of ?s1 "[10, 0, 0, 3]" ex_db_id "Policy_Compiler.ex_alloc" m1]
      ex_net_Allocate(2) ids req(2) push_endpoint_frame(2)
    by (auto simp: ex_after_def ex_two_pods_def ex_db_pod_def pod_key_def ex_db_request_def ex_request_def)
  have "agent_step\<^sup>*\<^sup>* (ex_started, ex_conf) (ex_two_pods, m2)"
    using step_add [OF one(1)] step_add [OF two(1)] by (meson rtranclp.simps)
  then show ?thesis using one(2) two(2) by auto
qed

end
