(* ===== verification/FRR_Client.thy ===== *)
theory FRR_Client
  imports GoNet
begin

text \<open>
  The client of the FRR routing daemons (\<open>internal/routing/frr\<close>). Every operation checks its
  parameters, composes a batch of configuration commands and hands the batch to \<open>vtysh\<close>, which reads
  it as text from its standard input. The state of the client is the cached local AS number, together
  with the texts written to \<open>vtysh\<close> so far. The program \<open>vtysh\<close> is outside the repository: it is a
  parameter \<open>vt\<close> that answers, after a history of inputs, the next input with the text it prints, or
  with \<^const>\<open>None\<close> when running it fails (a failed start, an exit status or the timeout).

  The lemmas show that whatever the parameters are, the text written to \<open>vtysh\<close> consists of exactly the
  command lines composed by the client, each of which begins with one of the client's verbs: an intent
  can never smuggle in a configuration line of its own.
\<close>

section \<open>Early returns\<close>

text \<open>A call that may fail with an error, and the three ways the code composes such calls: a check
  before the call, one call after another, and a loop that returns at the first error.\<close>

type_synonym ('e, 's) call = "'s \<Rightarrow> 'e option \<times> 's"

definition checked :: "'e option \<Rightarrow> ('e, 's) call \<Rightarrow> ('e, 's) call" where
  "checked e k s = (case e of Some x \<Rightarrow> (Some x, s) | None \<Rightarrow> k s)"

definition and_then :: "('e, 's) call \<Rightarrow> ('e, 's) call \<Rightarrow> ('e, 's) call" where
  "and_then f g s = (case f s of (Some e, s') \<Rightarrow> (Some e, s') | (None, s') \<Rightarrow> g s')"

primrec each_call :: "('a \<Rightarrow> ('e, 's) call) \<Rightarrow> 'a list \<Rightarrow> ('e, 's) call" where
  "each_call f [] s = (None, s)"
| "each_call f (x # xs) s = and_then (f x) (each_call f xs) s"

section \<open>Checking parameters\<close>

datatype FrrErr =
    ErrInvalidVTYParam
  | ErrInvalidIPAddress
  | ErrBGPNotConfigured
  | ErrUnrecognizedAFI
  | ErrVtyshConfigError
  | ErrVtyshFailed

text \<open>\<open>unicode.IsControl\<close> over the runes of a string, on its UTF-8 bytes: the control characters are
  the bytes below 32, the byte 127, and the runes 128 to 159, which are encoded as the byte 194
  followed by the byte of that value. The byte 194 only ever starts a rune.\<close>

definition ctl_byte :: "char \<Rightarrow> bool" where
  "ctl_byte c \<longleftrightarrow> of_char c < (32 :: nat) \<or> of_char c = (127 :: nat)"

fun has_control :: "string \<Rightarrow> bool" where
  "has_control [] \<longleftrightarrow> False"
| "has_control [c] \<longleftrightarrow> ctl_byte c"
| "has_control (c # d # s) \<longleftrightarrow>
     ctl_byte c \<or> of_char c = (194 :: nat) \<and> 128 \<le> (of_char d :: nat) \<and> of_char d \<le> (159 :: nat) \<or>
     has_control (d # s)"

definition sanitizeVTYParam :: "string \<Rightarrow> FrrErr option" where
  "sanitizeVTYParam s = (if has_control s then Some ErrInvalidVTYParam else None)"

definition validateIPAddress :: "string \<Rightarrow> FrrErr option" where
  "validateIPAddress addr = (if ParseIP addr = None then Some ErrInvalidIPAddress else None)"

definition resolveAFICLI :: "string \<Rightarrow> FrrErr + string" where
  "resolveAFICLI afi =
     (if afi = ''ipv4-unicast'' \<or> afi = ''ipv4'' then Inr ''ipv4 unicast''
      else if afi = ''ipv6-unicast'' \<or> afi = ''ipv6'' then Inr ''ipv6 unicast''
      else Inl ErrUnrecognizedAFI)"

section \<open>Running a batch\<close>

type_synonym Vtysh = "string list \<Rightarrow> string \<Rightarrow> string option"

record Client =
  cl_localAS :: u32
  cl_sent :: "string list"

text \<open>A new client; the paths of \<open>vtysh\<close> and of the sockets and the timeout belong to the parameter.\<close>

definition NewClient :: Client where
  "NewClient = \<lparr>cl_localAS = 0, cl_sent = []\<rparr>"

definition newline :: char where
  "newline = CHR 0x0A"

fun str_contains :: "string \<Rightarrow> string \<Rightarrow> bool" where
  "str_contains p [] \<longleftrightarrow> p = []"
| "str_contains p (c # s) \<longleftrightarrow> take (length p) (c # s) = p \<or> str_contains p s"

definition vtysh_input :: "string list \<Rightarrow> string" where
  "vtysh_input commands =
     str_join [newline] (''configure terminal'' # commands @ [''end'']) @ [newline]"

definition vtysh_complains :: "string \<Rightarrow> bool" where
  "vtysh_complains out \<longleftrightarrow>
     list_ex (\<lambda>m. str_contains m out)
       [''% '', ''error reading from'', ''is not running'', ''Command incomplete'', ''connection refused'',
        ''vtysh: error'']"

definition runConfig :: "Vtysh \<Rightarrow> string list \<Rightarrow> (FrrErr, Client) call" where
  "runConfig vt commands c =
     (let input = vtysh_input commands;
          c' = c\<lparr>cl_sent := cl_sent c @ [input]\<rparr>
      in case vt (cl_sent c) input of
           None \<Rightarrow> (Some ErrVtyshFailed, c')
         | Some out \<Rightarrow> (if vtysh_complains out then Some ErrVtyshConfigError else None, c'))"

text \<open>\<open>sanitizeCommand\<close> redacts a command for the log. \<open>str_before\<close> is the part of a text before the
  first occurrence of a pattern.\<close>

fun str_before :: "string \<Rightarrow> string \<Rightarrow> string" where
  "str_before p [] = []"
| "str_before p (c # s) = (if take (length p) (c # s) = p then [] else c # str_before p s)"

definition sanitizeCommand :: "string \<Rightarrow> string" where
  "sanitizeCommand cmd =
     (if str_contains '' password '' cmd then str_before '' password '' cmd @ '' password ***'' else cmd)"

section \<open>BGP\<close>

record NeighborConfig =
  nc_SourceAddress :: string
  nc_EBGPMultihop :: u32
  nc_Password :: string
  nc_Description :: string

abbreviation num :: "u32 \<Rightarrow> string" where
  "num n \<equiv> dec_str (unat n)"

definition bgpGracefulRestartCommands :: "string list" where
  "bgpGracefulRestartCommands =
     [''bgp graceful-restart'',
      ''bgp graceful-restart restart-time 120'',
      ''bgp graceful-restart stalepath-time 360'']"

definition bgp_global_commands :: "u32 \<Rightarrow> string \<Rightarrow> string list" where
  "bgp_global_commands localAS routerID =
     [''router bgp '' @ num localAS,
      ''bgp router-id '' @ routerID,
      ''no bgp ebgp-requires-policy''] @ bgpGracefulRestartCommands"

definition ConfigureBGPGlobal :: "Vtysh \<Rightarrow> u32 \<Rightarrow> string \<Rightarrow> (FrrErr, Client) call" where
  "ConfigureBGPGlobal vt localAS routerID =
     checked (sanitizeVTYParam routerID)
       (and_then (runConfig vt (bgp_global_commands localAS routerID))
          (\<lambda>c. (None, c\<lparr>cl_localAS := localAS\<rparr>)))"

definition ReconfigureBGPGlobal :: "Vtysh \<Rightarrow> u32 \<Rightarrow> u32 \<Rightarrow> string \<Rightarrow> (FrrErr, Client) call" where
  "ReconfigureBGPGlobal vt oldAS newAS routerID =
     checked (sanitizeVTYParam routerID)
       (if oldAS = newAS then runConfig vt (bgp_global_commands newAS routerID)
        else and_then
               (if oldAS \<noteq> 0 then runConfig vt [''no router bgp '' @ num oldAS] else Pair None)
               (ConfigureBGPGlobal vt newAS routerID))"

definition AddNeighbor_check :: "string \<Rightarrow> NeighborConfig option \<Rightarrow> FrrErr option" where
  "AddNeighbor_check addr cfg =
     (if validateIPAddress addr \<noteq> None then validateIPAddress addr
      else case cfg of
             None \<Rightarrow> None
           | Some n \<Rightarrow>
               if nc_Description n \<noteq> [] \<and> sanitizeVTYParam (nc_Description n) \<noteq> None
               then sanitizeVTYParam (nc_Description n)
               else if nc_Password n \<noteq> [] \<and> sanitizeVTYParam (nc_Password n) \<noteq> None
               then sanitizeVTYParam (nc_Password n)
               else if nc_SourceAddress n \<noteq> [] then validateIPAddress (nc_SourceAddress n)
               else None)"

definition AddNeighbor_commands ::
    "u32 \<Rightarrow> string \<Rightarrow> u32 \<Rightarrow> u32 \<Rightarrow> u32 \<Rightarrow> NeighborConfig option \<Rightarrow> string list" where
  "AddNeighbor_commands localAS addr remoteAS keepalive holdTime cfg =
     [''router bgp '' @ num localAS, ''neighbor '' @ addr @ '' remote-as '' @ num remoteAS] @
     (if keepalive > 0 \<and> holdTime > 0
      then [''neighbor '' @ addr @ '' timers '' @ num keepalive @ '' '' @ num holdTime] else []) @
     (case cfg of
        None \<Rightarrow> []
      | Some n \<Rightarrow>
          (if nc_Description n \<noteq> [] then [''neighbor '' @ addr @ '' description '' @ nc_Description n] else []) @
          (if nc_SourceAddress n \<noteq> []
           then [''neighbor '' @ addr @ '' update-source '' @ nc_SourceAddress n] else []) @
          (if nc_EBGPMultihop n > 0
           then [''neighbor '' @ addr @ '' ebgp-multihop '' @ num (nc_EBGPMultihop n)] else []) @
          (if nc_Password n \<noteq> [] then [''neighbor '' @ addr @ '' password '' @ nc_Password n] else []))"

text \<open>The peer type of \<open>AddNeighbor\<close> is only logged and is left out.\<close>

definition AddNeighbor ::
    "Vtysh \<Rightarrow> string \<Rightarrow> u32 \<Rightarrow> u32 \<Rightarrow> u32 \<Rightarrow> NeighborConfig option \<Rightarrow> (FrrErr, Client) call" where
  "AddNeighbor vt addr remoteAS keepalive holdTime cfg =
     checked (AddNeighbor_check addr cfg)
       (\<lambda>c. if cl_localAS c = 0 then (Some ErrBGPNotConfigured, c)
            else runConfig vt (AddNeighbor_commands (cl_localAS c) addr remoteAS keepalive holdTime cfg) c)"

definition RemoveNeighbor :: "Vtysh \<Rightarrow> string \<Rightarrow> (FrrErr, Client) call" where
  "RemoveNeighbor vt addr =
     checked (validateIPAddress addr)
       (\<lambda>c. runConfig vt [''router bgp '' @ num (cl_localAS c), ''no neighbor '' @ addr] c)"

text \<open>The commands of one address family of the BGP instance.\<close>

definition in_family :: "Vtysh \<Rightarrow> string \<Rightarrow> string list \<Rightarrow> (FrrErr, Client) call" where
  "in_family vt afi cmds c =
     (case resolveAFICLI afi of
        Inl e \<Rightarrow> (Some e, c)
      | Inr afiName \<Rightarrow>
          runConfig vt ([''router bgp '' @ num (cl_localAS c), ''address-family '' @ afiName] @ cmds @
                        [''exit-address-family'']) c)"

definition ActivateNeighborAFI :: "Vtysh \<Rightarrow> string \<Rightarrow> string \<Rightarrow> (FrrErr, Client) call" where
  "ActivateNeighborAFI vt addr afi =
     checked (validateIPAddress addr)
       (in_family vt afi
          [''neighbor '' @ addr @ '' activate'', ''neighbor '' @ addr @ '' soft-reconfiguration inbound''])"

definition AdvertiseNetwork :: "Vtysh \<Rightarrow> string \<Rightarrow> string \<Rightarrow> (FrrErr, Client) call" where
  "AdvertiseNetwork vt prefix afi =
     checked (sanitizeVTYParam prefix) (in_family vt afi [''network '' @ prefix])"

definition WithdrawNetwork :: "Vtysh \<Rightarrow> string \<Rightarrow> string \<Rightarrow> (FrrErr, Client) call" where
  "WithdrawNetwork vt prefix afi =
     checked (sanitizeVTYParam prefix) (in_family vt afi [''no network '' @ prefix])"

definition SetNeighborMaxPrefix :: "Vtysh \<Rightarrow> string \<Rightarrow> u32 \<Rightarrow> bool \<Rightarrow> string \<Rightarrow> (FrrErr, Client) call" where
  "SetNeighborMaxPrefix vt addr maxPrefixes warningOnly afi =
     checked (validateIPAddress addr)
       (in_family vt afi
          [''neighbor '' @ addr @ '' maximum-prefix '' @ num maxPrefixes @
           (if warningOnly then '' warning-only'' else [])])"

definition ConfigureRouteMap :: "Vtysh \<Rightarrow> string \<Rightarrow> string list \<Rightarrow> (FrrErr, Client) call" where
  "ConfigureRouteMap vt name setCmds =
     checked (sanitizeVTYParam name)
       (checked (if list_ex (\<lambda>cmd. sanitizeVTYParam cmd \<noteq> None) setCmds then Some ErrInvalidVTYParam else None)
          (runConfig vt ([''no route-map '' @ name, ''route-map '' @ name @ '' permit 10''] @ setCmds @ [''exit''])))"

definition AdvertiseNetworkWithRouteMap ::
    "Vtysh \<Rightarrow> string \<Rightarrow> string \<Rightarrow> string \<Rightarrow> (FrrErr, Client) call" where
  "AdvertiseNetworkWithRouteMap vt prefix afi routeMap =
     checked (sanitizeVTYParam prefix)
       (checked (sanitizeVTYParam routeMap)
          (in_family vt afi [''network '' @ prefix @ '' route-map '' @ routeMap]))"

definition RemoveRouteMap :: "Vtysh \<Rightarrow> string \<Rightarrow> (FrrErr, Client) call" where
  "RemoveRouteMap vt name =
     checked (sanitizeVTYParam name) (runConfig vt [''no route-map '' @ name])"

definition SetNeighborBFD :: "Vtysh \<Rightarrow> string \<Rightarrow> bool \<Rightarrow> (FrrErr, Client) call" where
  "SetNeighborBFD vt addr enabled =
     checked (validateIPAddress addr)
       (\<lambda>c. runConfig vt
          [''router bgp '' @ num (cl_localAS c),
           (if enabled then ''neighbor '' else ''no neighbor '') @ addr @ '' bfd''] c)"

section \<open>BFD\<close>

definition bfd_peer :: "string \<Rightarrow> string \<Rightarrow> string" where
  "bfd_peer peerAddr iface =
     ''peer '' @ peerAddr @ (if iface \<noteq> [] then '' interface '' @ iface else [])"

definition bfd_check :: "string \<Rightarrow> string \<Rightarrow> FrrErr option" where
  "bfd_check peerAddr iface =
     (if validateIPAddress peerAddr \<noteq> None then validateIPAddress peerAddr
      else if iface \<noteq> [] then sanitizeVTYParam iface
      else None)"

definition AddBFDPeer ::
    "Vtysh \<Rightarrow> string \<Rightarrow> u32 \<Rightarrow> u32 \<Rightarrow> u32 \<Rightarrow> string \<Rightarrow> (FrrErr, Client) call" where
  "AddBFDPeer vt peerAddr minRx minTx detectMult iface =
     checked (bfd_check peerAddr iface)
       (runConfig vt
          ([''bfd'', bfd_peer peerAddr iface] @
           (if minRx > 0 then [''receive-interval '' @ num minRx] else []) @
           (if minTx > 0 then [''transmit-interval '' @ num minTx] else []) @
           (if detectMult > 0 then [''detect-multiplier '' @ num detectMult] else []) @
           [''exit'', ''exit'']))"

definition RemoveBFDPeer :: "Vtysh \<Rightarrow> string \<Rightarrow> string \<Rightarrow> (FrrErr, Client) call" where
  "RemoveBFDPeer vt peerAddr iface =
     checked (bfd_check peerAddr iface)
       (runConfig vt [''bfd'', ''no '' @ bfd_peer peerAddr iface, ''exit''])"

section \<open>OSPF\<close>

definition EnableOSPFInterface ::
    "Vtysh \<Rightarrow> string \<Rightarrow> string \<Rightarrow> bool \<Rightarrow> u32 \<Rightarrow> u32 \<Rightarrow> u32 \<Rightarrow> (FrrErr, Client) call" where
  "EnableOSPFInterface vt ifaceName areaID passive cost hello dead =
     checked (sanitizeVTYParam ifaceName)
       (checked (sanitizeVTYParam areaID)
          (runConfig vt
             ([''interface '' @ ifaceName, ''ip ospf area '' @ areaID] @
              (if cost > 0 then [''ip ospf cost '' @ num cost] else []) @
              (if hello > 0 then [''ip ospf hello-interval '' @ num hello] else []) @
              (if dead > 0 then [''ip ospf dead-interval '' @ num dead] else []) @
              [''exit''] @
              (if passive then [''router ospf'', ''passive-interface '' @ ifaceName] else []))))"

definition EnableOSPFv3Interface ::
    "Vtysh \<Rightarrow> string \<Rightarrow> string \<Rightarrow> bool \<Rightarrow> u32 \<Rightarrow> (FrrErr, Client) call" where
  "EnableOSPFv3Interface vt ifaceName areaID passive cost =
     checked (sanitizeVTYParam ifaceName)
       (checked (sanitizeVTYParam areaID)
          (runConfig vt
             ([''interface '' @ ifaceName, ''ipv6 ospf6 area '' @ areaID] @
              (if cost > 0 then [''ipv6 ospf6 cost '' @ num cost] else []) @
              [''exit''] @
              (if passive then [''router ospf6'', ''passive-interface '' @ ifaceName] else []))))"

definition DisableOSPFv3Interface :: "Vtysh \<Rightarrow> string \<Rightarrow> string \<Rightarrow> bool \<Rightarrow> (FrrErr, Client) call" where
  "DisableOSPFv3Interface vt ifaceName areaID passive =
     checked (sanitizeVTYParam ifaceName)
       (checked (sanitizeVTYParam areaID)
          (runConfig vt
             ([''interface '' @ ifaceName, ''no ipv6 ospf6 area '' @ areaID, ''exit''] @
              (if passive then [''router ospf6'', ''no passive-interface '' @ ifaceName] else []))))"

definition DisableOSPFInterface :: "Vtysh \<Rightarrow> string \<Rightarrow> string \<Rightarrow> bool \<Rightarrow> (FrrErr, Client) call" where
  "DisableOSPFInterface vt ifaceName areaID passive =
     checked (sanitizeVTYParam ifaceName)
       (checked (sanitizeVTYParam areaID)
          (runConfig vt
             ([''interface '' @ ifaceName, ''no ip ospf area '' @ areaID, ''exit''] @
              (if passive then [''router ospf'', ''no passive-interface '' @ ifaceName] else []))))"

lemmas frr_ops =
  ReconfigureBGPGlobal_def ConfigureBGPGlobal_def AddNeighbor_def RemoveNeighbor_def
  ActivateNeighborAFI_def AdvertiseNetwork_def WithdrawNetwork_def SetNeighborMaxPrefix_def
  ConfigureRouteMap_def AdvertiseNetworkWithRouteMap_def RemoveRouteMap_def SetNeighborBFD_def
  AddBFDPeer_def RemoveBFDPeer_def EnableOSPFInterface_def EnableOSPFv3Interface_def
  DisableOSPFv3Interface_def DisableOSPFInterface_def

section \<open>Texts without control characters\<close>

definition plain :: "string \<Rightarrow> bool" where
  "plain s \<longleftrightarrow> (\<forall>c \<in> set s. \<not> ctl_byte c)"

lemma plain_Nil [simp]: "plain []"
  by (simp add: plain_def)

lemma plain_Cons [simp]: "plain (c # s) \<longleftrightarrow> \<not> ctl_byte c \<and> plain s"
  by (auto simp: plain_def)

lemma plain_append [simp]: "plain (s @ t) \<longleftrightarrow> plain s \<and> plain t"
  by (auto simp: plain_def)

lemma has_control_plain: "\<not> has_control s \<Longrightarrow> plain s"
  by (induction s rule: has_control.induct) auto

lemma sanitizeVTYParam_plain: "sanitizeVTYParam s = None \<Longrightarrow> plain s"
  using has_control_plain by (simp add: sanitizeVTYParam_def split: if_splits)

lemma ctl_byte_lits [simp]: "ctl_byte (Char b0 b1 b2 b3 b4 b5 b6 b7) \<longleftrightarrow>
    (\<not> b5 \<and> \<not> b6 \<and> \<not> b7) \<or> (b0 \<and> b1 \<and> b2 \<and> b3 \<and> b4 \<and> b5 \<and> b6 \<and> \<not> b7)"
  by (cases b0; cases b1; cases b2; cases b3; cases b4; cases b5; cases b6; cases b7)
     (simp_all add: ctl_byte_def)

lemma newline_ctl: "ctl_byte newline"
  by (simp add: newline_def)

lemma hex_val_plain: "hex_val c \<noteq> None \<Longrightarrow> \<not> ctl_byte c"
  by (auto simp: hex_val_def ctl_byte_def Let_def split: if_splits)

text \<open>An address text consists of hexadecimal digits, dots and colons.\<close>

definition addr_text :: "string \<Rightarrow> bool" where
  "addr_text s \<longleftrightarrow> (\<forall>c \<in> set s. hex_val c \<noteq> None \<or> c = CHR ''.'' \<or> c = CHR '':'')"

lemma addr_text_simps [simp]:
  "addr_text []"
  "addr_text (c # s) \<longleftrightarrow> (hex_val c \<noteq> None \<or> c = CHR ''.'' \<or> c = CHR '':'') \<and> addr_text s"
  "addr_text (s @ t) \<longleftrightarrow> addr_text s \<and> addr_text t"
  by (auto simp: addr_text_def)

lemma dec_val_hex: "dec_val c \<noteq> None \<Longrightarrow> hex_val c \<noteq> None"
  by (auto simp: dec_val_def hex_val_def Let_def split: if_splits)

lemma addr_text_plain: "addr_text s \<Longrightarrow> plain s"
  using hex_val_plain by (force simp: addr_text_def plain_def)

lemma addr_text_no_space: "addr_text s \<Longrightarrow> CHR '' '' \<notin> set s"
  by (auto simp: addr_text_def hex_val_def)

lemma parseIPv4Fields_text: "parseIPv4Fields prev v n fs s = Some r \<Longrightarrow> addr_text s"
proof (induction s arbitrary: prev v n fs)
  case (Cons c s)
  show ?case
  proof (cases "dec_val c")
    case None
    with Cons show ?thesis by (auto split: if_splits)
  next
    case (Some d)
    with Cons dec_val_hex [of c] show ?thesis by (auto split: if_splits)
  qed
qed simp

lemma hex_scan_text: "hex_scan off acc s = Some (off', acc', r) \<Longrightarrow> \<exists>t. s = t @ r \<and> addr_text t"
proof (induction s arbitrary: off acc)
  case (Cons c s)
  show ?case
  proof (cases "hex_val c")
    case None
    with Cons show ?thesis by (auto intro: exI [of _ "[]"])
  next
    case (Some d)
    with Cons.prems have "hex_scan (Suc off) (acc * 16 + d) s = Some (off', acc', r)" by (simp split: if_splits)
    then obtain t where "s = t @ r" "addr_text t" using Cons.IH by blast
    moreover have "hex_val c \<noteq> None" using Some by simp
    ultimately show ?thesis by (intro exI [of _ "c # t"]) simp
  qed
qed auto

lemma parseIPv6_loop_text:
  "parseIPv6_loop s ell ip = Some (r, ell', ip') \<Longrightarrow> \<exists>t. s = t @ r \<and> addr_text t"
proof (induction s ell ip rule: parseIPv6_loop.induct)
  case (1 s ell ip)
  show ?case
  proof (cases "length ip < 16")
    case False
    with "1.prems" show ?thesis by (auto simp: parseIPv6_loop.simps [of s] intro: exI [of _ "[]"])
  next
    case True
    then obtain off acc u where h: "hex_scan 0 0 s = Some (off, acc, u)" and off: "off \<noteq> 0"
      using "1.prems" by (auto simp: parseIPv6_loop.simps [of s] split: option.splits if_splits)
    obtain t where s: "s = t @ u" "addr_text t" using hex_scan_text [OF h] by blast
    show ?thesis
    proof (cases "u \<noteq> [] \<and> hd u = CHR ''.''")
      case True
      with "1.prems" \<open>length ip < 16\<close> h off obtain f where "parseIPv4Fields None 0 0 [] s = Some f" "r = []"
        by (auto simp: parseIPv6_loop.simps [of s] split: option.splits if_splits)
      then show ?thesis using parseIPv4Fields_text by auto
    next
      case dot: False
      show ?thesis
      proof (cases u)
        case Nil
        with "1.prems" \<open>length ip < 16\<close> h off have "r = []"
          by (auto simp: parseIPv6_loop.simps [of s] Let_def)
        with s Nil show ?thesis by simp
      next
        case (Cons c w)
        with "1.prems" \<open>length ip < 16\<close> h off dot have c: "c = CHR '':''" "w \<noteq> []"
          by (auto simp: parseIPv6_loop.simps [of s] Let_def split: if_splits)
        let ?ip = "ip @ [of_nat (acc div 256), of_nat (acc mod 256)]"
        show ?thesis
        proof (cases "hd w = CHR '':''")
          case True
          then obtain x where w: "w = CHR '':'' # x" using c(2) by (cases w) auto
          have "\<exists>t. x = t @ r \<and> addr_text t"
          proof (cases "x = []")
            case True
            with "1.prems" \<open>length ip < 16\<close> h off dot Cons c w show ?thesis
              by (auto simp: parseIPv6_loop.simps [of s] Let_def split: if_splits)
          next
            case False
            with "1.prems" \<open>length ip < 16\<close> h off dot Cons c w have "parseIPv6_loop x (Some (length ?ip)) ?ip = Some (r, ell', ip')"
              "ell = None" by (auto simp: parseIPv6_loop.simps [of s] Let_def split: if_splits)
            with "1.IH"(1) [OF \<open>length ip < 16\<close> h refl refl off dot refl Cons] c w False show ?thesis by simp
          qed
          then obtain t' where "x = t' @ r" "addr_text t'" by blast
          with s Cons c w show ?thesis by (intro exI [of _ "t @ c # CHR '':'' # t'"]) simp
        next
          case False
          with "1.prems" \<open>length ip < 16\<close> h off dot Cons c have "parseIPv6_loop w ell ?ip = Some (r, ell', ip')"
            by (auto simp: parseIPv6_loop.simps [of s] Let_def split: if_splits)
          with "1.IH"(2) [OF \<open>length ip < 16\<close> h refl refl off dot refl Cons] c False obtain t'
            where "w = t' @ r" "addr_text t'" by auto
          with s Cons c show ?thesis by (intro exI [of _ "t @ c # t'"]) simp
        qed
      qed
    qed
  qed
qed

lemma parseIPv6_body_text: "parseIPv6_body s = Some ip \<Longrightarrow> addr_text s"
proof -
  have loop: "addr_text t" if b: "Option.bind (parseIPv6_loop t ell []) expand_ellipsis = Some ip" for t ell
  proof -
    obtain r ell' ip' where l: "parseIPv6_loop t ell [] = Some (r, ell', ip')" and e: "expand_ellipsis (r, ell', ip') = Some ip"
      using b by (auto simp: bind_eq_Some_conv)
    from e have "r = []" by (auto simp: expand_ellipsis_def split: if_splits)
    with parseIPv6_loop_text [OF l] show ?thesis by simp
  qed
  assume body: "parseIPv6_body s = Some ip"
  show "addr_text s"
  proof (cases "take 2 s = ''::''")
    case True
    then obtain t where s: "s = ''::'' @ t" by (metis append_take_drop_id)
    with body loop [of t "Some 0"] show ?thesis by (cases t) (auto simp: parseIPv6_body_def)
  next
    case False
    with body loop [of s None] show ?thesis by (simp add: parseIPv6_body_def)
  qed
qed

lemma ParseIP_text: "ParseIP s = Some ip \<Longrightarrow> addr_text s"
proof -
  have "ParseAddr_scan s t = Some a \<Longrightarrow> Addr_Zone a = [] \<Longrightarrow> addr_text s" for t a
    by (induction t)
       (auto simp: parseIPv6_def Let_def parseIPv6_body_text split: if_splits dest: parseIPv4Fields_text)
  then show "ParseIP s = Some ip \<Longrightarrow> addr_text s"
    by (auto simp: ParseIP_def ParseAddr_def split: option.splits if_splits)
qed

lemma validateIPAddress_plain: "validateIPAddress s = None \<Longrightarrow> plain s"
  using ParseIP_text addr_text_plain by (auto simp: validateIPAddress_def split: if_splits)

lemma dec_str_plain [simp]: "plain (dec_str n)"
proof -
  have "\<not> ctl_byte c" if cin: "c \<in> set (dec_str n)" for c
  proof -
    obtain d where "d < 10" "c = digit_char d" using base_str_digits [of 10 c n] cin by (auto simp: dec_str_def)
    then show ?thesis by (auto simp: digit_char_def ctl_byte_def)
  qed
  then show ?thesis by (auto simp: plain_def)
qed

section \<open>What vtysh reads\<close>

text \<open>The verbs of the client: every command line it composes begins with one of them.\<close>

definition verbs :: "string list" where
  "verbs =
     [''router bgp '', ''no router bgp '', ''bgp router-id '', ''no bgp ebgp-requires-policy'',
      ''bgp graceful-restart'', ''neighbor '', ''no neighbor '', ''address-family '',
      ''exit-address-family'', ''network '', ''no network '', ''route-map '', ''no route-map '', ''set '',
      ''bfd'', ''peer '', ''no peer '', ''receive-interval '', ''transmit-interval '',
      ''detect-multiplier '', ''interface '', ''ip ospf '', ''no ip ospf area '', ''ipv6 ospf6 '',
      ''no ipv6 ospf6 area '', ''router ospf'', ''passive-interface '', ''no passive-interface '', ''exit'']"

definition command_ok :: "string \<Rightarrow> bool" where
  "command_ok l \<longleftrightarrow> plain l \<and> list_ex (\<lambda>v. take (length v) l = v) verbs"

text \<open>A text that \<open>vtysh\<close> reads, line by line, as one configuration block of such commands.\<close>

definition input_ok :: "string \<Rightarrow> bool" where
  "input_ok i \<longleftrightarrow>
     (\<exists>cmds. split_on newline i = ''configure terminal'' # cmds @ [''end'', []] \<and> list_all command_ok cmds)"

definition sent_ok :: "Client \<Rightarrow> bool" where
  "sent_ok c \<longleftrightarrow> list_all input_ok (cl_sent c)"

lemma command_okI: "plain l \<Longrightarrow> v \<in> set verbs \<Longrightarrow> take (length v) l = v \<Longrightarrow> command_ok l"
  by (auto simp: command_ok_def list_ex_iff)

text \<open>A command that starts with a verb is in order when the rest of it is.\<close>

lemma command_ok_verb: "v \<in> set verbs \<Longrightarrow> command_ok (v @ x) \<longleftrightarrow> plain x"
proof -
  have "list_all plain verbs" by (simp add: verbs_def)
  then show "v \<in> set verbs \<Longrightarrow> command_ok (v @ x) \<longleftrightarrow> plain x"
    using command_okI [of "v @ x" v] by (auto simp: command_ok_def list_all_iff)
qed

lemma command_ok_verbs:
  "command_ok (''router bgp '' @ x) \<longleftrightarrow> plain x"
  "command_ok (''no router bgp '' @ x) \<longleftrightarrow> plain x"
  "command_ok (''bgp router-id '' @ x) \<longleftrightarrow> plain x"
  "command_ok (''no bgp ebgp-requires-policy'' @ x) \<longleftrightarrow> plain x"
  "command_ok (''bgp graceful-restart'' @ x) \<longleftrightarrow> plain x"
  "command_ok (''neighbor '' @ x) \<longleftrightarrow> plain x"
  "command_ok (''no neighbor '' @ x) \<longleftrightarrow> plain x"
  "command_ok (''address-family '' @ x) \<longleftrightarrow> plain x"
  "command_ok (''exit-address-family'' @ x) \<longleftrightarrow> plain x"
  "command_ok (''network '' @ x) \<longleftrightarrow> plain x"
  "command_ok (''no network '' @ x) \<longleftrightarrow> plain x"
  "command_ok (''route-map '' @ x) \<longleftrightarrow> plain x"
  "command_ok (''no route-map '' @ x) \<longleftrightarrow> plain x"
  "command_ok (''set '' @ x) \<longleftrightarrow> plain x"
  "command_ok (''bfd'' @ x) \<longleftrightarrow> plain x"
  "command_ok (''peer '' @ x) \<longleftrightarrow> plain x"
  "command_ok (''no peer '' @ x) \<longleftrightarrow> plain x"
  "command_ok (''receive-interval '' @ x) \<longleftrightarrow> plain x"
  "command_ok (''transmit-interval '' @ x) \<longleftrightarrow> plain x"
  "command_ok (''detect-multiplier '' @ x) \<longleftrightarrow> plain x"
  "command_ok (''interface '' @ x) \<longleftrightarrow> plain x"
  "command_ok (''ip ospf '' @ x) \<longleftrightarrow> plain x"
  "command_ok (''no ip ospf area '' @ x) \<longleftrightarrow> plain x"
  "command_ok (''ipv6 ospf6 '' @ x) \<longleftrightarrow> plain x"
  "command_ok (''no ipv6 ospf6 area '' @ x) \<longleftrightarrow> plain x"
  "command_ok (''router ospf'' @ x) \<longleftrightarrow> plain x"
  "command_ok (''passive-interface '' @ x) \<longleftrightarrow> plain x"
  "command_ok (''no passive-interface '' @ x) \<longleftrightarrow> plain x"
  "command_ok (''exit'' @ x) \<longleftrightarrow> plain x"
  by (rule command_ok_verb, simp add: verbs_def)+

lemmas command_oks [simp] = command_ok_verbs [unfolded append.simps]

lemma vtysh_input_lines:
  assumes "list_all plain cmds"
  shows "split_on newline (vtysh_input cmds) = ''configure terminal'' # cmds @ [''end'', []]"
proof -
  let ?ls = "''configure terminal'' # cmds @ [''end'', []]"
  have nl: "newline \<notin> set l" if "plain l" for l
    using that newline_ctl by (auto simp: plain_def)
  have pl: "plain l" if "l \<in> set ?ls" for l
    using that assms by (auto simp: list_all_iff)
  have "str_join [newline] (xs @ [x]) @ [newline] = str_join [newline] (xs @ [x, []])" for xs x
    by (induction xs rule: induct_list012) auto
  from this [of "''configure terminal'' # cmds" "''end''"]
  have "vtysh_input cmds = str_join [newline] ?ls" by (simp add: vtysh_input_def)
  then show ?thesis
    using split_on_join [of ?ls newline] nl pl by (metis list.discI)
qed

lemma command_ok_plain: "list_all command_ok cmds \<Longrightarrow> list_all plain cmds"
  by (auto simp: list_all_iff command_ok_def)

lemma input_ok_commands: "list_all command_ok cmds \<Longrightarrow> input_ok (vtysh_input cmds)"
  using vtysh_input_lines [OF command_ok_plain] by (auto simp: input_ok_def)

definition sends_ok :: "('e, Client) call \<Rightarrow> bool" where
  "sends_ok f \<longleftrightarrow> (\<forall>c. \<exists>new. cl_sent (snd (f c)) = cl_sent c @ new \<and> list_all input_ok new)"

named_theorems sends_intros \<open>calls of the client that only send its own commands\<close>

lemma sends_ok_silent: "(\<And>c. cl_sent (snd (f c)) = cl_sent c) \<Longrightarrow> sends_ok f"
  by (simp add: sends_ok_def)

lemma sends_ok_checked [sends_intros]: "(e = None \<Longrightarrow> sends_ok f) \<Longrightarrow> sends_ok (checked e f)"
  by (cases e) (auto simp: sends_ok_def checked_def)

lemma sends_ok_then [sends_intros]: "sends_ok f \<Longrightarrow> sends_ok g \<Longrightarrow> sends_ok (and_then f g)"
  unfolding sends_ok_def
proof
  fix c
  assume f: "\<forall>c. \<exists>new. cl_sent (snd (f c)) = cl_sent c @ new \<and> list_all input_ok new"
    and g: "\<forall>c. \<exists>new. cl_sent (snd (g c)) = cl_sent c @ new \<and> list_all input_ok new"
  obtain e c' where fc: "f c = (e, c')" by (cases "f c")
  obtain n where n: "cl_sent c' = cl_sent c @ n" "list_all input_ok n" using f fc by (metis snd_conv)
  obtain m where m: "cl_sent (snd (g c')) = cl_sent c' @ m" "list_all input_ok m" using g by blast
  show "\<exists>new. cl_sent (snd (and_then f g c)) = cl_sent c @ new \<and> list_all input_ok new"
  proof (cases e)
    case None
    with fc n m show ?thesis by (intro exI [of _ "n @ m"]) (simp add: and_then_def)
  next
    case (Some x)
    with fc n show ?thesis by (auto simp: and_then_def)
  qed
qed

lemma sends_ok_runConfig: "(\<And>c. list_all command_ok (cmds c)) \<Longrightarrow> sends_ok (\<lambda>c. runConfig vt (cmds c) c)"
  by (auto simp: sends_ok_def runConfig_def Let_def input_ok_commands split: option.splits)

lemma sends_ok_runConfig_const [sends_intros]: "list_all command_ok cmds \<Longrightarrow> sends_ok (runConfig vt cmds)"
  using sends_ok_runConfig [of "\<lambda>c. cmds" vt] by simp

lemma sends_ok_in_family [sends_intros]: "list_all command_ok cmds \<Longrightarrow> sends_ok (in_family vt afi cmds)"
proof (cases "resolveAFICLI afi")
  case (Inr n)
  then have n: "plain n" by (auto simp: resolveAFICLI_def split: if_splits)
  assume "list_all command_ok cmds"
  with n have "sends_ok (\<lambda>c. runConfig vt ([''router bgp '' @ num (cl_localAS c), ''address-family '' @ n] @ cmds @
      [''exit-address-family'']) c)"
    by (intro sends_ok_runConfig) simp
  with Inr show ?thesis by (simp add: sends_ok_def in_family_def)
qed (simp add: sends_ok_def in_family_def)

lemmas plain_params = sanitizeVTYParam_plain validateIPAddress_plain

lemma bgp_global_commands_ok: "sanitizeVTYParam routerID = None \<Longrightarrow> list_all command_ok (bgp_global_commands localAS routerID)"
  by (simp add: bgp_global_commands_def bgpGracefulRestartCommands_def plain_params)

lemma AddNeighbor_check_plain:
  "AddNeighbor_check addr cfg = None \<Longrightarrow>
     plain addr \<and> (\<forall>n. cfg = Some n \<longrightarrow> plain (nc_Description n) \<and> plain (nc_Password n) \<and> plain (nc_SourceAddress n))"
  using plain_params plain_Nil
  unfolding AddNeighbor_check_def by (auto split: if_splits option.splits; blast)

lemma AddNeighbor_commands_ok:
  assumes "AddNeighbor_check addr cfg = None"
  shows "list_all command_ok (AddNeighbor_commands las addr ras keep hold cfg)"
  using AddNeighbor_check_plain [OF assms]
  by (cases cfg) (simp_all add: AddNeighbor_commands_def)

lemma bfd_check_plain: "bfd_check a i = None \<Longrightarrow> plain a \<and> plain i"
  using plain_params plain_Nil unfolding bfd_check_def by (auto split: if_splits)

lemma sends_ok_bgp_global [sends_intros]:
  "sends_ok (ConfigureBGPGlobal vt localAS routerID)"
  "sends_ok (ReconfigureBGPGlobal vt oldAS newAS routerID)"
proof -
  show conf: "sends_ok (ConfigureBGPGlobal vt localAS routerID)" for localAS
    unfolding ConfigureBGPGlobal_def
    by (intro sends_intros bgp_global_commands_ok sends_ok_silent) simp_all
  have "command_ok (''no router bgp '' @ num oldAS)"
    by (rule command_okI [of _ "''no router bgp ''"]) (simp_all add: verbs_def)
  then show "sends_ok (ReconfigureBGPGlobal vt oldAS newAS routerID)"
    unfolding ReconfigureBGPGlobal_def
    using conf by (auto intro!: sends_intros bgp_global_commands_ok intro: sends_ok_silent)
qed

lemma sends_ok_neighbor [sends_intros]:
  "sends_ok (AddNeighbor vt addr remoteAS keepalive holdTime cfg)"
  "sends_ok (RemoveNeighbor vt addr)"
  "sends_ok (ActivateNeighborAFI vt addr afi)"
  "sends_ok (SetNeighborMaxPrefix vt addr m w afi)"
  "sends_ok (SetNeighborBFD vt addr enabled)"
proof -
  have "sends_ok (\<lambda>c. if cl_localAS c = 0 then (Some ErrBGPNotConfigured, c) else runConfig vt (cmds c) c)"
    if "\<And>c. list_all command_ok (cmds c)" for cmds
    using that input_ok_commands by (auto simp: sends_ok_def runConfig_def Let_def split: option.splits)
  then show "sends_ok (AddNeighbor vt addr remoteAS keepalive holdTime cfg)"
    unfolding AddNeighbor_def by (intro sends_ok_checked) (simp add: AddNeighbor_commands_ok)
  show "sends_ok (RemoveNeighbor vt addr)"
    unfolding RemoveNeighbor_def
    by (intro sends_ok_checked sends_ok_runConfig) (simp add: plain_params)
  show "sends_ok (ActivateNeighborAFI vt addr afi)"
    unfolding ActivateNeighborAFI_def
    by (intro sends_ok_checked sends_ok_in_family) (simp add: plain_params)
  show "sends_ok (SetNeighborMaxPrefix vt addr m w afi)"
    unfolding SetNeighborMaxPrefix_def
    by (intro sends_ok_checked sends_ok_in_family) (simp add: plain_params)
  show "sends_ok (SetNeighborBFD vt addr enabled)"
    unfolding SetNeighborBFD_def
    by (intro sends_ok_checked sends_ok_runConfig) (simp add: plain_params)
qed

lemma sends_ok_network [sends_intros]:
  "sends_ok (AdvertiseNetwork vt prefix afi)"
  "sends_ok (WithdrawNetwork vt prefix afi)"
  "sends_ok (AdvertiseNetworkWithRouteMap vt prefix afi routeMap)"
  "sends_ok (RemoveRouteMap vt name)"
  unfolding AdvertiseNetwork_def WithdrawNetwork_def AdvertiseNetworkWithRouteMap_def RemoveRouteMap_def
  by (intro sends_intros; simp add: plain_params)+

text \<open>The set commands of a route map are complete lines of the caller, so their verb is the caller's
  to choose: the reconciler only passes lines that begin with \<open>set\<close>.\<close>

lemma sends_ok_route_map:
  assumes "list_all (\<lambda>l. take 4 l = ''set '') setCmds"
  shows "sends_ok (ConfigureRouteMap vt name setCmds)"
proof -
  have cmd: "command_ok l" if "l \<in> set setCmds" "sanitizeVTYParam l = None" for l
    using assms that
    by (intro command_okI [of _ "''set ''"]) (auto simp: list_all_iff verbs_def plain_params numeral_eq_Suc)
  have "list_all command_ok setCmds" if "\<not> list_ex (\<lambda>cmd. sanitizeVTYParam cmd \<noteq> None) setCmds"
    using that cmd by (auto simp: list_all_iff list_ex_iff)
  then show ?thesis
    unfolding ConfigureRouteMap_def
    by (intro sends_intros) (auto simp: plain_params split: if_splits)
qed

lemma sends_ok_bfd [sends_intros]:
  "sends_ok (AddBFDPeer vt peerAddr minRx minTx detectMult iface)"
  "sends_ok (RemoveBFDPeer vt peerAddr iface)"
  unfolding AddBFDPeer_def RemoveBFDPeer_def bfd_peer_def
  by (intro sends_intros; drule bfd_check_plain; simp)+

lemma sends_ok_ospf [sends_intros]:
  "sends_ok (EnableOSPFInterface vt ifaceName areaID passive cost hello dead)"
  "sends_ok (EnableOSPFv3Interface vt ifaceName areaID passive cost)"
  "sends_ok (DisableOSPFv3Interface vt ifaceName areaID passive)"
  "sends_ok (DisableOSPFInterface vt ifaceName areaID passive)"
  unfolding EnableOSPFInterface_def EnableOSPFv3Interface_def DisableOSPFv3Interface_def DisableOSPFInterface_def
  by (intro sends_intros; simp add: plain_params)+

section \<open>Calls that succeed\<close>

text \<open>A \<open>vtysh\<close> that accepts every batch.\<close>

definition accepts :: "Vtysh \<Rightarrow> bool" where
  "accepts vt \<longleftrightarrow> (\<forall>h i. \<exists>out. vt h i = Some out \<and> \<not> vtysh_complains out)"

lemma runConfig_accepted: "accepts vt \<Longrightarrow> fst (runConfig vt cmds c) = None"
proof -
  assume "accepts vt"
  then obtain out where "vt (cl_sent c) (vtysh_input cmds) = Some out" "\<not> vtysh_complains out"
    unfolding accepts_def by blast
  then show ?thesis by (simp add: runConfig_def)
qed

lemma runConfig_localAS [simp]: "cl_localAS (snd (runConfig vt cmds c)) = cl_localAS c"
  by (simp add: runConfig_def Let_def split: option.split)

lemma fst_checked: "fst (checked e f c) = (case e of None \<Rightarrow> fst (f c) | Some x \<Rightarrow> Some x)"
  by (simp add: checked_def split: option.split)

lemma snd_checked: "snd (checked e f c) = (case e of None \<Rightarrow> snd (f c) | Some x \<Rightarrow> c)"
  by (simp add: checked_def split: option.split)

lemma in_family_accepted:
  "accepts vt \<Longrightarrow> fst (in_family vt afi cmds c) = (case resolveAFICLI afi of Inl e \<Rightarrow> Some e | Inr n \<Rightarrow> None)"
  by (simp add: in_family_def runConfig_accepted split: sum.split)

lemma in_family_localAS [simp]: "cl_localAS (snd (in_family vt afi cmds c)) = cl_localAS c"
  by (simp add: in_family_def split: sum.split)

lemma frr_localAS [simp]:
  "cl_localAS (snd (AddNeighbor vt a ras k h cfg c)) = cl_localAS c"
  "cl_localAS (snd (RemoveNeighbor vt a c)) = cl_localAS c"
  "cl_localAS (snd (ActivateNeighborAFI vt a afi c)) = cl_localAS c"
  "cl_localAS (snd (SetNeighborMaxPrefix vt a m w afi c)) = cl_localAS c"
  "cl_localAS (snd (SetNeighborBFD vt a b c)) = cl_localAS c"
  "cl_localAS (snd (AdvertiseNetwork vt p afi c)) = cl_localAS c"
  "cl_localAS (snd (WithdrawNetwork vt p afi c)) = cl_localAS c"
  "cl_localAS (snd (AdvertiseNetworkWithRouteMap vt p afi rm c)) = cl_localAS c"
  "cl_localAS (snd (RemoveRouteMap vt rm c)) = cl_localAS c"
  "cl_localAS (snd (ConfigureRouteMap vt rm sets c)) = cl_localAS c"
  "cl_localAS (snd (AddBFDPeer vt a rx tx dm i c)) = cl_localAS c"
  "cl_localAS (snd (RemoveBFDPeer vt a i c)) = cl_localAS c"
  "cl_localAS (snd (EnableOSPFInterface vt i ar pas co he de c)) = cl_localAS c"
  "cl_localAS (snd (EnableOSPFv3Interface vt i ar pas co c)) = cl_localAS c"
  "cl_localAS (snd (DisableOSPFInterface vt i ar pas c)) = cl_localAS c"
  "cl_localAS (snd (DisableOSPFv3Interface vt i ar pas c)) = cl_localAS c"
  by (auto simp: frr_ops snd_checked split: option.split)

text \<open>Redaction: the logged form of the password command does not depend on the password.\<close>

lemma str_before_append:
  "(\<And>t u. s = t @ u \<Longrightarrow> u \<noteq> [] \<Longrightarrow> take (length p) (u @ p @ r) \<noteq> p) \<Longrightarrow> p \<noteq> [] \<Longrightarrow>
     str_contains p (s @ p @ r) \<and> str_before p (s @ p @ r) = s"
proof (induction s)
  case Nil
  then show ?case by (cases p) auto
next
  case (Cons c s)
  have "take (length p) (c # s @ p @ r) \<noteq> p" using Cons.prems(1) [of "[]" "c # s"] by simp
  moreover have "take (length p) (u @ p @ r) \<noteq> p" if "s = t @ u" "u \<noteq> []" for t u
    using Cons.prems(1) [of "c # t" u] that by simp
  ultimately show ?case using Cons.IH Cons.prems(2) by simp
qed

lemma password_redacted:
  assumes "ParseIP addr \<noteq> None"
  shows "sanitizeCommand (''neighbor '' @ addr @ '' password '' @ pw) = ''neighbor '' @ addr @ '' password ***''"
proof -
  have tx: "addr_text addr" "addr \<noteq> []" using assms ParseIP_text by (auto simp: ParseIP_def ParseAddr_def)
  then have sp: "CHR '' '' \<notin> set addr" "hd addr \<noteq> CHR ''p''"
    using addr_text_no_space by (cases addr; auto simp: hex_val_def)+
  define p s where p: "p = '' password ''" and s: "s = ''neighbor '' @ addr"
  have no: "take (length p) (u @ p @ pw) \<noteq> p" if su: "s = t @ u" "u \<noteq> []" for t u
  proof
    assume eq: "take (length p) (u @ p @ pw) = p"
    then have "hd u = CHR '' ''" using su(2) by (cases u) (auto simp: p)
    then obtain v where v: "u = CHR '' '' # v" using su(2) by (cases u) auto
    have "t = ''neighbor'' \<and> v = addr"
      using su(1) sp(1) unfolding v s append_eq_append_conv2
      by (auto simp: append_eq_Cons_conv Cons_eq_append_conv)
    with eq v tx(2) sp(2) show False by (cases addr) (auto simp: p)
  qed
  then have "str_contains p (s @ p @ pw) \<and> str_before p (s @ p @ pw) = s"
    by (rule str_before_append) (auto simp: p)
  then have "sanitizeCommand (s @ p @ pw) = s @ '' password ***''"
    unfolding sanitizeCommand_def p [symmetric] by simp
  then show ?thesis by (simp add: s p)
qed

end
