(* ===== verification/Routing_Intents.thy ===== *)
theory Routing_Intents
  imports GoNet Constants
begin

text \<open>
  The routing intents (\<open>internal/routing/types\<close>, \<open>internal/routing/intent\<close>) and the policy engine that
  decides which owner may advertise what (\<open>internal/routing/policy\<close>). The store keeps, for every owner,
  four maps of intents keyed by text; pointers to intents are values here, since the getters hand out
  copies. Times are integers, and the clock of an operation is its argument \<open>now\<close>.

  A range over a map has no fixed order: an operation that ranges over one takes an argument \<open>ord\<close>, and
  \<open>ord l K\<close> is the order in which the loop named \<open>l\<close> visits a map with the keys \<open>K\<close>.

  The lemmas show that the operations of one owner never touch the intents of another, that a stored
  intent is read back until it is removed and keeps its creation time over updates, and that a prefix
  which the engine admits lies inside one of the owner's allowed networks, unless it is an IPv4 network
  written in IPv6 notation.
\<close>

section \<open>Intents\<close>

text \<open>The numbers of \<open>rtypes.Protocol\<close> and \<open>rtypes.AddressFamily\<close>.\<close>

definition ProtocolUnspecified :: int where "ProtocolUnspecified = 0"
definition ProtocolBGP :: int where "ProtocolBGP = 1"
definition ProtocolOSPF :: int where "ProtocolOSPF = 2"

lemmas protocol_defs = ProtocolUnspecified_def ProtocolBGP_def ProtocolOSPF_def

record PeerIntent =
  pi_Owner :: string
  pi_NeighborAddress :: string
  pi_RemoteAS :: u32
  pi_PeerType :: int
  pi_Keepalive :: u32
  pi_HoldTime :: u32
  pi_BFDEnabled :: bool
  pi_BFDMinRxMs :: u32
  pi_BFDMinTxMs :: u32
  pi_BFDDetectMultiplier :: u32
  pi_Description :: string
  pi_AddressFamilies :: "int list"
  pi_SourceAddress :: string
  pi_EBGPMultihop :: u32
  pi_Password :: string
  pi_MaxPrefixes :: u32
  pi_CreatedAt :: int
  pi_UpdatedAt :: int

record PrefixIntent =
  px_Owner :: string
  px_Prefix :: string
  px_Protocol :: int
  px_LocalPreference :: u32
  px_Communities :: "string list"
  px_MED :: u32
  px_NextHop :: string
  px_CreatedAt :: int
  px_UpdatedAt :: int

record BFDIntent =
  bi_Owner :: string
  bi_PeerAddress :: string
  bi_MinRxMs :: u32
  bi_MinTxMs :: u32
  bi_DetectMultiplier :: u32
  bi_InterfaceName :: string
  bi_CreatedAt :: int
  bi_UpdatedAt :: int

record OSPFIntent =
  oi_Owner :: string
  oi_InterfaceName :: string
  oi_AreaID :: string
  oi_Passive :: bool
  oi_Cost :: u32
  oi_HelloInterval :: u32
  oi_DeadInterval :: u32
  oi_IPv6 :: bool
  oi_CreatedAt :: int
  oi_UpdatedAt :: int

record OwnerIntents =
  ow_Peers :: "string \<rightharpoonup> PeerIntent"
  ow_Prefixes :: "string \<rightharpoonup> PrefixIntent"
  ow_BFD :: "string \<rightharpoonup> BFDIntent"
  ow_OSPF :: "string \<rightharpoonup> OSPFIntent"

type_synonym IntentStore = "string \<rightharpoonup> OwnerIntents"

definition newOwnerIntents :: OwnerIntents where
  "newOwnerIntents = \<lparr>ow_Peers = Map.empty, ow_Prefixes = Map.empty, ow_BFD = Map.empty, ow_OSPF = Map.empty\<rparr>"

definition peerKey :: "string \<Rightarrow> string" where
  "peerKey neighborAddr = ''peer:'' @ neighborAddr"

definition prefixKey :: "string \<Rightarrow> string \<Rightarrow> string" where
  "prefixKey protocol prefix = ''prefix:'' @ ToLower protocol @ '':'' @ prefix"

definition bfdKey :: "string \<Rightarrow> string" where
  "bfdKey peerAddr = ''bfd:'' @ peerAddr"

definition ospfKey :: "string \<Rightarrow> string" where
  "ospfKey ifaceName = ''ospf:'' @ ifaceName"

definition protocolString :: "int \<Rightarrow> string" where
  "protocolString p =
     (if p = ProtocolBGP then ''bgp'' else if p = ProtocolOSPF then ''ospf'' else ''unknown'')"

section \<open>The store\<close>

datatype IntentErr =
    ErrOwnerEmpty
  | ErrIntentNil
  | ErrNeighborAddrEmpty
  | ErrPrefixEmpty
  | ErrPeerAddrEmpty
  | ErrIfaceNameEmpty
  | ErrAreaIDEmpty
  | ErrNoIntents
  | ErrIntentNotFound
  | ErrAreaIDInvalid
  | ErrAreaIDIPv6

definition ensureOwner :: "IntentStore \<Rightarrow> string \<Rightarrow> OwnerIntents" where
  "ensureOwner st owner = (case st owner of Some oi \<Rightarrow> oi | None \<Rightarrow> newOwnerIntents)"

text \<open>\<open>setIntent\<close>, the common part of the four setters: \<open>validate\<close> judges the intent and \<open>execute\<close> puts
  it into the owner's maps.\<close>

definition setIntent ::
    "string \<Rightarrow> 'i option \<Rightarrow> ('i \<Rightarrow> IntentErr option) \<Rightarrow> ('i \<Rightarrow> OwnerIntents \<Rightarrow> OwnerIntents) \<Rightarrow>
     IntentStore \<Rightarrow> IntentErr option \<times> IntentStore" where
  "setIntent owner intent validate execute st =
     (if owner = [] then (Some ErrOwnerEmpty, st)
      else case intent of
             None \<Rightarrow> (Some ErrIntentNil, st)
           | Some i \<Rightarrow>
               (case validate i of
                  Some e \<Rightarrow> (Some e, st)
                | None \<Rightarrow> (None, st(owner \<mapsto> execute i (ensureOwner st owner)))))"

text \<open>The creation time: that of the intent that is replaced, or now.\<close>

definition created :: "('i \<Rightarrow> int) \<Rightarrow> 'i option \<Rightarrow> int \<Rightarrow> int" where
  "created at existing now = (case existing of Some e \<Rightarrow> at e | None \<Rightarrow> now)"

text \<open>The common part of the four removers: the map is read with \<open>get\<close> and written with \<open>put\<close>.\<close>

definition removeIntent ::
    "string \<Rightarrow> bool \<Rightarrow> IntentErr \<Rightarrow> string \<Rightarrow> (OwnerIntents \<Rightarrow> (string \<rightharpoonup> 'i)) \<Rightarrow>
     ((string \<rightharpoonup> 'i) \<Rightarrow> OwnerIntents \<Rightarrow> OwnerIntents) \<Rightarrow> IntentStore \<Rightarrow> IntentErr option \<times> IntentStore" where
  "removeIntent owner isEmpty emptyErr key get put st =
     (if owner = [] then (Some ErrOwnerEmpty, st)
      else if isEmpty then (Some emptyErr, st)
      else case st owner of
             None \<Rightarrow> (Some ErrNoIntents, st)
           | Some oi \<Rightarrow>
               if get oi key = None then (Some ErrIntentNotFound, st)
               else (None, st(owner \<mapsto> put (map_del (get oi) key) oi)))"

definition SetPeerIntent :: "int \<Rightarrow> string \<Rightarrow> PeerIntent option \<Rightarrow> IntentStore \<Rightarrow> IntentErr option \<times> IntentStore" where
  "SetPeerIntent now owner intent =
     setIntent owner intent
       (\<lambda>p. if pi_NeighborAddress p = [] then Some ErrNeighborAddrEmpty else None)
       (\<lambda>p oi. let key = peerKey (pi_NeighborAddress p)
               in oi\<lparr>ow_Peers := (ow_Peers oi)(key \<mapsto> p\<lparr>pi_Owner := owner,
                       pi_CreatedAt := created pi_CreatedAt (ow_Peers oi key) now, pi_UpdatedAt := now\<rparr>)\<rparr>)"

definition RemovePeerIntent :: "string \<Rightarrow> string \<Rightarrow> IntentStore \<Rightarrow> IntentErr option \<times> IntentStore" where
  "RemovePeerIntent owner neighborAddr =
     removeIntent owner (neighborAddr = []) ErrNeighborAddrEmpty (peerKey neighborAddr)
       ow_Peers (\<lambda>m oi. oi\<lparr>ow_Peers := m\<rparr>)"

definition SetPrefixIntent :: "int \<Rightarrow> string \<Rightarrow> PrefixIntent option \<Rightarrow> IntentStore \<Rightarrow> IntentErr option \<times> IntentStore" where
  "SetPrefixIntent now owner intent =
     setIntent owner intent
       (\<lambda>p. if px_Prefix p = [] then Some ErrPrefixEmpty else None)
       (\<lambda>p oi. let key = prefixKey (protocolString (px_Protocol p)) (px_Prefix p)
               in oi\<lparr>ow_Prefixes := (ow_Prefixes oi)(key \<mapsto> p\<lparr>px_Owner := owner,
                       px_CreatedAt := created px_CreatedAt (ow_Prefixes oi key) now, px_UpdatedAt := now\<rparr>)\<rparr>)"

definition RemovePrefixIntent ::
    "string \<Rightarrow> string \<Rightarrow> string \<Rightarrow> IntentStore \<Rightarrow> IntentErr option \<times> IntentStore" where
  "RemovePrefixIntent owner prefix protocol =
     removeIntent owner (prefix = []) ErrPrefixEmpty (prefixKey protocol prefix)
       ow_Prefixes (\<lambda>m oi. oi\<lparr>ow_Prefixes := m\<rparr>)"

definition SetBFDIntent :: "int \<Rightarrow> string \<Rightarrow> BFDIntent option \<Rightarrow> IntentStore \<Rightarrow> IntentErr option \<times> IntentStore" where
  "SetBFDIntent now owner intent =
     setIntent owner intent
       (\<lambda>b. if bi_PeerAddress b = [] then Some ErrPeerAddrEmpty else None)
       (\<lambda>b oi. let key = bfdKey (bi_PeerAddress b)
               in oi\<lparr>ow_BFD := (ow_BFD oi)(key \<mapsto> b\<lparr>bi_Owner := owner,
                       bi_CreatedAt := created bi_CreatedAt (ow_BFD oi key) now, bi_UpdatedAt := now\<rparr>)\<rparr>)"

definition RemoveBFDIntent :: "string \<Rightarrow> string \<Rightarrow> IntentStore \<Rightarrow> IntentErr option \<times> IntentStore" where
  "RemoveBFDIntent owner peerAddr =
     removeIntent owner (peerAddr = []) ErrPeerAddrEmpty (bfdKey peerAddr)
       ow_BFD (\<lambda>m oi. oi\<lparr>ow_BFD := m\<rparr>)"

text \<open>The range over the area identifier compares runes; a byte outside \<open>0\<close> to \<open>9\<close> is part of a rune
  outside that range.\<close>

definition validate_ospf :: "OSPFIntent \<Rightarrow> IntentErr option" where
  "validate_ospf i =
     (if oi_InterfaceName i = [] then Some ErrIfaceNameEmpty
      else if oi_AreaID i = [] then Some ErrAreaIDEmpty
      else case ParseIP (oi_AreaID i) of
             Some ip \<Rightarrow> if IP_To4 ip = None then Some ErrAreaIDIPv6 else None
           | None \<Rightarrow> if list_all (\<lambda>c. dec_val c \<noteq> None) (oi_AreaID i) then None else Some ErrAreaIDInvalid)"

definition SetOSPFIntent :: "int \<Rightarrow> string \<Rightarrow> OSPFIntent option \<Rightarrow> IntentStore \<Rightarrow> IntentErr option \<times> IntentStore" where
  "SetOSPFIntent now owner intent =
     setIntent owner intent validate_ospf
       (\<lambda>i oi. let key = ospfKey (oi_InterfaceName i)
               in oi\<lparr>ow_OSPF := (ow_OSPF oi)(key \<mapsto> i\<lparr>oi_Owner := owner,
                       oi_CreatedAt := created oi_CreatedAt (ow_OSPF oi key) now, oi_UpdatedAt := now\<rparr>)\<rparr>)"

definition RemoveOSPFIntent :: "string \<Rightarrow> string \<Rightarrow> IntentStore \<Rightarrow> IntentErr option \<times> IntentStore" where
  "RemoveOSPFIntent owner ifaceName =
     removeIntent owner (ifaceName = []) ErrIfaceNameEmpty (ospfKey ifaceName)
       ow_OSPF (\<lambda>m oi. oi\<lparr>ow_OSPF := m\<rparr>)"

definition RemoveAllByOwner :: "string \<Rightarrow> IntentStore \<Rightarrow> IntentStore" where
  "RemoveAllByOwner owner st = map_del st owner"

text \<open>The getters over all owners; a copy of an intent is the same value. The loop over the owners and
  the loop over the keys of one owner have their orders.\<close>

type_synonym Order = "string \<Rightarrow> string set \<Rightarrow> string list"

definition collect ::
    "Order \<Rightarrow> string \<Rightarrow> (OwnerIntents \<Rightarrow> (string \<rightharpoonup> 'i)) \<Rightarrow> IntentStore \<Rightarrow> 'i list" where
  "collect ord l get st =
     concat (map (\<lambda>o'. case st o' of
                    None \<Rightarrow> []
                  | Some oi \<Rightarrow> List.map_filter (get oi) (ord (l @ '' of '' @ o') (dom (get oi))))
               (ord l (dom st)))"

definition GetPeerIntents :: "Order \<Rightarrow> IntentStore \<Rightarrow> PeerIntent list" where
  "GetPeerIntents ord st = collect ord ''peers'' ow_Peers st"

definition GetPrefixIntents :: "Order \<Rightarrow> IntentStore \<Rightarrow> PrefixIntent list" where
  "GetPrefixIntents ord st = collect ord ''prefixes'' ow_Prefixes st"

definition GetBFDIntents :: "Order \<Rightarrow> IntentStore \<Rightarrow> BFDIntent list" where
  "GetBFDIntents ord st = collect ord ''bfd'' ow_BFD st"

definition GetOSPFIntents :: "Order \<Rightarrow> IntentStore \<Rightarrow> OSPFIntent list" where
  "GetOSPFIntents ord st = collect ord ''ospf'' ow_OSPF st"

definition GetOwnerPrefixes :: "Order \<Rightarrow> string \<Rightarrow> IntentStore \<Rightarrow> string list" where
  "GetOwnerPrefixes ord owner st =
     (case st owner of
        None \<Rightarrow> []
      | Some oi \<Rightarrow> List.map_filter (\<lambda>k. map_option px_Prefix (ow_Prefixes oi k)) (ord ''owner prefixes'' (dom (ow_Prefixes oi))))"

definition GetOwnerPeers :: "Order \<Rightarrow> string \<Rightarrow> IntentStore \<Rightarrow> string list" where
  "GetOwnerPeers ord owner st =
     (case st owner of
        None \<Rightarrow> []
      | Some oi \<Rightarrow> List.map_filter (\<lambda>k. map_option pi_NeighborAddress (ow_Peers oi k)) (ord ''owner peers'' (dom (ow_Peers oi))))"

section \<open>The policy engine\<close>

record OwnerConfig =
  oc_Token :: string
  oc_Type :: string
  oc_AllowedCIDRs :: "string list"

datatype PolicyErr =
    ErrUnknownOwner
  | ErrInvalidToken
  | ErrInvalidPrefix
  | ErrHostOnlyIPv4Policy
  | ErrHostOnlyIPv6Policy
  | ErrSubnetIPv4Policy
  | ErrSubnetIPv6Policy
  | ErrUnknownPrefixPolicyType
  | ErrInvalidAllowedCIDR
  | ErrPrefixNotInAllowedCIDR
  | ErrOwnershipConflict

type_synonym Owners = "string \<rightharpoonup> OwnerConfig"

definition ValidateToken :: "Owners \<Rightarrow> string \<Rightarrow> string \<Rightarrow> PolicyErr option" where
  "ValidateToken owners owner token =
     (case owners owner of
        None \<Rightarrow> Some ErrUnknownOwner
      | Some oc \<Rightarrow> if oc_Token oc \<noteq> token then Some ErrInvalidToken else None)"

fun validateAllowedCIDRs :: "IP \<Rightarrow> IPNet \<Rightarrow> string list \<Rightarrow> PolicyErr option" where
  "validateAllowedCIDRs ip ipNet [] = Some ErrPrefixNotInAllowedCIDR"
| "validateAllowedCIDRs ip ipNet (allowedCIDR # rest) =
     (case ParseCIDR allowedCIDR of
        None \<Rightarrow> Some ErrInvalidAllowedCIDR
      | Some (_, allowedNet) \<Rightarrow>
          if IPNet_Contains allowedNet ip \<and> fst (Mask_Size (net_Mask allowedNet)) \<le> fst (Mask_Size (net_Mask ipNet))
          then None
          else validateAllowedCIDRs ip ipNet rest)"

definition prefix_type_error :: "string \<Rightarrow> IP \<Rightarrow> IPNet \<Rightarrow> PolicyErr option" where
  "prefix_type_error typ ip ipNet =
     (let (ones, bits) = Mask_Size (net_Mask ipNet); isIPv4 = (IP_To4 ip \<noteq> None)
      in if ToLower typ = ''host_only'' then
           if isIPv4 \<and> ones \<noteq> 32 then Some ErrHostOnlyIPv4Policy
           else if \<not> isIPv4 \<and> ones \<noteq> 128 then Some ErrHostOnlyIPv6Policy
           else None
         else if ToLower typ = ''subnet'' then
           if isIPv4 then if ones < 8 \<or> 28 < ones then Some ErrSubnetIPv4Policy else None
           else if ones = bits then Some ErrSubnetIPv6Policy else None
         else if ToLower typ = ''any'' then None
         else Some ErrUnknownPrefixPolicyType)"

definition ValidatePrefix :: "Owners \<Rightarrow> string \<Rightarrow> string \<Rightarrow> PolicyErr option" where
  "ValidatePrefix owners owner prefix =
     (case owners owner of
        None \<Rightarrow> Some ErrUnknownOwner
      | Some oc \<Rightarrow>
          (case ParseCIDR prefix of
             None \<Rightarrow> Some ErrInvalidPrefix
           | Some (ip, ipNet) \<Rightarrow>
               (case prefix_type_error (oc_Type oc) ip ipNet of
                  Some e \<Rightarrow> Some e
                | None \<Rightarrow>
                    if oc_AllowedCIDRs oc \<noteq> [] then validateAllowedCIDRs ip ipNet (oc_AllowedCIDRs oc)
                    else None)))"

text \<open>\<open>ValidatePeerOperation\<close>, \<open>ValidateBFDOperation\<close> and \<open>ValidateOSPFOperation\<close> have the same body.\<close>

definition ValidateOperation :: "Owners \<Rightarrow> string \<Rightarrow> PolicyErr option" where
  "ValidateOperation owners owner = (if owners owner = None then Some ErrUnknownOwner else None)"

definition CheckConflict :: "string \<Rightarrow> string \<Rightarrow> PolicyErr option" where
  "CheckConflict owner existingOwner =
     (if existingOwner = [] \<or> existingOwner = owner then None
      else if owner = ''admin'' then None
      else Some ErrOwnershipConflict)"

section \<open>Reading the store\<close>

text \<open>Every range visits each key of a map exactly once.\<close>

definition fair :: "Order \<Rightarrow> bool" where
  "fair ord \<longleftrightarrow> (\<forall>l K. finite K \<longrightarrow> distinct (ord l K) \<and> set (ord l K) = K)"

definition finite_owner :: "OwnerIntents \<Rightarrow> bool" where
  "finite_owner oi \<longleftrightarrow>
     finite (dom (ow_Peers oi)) \<and> finite (dom (ow_Prefixes oi)) \<and> finite (dom (ow_BFD oi)) \<and> finite (dom (ow_OSPF oi))"

definition finite_store :: "IntentStore \<Rightarrow> bool" where
  "finite_store st \<longleftrightarrow> finite (dom st) \<and> (\<forall>o' oi. st o' = Some oi \<longrightarrow> finite_owner oi)"

lemma set_map_filter_dom:
  assumes "set ks = dom m"
  shows "set (List.map_filter m ks) = ran m"
proof -
  have "k \<in> set ks" if "m k = Some v" for k v using that assms by blast
  then show ?thesis by (auto simp: List.map_filter_def ran_def image_iff) (metis option.sel option.simps(3))
qed

lemma set_collect:
  assumes "fair ord" "finite_store st" "\<And>oi. finite_owner oi \<Longrightarrow> finite (dom (get oi))"
  shows "set (collect ord l get st) = {i. \<exists>o' oi. st o' = Some oi \<and> i \<in> ran (get oi)}"
proof -
  let ?list = "\<lambda>o'. case st o' of None \<Rightarrow> [] | Some oi \<Rightarrow> List.map_filter (get oi) (ord (l @ '' of '' @ o') (dom (get oi)))"
  have "set (?list o') = (case st o' of None \<Rightarrow> {} | Some oi \<Rightarrow> ran (get oi))" for o'
  proof (cases "st o'")
    case (Some oi)
    then have "set (ord (l @ '' of '' @ o') (dom (get oi))) = dom (get oi)"
      using assms by (auto simp: fair_def finite_store_def)
    from set_map_filter_dom [OF this] Some show ?thesis by simp
  qed simp
  moreover have "set (ord l (dom st)) = dom st" using assms(1,2) by (simp add: fair_def finite_store_def)
  ultimately have "set (collect ord l get st) = (\<Union>o' \<in> dom st. case st o' of None \<Rightarrow> {} | Some oi \<Rightarrow> ran (get oi))"
    by (simp add: collect_def)
  also have "\<dots> = {i. \<exists>o' oi. st o' = Some oi \<and> i \<in> ran (get oi)}"
    by (auto split: option.splits; blast)
  finally show ?thesis .
qed

lemma intent_getters:
  assumes "fair ord" "finite_store st"
  shows "set (GetPeerIntents ord st) = {p. \<exists>o' oi. st o' = Some oi \<and> p \<in> ran (ow_Peers oi)}"
    and "set (GetPrefixIntents ord st) = {p. \<exists>o' oi. st o' = Some oi \<and> p \<in> ran (ow_Prefixes oi)}"
    and "set (GetBFDIntents ord st) = {b. \<exists>o' oi. st o' = Some oi \<and> b \<in> ran (ow_BFD oi)}"
    and "set (GetOSPFIntents ord st) = {i. \<exists>o' oi. st o' = Some oi \<and> i \<in> ran (ow_OSPF oi)}"
  unfolding GetPeerIntents_def GetPrefixIntents_def GetBFDIntents_def GetOSPFIntents_def
  by (rule set_collect [OF assms]; simp add: finite_owner_def)+

section \<open>Operations and owners\<close>

lemma setIntent_outcome:
  "(\<exists>e. setIntent owner intent validate execute st = (Some e, st)) \<or>
   (\<exists>i. owner \<noteq> [] \<and> intent = Some i \<and> validate i = None \<and>
      setIntent owner intent validate execute st = (None, st(owner \<mapsto> execute i (ensureOwner st owner))))"
  by (auto simp: setIntent_def split: option.splits)

lemma removeIntent_outcome:
  "(\<exists>e. removeIntent owner em err key get put st = (Some e, st)) \<or>
   (\<exists>oi. owner \<noteq> [] \<and> \<not> em \<and> st owner = Some oi \<and> get oi key \<noteq> None \<and>
      removeIntent owner em err key get put st = (None, st(owner \<mapsto> put (map_del (get oi) key) oi)))"
  by (auto simp: removeIntent_def split: option.splits)

lemma setIntent_frame: "o' \<noteq> owner \<Longrightarrow> snd (setIntent owner intent validate execute st) o' = st o'"
  using setIntent_outcome [of owner intent validate execute st] by auto

lemma removeIntent_frame: "o' \<noteq> owner \<Longrightarrow> snd (removeIntent owner em err key get put st) o' = st o'"
  using removeIntent_outcome [of owner em err key get put st] by auto

lemmas store_ops =
  SetPeerIntent_def RemovePeerIntent_def SetPrefixIntent_def RemovePrefixIntent_def SetBFDIntent_def
  RemoveBFDIntent_def SetOSPFIntent_def RemoveOSPFIntent_def

lemma ensureOwner_finite: "finite_store st \<Longrightarrow> finite_owner (ensureOwner st owner)"
  by (auto simp: ensureOwner_def newOwnerIntents_def finite_store_def finite_owner_def split: option.split)

lemma finite_store_upd: "finite_store st \<Longrightarrow> finite_owner oi \<Longrightarrow> finite_store (st(owner \<mapsto> oi))"
  by (auto simp: finite_store_def)

lemma setIntent_finite:
  assumes "finite_store st" "\<And>i oi. finite_owner oi \<Longrightarrow> finite_owner (execute i oi)"
  shows "finite_store (snd (setIntent owner intent validate execute st))"
proof -
  have "finite_store (st(owner \<mapsto> execute i (ensureOwner st owner)))" for i
    by (rule finite_store_upd [OF assms(1)], rule assms(2), rule ensureOwner_finite [OF assms(1)])
  then show ?thesis using setIntent_outcome [of owner intent validate execute st] assms(1) by (auto simp del: fun_upd_apply)
qed

lemma finite_map_del [simp]: "finite (dom m) \<Longrightarrow> finite (dom (map_del m k))"
  by (rule finite_subset [of _ "dom m"]) (auto split: if_splits)

lemma removeIntent_finite:
  assumes "finite_store st" "\<And>m oi. finite_owner oi \<Longrightarrow> finite_owner (put (map_del (get oi) key) oi)"
  shows "finite_store (snd (removeIntent owner em err key get put st))"
proof -
  have "finite_owner oi" if "st owner = Some oi" for oi using that assms(1) by (auto simp: finite_store_def)
  then show ?thesis
    using removeIntent_outcome [of owner em err key get put st] assms by (auto intro!: finite_store_upd)
qed

lemma store_ops_finite:
  assumes "finite_store st"
  shows "finite_store (snd (SetPeerIntent now owner pi st))" "finite_store (snd (RemovePeerIntent owner a st))"
    "finite_store (snd (SetPrefixIntent now owner px st))" "finite_store (snd (RemovePrefixIntent owner a proto st))"
    "finite_store (snd (SetBFDIntent now owner bi st))" "finite_store (snd (RemoveBFDIntent owner a st))"
    "finite_store (snd (SetOSPFIntent now owner oi st))" "finite_store (snd (RemoveOSPFIntent owner a st))"
  unfolding store_ops
  by (rule setIntent_finite [OF assms] removeIntent_finite [OF assms]; simp add: finite_owner_def Let_def)+

lemma store_ops_frame:
  assumes "o' \<noteq> owner"
  shows "snd (SetPeerIntent now owner pi st) o' = st o'" "snd (RemovePeerIntent owner a st) o' = st o'"
    "snd (SetPrefixIntent now owner px st) o' = st o'" "snd (RemovePrefixIntent owner a proto st) o' = st o'"
    "snd (SetBFDIntent now owner bi st) o' = st o'" "snd (RemoveBFDIntent owner a st) o' = st o'"
    "snd (SetOSPFIntent now owner oi st) o' = st o'" "snd (RemoveOSPFIntent owner a st) o' = st o'"
    "RemoveAllByOwner owner st o' = st o'"
  using assms by (auto simp: store_ops setIntent_frame removeIntent_frame RemoveAllByOwner_def)

section \<open>Admitted prefixes\<close>

lemma ParseCIDR_cases:
  assumes "ParseCIDR s = Some (ip, n)"
  obtains (v4) x m where "length x = 4" "ip = v4InV6Prefix @ x" "m \<le> 32"
      "n = \<lparr>net_IP = and_bytes x (CIDRMask m 32), net_Mask = CIDRMask m 32\<rparr>"
  | (v6) m where "length ip = 16" "m \<le> 128"
      "n = \<lparr>net_IP = and_bytes ip (CIDRMask m 128), net_Mask = CIDRMask m 128\<rparr>"
proof -
  obtain a m where a: "ParseAddr (takeWhile (\<lambda>c. c \<noteq> CHR ''/'') s) = Some a" "m \<le> Addr_BitLen a"
    and ip: "ip = Addr_As16 a"
    and n: "n = \<lparr>net_IP = IP_Mask ip (CIDRMask m (Addr_BitLen a)), net_Mask = CIDRMask m (Addr_BitLen a)\<rparr>"
    using assms by (fastforce simp: ParseCIDR_def Let_def not_less split: if_splits option.splits)
  have wf: "wf_Addr a" by (rule wf_ParseAddr [OF a(1)])
  show thesis
  proof (cases a)
    case (Addr4 x)
    then show thesis using wf ip n a(2) length_CIDRMask [of m 4] by (intro v4 [of x m]) (auto simp: wf_Addr_def IP_Mask_def Let_def v4InV6Prefix_def)
  next
    case (Addr6 x z)
    then show thesis using wf ip n a(2) length_CIDRMask [of m 16] by (intro v6 [of m]) (auto simp: wf_Addr_def IP_Mask_def Let_def)
  qed
qed

definition mask_byte :: "nat \<Rightarrow> u8" where
  "mask_byte n = (if 8 \<le> n then 255 else NOT (drop_bit n 255))"

lemma bit_255: "bit (255 :: u8) j \<longleftrightarrow> j < 8"
  using bit_mask_iff [of 8 j, where ?'a = "8 word"] by (simp add: mask_eq_exp_minus_1)

lemma bit_mask_byte: "bit (mask_byte n) k \<longleftrightarrow> k < 8 \<and> 8 \<le> n + k"
proof (cases "8 \<le> n")
  case True
  then have "mask_byte n = 255" by (simp add: mask_byte_def)
  then show ?thesis unfolding \<open>mask_byte n = 255\<close> bit_255 using True by auto
next
  case False
  then have m: "mask_byte n = NOT (drop_bit n 255)" by (simp add: mask_byte_def)
  show ?thesis unfolding m bit_not_iff bit_drop_bit_eq o_def bit_255 by (auto simp: exp_eq_zero_iff)
qed

lemma mask_byte_and: "a \<le> p \<Longrightarrow> mask_byte p AND mask_byte a = mask_byte a"
  by (rule bit_word_eqI) (auto simp only: bit_and_iff bit_mask_byte)

lemma CIDRMask_bytes: "CIDRMask ones nb = map (\<lambda>j. mask_byte (ones - 8 * j)) [0..<nb div 8]"
  by (simp add: CIDRMask_def Let_def mask_byte_def)

lemma CIDRMask_and:
  assumes "oa \<le> op"
  shows "and_bytes (CIDRMask op nb) (CIDRMask oa nb) = CIDRMask oa nb"
  unfolding CIDRMask_bytes and_bytes_def
  by (rule nth_equalityI) (use assms in \<open>simp_all add: mask_byte_and\<close>)

lemma and_bytes_assoc: "and_bytes (and_bytes x m) n = and_bytes x (and_bytes m n)"
  by (rule nth_equalityI) (simp_all add: and_bytes_def and.assoc)

text \<open>Bytes that agree under a mask agree under a shorter one.\<close>

lemma and_shorter:
  assumes "oa \<le> op" "and_bytes x (CIDRMask op nb) = and_bytes y (CIDRMask op nb)"
  shows "and_bytes x (CIDRMask oa nb) = and_bytes y (CIDRMask oa nb)"
  using arg_cong [OF assms(2), of "\<lambda>z. and_bytes z (CIDRMask oa nb)"]
  by (simp only: and_bytes_assoc CIDRMask_and [OF assms(1)])

lemma and_bytes_idem: "and_bytes (and_bytes x (CIDRMask op nb)) (CIDRMask op nb) = and_bytes x (CIDRMask op nb)"
  by (simp only: and_bytes_assoc CIDRMask_and [OF order_refl])

lemma long_net_not_v4:
  assumes "prefix_net 16 oa n" "oa \<le> 32"
  shows "IP_To4 (net_IP n) = None"
proof -
  have len: "length (net_IP n) = 16" and al: "be_nat (net_IP n) mod 2 ^ (128 - oa) = 0"
    using assms(1) by (auto simp: prefix_net_def)
  obtain d where d: "128 - oa = 96 + d" using assms(2) le_Suc_ex [of 96 "128 - oa"] by force
  from al obtain q where "be_nat (net_IP n) = 2 ^ (128 - oa) * q" by (auto simp: mod_eq_0_iff_dvd)
  then have "be_nat (net_IP n) = 2 ^ 32 * (2 ^ 64 * (2 ^ d * q))" unfolding d by (simp add: power_add)
  then have "be_nat (net_IP n) div 2 ^ 32 = 2 ^ 64 * (2 ^ d * q)" by simp
  moreover have "2 ^ 64 * r \<noteq> (65535 :: nat)" for r by (cases r) auto
  ultimately have "take 12 (net_IP n) \<noteq> v4InV6Prefix" using take12_v4_iff [OF len] by metis
  then show ?thesis using len by (simp add: IP_To4_def)
qed

lemma masked_not_v4:
  assumes "length ip = 16" "IP_To4 ip = None" "m \<le> 128"
  shows "IP_To4 (and_bytes ip (CIDRMask m 128)) = None"
proof (rule ccontr)
  let ?n = "and_bytes ip (CIDRMask m 128)" and ?h = "128 - m"
  assume c: "IP_To4 ?n \<noteq> None"
  have len: "length ?n = 16" using assms(1) by (simp add: and_bytes_def)
  then have n: "be_nat ?n div 2 ^ 32 = 65535" using c take12_v4_iff [OF len] by (auto simp: IP_To4_def split: if_splits)
  have b: "be_nat ?n = be_nat ip div 2 ^ ?h * 2 ^ ?h" using be_nat_and_mask [of ip 16 m] assms by simp
  show False
  proof (cases "?h \<le> 32")
    case True
    have "be_nat ?n div 2 ^ ?h = be_nat ip div 2 ^ ?h" unfolding b by simp
    from div_pow_mono [OF this True] n have "be_nat ip div 2 ^ 32 = 65535" by simp
    then show False using assms(1,2) take12_v4_iff [OF assms(1)] by (simp add: IP_To4_def)
  next
    case False
    then obtain d where d: "?h = 33 + d" using le_Suc_ex [of 33 ?h] by auto
    have "be_nat ?n = 2 ^ 32 * (2 * (2 ^ d * (be_nat ip div 2 ^ ?h)))" unfolding b d by (simp add: power_add)
    then have "be_nat ?n div 2 ^ 32 = 2 * (2 ^ d * (be_nat ip div 2 ^ ?h))" by simp
    then have "even (65535 :: nat)" using n by (metis dvd_triv_left)
    then show False by simp
  qed
qed

lemma contains_v4:
  assumes "length nn = 4"
  shows "IPNet_Contains \<lparr>net_IP = nn, net_Mask = CIDRMask m 32\<rparr> ip \<longleftrightarrow>
    (\<exists>x. IP_To4 ip = Some x \<and> and_bytes nn (CIDRMask m 32) = and_bytes x (CIDRMask m 32))"
proof -
  have "networkNumberAndMask \<lparr>net_IP = nn, net_Mask = CIDRMask m 32\<rparr> = Some (nn, CIDRMask m 32)"
    using assms by (simp add: networkNumberAndMask_def IP_To4_def)
  then show ?thesis using assms length_IP_To4 [of ip]
    by (cases "IP_To4 ip") (auto simp: IPNet_Contains_def, simp add: IP_To4_def)
qed

lemma contains_v6:
  assumes "length nn = 16" "IP_To4 nn = None"
  shows "IPNet_Contains \<lparr>net_IP = nn, net_Mask = CIDRMask m 128\<rparr> ip \<longleftrightarrow>
    IP_To4 ip = None \<and> length ip = 16 \<and> and_bytes nn (CIDRMask m 128) = and_bytes ip (CIDRMask m 128)"
proof -
  have "networkNumberAndMask \<lparr>net_IP = nn, net_Mask = CIDRMask m 128\<rparr> = Some (nn, CIDRMask m 128)"
    using assms by (simp add: networkNumberAndMask_def)
  then show ?thesis using assms length_IP_To4 [of ip]
    by (cases "IP_To4 ip") (auto simp: IPNet_Contains_def)
qed

text \<open>A network that contains the address of a prefix and has a mask that is not longer contains the
  whole prefix, for an IPv4 prefix and for an IPv6 prefix whose address is not an IPv4 address.\<close>

lemma allowed_net_contains_prefix:
  assumes p: "ParseCIDR s = Some (ip, pn)" and a: "ParseCIDR t = Some (x, an)"
    and kind: "length (net_Mask pn) = 4 \<or> IP_To4 ip = None"
    and c: "IPNet_Contains an ip" and ones: "fst (Mask_Size (net_Mask an)) \<le> fst (Mask_Size (net_Mask pn))"
    and y: "IPNet_Contains pn y"
  shows "IPNet_Contains an y"
  using p
proof (cases rule: ParseCIDR_cases)
  case (v4 i op)
  have pl: "prefix_net 4 op pn" using v4 prefix_net_and_bytes [of i 4 op] by simp
  have i: "IP_To4 ip = Some i" using v4(1,2) by (simp add: IP_To4_def v4InV6Prefix_def)
  from a show ?thesis
  proof (cases rule: ParseCIDR_cases)
    case (v4 j oa)
    have al: "prefix_net 4 oa an" using v4 prefix_net_and_bytes [of j 4 oa] by simp
    have le: "oa \<le> op" using ones Mask_Size_prefix_net [OF al] Mask_Size_prefix_net [OF pl] by simp
    have lj: "length (and_bytes j (CIDRMask oa 32)) = 4" "length (and_bytes i (CIDRMask op 32)) = 4"
      using v4(1) \<open>length i = 4\<close> by (simp_all add: and_bytes_def)
    obtain z where z: "IP_To4 y = Some z" "and_bytes i (CIDRMask op 32) = and_bytes z (CIDRMask op 32)"
      using y contains_v4 [OF lj(2)] \<open>pn = _\<close> by (auto simp: and_bytes_idem)
    show ?thesis
      using c z and_shorter [OF le z(2)] i contains_v4 [OF lj(1)] v4(4) by (auto simp: and_bytes_idem)
  next
    case (v6 oa)
    have al: "prefix_net 16 oa an" using v6 prefix_net_and_bytes [of x 16 oa] by simp
    have "oa \<le> 32" using ones Mask_Size_prefix_net [OF al] Mask_Size_prefix_net [OF pl] v4(3) by simp
    from long_net_not_v4 [OF al this] c i v6 show ?thesis
      using contains_v6 [of "and_bytes x (CIDRMask oa 128)" oa ip] by (simp add: and_bytes_def)
  qed
next
  case (v6 op)
  have pl: "prefix_net 16 op pn" using v6 prefix_net_and_bytes [of ip 16 op] by simp
  have ip: "IP_To4 ip = None" using kind v6 by simp
  from a show ?thesis
  proof (cases rule: ParseCIDR_cases)
    case (v4 j oa)
    then have "length (and_bytes j (CIDRMask oa 32)) = 4" by (simp add: and_bytes_def)
    from contains_v4 [OF this] c ip v4(4) show ?thesis by simp
  next
    case av6: (v6 oa)
    have al: "prefix_net 16 oa an" using av6 prefix_net_and_bytes [of x 16 oa] by simp
    have le: "oa \<le> op" using ones Mask_Size_prefix_net [OF al] Mask_Size_prefix_net [OF pl] by simp
    have la: "length (and_bytes x (CIDRMask oa 128)) = 16" "length (and_bytes ip (CIDRMask op 128)) = 16"
      using av6(1) v6(1) by (simp_all add: and_bytes_def)
    have "IP_To4 (net_IP an) = None"
      using contains_same_kind [OF c] ip av6 la v6(1) by (simp add: IP_To16_def)
    then have na: "IP_To4 (and_bytes x (CIDRMask oa 128)) = None" using av6(3) by simp
    have np: "IP_To4 (and_bytes ip (CIDRMask op 128)) = None" by (rule masked_not_v4 [OF v6(1) ip v6(2)])
    have z: "IP_To4 y = None" "length y = 16" "and_bytes ip (CIDRMask op 128) = and_bytes y (CIDRMask op 128)"
      using y contains_v6 [OF la(2) np] v6(3) by (auto simp: and_bytes_idem)
    show ?thesis
      using c z and_shorter [OF le z(3)] contains_v6 [OF la(1) na] av6(3) by (auto simp: and_bytes_idem)
  qed
qed

lemma validateAllowedCIDRs_admits:
  "validateAllowedCIDRs ip pn cidrs = None \<Longrightarrow>
     \<exists>t \<in> set cidrs. \<exists>x an. ParseCIDR t = Some (x, an) \<and> IPNet_Contains an ip \<and>
       fst (Mask_Size (net_Mask an)) \<le> fst (Mask_Size (net_Mask pn))"
  by (induction cidrs) (auto split: option.splits if_splits)

text \<open>(C22) A prefix that the policy engine admits for an owner with a list of allowed networks lies inside one
  of them: every address of the prefix is an address of that allowed network. The prefix is an IPv4
  prefix, or an IPv6 prefix whose address is not an IPv4 address in IPv6 notation.\<close>

theorem allowed_prefix_confined:
  assumes "ValidatePrefix owners owner prefix = None"
    and "owners owner = Some oc" "oc_AllowedCIDRs oc \<noteq> []"
    and "ParseCIDR prefix = Some (ip, pn)" "length (net_Mask pn) = 4 \<or> IP_To4 ip = None"
  shows "\<exists>t \<in> set (oc_AllowedCIDRs oc). \<exists>x an. ParseCIDR t = Some (x, an) \<and>
    (\<forall>y. IPNet_Contains pn y \<longrightarrow> IPNet_Contains an y)"
proof -
  have "validateAllowedCIDRs ip pn (oc_AllowedCIDRs oc) = None"
    using assms(1-4) by (simp add: ValidatePrefix_def split: option.splits)
  from validateAllowedCIDRs_admits [OF this] allowed_net_contains_prefix [OF assms(4) _ assms(5)]
  show ?thesis by meson
qed

definition ex_owners :: Owners where
  "ex_owners = [''novaedge'' \<mapsto> \<lparr>oc_Token = ''t'', oc_Type = ''any'', oc_AllowedCIDRs = [''10.0.0.0/8'']\<rparr>]"

lemmas cidr_eval = ParseCIDR_def ParseAddr_def dec_val_def CIDRMask_def IP_Mask_def and_bytes_def v4InV6Prefix_def upt_rec
  Let_def not_255 parseIPv6_def parseIPv6_body_def parseIPv6_loop.simps hex_val_def expand_ellipsis_def

lemma ex_zeros:
  "(- 256 :: u8) = 0" "replicate 4 (0 :: u8) = [0, 0, 0, 0]" "replicate 10 (0 :: u8) = [0, 0, 0, 0, 0, 0, 0, 0, 0, 0]"
  "replicate 12 (0 :: u8) = [0, 0, 0, 0, 0, 0, 0, 0, 0, 0, 0, 0]"
  "replicate 14 (0 :: u8) = [0, 0, 0, 0, 0, 0, 0, 0, 0, 0, 0, 0, 0, 0]"
  "replicate 16 (0 :: u8) = [0, 0, 0, 0, 0, 0, 0, 0, 0, 0, 0, 0, 0, 0, 0, 0]"
  by (transfer, simp) (simp_all add: numeral_eq_Suc)

lemma ex_cidrs:
  "ParseCIDR ''10.0.0.0/8'' = Some (v4InV6Prefix @ [10, 0, 0, 0], \<lparr>net_IP = [10, 0, 0, 0], net_Mask = [255, 0, 0, 0]\<rparr>)"
  "ParseCIDR ''10.1.0.0/16'' = Some (v4InV6Prefix @ [10, 1, 0, 0], \<lparr>net_IP = [10, 1, 0, 0], net_Mask = [255, 255, 0, 0]\<rparr>)"
  "ParseCIDR ''::ffff:10.0.0.0/16'' =
     Some (v4InV6Prefix @ [10, 0, 0, 0], \<lparr>net_IP = replicate 16 0, net_Mask = [255, 255] @ replicate 14 0\<rparr>)"
  "ParseCIDR ''::/16'' = Some (replicate 16 0, \<lparr>net_IP = replicate 16 0, net_Mask = [255, 255] @ replicate 14 0\<rparr>)"
  by (simp_all add: cidr_eval ex_zeros)

lemma ex_masks:
  "Mask_Size [255, 0, 0, 0 :: u8] = (8, 32)" "Mask_Size [255, 255, 0, 0 :: u8] = (16, 32)"
  "Mask_Size ([255, 255] @ replicate 14 (0 :: u8)) = (16, 128)"
  by (simp_all add: Mask_Size_def leading_ones_def upt_rec ex_zeros)

lemma ex_any: "ToLower ''any'' = ''any''"
  by (simp add: lower_char_def)

lemmas contains_eval = IPNet_Contains_def networkNumberAndMask_def IP_To4_def v4InV6Prefix_def and_bytes_def

theorem allowed_prefix_confined_witness:
  "ValidatePrefix ex_owners ''novaedge'' ''10.1.0.0/16'' = None \<and>
   IPNet_Contains \<lparr>net_IP = [10, 0, 0, 0], net_Mask = [255, 0, 0, 0]\<rparr> [10, 1, 2, 3]"
proof -
  have v: "ValidatePrefix ex_owners ''novaedge'' ''10.1.0.0/16'' = None"
    by (simp add: ValidatePrefix_def ex_owners_def ex_cidrs ex_masks prefix_type_error_def ex_any contains_eval
        del: ToLower.simps)
  have "\<exists>t \<in> set [''10.0.0.0/8'']. \<exists>x an. ParseCIDR t = Some (x, an) \<and>
      (\<forall>y. IPNet_Contains \<lparr>net_IP = [10, 1, 0, 0], net_Mask = [255, 255, 0, 0]\<rparr> y \<longrightarrow> IPNet_Contains an y)"
    using allowed_prefix_confined [OF v _ _ ex_cidrs(2)] by (simp add: ex_owners_def)
  moreover have "IPNet_Contains \<lparr>net_IP = [10, 1, 0, 0], net_Mask = [255, 255, 0, 0]\<rparr> [10, 1, 2, 3]"
    by (simp add: contains_eval)
  ultimately show ?thesis using v by (auto simp: ex_cidrs)
qed


end
