(* ===== verification/Routing_Reconciler.thy ===== *)
theory Routing_Reconciler
  imports FRR_Client Routing_Intents
begin

text \<open>
  The routing reconciler (\<open>internal/routing/reconciler\<close>). It holds what it has applied to FRR so far,
  compares that with the intents of the store and calls the FRR client for the difference. The record
  \<open>Reconciler\<close> has the fields of the Go struct; the FRR client is part of its state and the events it
  publishes are collected in order. Calls of the client are the definitions of \<open>FRR_Client\<close>, so a
  run of the reconciler is determined by the behaviour of \<open>vtysh\<close>, by the orders in which maps are
  visited, and by the answers of the FRR show commands. Log lines and metrics are left out.

  The four reconciling functions are the same loop over four kinds of intents. The loop is written once
  (\<open>sync\<close>), and the locale \<open>sync_target\<close> states what it needs from a kind of intents. The lemmas
  show that a pass that reports success has made the applied state equal to the desired state, that a
  pass succeeds whenever \<open>vtysh\<close> accepts its commands, and that a further pass then sends nothing.
\<close>

section \<open>State\<close>

datatype RecErr =
    Frr FrrErr
  | ErrFRRClientNotAvailable
  | ErrBGPGlobalNotSet
  | ErrUnexpectedIntentType
  | ErrUnknownIntentType
  | ErrNotApplied
  | ErrUnspecifiedProtocol
  | ErrUnsupportedProtocol

datatype EventType =
    EventTypeUnspecified
  | EventTypePeerUp
  | EventTypePeerDown
  | EventTypePrefixAdvertised
  | EventTypePrefixWithdrawn
  | EventTypeBFDUp
  | EventTypeBFDDown
  | EventTypeOSPFNeighborUp
  | EventTypeOSPFNeighborDown
  | EventTypeFRRConnected
  | EventTypeFRRDisconnected
  | EventTypeOwnerRegistered
  | EventTypeOwnerDeregistered
  | EventTypePolicyViolation
  | EventTypeBGPConfigChanged

record RouteEvent =
  ev_Type :: EventType
  ev_Owner :: string
  ev_Detail :: string
  ev_Metadata :: "string \<rightharpoonup> string"

record Reconciler =
  rc_frrClient :: "Client option"
  rc_bgpGlobal :: "(u32 \<times> string) option"
  rc_appliedPeers :: "string \<rightharpoonup> PeerIntent"
  rc_appliedPrefixes :: "string \<rightharpoonup> PrefixIntent"
  rc_appliedBFD :: "string \<rightharpoonup> BFDIntent"
  rc_appliedOSPF :: "string \<rightharpoonup> OSPFIntent"
  rc_peerManagedBFD :: "string set"
  rc_bgpConfigured :: bool
  rc_publisher :: bool
  rc_events :: "RouteEvent list"
  rc_lastBGPStates :: "string \<rightharpoonup> string"
  rc_lastBFDStates :: "string \<rightharpoonup> string"
  rc_lastOSPFStates :: "string \<rightharpoonup> string \<times> string"
  rc_triggered :: bool

definition NewReconciler :: "Client option \<Rightarrow> (u32 \<times> string) option \<Rightarrow> Reconciler" where
  "NewReconciler client bgpGlobal =
     \<lparr>rc_frrClient = client, rc_bgpGlobal = bgpGlobal, rc_appliedPeers = Map.empty, rc_appliedPrefixes = Map.empty,
      rc_appliedBFD = Map.empty, rc_appliedOSPF = Map.empty, rc_peerManagedBFD = {}, rc_bgpConfigured = False,
      rc_publisher = False, rc_events = [], rc_lastBGPStates = Map.empty, rc_lastBFDStates = Map.empty,
      rc_lastOSPFStates = Map.empty, rc_triggered = False\<rparr>"

text \<open>A call of the FRR client. Every caller in the code that can meet a nil client has tested it before;
  with a nil client the model reports it as an error.\<close>

definition frr :: "(FrrErr, Client) call \<Rightarrow> (RecErr, Reconciler) call" where
  "frr f r =
     (case rc_frrClient r of
        None \<Rightarrow> (Some ErrFRRClientNotAvailable, r)
      | Some c \<Rightarrow> (map_option Frr (fst (f c)), r\<lparr>rc_frrClient := Some (snd (f c))\<rparr>))"

section \<open>Resolving and comparing intents\<close>

definition resolveAddressFamily :: "int \<Rightarrow> string" where
  "resolveAddressFamily af = (if af = 1 then ''ipv4-unicast'' else if af = 2 then ''ipv6-unicast'' else [])"

definition detectAFI :: "string \<Rightarrow> string" where
  "detectAFI prefix = (if CHR '':'' \<in> set prefix then ''ipv6-unicast'' else ''ipv4-unicast'')"

definition rec_prefixKey :: "int \<Rightarrow> string \<Rightarrow> string" where
  "rec_prefixKey protocol prefix = ''prefix:'' @ protocolString protocol @ '':'' @ prefix"

definition peerEqual :: "PeerIntent \<Rightarrow> PeerIntent \<Rightarrow> bool" where
  "peerEqual a b \<longleftrightarrow>
     pi_NeighborAddress a = pi_NeighborAddress b \<and> pi_RemoteAS a = pi_RemoteAS b \<and> pi_PeerType a = pi_PeerType b \<and>
     pi_Keepalive a = pi_Keepalive b \<and> pi_HoldTime a = pi_HoldTime b \<and> pi_BFDEnabled a = pi_BFDEnabled b \<and>
     pi_BFDMinRxMs a = pi_BFDMinRxMs b \<and> pi_BFDMinTxMs a = pi_BFDMinTxMs b \<and>
     pi_BFDDetectMultiplier a = pi_BFDDetectMultiplier b \<and> pi_EBGPMultihop a = pi_EBGPMultihop b \<and>
     pi_Password a = pi_Password b \<and> pi_SourceAddress a = pi_SourceAddress b \<and> pi_MaxPrefixes a = pi_MaxPrefixes b \<and>
     pi_Description a = pi_Description b \<and> pi_AddressFamilies a = pi_AddressFamilies b"

definition prefixEqual :: "PrefixIntent \<Rightarrow> PrefixIntent \<Rightarrow> bool" where
  "prefixEqual a b \<longleftrightarrow>
     px_Prefix a = px_Prefix b \<and> px_Protocol a = px_Protocol b \<and> px_LocalPreference a = px_LocalPreference b \<and>
     px_MED a = px_MED b \<and> px_NextHop a = px_NextHop b \<and> px_Communities a = px_Communities b"

definition bfdEqual :: "BFDIntent \<Rightarrow> BFDIntent \<Rightarrow> bool" where
  "bfdEqual a b \<longleftrightarrow>
     bi_PeerAddress a = bi_PeerAddress b \<and> bi_MinRxMs a = bi_MinRxMs b \<and> bi_MinTxMs a = bi_MinTxMs b \<and>
     bi_DetectMultiplier a = bi_DetectMultiplier b \<and> bi_InterfaceName a = bi_InterfaceName b"

definition ospfEqual :: "OSPFIntent \<Rightarrow> OSPFIntent \<Rightarrow> bool" where
  "ospfEqual a b \<longleftrightarrow>
     oi_InterfaceName a = oi_InterfaceName b \<and> oi_AreaID a = oi_AreaID b \<and> oi_Passive a = oi_Passive b \<and>
     oi_Cost a = oi_Cost b \<and> oi_HelloInterval a = oi_HelloInterval b \<and> oi_DeadInterval a = oi_DeadInterval b \<and>
     oi_IPv6 a = oi_IPv6 b"

section \<open>Applying and removing one intent\<close>

definition neighbor_config :: "PeerIntent \<Rightarrow> NeighborConfig" where
  "neighbor_config p =
     \<lparr>nc_SourceAddress = pi_SourceAddress p, nc_EBGPMultihop = pi_EBGPMultihop p,
      nc_Password = pi_Password p, nc_Description = pi_Description p\<rparr>"

text \<open>The session that a peer intent with BFD creates.\<close>

definition peer_session :: "PeerIntent \<Rightarrow> BFDIntent" where
  "peer_session p =
     \<lparr>bi_Owner = pi_Owner p, bi_PeerAddress = pi_NeighborAddress p, bi_MinRxMs = pi_BFDMinRxMs p,
      bi_MinTxMs = pi_BFDMinTxMs p, bi_DetectMultiplier = pi_BFDDetectMultiplier p, bi_InterfaceName = [],
      bi_CreatedAt = 0, bi_UpdatedAt = 0\<rparr>"

text \<open>The two loops over the address families of a peer; a family without a name is skipped.\<close>

definition for_families :: "(string \<Rightarrow> (FrrErr, Client) call) \<Rightarrow> int list \<Rightarrow> (RecErr, Reconciler) call" where
  "for_families f =
     each_call (\<lambda>af. if resolveAddressFamily af = [] then Pair None else frr (f (resolveAddressFamily af)))"

text \<open>The last part of applying a peer: a BFD session is created and linked, or unlinked and removed.\<close>

definition applyPeerBFD :: "Vtysh \<Rightarrow> PeerIntent \<Rightarrow> (RecErr, Reconciler) call" where
  "applyPeerBFD vt p =
     (let addr = pi_NeighborAddress p; bfdK = bfdKey addr
      in if pi_BFDEnabled p then
           and_then (frr (AddBFDPeer vt addr (pi_BFDMinRxMs p) (pi_BFDMinTxMs p) (pi_BFDDetectMultiplier p) []))
             (\<lambda>r. frr (SetNeighborBFD vt addr True)
                (r\<lparr>rc_peerManagedBFD := insert bfdK (rc_peerManagedBFD r),
                   rc_appliedBFD := (rc_appliedBFD r)(bfdK \<mapsto> peer_session p)\<rparr>))
         else
           and_then (frr (SetNeighborBFD vt addr False))
             (\<lambda>r. if bfdK \<in> rc_peerManagedBFD r
                  then and_then (frr (RemoveBFDPeer vt addr []))
                    (\<lambda>r. (None, r\<lparr>rc_peerManagedBFD := rc_peerManagedBFD r - {bfdK},
                                 rc_appliedBFD := map_del (rc_appliedBFD r) bfdK\<rparr>)) r
                  else (None, r)))"

definition applyPeerIntent :: "Vtysh \<Rightarrow> PeerIntent \<Rightarrow> (RecErr, Reconciler) call" where
  "applyPeerIntent vt p =
     (let addr = pi_NeighborAddress p
      in and_then (frr (AddNeighbor vt addr (pi_RemoteAS p) (pi_Keepalive p) (pi_HoldTime p) (Some (neighbor_config p))))
        (and_then (for_families (ActivateNeighborAFI vt addr) (pi_AddressFamilies p))
        (and_then (for_families (SetNeighborMaxPrefix vt addr (if pi_MaxPrefixes p = 0 then 1000 else pi_MaxPrefixes p) True)
                     (pi_AddressFamilies p))
           (applyPeerBFD vt p))))"

definition removePeerFromFRR :: "Vtysh \<Rightarrow> string \<Rightarrow> (RecErr, Reconciler) call" where
  "removePeerFromFRR vt addr = frr (RemoveNeighbor vt addr)"

definition hasAttributes :: "PrefixIntent \<Rightarrow> bool" where
  "hasAttributes p \<longleftrightarrow> px_LocalPreference p > 0 \<or> px_Communities p \<noteq> [] \<or> px_MED p > 0 \<or> px_NextHop p \<noteq> []"

definition routeMapName :: "PrefixIntent \<Rightarrow> string" where
  "routeMapName p =
     ''NR-PFX-'' @ replace_byte (CHR '':'') (CHR ''-'') (replace_byte (CHR ''/'') (CHR ''-'') (px_Prefix p))"

definition route_map_sets :: "PrefixIntent \<Rightarrow> string list" where
  "route_map_sets p =
     (if px_LocalPreference p > 0 then [''set local-preference '' @ num (px_LocalPreference p)] else []) @
     (if px_Communities p \<noteq> [] then [''set community '' @ str_join '' '' (px_Communities p)] else []) @
     (if px_MED p > 0 then [''set metric '' @ num (px_MED p)] else []) @
     (if px_NextHop p \<noteq> [] then [''set ip next-hop '' @ px_NextHop p] else [])"

definition applyPrefixIntent :: "Vtysh \<Rightarrow> PrefixIntent \<Rightarrow> (RecErr, Reconciler) call" where
  "applyPrefixIntent vt p =
     (let afi = detectAFI (px_Prefix p)
      in if px_Protocol p = ProtocolBGP then
           if hasAttributes p then
             and_then (frr (ConfigureRouteMap vt (routeMapName p) (route_map_sets p)))
               (frr (AdvertiseNetworkWithRouteMap vt (px_Prefix p) afi (routeMapName p)))
           else frr (AdvertiseNetwork vt (px_Prefix p) afi)
         else if px_Protocol p = ProtocolOSPF then Pair None
         else if px_Protocol p = ProtocolUnspecified then Pair (Some ErrUnspecifiedProtocol)
         else Pair (Some ErrUnsupportedProtocol))"

definition removePrefixFromFRR :: "Vtysh \<Rightarrow> PrefixIntent \<Rightarrow> (RecErr, Reconciler) call" where
  "removePrefixFromFRR vt p =
     (if px_Protocol p = ProtocolUnspecified then Pair (Some ErrUnspecifiedProtocol)
      else if px_Protocol p = ProtocolBGP then
        and_then (frr (WithdrawNetwork vt (px_Prefix p) (detectAFI (px_Prefix p))))
          (\<lambda>r. (None, if hasAttributes p then snd (frr (RemoveRouteMap vt (routeMapName p)) r) else r))
      else if px_Protocol p = ProtocolOSPF then Pair None
      else Pair (Some ErrUnsupportedProtocol))"

definition applyBFDIntent :: "Vtysh \<Rightarrow> BFDIntent \<Rightarrow> (RecErr, Reconciler) call" where
  "applyBFDIntent vt b =
     frr (AddBFDPeer vt (bi_PeerAddress b) (bi_MinRxMs b) (bi_MinTxMs b) (bi_DetectMultiplier b) (bi_InterfaceName b))"

definition removeBFDFromFRR :: "Vtysh \<Rightarrow> string \<Rightarrow> string \<Rightarrow> (RecErr, Reconciler) call" where
  "removeBFDFromFRR vt peerAddr iface = frr (RemoveBFDPeer vt peerAddr iface)"

definition applyOSPFIntent :: "Vtysh \<Rightarrow> OSPFIntent \<Rightarrow> (RecErr, Reconciler) call" where
  "applyOSPFIntent vt i =
     (if oi_IPv6 i
      then frr (EnableOSPFv3Interface vt (oi_InterfaceName i) (oi_AreaID i) (oi_Passive i) (oi_Cost i))
      else frr (EnableOSPFInterface vt (oi_InterfaceName i) (oi_AreaID i) (oi_Passive i) (oi_Cost i)
                  (oi_HelloInterval i) (oi_DeadInterval i)))"

definition removeOSPFFromFRR :: "Vtysh \<Rightarrow> OSPFIntent \<Rightarrow> (RecErr, Reconciler) call" where
  "removeOSPFFromFRR vt i =
     (if oi_IPv6 i then frr (DisableOSPFv3Interface vt (oi_InterfaceName i) (oi_AreaID i) (oi_Passive i))
      else frr (DisableOSPFInterface vt (oi_InterfaceName i) (oi_AreaID i) (oi_Passive i)))"

section \<open>The reconciling loop\<close>

text \<open>Errors are collected, and the first one is returned.\<close>

definition first_error :: "'e list \<Rightarrow> 'e option" where
  "first_error errs = (case errs of [] \<Rightarrow> None | e # _ \<Rightarrow> Some e)"

definition desired_map :: "('i \<Rightarrow> string) \<Rightarrow> 'i list \<Rightarrow> (string \<rightharpoonup> 'i)" where
  "desired_map key ds = foldl (\<lambda>m d. m(key d \<mapsto> d)) Map.empty ds"

text \<open>One desired intent: it is skipped when an equal intent is applied. \<open>app\<close> gets the applied intent
  that it replaces, if there is one.\<close>

definition apply_step ::
    "('r \<Rightarrow> (string \<rightharpoonup> 'i)) \<Rightarrow> ((string \<rightharpoonup> 'i) \<Rightarrow> 'r \<Rightarrow> 'r) \<Rightarrow> ('i \<Rightarrow> 'i \<Rightarrow> bool) \<Rightarrow> ('i option \<Rightarrow> 'i \<Rightarrow> ('e, 'r) call) \<Rightarrow>
     (string \<rightharpoonup> 'i) \<Rightarrow> string \<Rightarrow> 'e list \<times> 'r \<Rightarrow> 'e list \<times> 'r" where
  "apply_step get put eq app desired key = (\<lambda>(errs, r).
     case desired key of
       None \<Rightarrow> (errs, r)
     | Some d \<Rightarrow>
         if (case get r key of None \<Rightarrow> False | Some a \<Rightarrow> eq a d) then (errs, r)
         else (case app (get r key) d r of
                 (Some e, r') \<Rightarrow> (errs @ [e], r')
               | (None, r') \<Rightarrow> (errs, put ((get r')(key \<mapsto> d)) r')))"

text \<open>One applied intent: it is removed when it is no longer desired, unless it is to be skipped.\<close>

definition remove_step ::
    "('r \<Rightarrow> (string \<rightharpoonup> 'i)) \<Rightarrow> ((string \<rightharpoonup> 'i) \<Rightarrow> 'r \<Rightarrow> 'r) \<Rightarrow> (string \<Rightarrow> 'r \<Rightarrow> bool) \<Rightarrow> ('i \<Rightarrow> ('e, 'r) call) \<Rightarrow>
     (string \<rightharpoonup> 'i) \<Rightarrow> string \<Rightarrow> 'e list \<times> 'r \<Rightarrow> 'e list \<times> 'r" where
  "remove_step get put skip rem desired key = (\<lambda>(errs, r).
     case get r key of
       None \<Rightarrow> (errs, r)
     | Some a \<Rightarrow>
         if desired key \<noteq> None \<or> skip key r then (errs, r)
         else (case rem a r of
                 (Some e, r') \<Rightarrow> (errs @ [e], r')
               | (None, r') \<Rightarrow> (errs, put (map_del (get r') key) r')))"

definition sync ::
    "Order \<Rightarrow> string \<Rightarrow> ('r \<Rightarrow> (string \<rightharpoonup> 'i)) \<Rightarrow> ((string \<rightharpoonup> 'i) \<Rightarrow> 'r \<Rightarrow> 'r) \<Rightarrow> ('i \<Rightarrow> 'i \<Rightarrow> bool) \<Rightarrow>
     ('i option \<Rightarrow> 'i \<Rightarrow> ('e, 'r) call) \<Rightarrow> (string \<Rightarrow> 'r \<Rightarrow> bool) \<Rightarrow> ('i \<Rightarrow> ('e, 'r) call) \<Rightarrow>
     (string \<rightharpoonup> 'i) \<Rightarrow> ('e, 'r) call" where
  "sync ord l get put eq app skip rem desired r =
     (let (errs1, r1) = fold (apply_step get put eq app desired) (ord (l @ '' apply'') (dom desired)) ([], r);
          (errs2, r2) = fold (remove_step get put skip rem desired) (ord (l @ '' remove'') (dom (get r1))) (errs1, r1)
      in (first_error errs2, r2))"

text \<open>Removing an applied peer first ends the BFD session that its intent created; errors of that are
  only logged.\<close>

definition drop_peer_session :: "Vtysh \<Rightarrow> string \<Rightarrow> Reconciler \<Rightarrow> Reconciler" where
  "drop_peer_session vt addr r =
     (if bfdKey addr \<in> rc_peerManagedBFD r then
        let r1 = snd (frr (SetNeighborBFD vt addr False) r);
            r2 = snd (frr (RemoveBFDPeer vt addr []) r1)
        in r2\<lparr>rc_peerManagedBFD := rc_peerManagedBFD r2 - {bfdKey addr},
              rc_appliedBFD := map_del (rc_appliedBFD r2) (bfdKey addr),
              rc_lastBFDStates := map_del (rc_lastBFDStates r2) addr\<rparr>
      else r)"

definition drop_peer :: "Vtysh \<Rightarrow> PeerIntent \<Rightarrow> (RecErr, Reconciler) call" where
  "drop_peer vt ap r =
     and_then (removePeerFromFRR vt (pi_NeighborAddress ap))
       (\<lambda>r. (None, r\<lparr>rc_lastBGPStates := map_del (rc_lastBGPStates r) (pi_NeighborAddress ap)\<rparr>))
       (drop_peer_session vt (pi_NeighborAddress ap) r)"

definition ReconcilePeers :: "Vtysh \<Rightarrow> Order \<Rightarrow> PeerIntent list \<Rightarrow> (RecErr, Reconciler) call" where
  "ReconcilePeers vt ord desired =
     sync ord ''peers'' rc_appliedPeers (\<lambda>m r. r\<lparr>rc_appliedPeers := m\<rparr>) peerEqual
       (\<lambda>existing. applyPeerIntent vt) (\<lambda>key r. False) (drop_peer vt)
       (desired_map (\<lambda>p. peerKey (pi_NeighborAddress p)) desired)"

text \<open>Updating a prefix first removes the route map of the applied intent; an error of that is only
  logged.\<close>

definition update_prefix :: "Vtysh \<Rightarrow> PrefixIntent option \<Rightarrow> PrefixIntent \<Rightarrow> (RecErr, Reconciler) call" where
  "update_prefix vt existing dp r =
     applyPrefixIntent vt dp
       (case existing of
          None \<Rightarrow> r
        | Some ex \<Rightarrow>
            if px_Protocol ex = ProtocolBGP \<and> hasAttributes ex
            then snd (frr (RemoveRouteMap vt (routeMapName ex)) r) else r)"

definition ReconcilePrefixes :: "Vtysh \<Rightarrow> Order \<Rightarrow> PrefixIntent list \<Rightarrow> (RecErr, Reconciler) call" where
  "ReconcilePrefixes vt ord desired =
     sync ord ''prefixes'' rc_appliedPrefixes (\<lambda>m r. r\<lparr>rc_appliedPrefixes := m\<rparr>) prefixEqual
       (update_prefix vt) (\<lambda>key r. False) (removePrefixFromFRR vt)
       (desired_map (\<lambda>p. rec_prefixKey (px_Protocol p) (px_Prefix p)) desired)"

definition drop_bfd :: "Vtysh \<Rightarrow> BFDIntent \<Rightarrow> (RecErr, Reconciler) call" where
  "drop_bfd vt ab =
     and_then (removeBFDFromFRR vt (bi_PeerAddress ab) (bi_InterfaceName ab))
       (\<lambda>r. (None, r\<lparr>rc_lastBFDStates := map_del (rc_lastBFDStates r) (bi_PeerAddress ab)\<rparr>))"

definition ReconcileBFD :: "Vtysh \<Rightarrow> Order \<Rightarrow> BFDIntent list \<Rightarrow> (RecErr, Reconciler) call" where
  "ReconcileBFD vt ord desired =
     sync ord ''bfd'' rc_appliedBFD (\<lambda>m r. r\<lparr>rc_appliedBFD := m\<rparr>) bfdEqual
       (\<lambda>existing. applyBFDIntent vt) (\<lambda>key r. key \<in> rc_peerManagedBFD r) (drop_bfd vt)
       (desired_map (\<lambda>b. bfdKey (bi_PeerAddress b)) desired)"

definition ReconcileOSPF :: "Vtysh \<Rightarrow> Order \<Rightarrow> OSPFIntent list \<Rightarrow> (RecErr, Reconciler) call" where
  "ReconcileOSPF vt ord desired =
     sync ord ''ospf'' rc_appliedOSPF (\<lambda>m r. r\<lparr>rc_appliedOSPF := m\<rparr>) ospfEqual
       (\<lambda>existing. applyOSPFIntent vt) (\<lambda>key r. False) (removeOSPFFromFRR vt)
       (desired_map (\<lambda>i. ospfKey (oi_InterfaceName i)) desired)"

section \<open>The BGP instance\<close>

definition ensureBGPGlobal :: "Vtysh \<Rightarrow> (RecErr, Reconciler) call" where
  "ensureBGPGlobal vt r =
     (if rc_bgpConfigured r then (None, r)
      else case rc_frrClient r of
             None \<Rightarrow> (Some ErrFRRClientNotAvailable, r)
           | Some c \<Rightarrow>
               (case rc_bgpGlobal r of
                  None \<Rightarrow> (Some ErrBGPGlobalNotSet, r)
                | Some (localAS, routerID) \<Rightarrow>
                    if localAS = 0 then (Some ErrBGPGlobalNotSet, r)
                    else
                      let oldAS = cl_localAS c
                      in and_then (frr (ReconfigureBGPGlobal vt oldAS localAS routerID))
                           (\<lambda>r. (None,
                              (if oldAS \<noteq> 0 \<and> oldAS \<noteq> localAS
                               then r\<lparr>rc_appliedPeers := Map.empty, rc_appliedPrefixes := Map.empty,
                                      rc_lastBGPStates := Map.empty, rc_lastBFDStates := Map.empty\<rparr>
                               else r)\<lparr>rc_bgpConfigured := True\<rparr>)) r))"

definition UpdateBGPGlobal :: "u32 \<Rightarrow> string \<Rightarrow> Reconciler \<Rightarrow> Reconciler" where
  "UpdateBGPGlobal localAS routerID r =
     r\<lparr>rc_bgpGlobal := Some (localAS, routerID), rc_bgpConfigured := False\<rparr>"

definition SetFRRClient :: "Client option \<Rightarrow> Reconciler \<Rightarrow> Reconciler" where
  "SetFRRClient client r =
     r\<lparr>rc_frrClient := client, rc_appliedPeers := Map.empty, rc_appliedPrefixes := Map.empty,
       rc_appliedBFD := Map.empty, rc_appliedOSPF := Map.empty, rc_peerManagedBFD := {}\<rparr>"

definition SetEventPublisher :: "Reconciler \<Rightarrow> Reconciler" where
  "SetEventPublisher r = r\<lparr>rc_publisher := True\<rparr>"

definition TriggerReconcile :: "Reconciler \<Rightarrow> Reconciler" where
  "TriggerReconcile r = r\<lparr>rc_triggered := True\<rparr>"

section \<open>Single intents and withdrawal\<close>

datatype IntentValue = PeerV PeerIntent | PrefixV PrefixIntent | BFDV BFDIntent | OSPFV OSPFIntent | OtherV

definition ApplyIntent :: "Vtysh \<Rightarrow> string \<Rightarrow> IntentValue \<Rightarrow> (RecErr, Reconciler) call" where
  "ApplyIntent vt intentType value =
     (if intentType = ''peer'' then
        (case value of
           PeerV p \<Rightarrow> and_then (applyPeerIntent vt p)
             (\<lambda>r. (None, r\<lparr>rc_appliedPeers := (rc_appliedPeers r)(peerKey (pi_NeighborAddress p) \<mapsto> p)\<rparr>))
         | _ \<Rightarrow> Pair (Some ErrUnexpectedIntentType))
      else if intentType = ''prefix'' then
        (case value of
           PrefixV p \<Rightarrow> and_then (applyPrefixIntent vt p)
             (\<lambda>r. (None, r\<lparr>rc_appliedPrefixes := (rc_appliedPrefixes r)(rec_prefixKey (px_Protocol p) (px_Prefix p) \<mapsto> p)\<rparr>))
         | _ \<Rightarrow> Pair (Some ErrUnexpectedIntentType))
      else if intentType = ''bfd'' then
        (case value of
           BFDV b \<Rightarrow> and_then (applyBFDIntent vt b)
             (\<lambda>r. (None, r\<lparr>rc_appliedBFD := (rc_appliedBFD r)(bfdKey (bi_PeerAddress b) \<mapsto> b)\<rparr>))
         | _ \<Rightarrow> Pair (Some ErrUnexpectedIntentType))
      else if intentType = ''ospf'' then
        (case value of
           OSPFV i \<Rightarrow> and_then (applyOSPFIntent vt i)
             (\<lambda>r. (None, r\<lparr>rc_appliedOSPF := (rc_appliedOSPF r)(ospfKey (oi_InterfaceName i) \<mapsto> i)\<rparr>))
         | _ \<Rightarrow> Pair (Some ErrUnexpectedIntentType))
      else Pair (Some ErrUnknownIntentType))"

definition RemoveIntent :: "Vtysh \<Rightarrow> string \<Rightarrow> string \<Rightarrow> (RecErr, Reconciler) call" where
  "RemoveIntent vt intentType key r =
     (if intentType = ''peer'' then
        (case rc_appliedPeers r (peerKey key) of
           None \<Rightarrow> (Some ErrNotApplied, r)
         | Some ap \<Rightarrow> and_then (removePeerFromFRR vt (pi_NeighborAddress ap))
             (\<lambda>r. (None, r\<lparr>rc_appliedPeers := map_del (rc_appliedPeers r) (peerKey key)\<rparr>)) r)
      else if intentType = ''prefix'' then
        (case rc_appliedPrefixes r (''prefix:'' @ key) of
           None \<Rightarrow> (Some ErrNotApplied, r)
         | Some ap \<Rightarrow> and_then (removePrefixFromFRR vt ap)
             (\<lambda>r. (None, r\<lparr>rc_appliedPrefixes := map_del (rc_appliedPrefixes r) (''prefix:'' @ key)\<rparr>)) r)
      else if intentType = ''bfd'' then
        (case rc_appliedBFD r (bfdKey key) of
           None \<Rightarrow> (Some ErrNotApplied, r)
         | Some ab \<Rightarrow> and_then (removeBFDFromFRR vt key (bi_InterfaceName ab))
             (\<lambda>r. (None, r\<lparr>rc_appliedBFD := map_del (rc_appliedBFD r) (bfdKey key)\<rparr>)) r)
      else if intentType = ''ospf'' then
        (case rc_appliedOSPF r (ospfKey key) of
           None \<Rightarrow> (Some ErrNotApplied, r)
         | Some ao \<Rightarrow> and_then (removeOSPFFromFRR vt ao)
             (\<lambda>r. (None, r\<lparr>rc_appliedOSPF := map_del (rc_appliedOSPF r) (ospfKey key)\<rparr>)) r)
      else (Some ErrUnknownIntentType, r))"

text \<open>One applied intent during the withdrawal: the action tells whether it is to be forgotten, which
  errors occurred, and the new state.\<close>

definition withdraw_step ::
    "('r \<Rightarrow> (string \<rightharpoonup> 'i)) \<Rightarrow> ((string \<rightharpoonup> 'i) \<Rightarrow> 'r \<Rightarrow> 'r) \<Rightarrow> ('i \<Rightarrow> 'r \<Rightarrow> bool \<times> 'e list \<times> 'r) \<Rightarrow>
     string \<Rightarrow> 'e list \<times> 'r \<Rightarrow> 'e list \<times> 'r" where
  "withdraw_step get put act key = (\<lambda>(errs, r).
     case get r key of
       None \<Rightarrow> (errs, r)
     | Some a \<Rightarrow>
         (case act a r of (gone, es, r') \<Rightarrow> (errs @ es, if gone then put (map_del (get r') key) r' else r')))"

definition gone_if_ok :: "('e, 'r) call \<Rightarrow> 'r \<Rightarrow> bool \<times> 'e list \<times> 'r" where
  "gone_if_ok f r = (case f r of (Some e, r') \<Rightarrow> (False, [e], r') | (None, r') \<Rightarrow> (True, [], r'))"

definition withdraw_prefix :: "Vtysh \<Rightarrow> PrefixIntent \<Rightarrow> Reconciler \<Rightarrow> bool \<times> RecErr list \<times> Reconciler" where
  "withdraw_prefix vt p r =
     (if px_Protocol p = ProtocolBGP then
        (case frr (WithdrawNetwork vt (px_Prefix p) (detectAFI (px_Prefix p))) r of
           (Some e, r') \<Rightarrow> (False, [e], r')
         | (None, r') \<Rightarrow>
             if hasAttributes p then
               (case frr (RemoveRouteMap vt (routeMapName p)) r' of
                  (Some e, r'') \<Rightarrow> (True, [e], r'')
                | (None, r'') \<Rightarrow> (True, [], r''))
             else (True, [], r'))
      else (True, [], r))"

definition WithdrawAll :: "Vtysh \<Rightarrow> Order \<Rightarrow> Reconciler \<Rightarrow> RecErr list \<times> Reconciler" where
  "WithdrawAll vt ord r =
     (if rc_frrClient r = None then ([], r)
      else
        let s1 = fold (withdraw_step rc_appliedPrefixes (\<lambda>m r. r\<lparr>rc_appliedPrefixes := m\<rparr>) (withdraw_prefix vt))
                   (ord ''withdraw prefixes'' (dom (rc_appliedPrefixes r))) ([], r);
            s2 = fold (withdraw_step rc_appliedBFD (\<lambda>m r. r\<lparr>rc_appliedBFD := m\<rparr>)
                         (\<lambda>b. gone_if_ok (frr (RemoveBFDPeer vt (bi_PeerAddress b) (bi_InterfaceName b)))))
                   (ord ''withdraw bfd'' (dom (rc_appliedBFD (snd s1)))) s1;
            s3 = fold (withdraw_step rc_appliedOSPF (\<lambda>m r. r\<lparr>rc_appliedOSPF := m\<rparr>)
                         (\<lambda>i. gone_if_ok (removeOSPFFromFRR vt i)))
                   (ord ''withdraw ospf'' (dom (rc_appliedOSPF (snd s2)))) s2;
            (errs, r') = fold (withdraw_step rc_appliedPeers (\<lambda>m r. r\<lparr>rc_appliedPeers := m\<rparr>)
                         (\<lambda>p. gone_if_ok (frr (RemoveNeighbor vt (pi_NeighborAddress p)))))
                   (ord ''withdraw peers'' (dom (rc_appliedPeers (snd s3)))) s3
        in if errs \<noteq> [] then (errs, r')
           else ([], r'\<lparr>rc_lastBGPStates := Map.empty, rc_lastBFDStates := Map.empty, rc_lastOSPFStates := Map.empty\<rparr>))"

section \<open>Monitoring\<close>

definition publish :: "EventType \<Rightarrow> string \<Rightarrow> string \<Rightarrow> (string \<rightharpoonup> string) \<Rightarrow> Reconciler \<Rightarrow> Reconciler" where
  "publish t owner detail meta r =
     r\<lparr>rc_events := rc_events r @ [\<lparr>ev_Type = t, ev_Owner = owner, ev_Detail = detail, ev_Metadata = meta\<rparr>]\<rparr>"

text \<open>The owner of the first intent of a list that satisfies a test; the empty text without one.\<close>

definition find_owner :: "('i \<Rightarrow> bool) \<Rightarrow> ('i \<Rightarrow> string) \<Rightarrow> 'i list \<Rightarrow> string" where
  "find_owner P own xs = (case List.find P xs of None \<Rightarrow> [] | Some x \<Rightarrow> own x)"

definition findPeerOwner :: "Order \<Rightarrow> IntentStore \<Rightarrow> string \<Rightarrow> string" where
  "findPeerOwner ord st addr = find_owner (\<lambda>p. pi_NeighborAddress p = addr) pi_Owner (GetPeerIntents ord st)"

definition findBFDOwner :: "Order \<Rightarrow> IntentStore \<Rightarrow> string \<Rightarrow> string" where
  "findBFDOwner ord st addr = find_owner (\<lambda>b. bi_PeerAddress b = addr) bi_Owner (GetBFDIntents ord st)"

definition findOSPFOwnerByNeighbor :: "Order \<Rightarrow> IntentStore \<Rightarrow> string \<Rightarrow> string" where
  "findOSPFOwnerByNeighbor ord st iface = find_owner (\<lambda>i. oi_InterfaceName i = iface) oi_Owner (GetOSPFIntents ord st)"

text \<open>One BGP neighbor that FRR reports, and one that it no longer reports.\<close>

definition bgp_seen :: "(string \<Rightarrow> string) \<Rightarrow> string \<times> string \<Rightarrow> Reconciler \<Rightarrow> Reconciler" where
  "bgp_seen owner = (\<lambda>(addr, state) r.
     (case rc_lastBGPStates r addr of
        Some prev \<Rightarrow>
          let detail = ''BGP peer '' @ addr @ '' is now '' @ state @ '' (was '' @ prev @ '')'';
              meta = [''peer'' \<mapsto> addr, ''state'' \<mapsto> state, ''previous_state'' \<mapsto> prev]
          in if prev \<noteq> state \<and> state = ''Established'' then publish EventTypePeerUp (owner addr) detail meta r
             else if prev \<noteq> state \<and> prev = ''Established'' then publish EventTypePeerDown (owner addr) detail meta r
             else r
      | None \<Rightarrow>
          if state = ''Established''
          then publish EventTypePeerUp (owner addr) (''BGP peer '' @ addr @ '' is Established'')
                 [''peer'' \<mapsto> addr, ''state'' \<mapsto> state] r
          else r)\<lparr>rc_lastBGPStates := (rc_lastBGPStates r)(addr \<mapsto> state)\<rparr>)"

definition bgp_gone :: "(string \<Rightarrow> string) \<Rightarrow> string set \<Rightarrow> string \<Rightarrow> Reconciler \<Rightarrow> Reconciler" where
  "bgp_gone owner current addr r =
     (case rc_lastBGPStates r addr of
        None \<Rightarrow> r
      | Some prev \<Rightarrow>
          if addr \<in> current then r
          else (if prev = ''Established''
                then publish EventTypePeerDown (owner addr) (''BGP peer '' @ addr @ '' disappeared from FRR (was '' @ prev @ '')'')
                       [''peer'' \<mapsto> addr, ''state'' \<mapsto> ''gone'', ''previous_state'' \<mapsto> prev] r
                else r)\<lparr>rc_lastBGPStates := map_del (rc_lastBGPStates r) addr\<rparr>)"

definition monitorBGPNeighbors ::
    "Order \<Rightarrow> (string \<Rightarrow> string) \<Rightarrow> (string \<times> string) list option \<Rightarrow> Reconciler \<Rightarrow> Reconciler" where
  "monitorBGPNeighbors ord owner answer r =
     (case answer of
        None \<Rightarrow> r
      | Some nbrs \<Rightarrow>
          let r1 = fold (bgp_seen owner) nbrs r
          in fold (bgp_gone owner (fst ` set nbrs)) (ord ''bgp gone'' (dom (rc_lastBGPStates r1))) r1)"

definition bfd_seen :: "(string \<Rightarrow> string) \<Rightarrow> string \<times> string \<Rightarrow> Reconciler \<Rightarrow> Reconciler" where
  "bfd_seen owner = (\<lambda>(addr, status) r.
     (case rc_lastBFDStates r addr of
        Some prev \<Rightarrow>
          let meta = [''peer'' \<mapsto> addr, ''status'' \<mapsto> status, ''previous_status'' \<mapsto> prev]
          in if prev = status then r
             else if status = ''up''
             then publish EventTypeBFDUp (owner addr) (''BFD peer '' @ addr @ '' is now up (was '' @ prev @ '')'') meta r
             else publish EventTypeBFDDown (owner addr)
                    (''BFD peer '' @ addr @ '' is now '' @ status @ '' (was '' @ prev @ '')'') meta r
      | None \<Rightarrow>
          if status = ''up''
          then publish EventTypeBFDUp (owner addr) (''BFD peer '' @ addr @ '' is up'') [''peer'' \<mapsto> addr, ''status'' \<mapsto> status] r
          else r)\<lparr>rc_lastBFDStates := (rc_lastBFDStates r)(addr \<mapsto> status)\<rparr>)"

definition bfd_gone :: "(string \<Rightarrow> string) \<Rightarrow> string set \<Rightarrow> string \<Rightarrow> Reconciler \<Rightarrow> Reconciler" where
  "bfd_gone owner current addr r =
     (case rc_lastBFDStates r addr of
        None \<Rightarrow> r
      | Some prev \<Rightarrow>
          if addr \<in> current then r
          else (if prev = ''up''
                then publish EventTypeBFDDown (owner addr) (''BFD peer '' @ addr @ '' disappeared from FRR (was '' @ prev @ '')'')
                       [''peer'' \<mapsto> addr, ''status'' \<mapsto> ''gone'', ''previous_status'' \<mapsto> prev] r
                else r)\<lparr>rc_lastBFDStates := map_del (rc_lastBFDStates r) addr\<rparr>)"

definition monitorBFDPeers ::
    "Order \<Rightarrow> (string \<Rightarrow> string) \<Rightarrow> (string \<times> string) list option \<Rightarrow> Reconciler \<Rightarrow> Reconciler" where
  "monitorBFDPeers ord owner answer r =
     (case answer of
        None \<Rightarrow> r
      | Some peers \<Rightarrow>
          let r1 = fold (bfd_seen owner) peers r
          in fold (bfd_gone owner (fst ` set peers)) (ord ''bfd gone'' (dom (rc_lastBFDStates r1))) r1)"

text \<open>An OSPF neighbor is reported with its identifier, its state and its interface.\<close>

definition ospf_seen :: "(string \<Rightarrow> string) \<Rightarrow> string \<times> string \<times> string \<Rightarrow> Reconciler \<Rightarrow> Reconciler" where
  "ospf_seen owner = (\<lambda>(nbr, state, iface) r.
     (case rc_lastOSPFStates r nbr of
        Some (prev, _) \<Rightarrow>
          let detail = ''OSPF neighbor '' @ nbr @ '' is now '' @ state @ '' (was '' @ prev @ '')'';
              meta = [''neighbor_id'' \<mapsto> nbr, ''state'' \<mapsto> state, ''previous_state'' \<mapsto> prev]
          in if prev \<noteq> state \<and> state = ''Full'' then publish EventTypeOSPFNeighborUp (owner iface) detail meta r
             else if prev \<noteq> state \<and> prev = ''Full'' then publish EventTypeOSPFNeighborDown (owner iface) detail meta r
             else r
      | None \<Rightarrow>
          if state = ''Full''
          then publish EventTypeOSPFNeighborUp (owner iface) (''OSPF neighbor '' @ nbr @ '' is Full'')
                 [''neighbor_id'' \<mapsto> nbr, ''state'' \<mapsto> state] r
          else r)\<lparr>rc_lastOSPFStates := (rc_lastOSPFStates r)(nbr \<mapsto> (state, iface))\<rparr>)"

definition ospf_gone :: "(string \<Rightarrow> string) \<Rightarrow> string set \<Rightarrow> string \<Rightarrow> Reconciler \<Rightarrow> Reconciler" where
  "ospf_gone owner current nbr r =
     (case rc_lastOSPFStates r nbr of
        None \<Rightarrow> r
      | Some (prev, iface) \<Rightarrow>
          if nbr \<in> current then r
          else (if prev = ''Full''
                then publish EventTypeOSPFNeighborDown (owner iface)
                       (''OSPF neighbor '' @ nbr @ '' disappeared from FRR (was '' @ prev @ '')'')
                       [''neighbor_id'' \<mapsto> nbr, ''state'' \<mapsto> ''gone'', ''previous_state'' \<mapsto> prev] r
                else r)\<lparr>rc_lastOSPFStates := map_del (rc_lastOSPFStates r) nbr\<rparr>)"

definition monitorOSPFNeighbors ::
    "Order \<Rightarrow> (string \<Rightarrow> string) \<Rightarrow> (string \<times> string \<times> string) list option \<Rightarrow> Reconciler \<Rightarrow> Reconciler" where
  "monitorOSPFNeighbors ord owner answer r =
     (case answer of
        None \<Rightarrow> r
      | Some nbrs \<Rightarrow>
          let r1 = fold (ospf_seen owner) nbrs r
          in fold (ospf_gone owner (fst ` set nbrs)) (ord ''ospf gone'' (dom (rc_lastOSPFStates r1))) r1)"

text \<open>The answers of the three show commands; an answer that fails is \<^const>\<open>None\<close>.\<close>

record Shown =
  sh_bgp :: "(string \<times> string) list option"
  sh_bfd :: "(string \<times> string) list option"
  sh_ospf :: "(string \<times> string \<times> string) list option"

definition monitorFRRState :: "Order \<Rightarrow> IntentStore \<Rightarrow> Shown \<Rightarrow> Reconciler \<Rightarrow> Reconciler" where
  "monitorFRRState ord st sh r =
     (if rc_frrClient r = None \<or> \<not> rc_publisher r then r
      else monitorOSPFNeighbors ord (findOSPFOwnerByNeighbor ord st) (sh_ospf sh)
             (monitorBFDPeers ord (findBFDOwner ord st) (sh_bfd sh)
                (monitorBGPNeighbors ord (findPeerOwner ord st) (sh_bgp sh) r)))"

section \<open>A reconciliation cycle\<close>

definition Reconcile :: "Vtysh \<Rightarrow> Order \<Rightarrow> IntentStore \<Rightarrow> Shown \<Rightarrow> (RecErr, Reconciler) call" where
  "Reconcile vt ord st sh r =
     (if rc_frrClient r = None then (None, r)
      else case ensureBGPGlobal vt r of
             (Some e, r1) \<Rightarrow> (Some e, r1)
           | (None, r1) \<Rightarrow>
               let (e1, r2) = ReconcilePeers vt ord (GetPeerIntents ord st) r1;
                   (e2, r3) = ReconcilePrefixes vt ord (GetPrefixIntents ord st) r2;
                   (e3, r4) = ReconcileBFD vt ord (GetBFDIntents ord st) r3;
                   (e4, r5) = ReconcileOSPF vt ord (GetOSPFIntents ord st) r4
               in (first_error (List.map_filter id [e1, e2, e3, e4]), monitorFRRState ord st sh r5))"

section \<open>What the loop guarantees\<close>

lemma fold_invariant':
  "P s \<Longrightarrow> (\<And>x s. x \<in> set xs \<Longrightarrow> P s \<Longrightarrow> P (f x s)) \<Longrightarrow> P (fold f xs s)"
  by (induction xs arbitrary: s) auto

lemma first_error_None [simp]: "first_error errs = None \<longleftrightarrow> errs = []"
  by (cases errs) (auto simp: first_error_def)

lemma dom_desired_map: "dom (desired_map key ds) = key ` set ds"
proof -
  have "dom (foldl (\<lambda>m d. m(key d \<mapsto> d)) m ds) = dom m \<union> key ` set ds" for m
    by (induction ds arbitrary: m) auto
  then show ?thesis by (simp add: desired_map_def)
qed

lemma desired_map_Some: "desired_map key ds k = Some d \<Longrightarrow> d \<in> set ds \<and> key d = k"
proof -
  have "foldl (\<lambda>m d. m(key d \<mapsto> d)) m ds k = Some d \<Longrightarrow> m k = Some d \<or> d \<in> set ds \<and> key d = k" for m
  proof (induction ds arbitrary: m)
    case (Cons a ds)
    from Cons.IH [of "m(key a \<mapsto> a)"] Cons.prems show ?case by (auto split: if_splits)
  qed simp
  from this [of Map.empty] show "desired_map key ds k = Some d \<Longrightarrow> d \<in> set ds \<and> key d = k"
    by (simp add: desired_map_def)
qed

lemma finite_desired_map [simp]: "finite (dom (desired_map key ds))"
  by (simp add: dom_desired_map)

text \<open>A property of the state that every step keeps is kept by the loop.\<close>

lemma sync_keeps:
  assumes "P r" "\<And>x d r. P r \<Longrightarrow> P (snd (app x d r))" "\<And>a r. P r \<Longrightarrow> P (snd (rem a r))" "\<And>m r. P r \<Longrightarrow> P (put m r)"
  shows "P (snd (sync ord l get put eq app skip rem desired r))"
proof -
  have a: "P (snd (apply_step get put eq app desired k s))" if "P (snd s)" for k s
    using that assms(2) [of "snd s" "get (snd s) k" "the (desired k)"] assms(4)
    by (cases s) (auto simp: apply_step_def split: option.splits prod.splits if_splits)
  have d: "P (snd (remove_step get put skip rem desired k s))" if "P (snd s)" for k s
    using that assms(3) [of "snd s" "the (get (snd s) k)"] assms(4)
    by (cases s) (auto simp: remove_step_def split: option.splits prod.splits if_splits)
  define s1 where "s1 = fold (apply_step get put eq app desired) (ord (l @ '' apply'') (dom desired)) ([], r)"
  have "P (snd s1)"
    unfolding s1_def by (rule fold_invariant' [where P = "\<lambda>s. P (snd s)"]) (use assms(1) a in auto)
  then have "P (snd (fold (remove_step get put skip rem desired) ks s1))" for ks
    by (rule fold_invariant' [where P = "\<lambda>s. P (snd s)"]) (use d in auto)
  then show ?thesis by (cases s1) (simp add: sync_def s1_def [symmetric] split: prod.split, metis snd_conv)
qed

text \<open>
  A kind of intents. The applied intents are read with \<open>get\<close> and written with \<open>put\<close>; \<open>ready\<close> is the
  condition under which a call can succeed, \<open>acceptable\<close> what is asked of a desired intent, and
  \<open>removable\<close> what is known of an applied one.
\<close>

locale sync_target =
  fixes get :: "'r \<Rightarrow> (string \<rightharpoonup> 'i)"
    and put :: "(string \<rightharpoonup> 'i) \<Rightarrow> 'r \<Rightarrow> 'r"
    and eq :: "'i \<Rightarrow> 'i \<Rightarrow> bool"
    and app :: "'i option \<Rightarrow> 'i \<Rightarrow> ('e, 'r) call"
    and skip :: "string \<Rightarrow> 'r \<Rightarrow> bool"
    and rem :: "'i \<Rightarrow> ('e, 'r) call"
    and ready :: "'r \<Rightarrow> bool"
    and acceptable :: "'i \<Rightarrow> bool"
    and removable :: "'i \<Rightarrow> bool"
  assumes get_put: "get (put m r) = m"
    and app_get: "get (snd (app x d r)) = get r"
    and rem_get: "get (snd (rem a r)) = get r"
    and skip_app: "skip k (snd (app x d r)) = skip k r"
    and skip_rem: "skip k (snd (rem a r)) = skip k r"
    and skip_put: "skip k (put m r) = skip k r"
    and ready_put: "ready r \<Longrightarrow> ready (put m r)"
    and ready_app: "ready r \<Longrightarrow> ready (snd (app x d r))"
    and ready_rem: "ready r \<Longrightarrow> ready (snd (rem a r))"
    and app_succeeds: "ready r \<Longrightarrow> acceptable d \<Longrightarrow> fst (app x d r) = None"
    and app_removable: "fst (app x d r) = None \<Longrightarrow> removable d"
    and rem_succeeds: "ready r \<Longrightarrow> removable a \<Longrightarrow> fst (rem a r) = None"
    and eq_refl: "eq d d"
begin

definition in_sync :: "(string \<rightharpoonup> 'i) \<Rightarrow> 'r \<Rightarrow> bool" where
  "in_sync desired r \<longleftrightarrow>
     (\<forall>k d. desired k = Some d \<longrightarrow> (\<exists>a. get r k = Some a \<and> eq a d)) \<and>
     (\<forall>k. desired k = None \<and> get r k \<noteq> None \<longrightarrow> skip k r)"

definition all_removable :: "'r \<Rightarrow> bool" where
  "all_removable r \<longleftrightarrow> (\<forall>k a. get r k = Some a \<longrightarrow> removable a)"

text \<open>What processing the keys \<open>K\<close> does, with the errors \<open>es\<close>, and how two such runs compose.\<close>

definition apply_effect :: "(string \<rightharpoonup> 'i) \<Rightarrow> string set \<Rightarrow> 'r \<Rightarrow> 'r \<Rightarrow> 'e list \<Rightarrow> bool" where
  "apply_effect desired K r r' es \<longleftrightarrow>
     (\<forall>j. skip j r' = skip j r) \<and> (\<forall>j. j \<notin> K \<longrightarrow> get r' j = get r j) \<and>
     (\<forall>j. get r' j \<noteq> None \<longrightarrow> get r j \<noteq> None \<or> desired j \<noteq> None) \<and>
     (all_removable r \<longrightarrow> all_removable r') \<and> (ready r \<longrightarrow> ready r') \<and>
     (es = [] \<longrightarrow> (\<forall>k \<in> K. \<forall>d. desired k = Some d \<longrightarrow> (\<exists>a. get r' k = Some a \<and> eq a d))) \<and>
     (ready r \<longrightarrow> (\<forall>k d. desired k = Some d \<longrightarrow> acceptable d) \<longrightarrow> es = [])"

definition remove_effect :: "(string \<rightharpoonup> 'i) \<Rightarrow> string set \<Rightarrow> 'r \<Rightarrow> 'r \<Rightarrow> 'e list \<Rightarrow> bool" where
  "remove_effect desired K r r' es \<longleftrightarrow>
     (\<forall>j. skip j r' = skip j r) \<and> (\<forall>j. desired j \<noteq> None \<longrightarrow> get r' j = get r j) \<and>
     (\<forall>j. get r j = None \<longrightarrow> get r' j = None) \<and>
     (all_removable r \<longrightarrow> all_removable r') \<and> (ready r \<longrightarrow> ready r') \<and>
     (es = [] \<longrightarrow> (\<forall>k \<in> K. desired k = None \<longrightarrow> get r' k \<noteq> None \<longrightarrow> skip k r)) \<and>
     (ready r \<longrightarrow> all_removable r \<longrightarrow> es = [])"

lemma apply_effect_trans:
  assumes 1: "apply_effect desired K r r1 es1" and 2: "apply_effect desired J r1 r2 es2"
  shows "apply_effect desired (K \<union> J) r r2 (es1 @ es2)"
proof -
  note d = 1 [unfolded apply_effect_def] 2 [unfolded apply_effect_def]
  have "\<exists>a. get r2 k = Some a \<and> eq a d'" if "es1 @ es2 = []" "k \<in> K \<union> J" "desired k = Some d'" for k d'
    using that d by (cases "k \<in> J") auto
  moreover have "get r j \<noteq> None \<or> desired j \<noteq> None" if "get r2 j \<noteq> None" for j using that d by metis
  moreover have "es1 @ es2 = []" if "ready r" "\<forall>k d. desired k = Some d \<longrightarrow> acceptable d" using that d by simp
  ultimately show ?thesis using d by (simp add: apply_effect_def)
qed

lemma remove_effect_trans:
  assumes 1: "remove_effect desired K r r1 es1" and 2: "remove_effect desired J r1 r2 es2"
  shows "remove_effect desired (K \<union> J) r r2 (es1 @ es2)"
proof -
  note d = 1 [unfolded remove_effect_def] 2 [unfolded remove_effect_def]
  have "skip k r" if "es1 @ es2 = []" "k \<in> K \<union> J" "desired k = None" "get r2 k \<noteq> None" for k
  proof -
    have "get r1 k \<noteq> None" using that(4) d by metis
    with that d show ?thesis by (cases "k \<in> J") auto
  qed
  moreover have "es1 @ es2 = []" if "ready r" "all_removable r" using that d by simp
  ultimately show ?thesis using d by (simp add: remove_effect_def)
qed

lemma apply_step_effect:
  assumes "apply_step get put eq app desired k (errs, r) = (errs', r')"
  shows "\<exists>es. errs' = errs @ es \<and> apply_effect desired {k} r r' es"
proof (cases "\<exists>d. desired k = Some d \<and> \<not> (\<exists>a. get r k = Some a \<and> eq a d)")
  case False
  then have g: "errs' = errs" "r' = r"
    using assms by (auto simp: apply_step_def split: option.splits if_splits prod.splits)
  have "apply_effect desired {k} r r' []" using False unfolding apply_effect_def g by simp
  with g show ?thesis by simp
next
  case True
  then obtain d where d: "desired k = Some d" "\<not> (\<exists>a. get r k = Some a \<and> eq a d)" by blast
  obtain e s where a: "app (get r k) d r = (e, s)" by (cases "app (get r k) d r")
  have s: "get s = get r" "\<And>j. skip j s = skip j r" "ready r \<Longrightarrow> ready s"
    using a app_get [of "get r k" d r] skip_app [of _ "get r k" d r] ready_app [of r "get r k" d] by auto
  have res: "(errs', r') = (case e of Some x \<Rightarrow> (errs @ [x], s) | None \<Rightarrow> (errs, put ((get s)(k \<mapsto> d)) s))"
    using assms d a by (auto simp: apply_step_def split: option.splits)
  show ?thesis
  proof (cases e)
    case None
    then have rm: "removable d" using app_removable [of "get r k" d r] a by simp
    have g: "errs' = errs" "get r' = (get r)(k \<mapsto> d)" "\<And>j. skip j r' = skip j r" "ready r \<Longrightarrow> ready r'"
      using res None s by (simp_all add: get_put skip_put ready_put)
    have "all_removable r \<longrightarrow> all_removable r'" using rm by (simp add: all_removable_def g)
    then have "apply_effect desired {k} r r' []" unfolding apply_effect_def by (simp add: g d eq_refl)
    with g show ?thesis by simp
  next
    case (Some x)
    have g: "errs' = errs @ [x]" "get r' = get r" "\<And>j. skip j r' = skip j r" "ready r \<Longrightarrow> ready r'"
      using res Some s by simp_all
    have "\<not> (ready r \<and> acceptable d)" using Some app_succeeds [of r d "get r k"] a by auto
    then have "apply_effect desired {k} r r' [x]"
      unfolding apply_effect_def using d(1) by (auto simp: g all_removable_def)
    with g show ?thesis by simp
  qed
qed

lemma remove_step_effect:
  assumes "remove_step get put skip rem desired k (errs, r) = (errs', r')"
  shows "\<exists>es. errs' = errs @ es \<and> remove_effect desired {k} r r' es"
proof (cases "\<exists>a. get r k = Some a \<and> desired k = None \<and> \<not> skip k r")
  case False
  then have g: "errs' = errs" "r' = r"
    using assms by (auto simp: remove_step_def split: option.splits if_splits prod.splits)
  have "remove_effect desired {k} r r' []" using False unfolding remove_effect_def g by auto
  with g show ?thesis by simp
next
  case True
  then obtain a where a: "get r k = Some a" "desired k = None" "\<not> skip k r" by blast
  obtain e s where c: "rem a r = (e, s)" by (cases "rem a r")
  have s: "get s = get r" "\<And>j. skip j s = skip j r" "ready r \<Longrightarrow> ready s"
    using c rem_get [of a r] skip_rem [of _ a r] ready_rem [of r a] by auto
  have res: "(errs', r') = (case e of Some x \<Rightarrow> (errs @ [x], s) | None \<Rightarrow> (errs, put (map_del (get s) k) s))"
    using assms a c by (auto simp: remove_step_def split: option.splits)
  show ?thesis
  proof (cases e)
    case None
    have g: "errs' = errs" "get r' = map_del (get r) k" "\<And>j. skip j r' = skip j r" "ready r \<Longrightarrow> ready r'"
      using res None s by (simp_all add: get_put skip_put ready_put)
    have "all_removable r \<longrightarrow> all_removable r'" by (simp add: all_removable_def g)
    then have "remove_effect desired {k} r r' []" unfolding remove_effect_def using a(2) by (auto simp: g)
    with g show ?thesis by simp
  next
    case (Some x)
    have g: "errs' = errs @ [x]" "get r' = get r" "\<And>j. skip j r' = skip j r" "ready r \<Longrightarrow> ready r'"
      using res Some s by simp_all
    have "\<not> (ready r \<and> all_removable r)" using Some rem_succeeds [of r a] c a by (auto simp: all_removable_def)
    then have "remove_effect desired {k} r r' [x]" unfolding remove_effect_def by (auto simp: g all_removable_def)
    with g show ?thesis by simp
  qed
qed

lemma apply_loop_effect:
  "fold (apply_step get put eq app desired) ks (errs, r) = (errs', r') \<Longrightarrow>
    \<exists>es. errs' = errs @ es \<and> apply_effect desired (set ks) r r' es"
proof (induction ks arbitrary: errs r)
  case Nil
  then show ?case by (simp add: apply_effect_def)
next
  case (Cons k ks)
  obtain e1 r1 where s: "apply_step get put eq app desired k (errs, r) = (e1, r1)"
    by (cases "apply_step get put eq app desired k (errs, r)")
  obtain es1 where 1: "e1 = errs @ es1" "apply_effect desired {k} r r1 es1" using apply_step_effect [OF s] by blast
  have "fold (apply_step get put eq app desired) ks (e1, r1) = (errs', r')" using Cons.prems s by simp
  from Cons.IH [OF this] obtain es2 where 2: "errs' = e1 @ es2" "apply_effect desired (set ks) r1 r' es2" by blast
  show ?case using apply_effect_trans [OF 1(2) 2(2)] 1(1) 2(1) by (intro exI [of _ "es1 @ es2"]) simp
qed

lemma remove_loop_effect:
  "fold (remove_step get put skip rem desired) ks (errs, r) = (errs', r') \<Longrightarrow>
    \<exists>es. errs' = errs @ es \<and> remove_effect desired (set ks) r r' es"
proof (induction ks arbitrary: errs r)
  case Nil
  then show ?case by (simp add: remove_effect_def)
next
  case (Cons k ks)
  obtain e1 r1 where s: "remove_step get put skip rem desired k (errs, r) = (e1, r1)"
    by (cases "remove_step get put skip rem desired k (errs, r)")
  obtain es1 where 1: "e1 = errs @ es1" "remove_effect desired {k} r r1 es1" using remove_step_effect [OF s] by blast
  have "fold (remove_step get put skip rem desired) ks (e1, r1) = (errs', r')" using Cons.prems s by simp
  from Cons.IH [OF this] obtain es2 where 2: "errs' = e1 @ es2" "remove_effect desired (set ks) r1 r' es2" by blast
  show ?case using remove_effect_trans [OF 1(2) 2(2)] 1(1) 2(1) by (intro exI [of _ "es1 @ es2"]) simp
qed

text \<open>The whole pass: success means that the applied intents agree with the desired ones, and a pass whose
  calls are accepted is successful.\<close>

lemma sync_effect:
  assumes "fair ord" "finite (dom desired)" "finite (dom (get r))"
    and "sync ord l get put eq app skip rem desired r = (e, r')"
  shows "e = None \<Longrightarrow> in_sync desired r'" "all_removable r \<Longrightarrow> all_removable r'" "ready r \<Longrightarrow> ready r'"
    "finite (dom (get r'))"
    "ready r \<Longrightarrow> all_removable r \<Longrightarrow> (\<And>k d. desired k = Some d \<Longrightarrow> acceptable d) \<Longrightarrow> e = None"
proof -
  define ks1 where "ks1 = ord (l @ '' apply'') (dom desired)"
  obtain e1 r1 where f1: "fold (apply_step get put eq app desired) ks1 ([], r) = (e1, r1)" by fastforce
  have 1: "apply_effect desired (set ks1) r r1 e1" using apply_loop_effect [OF f1] by simp
  have ks1: "set ks1 = dom desired" using assms(1,2) by (simp add: fair_def ks1_def)
  have "get r j \<noteq> None \<or> desired j \<noteq> None" if "get r1 j \<noteq> None" for j
    using that 1 by (simp add: apply_effect_def)
  then have "dom (get r1) \<subseteq> dom (get r) \<union> dom desired" by blast
  then have fin: "finite (dom (get r1))" using assms(2,3) by (meson finite_UnI finite_subset)
  define ks2 where "ks2 = ord (l @ '' remove'') (dom (get r1))"
  have ks2: "set ks2 = dom (get r1)" using assms(1) fin by (simp add: fair_def ks2_def)
  obtain e2 r2 where f2: "fold (remove_step get put skip rem desired) ks2 (e1, r1) = (e2, r2)" by fastforce
  obtain es where es: "e2 = e1 @ es" and 2: "remove_effect desired (set ks2) r1 r2 es"
    using remove_loop_effect [OF f2] by blast
  have res: "e = first_error e2" "r' = r2"
    using assms(4) f1 f2 by (simp_all add: sync_def ks1_def ks2_def)
  have n: "get r1 k \<noteq> None" if "get r2 k \<noteq> None" for k using that 2 unfolding remove_effect_def by metis
  show "e = None \<Longrightarrow> in_sync desired r'"
  proof -
    assume "e = None"
    then have nil: "e1 = []" "es = []" using res es by simp_all
    have "\<exists>a. get r2 k = Some a \<and> eq a d" if "desired k = Some d" for k d
      using that 1 2 ks1 nil(1) by (auto simp: apply_effect_def remove_effect_def)
    moreover have "skip k r2" if "desired k = None" "get r2 k \<noteq> None" for k
    proof -
      have "k \<in> set ks2" using n [OF that(2)] ks2 by blast
      with that 2 nil(2) show ?thesis by (simp add: remove_effect_def)
    qed
    ultimately show ?thesis unfolding in_sync_def res by blast
  qed
  show "all_removable r \<Longrightarrow> all_removable r'" "ready r \<Longrightarrow> ready r'"
    using res 1 2 by (simp_all add: apply_effect_def remove_effect_def)
  show "finite (dom (get r'))"
    unfolding res by (rule finite_subset [OF _ fin]) (use n in blast)
  show "ready r \<Longrightarrow> all_removable r \<Longrightarrow> (\<And>k d. desired k = Some d \<Longrightarrow> acceptable d) \<Longrightarrow> e = None"
    using res es 1 2 by (simp add: apply_effect_def remove_effect_def)
qed

text \<open>A pass over an applied state that already agrees does nothing at all.\<close>

lemma sync_quiet:
  assumes "in_sync desired r"
  shows "sync ord l get put eq app skip rem desired r = (None, r)"
proof -
  have "apply_step get put eq app desired k (errs, r) = (errs, r)" for k errs
    using assms by (fastforce simp: in_sync_def apply_step_def split: option.splits)
  then have a: "fold (apply_step get put eq app desired) ks (errs, r) = (errs, r)" for ks errs
    by (induction ks) auto
  have "remove_step get put skip rem desired k (errs, r) = (errs, r)" for k errs
    using assms by (auto simp: in_sync_def remove_step_def split: option.splits)
  then have "fold (remove_step get put skip rem desired) ks (errs, r) = (errs, r)" for ks errs
    by (induction ks) auto
  with a show ?thesis by (simp add: sync_def first_error_def)
qed

end

section \<open>What calls keep\<close>

text \<open>A call keeps a view of the state when it never changes it.\<close>

definition keeps :: "('s \<Rightarrow> 'b) \<Rightarrow> ('e, 's) call \<Rightarrow> bool" where
  "keeps h f \<longleftrightarrow> (\<forall>r. h (snd (f r)) = h r)"

named_theorems keeps_intros \<open>calls that keep a view of the state\<close>

lemma keepsD: "keeps h f \<Longrightarrow> h (snd (f r)) = h r"
  by (simp add: keeps_def)

lemma keeps_then [keeps_intros]: "keeps h f \<Longrightarrow> keeps h g \<Longrightarrow> keeps h (and_then f g)"
  unfolding keeps_def and_then_def by (auto split: prod.split option.split) (metis snd_conv)+

lemma keeps_each [keeps_intros]: "(\<And>x. keeps h (f x)) \<Longrightarrow> keeps h (each_call f xs)"
proof (induction xs)
  case (Cons x xs)
  have "keeps h (and_then (f x) (each_call f xs))" using Cons by (intro keeps_then) auto
  then show ?case by (simp add: keeps_def)
qed (simp add: keeps_def)

lemma keeps_Pair [keeps_intros]: "keeps h (Pair e)"
  by (simp add: keeps_def)

lemma keeps_if [keeps_intros]: "(b \<Longrightarrow> keeps h f) \<Longrightarrow> (\<not> b \<Longrightarrow> keeps h g) \<Longrightarrow> keeps h (if b then f else g)"
  by simp

text \<open>The view of the client that calls other than those for the BGP instance keep.\<close>

definition las :: "Reconciler \<Rightarrow> u32 option" where
  "las r = map_option cl_localAS (rc_frrClient r)"

lemma keeps_frr [keeps_intros]: "(\<And>r c. h (r\<lparr>rc_frrClient := Some c\<rparr>) = h r) \<Longrightarrow> keeps h (frr f)"
  by (auto simp: keeps_def frr_def split: option.split)

lemma keeps_las [keeps_intros]: "(\<And>c. cl_localAS (snd (f c)) = cl_localAS c) \<Longrightarrow> keeps las (frr f)"
  by (auto simp: keeps_def frr_def las_def split: option.split)

lemma las_upd [simp]:
  "las (r\<lparr>rc_appliedPeers := a\<rparr>) = las r" "las (r\<lparr>rc_appliedPrefixes := b\<rparr>) = las r"
  "las (r\<lparr>rc_appliedBFD := c\<rparr>) = las r" "las (r\<lparr>rc_appliedOSPF := d\<rparr>) = las r"
  "las (r\<lparr>rc_peerManagedBFD := e\<rparr>) = las r" "las (r\<lparr>rc_lastBGPStates := f\<rparr>) = las r"
  "las (r\<lparr>rc_lastBFDStates := g\<rparr>) = las r" "las (r\<lparr>rc_bgpConfigured := h\<rparr>) = las r"
  by (simp_all add: las_def)

lemma keeps_peer:
  assumes "\<And>r c. h (r\<lparr>rc_frrClient := Some c\<rparr>) = h r"
    "\<And>r m b. h (r\<lparr>rc_peerManagedBFD := m, rc_appliedBFD := b\<rparr>) = h r"
  shows "keeps h (applyPeerIntent vt p)"
proof -
  have f: "keeps h (frr f)" for f by (rule keeps_frr) (rule assms(1))
  have b: "keeps h (\<lambda>r. frr g (r\<lparr>rc_peerManagedBFD := m r, rc_appliedBFD := b r\<rparr>))" for g m b
    using f [of g] assms(2) by (simp add: keeps_def)
  have c: "keeps h (\<lambda>r. if P r then and_then (frr g) (\<lambda>r. (None, r\<lparr>rc_peerManagedBFD := m r, rc_appliedBFD := b r\<rparr>)) r else (None, r))"
    for g m b P
  proof -
    have "keeps h (and_then (frr g) (\<lambda>r. (None, r\<lparr>rc_peerManagedBFD := m r, rc_appliedBFD := b r\<rparr>)))"
      using assms(2) by (intro keeps_then f) (simp add: keeps_def)
    then show ?thesis by (simp add: keeps_def)
  qed
  show ?thesis
    unfolding applyPeerIntent_def applyPeerBFD_def Let_def for_families_def
    by (intro keeps_then keeps_each keeps_if keeps_Pair f b c)
qed

lemma keeps_peer_las: "keeps las (applyPeerIntent vt p)"
proof -
  have b: "keeps las (\<lambda>r. frr (SetNeighborBFD vt a x) (r\<lparr>rc_peerManagedBFD := m r, rc_appliedBFD := b r\<rparr>))" for a x m b
    using keeps_las [of "SetNeighborBFD vt a x"] by (simp add: keeps_def)
  have c: "keeps las (\<lambda>r. if P r then and_then (frr (RemoveBFDPeer vt a i)) (\<lambda>r. (None, r\<lparr>rc_peerManagedBFD := m r, rc_appliedBFD := b r\<rparr>)) r else (None, r))"
    for a i m b P
  proof -
    have "keeps las (and_then (frr (RemoveBFDPeer vt a i)) (\<lambda>r. (None, r\<lparr>rc_peerManagedBFD := m r, rc_appliedBFD := b r\<rparr>)))"
      by (intro keeps_then keeps_las) (simp_all add: keeps_def)
    then show ?thesis by (simp add: keeps_def)
  qed
  show ?thesis
    unfolding applyPeerIntent_def applyPeerBFD_def Let_def for_families_def
    by (intro keeps_then keeps_each keeps_if keeps_Pair keeps_las b c) simp_all
qed

lemma keeps_drop_peer_session:
  assumes "\<And>r c. h (r\<lparr>rc_frrClient := Some c\<rparr>) = h r"
    "\<And>r m b s. h (r\<lparr>rc_peerManagedBFD := m, rc_appliedBFD := b, rc_lastBFDStates := s\<rparr>) = h r"
  shows "h (drop_peer_session vt addr r) = h r"
  unfolding drop_peer_session_def Let_def
  using assms(2) keepsD [OF keeps_frr [of h], OF assms(1)] by simp

lemma drop_peer_session_las: "las (drop_peer_session vt addr r) = las r"
proof -
  have "las (snd (frr (SetNeighborBFD vt a b) r)) = las r" "las (snd (frr (RemoveBFDPeer vt a i) r)) = las r" for a b i r
    by (rule keepsD, rule keeps_las, simp)+
  then show ?thesis by (simp add: drop_peer_session_def Let_def)
qed

lemma keeps_drop_peer:
  assumes "\<And>r c. h (r\<lparr>rc_frrClient := Some c\<rparr>) = h r"
    "\<And>r m b s. h (r\<lparr>rc_peerManagedBFD := m, rc_appliedBFD := b, rc_lastBFDStates := s\<rparr>) = h r"
    "\<And>r s. h (r\<lparr>rc_lastBGPStates := s\<rparr>) = h r"
  shows "keeps h (drop_peer vt ap)"
proof -
  have "keeps h (and_then (removePeerFromFRR vt a) (\<lambda>r. (None, r\<lparr>rc_lastBGPStates := s r\<rparr>)))" for a s
    unfolding removePeerFromFRR_def
    by (intro keeps_then keeps_frr) (simp_all add: keeps_def assms(1,3))
  then have "h (snd (drop_peer vt ap r)) = h (drop_peer_session vt (pi_NeighborAddress ap) r)" for r
    unfolding drop_peer_def by (rule keepsD)
  then show ?thesis using keeps_drop_peer_session [of h, OF assms(1,2)] by (simp add: keeps_def)
qed

lemma keeps_drop_peer_las: "keeps las (drop_peer vt ap)"
proof -
  have "keeps las (and_then (removePeerFromFRR vt a) (\<lambda>r. (None, r\<lparr>rc_lastBGPStates := s r\<rparr>)))" for a s
    unfolding removePeerFromFRR_def by (intro keeps_then keeps_las) (simp_all add: keeps_def)
  then have "las (snd (drop_peer vt ap r)) = las (drop_peer_session vt (pi_NeighborAddress ap) r)" for r
    unfolding drop_peer_def by (rule keepsD)
  then show ?thesis using drop_peer_session_las by (simp add: keeps_def)
qed

text \<open>The calls for prefixes, sessions and interfaces only touch the client and the last BFD states.\<close>

lemma keeps_prefix:
  assumes "\<And>f. keeps h (frr f)"
  shows "keeps h (applyPrefixIntent vt p)" "keeps h (update_prefix vt x p)" "keeps h (removePrefixFromFRR vt p)"
proof -
  show a: "keeps h (applyPrefixIntent vt p)"
    unfolding applyPrefixIntent_def Let_def by (intro keeps_intros assms)
  show "keeps h (update_prefix vt x p)"
    using a assms unfolding keeps_def update_prefix_def by (auto split: option.split)
  have "keeps h (\<lambda>r. (None, if b then snd (frr f r) else r))" for b f
    using assms [of f] by (simp add: keeps_def)
  then show "keeps h (removePrefixFromFRR vt p)"
    unfolding removePrefixFromFRR_def by (intro keeps_intros assms)
qed

lemma keeps_prefix_las:
  "keeps las (applyPrefixIntent vt p)" "keeps las (update_prefix vt x p)" "keeps las (removePrefixFromFRR vt p)"
proof -
  show a: "keeps las (applyPrefixIntent vt p)"
    unfolding applyPrefixIntent_def Let_def by (intro keeps_then keeps_if keeps_Pair keeps_las) simp_all
  have rm: "keeps las (frr (RemoveRouteMap vt n))" for n by (rule keeps_las) simp
  show "keeps las (update_prefix vt x p)"
    using a rm unfolding keeps_def update_prefix_def by (auto split: option.split)
  have "keeps las (\<lambda>r. (None, if b then snd (frr (RemoveRouteMap vt n) r) else r))" for b n
    using rm [of n] by (simp add: keeps_def)
  then show "keeps las (removePrefixFromFRR vt p)"
    unfolding removePrefixFromFRR_def by (intro keeps_then keeps_if keeps_Pair keeps_las) simp_all
qed

lemma keeps_bfd:
  assumes "\<And>r c. h (r\<lparr>rc_frrClient := Some c\<rparr>) = h r" "\<And>r s. h (r\<lparr>rc_lastBFDStates := s\<rparr>) = h r"
  shows "keeps h (applyBFDIntent vt b)" "keeps h (drop_bfd vt b)"
  unfolding applyBFDIntent_def drop_bfd_def removeBFDFromFRR_def
  by (intro keeps_then keeps_frr; simp add: keeps_def assms)+

lemma keeps_bfd_las: "keeps las (applyBFDIntent vt b)" "keeps las (drop_bfd vt b)"
  unfolding applyBFDIntent_def drop_bfd_def removeBFDFromFRR_def
  by (intro keeps_then keeps_las; simp add: keeps_def)+

lemma keeps_ospf:
  assumes "\<And>f. keeps h (frr f)"
  shows "keeps h (applyOSPFIntent vt i)" "keeps h (removeOSPFFromFRR vt i)"
  unfolding applyOSPFIntent_def removeOSPFFromFRR_def by (intro keeps_intros assms)+

lemma keeps_ospf_las: "keeps las (applyOSPFIntent vt i)" "keeps las (removeOSPFFromFRR vt i)"
  unfolding applyOSPFIntent_def removeOSPFFromFRR_def by (intro keeps_if keeps_las; simp)+

section \<open>Calls that succeed\<close>

text \<open>The client is there and knows its AS, and \<open>vtysh\<close> accepts what it is sent.\<close>

definition ready :: "Vtysh \<Rightarrow> Reconciler \<Rightarrow> bool" where
  "ready vt r \<longleftrightarrow> accepts vt \<and> (\<exists>a. las r = Some a \<and> a \<noteq> 0)"

definition succeeds :: "Vtysh \<Rightarrow> (RecErr, Reconciler) call \<Rightarrow> bool" where
  "succeeds vt f \<longleftrightarrow> (\<forall>r. ready vt r \<longrightarrow> fst (f r) = None \<and> ready vt (snd (f r)))"

named_theorems succeeds_intros \<open>calls that succeed\<close>

lemma ready_keeps: "keeps las f \<Longrightarrow> ready vt r \<Longrightarrow> ready vt (snd (f r))"
  by (simp add: ready_def keeps_def)

lemma succeeds_then [succeeds_intros]: "succeeds vt f \<Longrightarrow> succeeds vt g \<Longrightarrow> succeeds vt (and_then f g)"
  unfolding succeeds_def and_then_def by (auto split: prod.split option.split)

lemma succeeds_each [succeeds_intros]: "(\<And>x. succeeds vt (f x)) \<Longrightarrow> succeeds vt (each_call f xs)"
proof (induction xs)
  case (Cons x xs)
  have "succeeds vt (and_then (f x) (each_call f xs))" using Cons by (intro succeeds_then) auto
  then show ?case by (simp add: succeeds_def)
qed (simp add: succeeds_def)

lemma succeeds_Pair [succeeds_intros]: "succeeds vt (Pair None)"
  by (simp add: succeeds_def)

lemma succeeds_if [succeeds_intros]: "(b \<Longrightarrow> succeeds vt f) \<Longrightarrow> (\<not> b \<Longrightarrow> succeeds vt g) \<Longrightarrow> succeeds vt (if b then f else g)"
  by simp

lemma succeeds_frr:
  assumes "\<And>c. cl_localAS c \<noteq> 0 \<Longrightarrow> accepts vt \<Longrightarrow> fst (f c) = None" "\<And>c. cl_localAS (snd (f c)) = cl_localAS c"
  shows "succeeds vt (frr f)"
  using assms by (auto simp: succeeds_def ready_def frr_def las_def)

lemma frr_accepted:
  assumes "accepts vt"
  shows "AddNeighbor_check a cfg = None \<Longrightarrow> cl_localAS c \<noteq> 0 \<Longrightarrow> fst (AddNeighbor vt a ras k h cfg c) = None"
    "validateIPAddress a = None \<Longrightarrow> fst (RemoveNeighbor vt a c) = None"
    "validateIPAddress a = None \<Longrightarrow> resolveAFICLI afi = Inr n \<Longrightarrow> fst (ActivateNeighborAFI vt a afi c) = None"
    "validateIPAddress a = None \<Longrightarrow> resolveAFICLI afi = Inr n \<Longrightarrow> fst (SetNeighborMaxPrefix vt a m w afi c) = None"
    "validateIPAddress a = None \<Longrightarrow> fst (SetNeighborBFD vt a b c) = None"
    "bfd_check a i = None \<Longrightarrow> fst (AddBFDPeer vt a rx tx dm i c) = None"
    "bfd_check a i = None \<Longrightarrow> fst (RemoveBFDPeer vt a i c) = None"
    "sanitizeVTYParam p = None \<Longrightarrow> resolveAFICLI afi = Inr n \<Longrightarrow> fst (AdvertiseNetwork vt p afi c) = None"
    "sanitizeVTYParam p = None \<Longrightarrow> resolveAFICLI afi = Inr n \<Longrightarrow> fst (WithdrawNetwork vt p afi c) = None"
    "sanitizeVTYParam p = None \<Longrightarrow> sanitizeVTYParam rm = None \<Longrightarrow> resolveAFICLI afi = Inr n \<Longrightarrow>
       fst (AdvertiseNetworkWithRouteMap vt p afi rm c) = None"
    "sanitizeVTYParam rm = None \<Longrightarrow> list_all (\<lambda>s. sanitizeVTYParam s = None) sets \<Longrightarrow> fst (ConfigureRouteMap vt rm sets c) = None"
    "sanitizeVTYParam i = None \<Longrightarrow> sanitizeVTYParam ar = None \<Longrightarrow> fst (EnableOSPFInterface vt i ar pas co he de c) = None"
    "sanitizeVTYParam i = None \<Longrightarrow> sanitizeVTYParam ar = None \<Longrightarrow> fst (EnableOSPFv3Interface vt i ar pas co c) = None"
    "sanitizeVTYParam i = None \<Longrightarrow> sanitizeVTYParam ar = None \<Longrightarrow> fst (DisableOSPFInterface vt i ar pas c) = None"
    "sanitizeVTYParam i = None \<Longrightarrow> sanitizeVTYParam ar = None \<Longrightarrow> fst (DisableOSPFv3Interface vt i ar pas c) = None"
  using runConfig_accepted [OF assms] in_family_accepted [OF assms]
  by (auto simp: frr_ops fst_checked list_all_iff list_ex_iff)

lemma family_known: "resolveAddressFamily af \<noteq> [] \<Longrightarrow> \<exists>n. resolveAFICLI (resolveAddressFamily af) = Inr n"
  by (auto simp: resolveAddressFamily_def resolveAFICLI_def split: if_splits)

lemma detectAFI_known: "\<exists>n. resolveAFICLI (detectAFI p) = Inr n"
  by (auto simp: detectAFI_def resolveAFICLI_def)

subsection \<open>Acceptable intents\<close>

definition peer_ok :: "PeerIntent \<Rightarrow> bool" where
  "peer_ok p \<longleftrightarrow> AddNeighbor_check (pi_NeighborAddress p) (Some (neighbor_config p)) = None"

definition prefix_ok :: "PrefixIntent \<Rightarrow> bool" where
  "prefix_ok p \<longleftrightarrow> px_Protocol p = ProtocolOSPF \<or>
     px_Protocol p = ProtocolBGP \<and> sanitizeVTYParam (px_Prefix p) = None \<and>
     list_all (\<lambda>s. sanitizeVTYParam s = None) (route_map_sets p)"

definition bfd_ok :: "BFDIntent \<Rightarrow> bool" where
  "bfd_ok b \<longleftrightarrow> bfd_check (bi_PeerAddress b) (bi_InterfaceName b) = None"

definition ospf_ok :: "OSPFIntent \<Rightarrow> bool" where
  "ospf_ok i \<longleftrightarrow> sanitizeVTYParam (oi_InterfaceName i) = None \<and> sanitizeVTYParam (oi_AreaID i) = None"

definition prefix_removable :: "PrefixIntent \<Rightarrow> bool" where
  "prefix_removable p \<longleftrightarrow> px_Protocol p = ProtocolOSPF \<or>
     px_Protocol p = ProtocolBGP \<and> sanitizeVTYParam (px_Prefix p) = None"

lemma peer_ok_address: "peer_ok p \<Longrightarrow> validateIPAddress (pi_NeighborAddress p) = None"
  by (auto simp: peer_ok_def AddNeighbor_check_def split: if_splits)

lemma bfd_check_peer: "bfd_check a [] = validateIPAddress a"
  by (simp add: bfd_check_def)

lemma has_control_map:
  assumes "\<And>c. ctl_byte (f c) = ctl_byte c" "\<And>c. of_char (f c) = (194 :: nat) \<longleftrightarrow> of_char c = (194 :: nat)"
    "\<And>c. (128 \<le> (of_char (f c) :: nat) \<and> of_char (f c) \<le> (159 :: nat)) \<longleftrightarrow> (128 \<le> (of_char c :: nat) \<and> of_char c \<le> (159 :: nat))"
  shows "has_control (map f s) = has_control s"
  using assms by (induction s rule: has_control.induct) auto

lemma routeMapName_clean: "sanitizeVTYParam (px_Prefix p) = None \<Longrightarrow> sanitizeVTYParam (routeMapName p) = None"
proof -
  have r: "has_control (replace_byte a (CHR ''-'') s) = has_control s" if "a = CHR '':'' \<or> a = CHR ''/''" for a s
    unfolding replace_byte_def using that by (intro has_control_map) (auto simp: ctl_byte_def)
  have "has_control (''NR-PFX-'' @ s) = has_control s" for s by (cases s) (auto simp: ctl_byte_def)
  then have "has_control (routeMapName p) = has_control (px_Prefix p)"
    unfolding routeMapName_def using r by simp
  then show "sanitizeVTYParam (px_Prefix p) = None \<Longrightarrow> sanitizeVTYParam (routeMapName p) = None"
    by (simp add: sanitizeVTYParam_def)
qed

subsection \<open>The four kinds of intents\<close>

lemma succeeds_families:
  assumes "\<And>afi n c. accepts vt \<Longrightarrow> resolveAFICLI afi = Inr n \<Longrightarrow> fst (f afi c) = None"
    "\<And>afi c. cl_localAS (snd (f afi c)) = cl_localAS c"
  shows "succeeds vt (for_families f afs)"
  unfolding for_families_def
proof (intro succeeds_each succeeds_if succeeds_Pair succeeds_frr assms(2))
  fix af c assume "resolveAddressFamily af \<noteq> []" "accepts vt"
  then show "fst (f (resolveAddressFamily af) c) = None" using family_known assms(1) by blast
qed

lemma succeeds_apply_peer:
  assumes "peer_ok p"
  shows "succeeds vt (applyPeerIntent vt p)"
proof -
  note a = peer_ok_address [OF assms]
  have upd: "ready vt (r\<lparr>rc_peerManagedBFD := m, rc_appliedBFD := b\<rparr>) = ready vt r" for r m b by (simp add: ready_def las_def)
  have nb: "succeeds vt (frr (SetNeighborBFD vt (pi_NeighborAddress p) x))" for x
    by (rule succeeds_frr) (simp_all add: frr_accepted a)
  have rm: "succeeds vt (frr (RemoveBFDPeer vt (pi_NeighborAddress p) []))"
    by (rule succeeds_frr) (simp_all add: frr_accepted bfd_check_peer a)
  have on: "succeeds vt (\<lambda>r. frr (SetNeighborBFD vt (pi_NeighborAddress p) True) (r\<lparr>rc_peerManagedBFD := m r, rc_appliedBFD := b r\<rparr>))" for m b
    using nb [of True] by (simp add: succeeds_def upd)
  have off: "succeeds vt (\<lambda>r. if P r then and_then (frr (RemoveBFDPeer vt (pi_NeighborAddress p) []))
      (\<lambda>r. (None, r\<lparr>rc_peerManagedBFD := m r, rc_appliedBFD := b r\<rparr>)) r else (None, r))" for m b P
  proof -
    have "succeeds vt (and_then (frr (RemoveBFDPeer vt (pi_NeighborAddress p) []))
        (\<lambda>r. (None, r\<lparr>rc_peerManagedBFD := m r, rc_appliedBFD := b r\<rparr>)))"
      by (intro succeeds_then rm) (simp add: succeeds_def upd)
    then show ?thesis by (simp add: succeeds_def)
  qed
  have add: "succeeds vt (frr (AddNeighbor vt (pi_NeighborAddress p) (pi_RemoteAS p) (pi_Keepalive p) (pi_HoldTime p) (Some (neighbor_config p))))"
    by (rule succeeds_frr) (use assms in \<open>simp_all add: frr_accepted peer_ok_def\<close>)
  have bfd: "succeeds vt (frr (AddBFDPeer vt (pi_NeighborAddress p) x y z []))" for x y z
    by (rule succeeds_frr) (simp_all add: frr_accepted bfd_check_peer a)
  show ?thesis
    unfolding applyPeerIntent_def applyPeerBFD_def Let_def
    by (intro succeeds_then succeeds_if succeeds_families add nb bfd on off) (simp_all add: frr_accepted a)
qed

lemma succeeds_drop_peer:
  assumes "validateIPAddress (pi_NeighborAddress ap) = None"
  shows "succeeds vt (drop_peer vt ap)"
proof -
  have "succeeds vt (and_then (removePeerFromFRR vt (pi_NeighborAddress ap)) (\<lambda>r. (None, r\<lparr>rc_lastBGPStates := s r\<rparr>)))" for s
    unfolding removePeerFromFRR_def
    by (intro succeeds_then succeeds_frr) (simp_all add: frr_accepted assms succeeds_def ready_def)
  moreover have "ready vt r \<Longrightarrow> ready vt (drop_peer_session vt (pi_NeighborAddress ap) r)" for r
    by (simp add: ready_def drop_peer_session_las)
  ultimately show ?thesis by (simp add: succeeds_def drop_peer_def)
qed

lemma succeeds_update_prefix:
  assumes "prefix_ok p"
  shows "succeeds vt (update_prefix vt x p)"
proof -
  have "succeeds vt (applyPrefixIntent vt p)"
  proof (cases "px_Protocol p = ProtocolBGP")
    case True
    then have p: "sanitizeVTYParam (px_Prefix p) = None" "list_all (\<lambda>s. sanitizeVTYParam s = None) (route_map_sets p)"
      using assms by (auto simp: prefix_ok_def protocol_defs)
    obtain n where n: "resolveAFICLI (detectAFI (px_Prefix p)) = Inr n" using detectAFI_known by blast
    show ?thesis unfolding applyPrefixIntent_def Let_def
      by (intro succeeds_if succeeds_then succeeds_frr) (use True p n routeMapName_clean [OF p(1)] in \<open>simp_all add: frr_accepted\<close>)
  next
    case False
    then have "px_Protocol p = ProtocolOSPF" using assms by (simp add: prefix_ok_def)
    then show ?thesis unfolding applyPrefixIntent_def Let_def by (simp add: protocol_defs succeeds_def)
  qed
  moreover have "ready vt r \<Longrightarrow> ready vt (snd (frr (RemoveRouteMap vt m) r))" for m r
    by (rule ready_keeps) (rule keeps_las, simp)
  ultimately show ?thesis by (auto simp: succeeds_def update_prefix_def split: option.split)
qed

lemma succeeds_remove_prefix:
  assumes "prefix_removable p"
  shows "succeeds vt (removePrefixFromFRR vt p)"
proof -
  obtain n where n: "resolveAFICLI (detectAFI (px_Prefix p)) = Inr n" using detectAFI_known by blast
  have "ready vt r \<Longrightarrow> ready vt (snd (frr (RemoveRouteMap vt m) r))" for m r
    by (rule ready_keeps) (rule keeps_las, simp)
  then have "succeeds vt (\<lambda>r. (None, if b then snd (frr (RemoveRouteMap vt m) r) else r))" for b m
    by (simp add: succeeds_def)
  moreover have "succeeds vt (frr (WithdrawNetwork vt (px_Prefix p) (detectAFI (px_Prefix p))))" if "px_Protocol p = ProtocolBGP"
    by (rule succeeds_frr) (use that assms n in \<open>auto simp: frr_accepted prefix_removable_def protocol_defs\<close>)
  ultimately show ?thesis
    using assms by (auto simp: removePrefixFromFRR_def prefix_removable_def protocol_defs intro!: succeeds_then succeeds_Pair)
qed

lemma frr_failed: "fst (f c) \<noteq> None \<Longrightarrow> rc_frrClient r = Some c \<Longrightarrow> fst (frr f r) \<noteq> None"
  by (simp add: frr_def)

lemma and_then_None: "fst (and_then f g r) = None \<Longrightarrow> fst (f r) = None \<and> fst (g (snd (f r))) = None"
  by (cases "f r"; cases "fst (f r)") (auto simp: and_then_def)

lemma checked_None: "fst (checked e f c) = None \<Longrightarrow> e = None"
  by (cases e) (auto simp: checked_def)

lemma frr_None: "fst (frr f r) = None \<Longrightarrow> \<exists>c. fst (f c) = None"
  by (auto simp: frr_def split: option.splits)

lemma frr_checked_None: "fst (frr (checked e f) r) = None \<Longrightarrow> e = None"
  using frr_None [of "checked e f" r] checked_None [of e f] by blast

lemma applied_peer_address: "fst (applyPeerIntent vt p r) = None \<Longrightarrow> validateIPAddress (pi_NeighborAddress p) = None"
proof -
  assume "fst (applyPeerIntent vt p r) = None"
  from and_then_None [OF this [unfolded applyPeerIntent_def Let_def]]
  have "fst (frr (AddNeighbor vt (pi_NeighborAddress p) (pi_RemoteAS p) (pi_Keepalive p) (pi_HoldTime p) (Some (neighbor_config p))) r) = None"
    by blast
  then have "AddNeighbor_check (pi_NeighborAddress p) (Some (neighbor_config p)) = None"
    unfolding AddNeighbor_def by (rule frr_checked_None)
  then show ?thesis by (auto simp: AddNeighbor_check_def split: if_splits)
qed

lemma applied_prefix_removable: "fst (update_prefix vt x p r) = None \<Longrightarrow> prefix_removable p"
proof -
  assume "fst (update_prefix vt x p r) = None"
  then obtain s where s: "fst (applyPrefixIntent vt p s) = None" by (auto simp: update_prefix_def)
  show ?thesis
  proof (cases "px_Protocol p = ProtocolBGP")
    case True
    have "sanitizeVTYParam (px_Prefix p) = None"
      using s True by (auto simp: applyPrefixIntent_def Let_def AdvertiseNetwork_def AdvertiseNetworkWithRouteMap_def
          dest!: and_then_None dest: frr_checked_None split: if_splits)
    with True show ?thesis by (simp add: prefix_removable_def)
  next
    case False
    with s have "px_Protocol p = ProtocolOSPF" by (auto simp: applyPrefixIntent_def Let_def split: if_splits)
    then show ?thesis by (simp add: prefix_removable_def)
  qed
qed

lemma applied_bfd_ok: "fst (applyBFDIntent vt b r) = None \<Longrightarrow> bfd_ok b"
  unfolding applyBFDIntent_def AddBFDPeer_def bfd_ok_def by (rule frr_checked_None)

lemma applied_ospf_ok: "fst (applyOSPFIntent vt i r) = None \<Longrightarrow> ospf_ok i"
proof -
  have c: "e1 = None \<and> e2 = None" if "fst (frr (checked e1 (checked e2 f)) r) = None" for e1 e2 f
    using frr_None [OF that] checked_None [of e1 "checked e2 f"] by (metis checked_None checked_def option.simps(4))
  assume "fst (applyOSPFIntent vt i r) = None"
  then show ?thesis unfolding applyOSPFIntent_def EnableOSPFInterface_def EnableOSPFv3Interface_def ospf_ok_def
    by (auto split: if_splits dest: c)
qed

lemma succeeds_bfd:
  assumes "bfd_ok b"
  shows "succeeds vt (applyBFDIntent vt b)" "succeeds vt (drop_bfd vt b)"
  unfolding applyBFDIntent_def drop_bfd_def removeBFDFromFRR_def
  by (intro succeeds_then succeeds_frr; use assms in \<open>simp add: frr_accepted bfd_ok_def succeeds_def ready_def\<close>)+

lemma succeeds_ospf:
  assumes "ospf_ok i"
  shows "succeeds vt (applyOSPFIntent vt i)" "succeeds vt (removeOSPFFromFRR vt i)"
  unfolding applyOSPFIntent_def removeOSPFFromFRR_def
  by (intro succeeds_if succeeds_frr; use assms in \<open>simp add: frr_accepted ospf_ok_def\<close>)+

lemma succeedsD: "succeeds vt f \<Longrightarrow> ready vt r \<Longrightarrow> fst (f r) = None"
  by (simp add: succeeds_def)

lemma ready_upd [simp]:
  "ready vt (r\<lparr>rc_appliedPeers := a\<rparr>) = ready vt r" "ready vt (r\<lparr>rc_appliedPrefixes := b\<rparr>) = ready vt r"
  "ready vt (r\<lparr>rc_appliedBFD := c\<rparr>) = ready vt r" "ready vt (r\<lparr>rc_appliedOSPF := d\<rparr>) = ready vt r"
  by (simp_all add: ready_def)

interpretation peers: sync_target rc_appliedPeers "\<lambda>m r. r\<lparr>rc_appliedPeers := m\<rparr>" peerEqual
  "\<lambda>existing. applyPeerIntent vt" "\<lambda>key r. False" "drop_peer vt" "ready vt" peer_ok
  "\<lambda>p. validateIPAddress (pi_NeighborAddress p) = None" for vt
proof unfold_locales
  fix x d r
  show "rc_appliedPeers (snd (applyPeerIntent vt d r)) = rc_appliedPeers r"
    by (rule keepsD, rule keeps_peer) simp_all
  show "rc_appliedPeers (snd (drop_peer vt d r)) = rc_appliedPeers r"
    by (rule keepsD, rule keeps_drop_peer) simp_all
qed (auto simp: peerEqual_def intro: ready_keeps keeps_peer_las keeps_drop_peer_las applied_peer_address
    succeedsD [OF succeeds_apply_peer] succeedsD [OF succeeds_drop_peer])

interpretation prefixes: sync_target rc_appliedPrefixes "\<lambda>m r. r\<lparr>rc_appliedPrefixes := m\<rparr>" prefixEqual
  "update_prefix vt" "\<lambda>key r. False" "removePrefixFromFRR vt" "ready vt" prefix_ok prefix_removable for vt
proof unfold_locales
  fix x d r
  have "keeps rc_appliedPrefixes (frr f)" for f by (rule keeps_frr) simp
  then show "rc_appliedPrefixes (snd (update_prefix vt x d r)) = rc_appliedPrefixes r"
    "rc_appliedPrefixes (snd (removePrefixFromFRR vt d r)) = rc_appliedPrefixes r"
    by (auto intro!: keepsD keeps_prefix)
qed (auto simp: prefixEqual_def intro: ready_keeps keeps_prefix_las applied_prefix_removable
    succeedsD [OF succeeds_update_prefix] succeedsD [OF succeeds_remove_prefix])

interpretation sessions: sync_target rc_appliedBFD "\<lambda>m r. r\<lparr>rc_appliedBFD := m\<rparr>" bfdEqual
  "\<lambda>existing. applyBFDIntent vt" "\<lambda>key r. key \<in> rc_peerManagedBFD r" "drop_bfd vt" "ready vt" bfd_ok bfd_ok for vt
proof unfold_locales
  fix x d r k
  show "rc_appliedBFD (snd (applyBFDIntent vt d r)) = rc_appliedBFD r" "rc_appliedBFD (snd (drop_bfd vt d r)) = rc_appliedBFD r"
    by (rule keepsD, rule keeps_bfd; simp)+
  have "rc_peerManagedBFD (snd (applyBFDIntent vt d r)) = rc_peerManagedBFD r"
    "rc_peerManagedBFD (snd (drop_bfd vt d r)) = rc_peerManagedBFD r"
    by (rule keepsD, rule keeps_bfd; simp)+
  then show "(k \<in> rc_peerManagedBFD (snd (applyBFDIntent vt d r))) = (k \<in> rc_peerManagedBFD r)"
    "(k \<in> rc_peerManagedBFD (snd (drop_bfd vt d r))) = (k \<in> rc_peerManagedBFD r)" by simp_all
qed (auto simp: bfdEqual_def intro: ready_keeps keeps_bfd_las applied_bfd_ok succeedsD [OF succeeds_bfd(1)] succeedsD [OF succeeds_bfd(2)])

interpretation interfaces: sync_target rc_appliedOSPF "\<lambda>m r. r\<lparr>rc_appliedOSPF := m\<rparr>" ospfEqual
  "\<lambda>existing. applyOSPFIntent vt" "\<lambda>key r. False" "removeOSPFFromFRR vt" "ready vt" ospf_ok ospf_ok for vt
proof unfold_locales
  fix x d r
  have "keeps rc_appliedOSPF (frr f)" for f by (rule keeps_frr) simp
  then show "rc_appliedOSPF (snd (applyOSPFIntent vt d r)) = rc_appliedOSPF r"
    "rc_appliedOSPF (snd (removeOSPFFromFRR vt d r)) = rc_appliedOSPF r"
    by (auto intro!: keepsD keeps_ospf)
qed (auto simp: ospfEqual_def intro: ready_keeps keeps_ospf_las applied_ospf_ok succeedsD [OF succeeds_ospf(1)] succeedsD [OF succeeds_ospf(2)])

section \<open>Invariants of the applied state\<close>

definition rec_ok :: "Reconciler \<Rightarrow> bool" where
  "rec_ok r \<longleftrightarrow>
     finite (dom (rc_appliedPeers r)) \<and> finite (dom (rc_appliedPrefixes r)) \<and> finite (dom (rc_appliedBFD r)) \<and>
     finite (dom (rc_appliedOSPF r)) \<and>
     (\<forall>k p. rc_appliedPeers r k = Some p \<longrightarrow> validateIPAddress (pi_NeighborAddress p) = None) \<and>
     (\<forall>k p. rc_appliedPrefixes r k = Some p \<longrightarrow> prefix_removable p) \<and>
     (\<forall>k b. rc_appliedBFD r k = Some b \<longrightarrow> bfd_ok b) \<and>
     (\<forall>k i. rc_appliedOSPF r k = Some i \<longrightarrow> ospf_ok i)"

definition bfd_inv :: "Reconciler \<Rightarrow> bool" where
  "bfd_inv r \<longleftrightarrow> finite (dom (rc_appliedBFD r)) \<and> (\<forall>k b. rc_appliedBFD r k = Some b \<longrightarrow> bfd_ok b)"

definition preserves :: "('s \<Rightarrow> bool) \<Rightarrow> ('e, 's) call \<Rightarrow> bool" where
  "preserves P f \<longleftrightarrow> (\<forall>r. P r \<longrightarrow> P (snd (f r)))"

lemma preserves_then:
  assumes "preserves P f" "\<And>r. fst (f r) = None \<Longrightarrow> P (snd (f r)) \<Longrightarrow> P (snd (g (snd (f r))))"
  shows "preserves P (and_then f g)"
  unfolding preserves_def
proof (intro allI impI)
  fix r assume "P r"
  then have "P (snd (f r))" using assms(1) by (simp add: preserves_def)
  then show "P (snd (and_then f g r))"
    using assms(2) [of r] by (cases "f r"; cases "fst (f r)") (auto simp: and_then_def)
qed

lemma preserves_keeps: "keeps h f \<Longrightarrow> (\<And>r s. h r = h s \<Longrightarrow> P r = P s) \<Longrightarrow> preserves P f"
  unfolding keeps_def preserves_def by metis

lemma bfd_inv_view: "rc_appliedBFD r = rc_appliedBFD s \<Longrightarrow> bfd_inv r = bfd_inv s"
  by (simp add: bfd_inv_def)

lemma frr_bfd_inv: "preserves bfd_inv (frr f)"
  by (rule preserves_keeps [of rc_appliedBFD]) (rule keeps_frr, simp, rule bfd_inv_view)

lemma families_bfd_inv: "preserves bfd_inv (for_families f afs)"
proof -
  have "keeps rc_appliedBFD (frr g)" for g by (rule keeps_frr) simp
  then have "keeps rc_appliedBFD (for_families f afs)" unfolding for_families_def by (intro keeps_each keeps_if keeps_Pair)
  then show ?thesis using bfd_inv_view by (rule preserves_keeps)
qed

lemma preserves_seq: "preserves P f \<Longrightarrow> preserves P g \<Longrightarrow> preserves P (and_then f g)"
  by (rule preserves_then) (auto simp: preserves_def)

lemma peer_bfd_bfd_inv: "preserves bfd_inv (applyPeerBFD vt p)"
proof (cases "pi_BFDEnabled p")
  case True
  let ?a = "pi_NeighborAddress p"
  let ?add = "frr (AddBFDPeer vt ?a (pi_BFDMinRxMs p) (pi_BFDMinTxMs p) (pi_BFDDetectMultiplier p) [])"
  have on: "bfd_inv (snd (frr (SetNeighborBFD vt ?a True) (r\<lparr>rc_peerManagedBFD := m, rc_appliedBFD := (rc_appliedBFD r)(bfdKey ?a \<mapsto> peer_session p)\<rparr>)))"
    if chk: "bfd_check ?a [] = None" and inv: "bfd_inv r" for r m
  proof -
    have "bfd_inv (r\<lparr>rc_peerManagedBFD := m, rc_appliedBFD := (rc_appliedBFD r)(bfdKey ?a \<mapsto> peer_session p)\<rparr>)"
      using chk inv by (auto simp: bfd_inv_def bfd_ok_def peer_session_def)
    then show ?thesis using frr_bfd_inv by (simp add: preserves_def)
  qed
  have chk: "bfd_check ?a [] = None" if "fst (?add r) = None" for r
    using that unfolding AddBFDPeer_def by (rule frr_checked_None)
  show ?thesis
    unfolding applyPeerBFD_def Let_def if_P [OF True] by (intro preserves_then [OF frr_bfd_inv] on [OF chk])
next
  case False
  let ?a = "pi_NeighborAddress p"
  let ?off = "and_then (frr (RemoveBFDPeer vt ?a []))
      (\<lambda>r. (None, r\<lparr>rc_peerManagedBFD := rc_peerManagedBFD r - {bfdKey ?a}, rc_appliedBFD := map_del (rc_appliedBFD r) (bfdKey ?a)\<rparr>))"
  have "preserves bfd_inv ?off"
    by (rule preserves_then [OF frr_bfd_inv]) (auto simp: bfd_inv_def)
  then have "preserves bfd_inv (\<lambda>r. if bfdKey ?a \<in> rc_peerManagedBFD r then ?off r else (None, r))"
    by (simp add: preserves_def)
  then show ?thesis
    unfolding applyPeerBFD_def Let_def if_not_P [OF False] by (rule preserves_seq [OF frr_bfd_inv])
qed

lemma apply_peer_bfd_inv: "preserves bfd_inv (applyPeerIntent vt p)"
  unfolding applyPeerIntent_def Let_def
  by (intro preserves_seq frr_bfd_inv families_bfd_inv peer_bfd_bfd_inv)

lemma drop_peer_bfd_inv: "preserves bfd_inv (drop_peer vt ap)"
proof -
  have "bfd_inv r \<Longrightarrow> bfd_inv (drop_peer_session vt a r)" for a r
  proof -
    have "rc_appliedBFD (snd (frr f r)) = rc_appliedBFD r" for f r by (rule keepsD, rule keeps_frr) simp
    then show "bfd_inv r \<Longrightarrow> bfd_inv (drop_peer_session vt a r)"
      by (auto simp: drop_peer_session_def Let_def bfd_inv_def)
  qed
  moreover have "preserves bfd_inv (and_then (removePeerFromFRR vt a) (\<lambda>r. (None, r\<lparr>rc_lastBGPStates := s r\<rparr>)))" for a s
    unfolding removePeerFromFRR_def by (rule preserves_then [OF frr_bfd_inv]) (simp add: bfd_inv_def)
  ultimately show ?thesis by (simp add: preserves_def drop_peer_def)
qed

lemma ReconcilePeers_bfd_inv:
  assumes "bfd_inv r"
  shows "bfd_inv (snd (ReconcilePeers vt ord ds r))"
  unfolding ReconcilePeers_def
proof (rule sync_keeps [where P = bfd_inv, OF assms])
  fix d :: PeerIntent and s :: Reconciler
  assume s: "bfd_inv s"
  show "bfd_inv (snd (applyPeerIntent vt d s))" "bfd_inv (snd (drop_peer vt d s))"
    using apply_peer_bfd_inv [of vt d] drop_peer_bfd_inv [of vt d] s by (simp_all add: preserves_def)
  show "bfd_inv (s\<lparr>rc_appliedPeers := m\<rparr>)" for m using s by (simp add: bfd_inv_def)
qed

section \<open>Frames of the four passes\<close>

lemma sync_view:
  assumes "\<And>x d. keeps h (app x d)" "\<And>a. keeps h (rem a)" "\<And>m r. h (put m r) = h r"
  shows "h (snd (sync ord l get put eq app skip rem desired r)) = h r"
  by (rule sync_keeps [where P = "\<lambda>s. h s = h r"]) (use assms in \<open>simp_all add: keeps_def\<close>)

lemma ReconcilePeers_view:
  assumes "\<And>r c. h (r\<lparr>rc_frrClient := Some c\<rparr>) = h r"
    "\<And>r m b. h (r\<lparr>rc_peerManagedBFD := m, rc_appliedBFD := b\<rparr>) = h r"
    "\<And>r m b s. h (r\<lparr>rc_peerManagedBFD := m, rc_appliedBFD := b, rc_lastBFDStates := s\<rparr>) = h r"
    "\<And>r s. h (r\<lparr>rc_lastBGPStates := s\<rparr>) = h r" "\<And>r m. h (r\<lparr>rc_appliedPeers := m\<rparr>) = h r"
  shows "h (snd (ReconcilePeers vt ord ds r)) = h r"
  unfolding ReconcilePeers_def
  by (rule sync_view) (use assms in \<open>simp_all add: keeps_peer keeps_drop_peer\<close>)

lemma ReconcilePeers_las: "las (snd (ReconcilePeers vt ord ds r)) = las r"
  unfolding ReconcilePeers_def by (rule sync_view) (simp_all add: keeps_peer_las keeps_drop_peer_las)

lemma ReconcilePeers_frame [simp]:
  "rc_appliedPrefixes (snd (ReconcilePeers vt ord ds r)) = rc_appliedPrefixes r"
  "rc_appliedOSPF (snd (ReconcilePeers vt ord ds r)) = rc_appliedOSPF r"
  "rc_bgpConfigured (snd (ReconcilePeers vt ord ds r)) = rc_bgpConfigured r"
  "rc_bgpGlobal (snd (ReconcilePeers vt ord ds r)) = rc_bgpGlobal r"
  "rc_publisher (snd (ReconcilePeers vt ord ds r)) = rc_publisher r"
  by (rule ReconcilePeers_view; simp)+

lemma ReconcilePrefixes_view:
  assumes "\<And>r c. h (r\<lparr>rc_frrClient := Some c\<rparr>) = h r" "\<And>r m. h (r\<lparr>rc_appliedPrefixes := m\<rparr>) = h r"
  shows "h (snd (ReconcilePrefixes vt ord ds r)) = h r"
proof -
  have "keeps h (frr f)" for f by (rule keeps_frr) (rule assms(1))
  then show ?thesis unfolding ReconcilePrefixes_def by (intro sync_view keeps_prefix assms(2))
qed

lemma ReconcilePrefixes_las: "las (snd (ReconcilePrefixes vt ord ds r)) = las r"
  unfolding ReconcilePrefixes_def by (rule sync_view) (simp_all add: keeps_prefix_las)

lemma ReconcilePrefixes_frame [simp]:
  "rc_appliedPeers (snd (ReconcilePrefixes vt ord ds r)) = rc_appliedPeers r"
  "rc_appliedBFD (snd (ReconcilePrefixes vt ord ds r)) = rc_appliedBFD r"
  "rc_appliedOSPF (snd (ReconcilePrefixes vt ord ds r)) = rc_appliedOSPF r"
  "rc_peerManagedBFD (snd (ReconcilePrefixes vt ord ds r)) = rc_peerManagedBFD r"
  "rc_bgpConfigured (snd (ReconcilePrefixes vt ord ds r)) = rc_bgpConfigured r"
  "rc_bgpGlobal (snd (ReconcilePrefixes vt ord ds r)) = rc_bgpGlobal r"
  "rc_publisher (snd (ReconcilePrefixes vt ord ds r)) = rc_publisher r"
  by (rule ReconcilePrefixes_view; simp)+

lemma ReconcileBFD_view:
  assumes "\<And>r c. h (r\<lparr>rc_frrClient := Some c\<rparr>) = h r" "\<And>r s. h (r\<lparr>rc_lastBFDStates := s\<rparr>) = h r"
    "\<And>r m. h (r\<lparr>rc_appliedBFD := m\<rparr>) = h r"
  shows "h (snd (ReconcileBFD vt ord ds r)) = h r"
  unfolding ReconcileBFD_def by (rule sync_view) (use assms in \<open>simp_all add: keeps_bfd\<close>)

lemma ReconcileBFD_las: "las (snd (ReconcileBFD vt ord ds r)) = las r"
  unfolding ReconcileBFD_def by (rule sync_view) (simp_all add: keeps_bfd_las)

lemma ReconcileBFD_frame [simp]:
  "rc_appliedPeers (snd (ReconcileBFD vt ord ds r)) = rc_appliedPeers r"
  "rc_appliedPrefixes (snd (ReconcileBFD vt ord ds r)) = rc_appliedPrefixes r"
  "rc_appliedOSPF (snd (ReconcileBFD vt ord ds r)) = rc_appliedOSPF r"
  "rc_peerManagedBFD (snd (ReconcileBFD vt ord ds r)) = rc_peerManagedBFD r"
  "rc_bgpConfigured (snd (ReconcileBFD vt ord ds r)) = rc_bgpConfigured r"
  "rc_bgpGlobal (snd (ReconcileBFD vt ord ds r)) = rc_bgpGlobal r"
  "rc_publisher (snd (ReconcileBFD vt ord ds r)) = rc_publisher r"
  by (rule ReconcileBFD_view; simp)+

lemma ReconcileOSPF_view:
  assumes "\<And>r c. h (r\<lparr>rc_frrClient := Some c\<rparr>) = h r" "\<And>r m. h (r\<lparr>rc_appliedOSPF := m\<rparr>) = h r"
  shows "h (snd (ReconcileOSPF vt ord ds r)) = h r"
proof -
  have "keeps h (frr f)" for f by (rule keeps_frr) (rule assms(1))
  then show ?thesis unfolding ReconcileOSPF_def by (intro sync_view keeps_ospf assms(2))
qed

lemma ReconcileOSPF_las: "las (snd (ReconcileOSPF vt ord ds r)) = las r"
  unfolding ReconcileOSPF_def by (rule sync_view) (simp_all add: keeps_ospf_las)

lemma ReconcileOSPF_frame [simp]:
  "rc_appliedPeers (snd (ReconcileOSPF vt ord ds r)) = rc_appliedPeers r"
  "rc_appliedPrefixes (snd (ReconcileOSPF vt ord ds r)) = rc_appliedPrefixes r"
  "rc_appliedBFD (snd (ReconcileOSPF vt ord ds r)) = rc_appliedBFD r"
  "rc_peerManagedBFD (snd (ReconcileOSPF vt ord ds r)) = rc_peerManagedBFD r"
  "rc_bgpConfigured (snd (ReconcileOSPF vt ord ds r)) = rc_bgpConfigured r"
  "rc_bgpGlobal (snd (ReconcileOSPF vt ord ds r)) = rc_bgpGlobal r"
  "rc_publisher (snd (ReconcileOSPF vt ord ds r)) = rc_publisher r"
  by (rule ReconcileOSPF_view; simp)+

text \<open>Monitoring only touches the events and the last known states.\<close>

lemma publish_view: "(\<And>r es. h (r\<lparr>rc_events := es\<rparr>) = h r) \<Longrightarrow> h (publish t ow de me r) = h r"
  by (simp add: publish_def)

lemma monitor_view:
  assumes e: "\<And>r es. h (r\<lparr>rc_events := es\<rparr>) = h r"
    and b: "\<And>r s. h (r\<lparr>rc_lastBGPStates := s\<rparr>) = h r" and f: "\<And>r s. h (r\<lparr>rc_lastBFDStates := s\<rparr>) = h r"
    and i: "\<And>r s. h (r\<lparr>rc_lastOSPFStates := s\<rparr>) = h r"
  shows "h (monitorFRRState ord st sh r) = h r"
proof -
  have fold_h: "h (fold g xs r) = h r" if "\<And>x r. h (g x r) = h r" for g :: "'c \<Rightarrow> Reconciler \<Rightarrow> Reconciler" and xs r
    using that by (induction xs arbitrary: r) auto
  note p = publish_view [of h, OF e]
  have seen: "h (bgp_seen own x r) = h r" "h (bgp_gone own cur a r) = h r" "h (bfd_seen own x r) = h r"
    "h (bfd_gone own cur a r) = h r" "h (ospf_seen own y r) = h r" "h (ospf_gone own cur a r) = h r" for own x y cur a r
    by (auto simp: bgp_seen_def bgp_gone_def bfd_seen_def bfd_gone_def ospf_seen_def ospf_gone_def b f i p Let_def
        split: prod.split option.split)
  have "h (monitorBGPNeighbors ord own a1 r) = h r" "h (monitorBFDPeers ord own a2 r) = h r"
    "h (monitorOSPFNeighbors ord own a3 r) = h r" for own a1 a2 a3 r
    by (auto simp: monitorBGPNeighbors_def monitorBFDPeers_def monitorOSPFNeighbors_def Let_def fold_h seen split: option.split)
  then show ?thesis by (simp add: monitorFRRState_def)
qed

lemma monitor_frame [simp]:
  "rc_frrClient (monitorFRRState ord st sh r) = rc_frrClient r"
  "rc_appliedPeers (monitorFRRState ord st sh r) = rc_appliedPeers r"
  "rc_appliedPrefixes (monitorFRRState ord st sh r) = rc_appliedPrefixes r"
  "rc_appliedBFD (monitorFRRState ord st sh r) = rc_appliedBFD r"
  "rc_appliedOSPF (monitorFRRState ord st sh r) = rc_appliedOSPF r"
  "rc_peerManagedBFD (monitorFRRState ord st sh r) = rc_peerManagedBFD r"
  "rc_bgpConfigured (monitorFRRState ord st sh r) = rc_bgpConfigured r"
  "rc_bgpGlobal (monitorFRRState ord st sh r) = rc_bgpGlobal r"
  by (rule monitor_view; simp)+

section \<open>Intents and applied state\<close>

text \<open>The keys of a store are those of its intents, and no two owners have intents with the same key.\<close>

definition keyed :: "(OwnerIntents \<Rightarrow> (string \<rightharpoonup> 'i)) \<Rightarrow> ('i \<Rightarrow> string) \<Rightarrow> IntentStore \<Rightarrow> bool" where
  "keyed get key st \<longleftrightarrow> (\<forall>o' oi k i. st o' = Some oi \<longrightarrow> get oi k = Some i \<longrightarrow> key i = k)"

definition unshared :: "(OwnerIntents \<Rightarrow> (string \<rightharpoonup> 'i)) \<Rightarrow> IntentStore \<Rightarrow> bool" where
  "unshared get st \<longleftrightarrow>
     (\<forall>o1 o2 oi1 oi2 k. st o1 = Some oi1 \<longrightarrow> st o2 = Some oi2 \<longrightarrow> get oi1 k \<noteq> None \<longrightarrow> get oi2 k \<noteq> None \<longrightarrow> o1 = o2)"

abbreviation peer_key :: "PeerIntent \<Rightarrow> string" where
  "peer_key \<equiv> (\<lambda>p. peerKey (pi_NeighborAddress p))"

abbreviation prefix_key :: "PrefixIntent \<Rightarrow> string" where
  "prefix_key \<equiv> (\<lambda>p. rec_prefixKey (px_Protocol p) (px_Prefix p))"

abbreviation bfd_key :: "BFDIntent \<Rightarrow> string" where
  "bfd_key \<equiv> (\<lambda>b. bfdKey (bi_PeerAddress b))"

abbreviation ospf_key :: "OSPFIntent \<Rightarrow> string" where
  "ospf_key \<equiv> (\<lambda>i. ospfKey (oi_InterfaceName i))"

definition store_keyed :: "IntentStore \<Rightarrow> bool" where
  "store_keyed st \<longleftrightarrow> finite_store st \<and> keyed ow_Peers peer_key st \<and> keyed ow_Prefixes prefix_key st \<and>
     keyed ow_BFD bfd_key st \<and> keyed ow_OSPF ospf_key st"

definition store_unshared :: "IntentStore \<Rightarrow> bool" where
  "store_unshared st \<longleftrightarrow> unshared ow_Peers st \<and> unshared ow_Prefixes st \<and> unshared ow_BFD st \<and> unshared ow_OSPF st"

text \<open>The applied intents are those of the store, up to owners and times; beyond them there may only be
  intents under the keys \<open>extra\<close>.\<close>

definition agrees ::
    "(OwnerIntents \<Rightarrow> (string \<rightharpoonup> 'i)) \<Rightarrow> ('i \<Rightarrow> 'i \<Rightarrow> bool) \<Rightarrow> string set \<Rightarrow> IntentStore \<Rightarrow> (string \<rightharpoonup> 'i) \<Rightarrow> bool" where
  "agrees get eq extra st applied \<longleftrightarrow>
     (\<forall>o' oi k i. st o' = Some oi \<longrightarrow> get oi k = Some i \<longrightarrow> (\<exists>a. applied k = Some a \<and> eq a i)) \<and>
     (\<forall>k. applied k \<noteq> None \<longrightarrow> k \<in> extra \<or> (\<exists>o' oi. st o' = Some oi \<and> get oi k \<noteq> None))"

definition converged :: "IntentStore \<Rightarrow> Reconciler \<Rightarrow> bool" where
  "converged st r \<longleftrightarrow>
     agrees ow_Peers peerEqual {} st (rc_appliedPeers r) \<and>
     agrees ow_Prefixes prefixEqual {} st (rc_appliedPrefixes r) \<and>
     agrees ow_BFD bfdEqual (rc_peerManagedBFD r) st (rc_appliedBFD r) \<and>
     agrees ow_OSPF ospfEqual {} st (rc_appliedOSPF r)"

lemma desired_map_iff:
  assumes "\<And>d d'. d \<in> set ds \<Longrightarrow> d' \<in> set ds \<Longrightarrow> key d = key d' \<Longrightarrow> d = d'"
  shows "desired_map key ds k = Some d \<longleftrightarrow> d \<in> set ds \<and> key d = k"
proof
  assume d: "d \<in> set ds \<and> key d = k"
  then have "k \<in> dom (desired_map key ds)" by (auto simp: dom_desired_map)
  then obtain d' where "desired_map key ds k = Some d'" by blast
  with desired_map_Some [OF this] assms d show "desired_map key ds k = Some d" by metis
qed (rule desired_map_Some)

lemma desired_collect:
  assumes "fair ord" "finite_store st" "\<And>oi. finite_owner oi \<Longrightarrow> finite (dom (get oi))" "keyed get key st" "unshared get st"
  shows "desired_map key (collect ord l get st) k = Some i \<longleftrightarrow> (\<exists>o' oi. st o' = Some oi \<and> get oi k = Some i)"
proof -
  have mem: "j \<in> set (collect ord l get st) \<longleftrightarrow> (\<exists>o' oi k'. st o' = Some oi \<and> get oi k' = Some j)" for j
    using set_collect [OF assms(1,2,3), where l = l] by (auto simp: ran_def)
  have inj: "j = j'" if j: "j \<in> set (collect ord l get st)" "j' \<in> set (collect ord l get st)" "key j = key j'" for j j'
  proof -
    obtain o1 oi1 k1 where 1: "st o1 = Some oi1" "get oi1 k1 = Some j" using j(1) mem by blast
    obtain o2 oi2 k2 where 2: "st o2 = Some oi2" "get oi2 k2 = Some j'" using j(2) mem by blast
    have "key j = k1" "key j' = k2" using 1 2 assms(4) unfolding keyed_def by blast+
    then have k: "k1 = k2" using j(3) by simp
    have "get oi1 k1 \<noteq> None" "get oi2 k1 \<noteq> None" using 1 2 k by simp_all
    then have "o1 = o2" using 1(1) 2(1) assms(5) unfolding unshared_def by blast
    with 1 2 k show ?thesis by simp
  qed
  have "desired_map key (collect ord l get st) k = Some i \<longleftrightarrow> i \<in> set (collect ord l get st) \<and> key i = k"
    by (rule desired_map_iff) (rule inj)
  also have "\<dots> \<longleftrightarrow> (\<exists>o' oi. st o' = Some oi \<and> get oi k = Some i)"
  proof
    assume i: "i \<in> set (collect ord l get st) \<and> key i = k"
    then obtain o' oi k' where "st o' = Some oi" "get oi k' = Some i" using mem by blast
    moreover from this have "key i = k'" using assms(4) unfolding keyed_def by blast
    ultimately show "\<exists>o' oi. st o' = Some oi \<and> get oi k = Some i" using i by auto
  next
    assume "\<exists>o' oi. st o' = Some oi \<and> get oi k = Some i"
    then show "i \<in> set (collect ord l get st) \<and> key i = k" using mem assms(4) unfolding keyed_def by blast
  qed
  finally show ?thesis .
qed

lemma desired_maps:
  assumes "fair ord" "store_keyed st" "store_unshared st"
  shows "desired_map peer_key (GetPeerIntents ord st) k = Some p \<longleftrightarrow> (\<exists>o' oi. st o' = Some oi \<and> ow_Peers oi k = Some p)"
    "desired_map prefix_key (GetPrefixIntents ord st) k = Some x \<longleftrightarrow> (\<exists>o' oi. st o' = Some oi \<and> ow_Prefixes oi k = Some x)"
    "desired_map bfd_key (GetBFDIntents ord st) k = Some b \<longleftrightarrow> (\<exists>o' oi. st o' = Some oi \<and> ow_BFD oi k = Some b)"
    "desired_map ospf_key (GetOSPFIntents ord st) k = Some i \<longleftrightarrow> (\<exists>o' oi. st o' = Some oi \<and> ow_OSPF oi k = Some i)"
  unfolding GetPeerIntents_def GetPrefixIntents_def GetBFDIntents_def GetOSPFIntents_def
  by (rule desired_collect [OF assms(1)]; use assms(2,3) in \<open>simp add: store_keyed_def store_unshared_def finite_owner_def\<close>)+

text \<open>Agreement with the store is agreement with the desired intents of a pass.\<close>

lemma agrees_desired:
  assumes "\<And>k i. desired k = Some i \<longleftrightarrow> (\<exists>o' oi. st o' = Some oi \<and> get oi k = Some i)"
  shows "agrees get eq extra st applied \<longleftrightarrow>
    (\<forall>k d. desired k = Some d \<longrightarrow> (\<exists>a. applied k = Some a \<and> eq a d)) \<and>
    (\<forall>k. desired k = None \<and> applied k \<noteq> None \<longrightarrow> k \<in> extra)"
proof -
  have "desired k = None \<longleftrightarrow> \<not> (\<exists>o' oi. st o' = Some oi \<and> get oi k \<noteq> None)" for k
  proof (cases "desired k")
    case None
    then have "\<not> (\<exists>o' oi. st o' = Some oi \<and> get oi k = Some i)" for i using assms [of k i] by simp
    with None show ?thesis by blast
  next
    case (Some d)
    then obtain o' oi where "st o' = Some oi" "get oi k = Some d" using assms by blast
    with Some show ?thesis by (metis option.distinct(1))
  qed
  then show ?thesis unfolding agrees_def assms by blast
qed

section \<open>The reconciliation cycle\<close>

lemma rec_ok_upd [simp]:
  "rec_ok (r\<lparr>rc_frrClient := c\<rparr>) = rec_ok r" "rec_ok (r\<lparr>rc_bgpConfigured := b\<rparr>) = rec_ok r"
  "rec_ok (r\<lparr>rc_lastBGPStates := s\<rparr>) = rec_ok r" "rec_ok (r\<lparr>rc_lastBFDStates := t\<rparr>) = rec_ok r"
  by (simp_all add: rec_ok_def)

lemma rec_ok_clear: "rec_ok r \<Longrightarrow> rec_ok (r\<lparr>rc_appliedPeers := Map.empty, rc_appliedPrefixes := Map.empty\<rparr>)"
  by (simp add: rec_ok_def)

lemma rec_ok_frr: "rec_ok r \<Longrightarrow> rec_ok (snd (frr f r))"
  by (simp add: frr_def split: option.split)

lemma frr_client: "(rc_frrClient (snd (frr f r)) = None) = (rc_frrClient r = None)"
  by (simp add: frr_def split: option.split)

text \<open>Either the cycle stops here, or the BGP instance is configured.\<close>

lemma ensureBGPGlobal_cases:
  obtains (failed) x where "fst (ensureBGPGlobal vt r) = Some x"
      "snd (ensureBGPGlobal vt r) = r \<or> (\<exists>f. snd (ensureBGPGlobal vt r) = snd (frr f r))"
  | (unchanged) "ensureBGPGlobal vt r = (None, r)" "rc_bgpConfigured r"
  | (configured) c las rid s where "\<not> rc_bgpConfigured r" "rc_frrClient r = Some c" "rc_bgpGlobal r = Some (las, rid)" "las \<noteq> 0"
      "frr (ReconfigureBGPGlobal vt (cl_localAS c) las rid) r = (None, s)"
      "ensureBGPGlobal vt r =
         (None, (if cl_localAS c \<noteq> 0 \<and> cl_localAS c \<noteq> las
                 then s\<lparr>rc_appliedPeers := Map.empty, rc_appliedPrefixes := Map.empty,
                        rc_lastBGPStates := Map.empty, rc_lastBFDStates := Map.empty\<rparr>
                 else s)\<lparr>rc_bgpConfigured := True\<rparr>)"
proof (cases "rc_bgpConfigured r \<or> rc_frrClient r = None \<or> rc_bgpGlobal r = None \<or> fst (the (rc_bgpGlobal r)) = 0")
  case True
  then have "rc_bgpConfigured r \<and> ensureBGPGlobal vt r = (None, r) \<or> (\<exists>x. ensureBGPGlobal vt r = (Some x, r))"
    by (auto simp: ensureBGPGlobal_def split: option.splits prod.splits)
  then show thesis using failed unchanged by auto
next
  case False
  then obtain c las rid where g: "\<not> rc_bgpConfigured r" "rc_frrClient r = Some c" "rc_bgpGlobal r = Some (las, rid)" "las \<noteq> 0"
    by auto
  obtain e s where s: "frr (ReconfigureBGPGlobal vt (cl_localAS c) las rid) r = (e, s)"
    by (cases "frr (ReconfigureBGPGlobal vt (cl_localAS c) las rid) r")
  show thesis
  proof (cases e)
    case None
    with g s show thesis by (intro configured [of c las rid s]) (simp_all add: ensureBGPGlobal_def and_then_def Let_def)
  next
    case (Some x)
    then have "ensureBGPGlobal vt r = (Some x, s)" using g s by (simp add: ensureBGPGlobal_def and_then_def Let_def)
    moreover have "s = snd (frr (ReconfigureBGPGlobal vt (cl_localAS c) las rid) r)" using s by simp
    ultimately show thesis using failed [of x] by auto
  qed
qed

lemma ensureBGPGlobal_ok:
  assumes "rec_ok r"
  shows "rec_ok (snd (ensureBGPGlobal vt r))"
    and "(rc_frrClient (snd (ensureBGPGlobal vt r)) = None) = (rc_frrClient r = None)"
    and "fst (ensureBGPGlobal vt r) = None \<Longrightarrow> rc_bgpConfigured (snd (ensureBGPGlobal vt r))"
proof -
  have "rec_ok (snd (ensureBGPGlobal vt r)) \<and>
    ((rc_frrClient (snd (ensureBGPGlobal vt r)) = None) = (rc_frrClient r = None)) \<and>
    (fst (ensureBGPGlobal vt r) = None \<longrightarrow> rc_bgpConfigured (snd (ensureBGPGlobal vt r)))"
  proof (cases rule: ensureBGPGlobal_cases [of vt r])
    case (failed x)
    then show ?thesis using assms rec_ok_frr [OF assms] frr_client by auto
  next
    case unchanged
    then show ?thesis using assms by simp
  next
    case (configured c las rid s)
    have "s = snd (frr (ReconfigureBGPGlobal vt (cl_localAS c) las rid) r)" using configured(5) by simp
    then have "rec_ok s" "(rc_frrClient s = None) = (rc_frrClient r = None)" using rec_ok_frr [OF assms] frr_client by auto
    with configured(6) rec_ok_clear [of s] show ?thesis by auto
  qed
  then show "rec_ok (snd (ensureBGPGlobal vt r))"
    "(rc_frrClient (snd (ensureBGPGlobal vt r)) = None) = (rc_frrClient r = None)"
    "fst (ensureBGPGlobal vt r) = None \<Longrightarrow> rc_bgpConfigured (snd (ensureBGPGlobal vt r))" by blast+
qed

text \<open>The states of a cycle.\<close>

definition after_peers :: "Vtysh \<Rightarrow> Order \<Rightarrow> IntentStore \<Rightarrow> (RecErr, Reconciler) call" where
  "after_peers vt ord st = ReconcilePeers vt ord (GetPeerIntents ord st)"

definition after_prefixes :: "Vtysh \<Rightarrow> Order \<Rightarrow> IntentStore \<Rightarrow> (RecErr, Reconciler) call" where
  "after_prefixes vt ord st r = ReconcilePrefixes vt ord (GetPrefixIntents ord st) (snd (after_peers vt ord st r))"

definition after_bfd :: "Vtysh \<Rightarrow> Order \<Rightarrow> IntentStore \<Rightarrow> (RecErr, Reconciler) call" where
  "after_bfd vt ord st r = ReconcileBFD vt ord (GetBFDIntents ord st) (snd (after_prefixes vt ord st r))"

definition after_ospf :: "Vtysh \<Rightarrow> Order \<Rightarrow> IntentStore \<Rightarrow> (RecErr, Reconciler) call" where
  "after_ospf vt ord st r = ReconcileOSPF vt ord (GetOSPFIntents ord st) (snd (after_bfd vt ord st r))"

lemma Reconcile_unfold:
  assumes "rc_frrClient r \<noteq> None" "ensureBGPGlobal vt r = (None, r1)"
  shows "Reconcile vt ord st sh r =
    (first_error (List.map_filter id [fst (after_peers vt ord st r1), fst (after_prefixes vt ord st r1),
        fst (after_bfd vt ord st r1), fst (after_ospf vt ord st r1)]),
     monitorFRRState ord st sh (snd (after_ospf vt ord st r1)))"
  unfolding Reconcile_def if_not_P [OF assms(1)] assms(2) prod.case option.case
  by (simp add: after_peers_def after_prefixes_def after_bfd_def after_ospf_def case_prod_unfold Let_def)

lemma no_errors: "first_error (List.map_filter id [a, b, c, d]) = None \<longleftrightarrow> a = None \<and> b = None \<and> c = None \<and> d = None"
  by (cases a; cases b; cases c; cases d) (auto simp: List.map_filter_def)

lemma after_peers_effect:
  assumes "fair ord" "rec_ok r"
  shows "rec_ok (snd (after_peers vt ord st r))"
    "fst (after_peers vt ord st r) = None \<Longrightarrow>
       peers.in_sync (desired_map peer_key (GetPeerIntents ord st)) (snd (after_peers vt ord st r))"
    "ready vt r \<Longrightarrow> (\<And>p. p \<in> set (GetPeerIntents ord st) \<Longrightarrow> peer_ok p) \<Longrightarrow> fst (after_peers vt ord st r) = None"
proof -
  let ?d = "desired_map peer_key (GetPeerIntents ord st)"
  obtain e s where s: "after_peers vt ord st r = (e, s)" by (cases "after_peers vt ord st r")
  have fin: "finite (dom (rc_appliedPeers r))" using assms(2) by (simp add: rec_ok_def)
  note eff = peers.sync_effect [OF assms(1) finite_desired_map fin s [unfolded after_peers_def ReconcilePeers_def]]
  have "bfd_inv s" using ReconcilePeers_bfd_inv [of r vt ord "GetPeerIntents ord st"] assms(2) s
    by (simp add: bfd_inv_def rec_ok_def after_peers_def)
  moreover have "rc_appliedPrefixes s = rc_appliedPrefixes r" "rc_appliedOSPF s = rc_appliedOSPF r"
    using ReconcilePeers_frame(1,2) [of vt ord "GetPeerIntents ord st" r] s unfolding after_peers_def by (metis snd_conv)+
  ultimately show "rec_ok (snd (after_peers vt ord st r))"
    using eff(2,4) assms(2) s by (simp add: rec_ok_def peers.all_removable_def bfd_inv_def)
  show "fst (after_peers vt ord st r) = None \<Longrightarrow> peers.in_sync ?d (snd (after_peers vt ord st r))"
    using eff(1) s by simp
  show "ready vt r \<Longrightarrow> (\<And>p. p \<in> set (GetPeerIntents ord st) \<Longrightarrow> peer_ok p) \<Longrightarrow> fst (after_peers vt ord st r) = None"
    using eff(5) assms(2) s desired_map_Some [of peer_key "GetPeerIntents ord st"]
    by (simp add: peers.all_removable_def rec_ok_def)
qed

lemma after_prefixes_effect:
  assumes "fair ord" "rec_ok (snd (after_peers vt ord st r))"
  shows "rec_ok (snd (after_prefixes vt ord st r))"
    "fst (after_prefixes vt ord st r) = None \<Longrightarrow>
       prefixes.in_sync (desired_map prefix_key (GetPrefixIntents ord st)) (snd (after_prefixes vt ord st r))"
    "ready vt (snd (after_peers vt ord st r)) \<Longrightarrow> (\<And>i. i \<in> set (GetPrefixIntents ord st) \<Longrightarrow> prefix_ok i) \<Longrightarrow>
       fst (after_prefixes vt ord st r) = None"
proof -
  let ?r = "snd (after_peers vt ord st r)"
  obtain e s where s: "ReconcilePrefixes vt ord (GetPrefixIntents ord st) ?r = (e, s)" by (cases "ReconcilePrefixes vt ord (GetPrefixIntents ord st) ?r")
  then have a: "after_prefixes vt ord st r = (e, s)" by (simp add: after_prefixes_def)
  have fin: "finite (dom (rc_appliedPrefixes ?r))" using assms(2) by (simp add: rec_ok_def)
  note eff = prefixes.sync_effect [OF assms(1) finite_desired_map fin s [unfolded ReconcilePrefixes_def]]
  have "rc_appliedPeers s = rc_appliedPeers ?r" "rc_appliedBFD s = rc_appliedBFD ?r" "rc_appliedOSPF s = rc_appliedOSPF ?r"
    using ReconcilePrefixes_frame(1-3) [of vt ord "GetPrefixIntents ord st" ?r] s by simp_all
  then show "rec_ok (snd (after_prefixes vt ord st r))"
    using eff(2,4) assms(2) a by (simp add: rec_ok_def prefixes.all_removable_def)
  show "fst (after_prefixes vt ord st r) = None \<Longrightarrow>
      prefixes.in_sync (desired_map prefix_key (GetPrefixIntents ord st)) (snd (after_prefixes vt ord st r))"
    using eff(1) a by simp
  show "ready vt ?r \<Longrightarrow> (\<And>i. i \<in> set (GetPrefixIntents ord st) \<Longrightarrow> prefix_ok i) \<Longrightarrow> fst (after_prefixes vt ord st r) = None"
    using eff(5) assms(2) a desired_map_Some [of prefix_key "GetPrefixIntents ord st"]
    by (simp add: prefixes.all_removable_def rec_ok_def)
qed

lemma after_bfd_effect:
  assumes "fair ord" "rec_ok (snd (after_prefixes vt ord st r))"
  shows "rec_ok (snd (after_bfd vt ord st r))"
    "fst (after_bfd vt ord st r) = None \<Longrightarrow>
       sessions.in_sync (desired_map bfd_key (GetBFDIntents ord st)) (snd (after_bfd vt ord st r))"
    "ready vt (snd (after_prefixes vt ord st r)) \<Longrightarrow> (\<And>i. i \<in> set (GetBFDIntents ord st) \<Longrightarrow> bfd_ok i) \<Longrightarrow>
       fst (after_bfd vt ord st r) = None"
proof -
  let ?r = "snd (after_prefixes vt ord st r)"
  obtain e s where s: "ReconcileBFD vt ord (GetBFDIntents ord st) ?r = (e, s)" by (cases "ReconcileBFD vt ord (GetBFDIntents ord st) ?r")
  then have a: "after_bfd vt ord st r = (e, s)" by (simp add: after_bfd_def)
  have fin: "finite (dom (rc_appliedBFD ?r))" using assms(2) by (simp add: rec_ok_def)
  note eff = sessions.sync_effect [OF assms(1) finite_desired_map fin s [unfolded ReconcileBFD_def]]
  have "rc_appliedPeers s = rc_appliedPeers ?r" "rc_appliedPrefixes s = rc_appliedPrefixes ?r" "rc_appliedOSPF s = rc_appliedOSPF ?r"
    using ReconcileBFD_frame(1-3) [of vt ord "GetBFDIntents ord st" ?r] s by simp_all
  then show "rec_ok (snd (after_bfd vt ord st r))"
    using eff(2,4) assms(2) a by (simp add: rec_ok_def sessions.all_removable_def)
  show "fst (after_bfd vt ord st r) = None \<Longrightarrow>
      sessions.in_sync (desired_map bfd_key (GetBFDIntents ord st)) (snd (after_bfd vt ord st r))"
    using eff(1) a by simp
  show "ready vt ?r \<Longrightarrow> (\<And>i. i \<in> set (GetBFDIntents ord st) \<Longrightarrow> bfd_ok i) \<Longrightarrow> fst (after_bfd vt ord st r) = None"
    using eff(5) assms(2) a desired_map_Some [of bfd_key "GetBFDIntents ord st"]
    by (simp add: sessions.all_removable_def rec_ok_def)
qed

lemma after_ospf_effect:
  assumes "fair ord" "rec_ok (snd (after_bfd vt ord st r))"
  shows "rec_ok (snd (after_ospf vt ord st r))"
    "fst (after_ospf vt ord st r) = None \<Longrightarrow>
       interfaces.in_sync (desired_map ospf_key (GetOSPFIntents ord st)) (snd (after_ospf vt ord st r))"
    "ready vt (snd (after_bfd vt ord st r)) \<Longrightarrow> (\<And>i. i \<in> set (GetOSPFIntents ord st) \<Longrightarrow> ospf_ok i) \<Longrightarrow>
       fst (after_ospf vt ord st r) = None"
proof -
  let ?r = "snd (after_bfd vt ord st r)"
  obtain e s where s: "ReconcileOSPF vt ord (GetOSPFIntents ord st) ?r = (e, s)" by (cases "ReconcileOSPF vt ord (GetOSPFIntents ord st) ?r")
  then have a: "after_ospf vt ord st r = (e, s)" by (simp add: after_ospf_def)
  have fin: "finite (dom (rc_appliedOSPF ?r))" using assms(2) by (simp add: rec_ok_def)
  note eff = interfaces.sync_effect [OF assms(1) finite_desired_map fin s [unfolded ReconcileOSPF_def]]
  have "rc_appliedPeers s = rc_appliedPeers ?r" "rc_appliedPrefixes s = rc_appliedPrefixes ?r" "rc_appliedBFD s = rc_appliedBFD ?r"
    using ReconcileOSPF_frame(1-3) [of vt ord "GetOSPFIntents ord st" ?r] s by simp_all
  then show "rec_ok (snd (after_ospf vt ord st r))"
    using eff(2,4) assms(2) a by (simp add: rec_ok_def interfaces.all_removable_def)
  show "fst (after_ospf vt ord st r) = None \<Longrightarrow>
      interfaces.in_sync (desired_map ospf_key (GetOSPFIntents ord st)) (snd (after_ospf vt ord st r))"
    using eff(1) a by simp
  show "ready vt ?r \<Longrightarrow> (\<And>i. i \<in> set (GetOSPFIntents ord st) \<Longrightarrow> ospf_ok i) \<Longrightarrow> fst (after_ospf vt ord st r) = None"
    using eff(5) assms(2) a desired_map_Some [of ospf_key "GetOSPFIntents ord st"]
    by (simp add: interfaces.all_removable_def rec_ok_def)
qed

lemma after_las:
  "las (snd (after_peers vt ord st r)) = las r" "las (snd (after_prefixes vt ord st r)) = las r"
  "las (snd (after_bfd vt ord st r)) = las r" "las (snd (after_ospf vt ord st r)) = las r"
  by (simp_all add: after_peers_def after_prefixes_def after_bfd_def after_ospf_def ReconcilePeers_las ReconcilePrefixes_las
      ReconcileBFD_las ReconcileOSPF_las)

lemma after_frames:
  "rc_appliedPeers (snd (after_ospf vt ord st r)) = rc_appliedPeers (snd (after_peers vt ord st r))"
  "rc_appliedPrefixes (snd (after_ospf vt ord st r)) = rc_appliedPrefixes (snd (after_prefixes vt ord st r))"
  "rc_appliedBFD (snd (after_ospf vt ord st r)) = rc_appliedBFD (snd (after_bfd vt ord st r))"
  "rc_peerManagedBFD (snd (after_ospf vt ord st r)) = rc_peerManagedBFD (snd (after_bfd vt ord st r))"
  "rc_bgpConfigured (snd (after_ospf vt ord st r)) = rc_bgpConfigured r"
  by (simp_all add: after_peers_def after_prefixes_def after_bfd_def after_ospf_def)

lemma rec_ok_monitor [simp]: "rec_ok (monitorFRRState ord st sh r) = rec_ok r"
  by (simp add: rec_ok_def)

lemma converged_in_sync:
  assumes "fair ord" "store_keyed st" "store_unshared st"
  shows "converged st r \<longleftrightarrow>
    peers.in_sync (desired_map peer_key (GetPeerIntents ord st)) r \<and>
    prefixes.in_sync (desired_map prefix_key (GetPrefixIntents ord st)) r \<and>
    sessions.in_sync (desired_map bfd_key (GetBFDIntents ord st)) r \<and>
    interfaces.in_sync (desired_map ospf_key (GetOSPFIntents ord st)) r"
  unfolding converged_def peers.in_sync_def prefixes.in_sync_def sessions.in_sync_def interfaces.in_sync_def
  by (simp only: agrees_desired [OF desired_maps(1) [OF assms]] agrees_desired [OF desired_maps(2) [OF assms]]
      agrees_desired [OF desired_maps(3) [OF assms]] agrees_desired [OF desired_maps(4) [OF assms]] empty_iff)

lemma Reconcile_stops:
  assumes "rc_frrClient r \<noteq> None" "ensureBGPGlobal vt r = (Some e, r1)"
  shows "Reconcile vt ord st sh r = (Some e, r1)"
  unfolding Reconcile_def if_not_P [OF assms(1)] assms(2) by simp

lemma Reconcile_rec_ok:
  assumes "fair ord" "rec_ok r"
  shows "rec_ok (snd (Reconcile vt ord st sh r))"
    and "(rc_frrClient (snd (Reconcile vt ord st sh r)) = None) = (rc_frrClient r = None)"
proof -
  note en = ensureBGPGlobal_ok [OF assms(2), of vt]
  obtain e r1 where r1: "ensureBGPGlobal vt r = (e, r1)" by (cases "ensureBGPGlobal vt r")
  have ok: "rec_ok (snd (after_ospf vt ord st s))" if "rec_ok s" for s
    using after_ospf_effect(1) [OF assms(1) after_bfd_effect(1) [OF assms(1) after_prefixes_effect(1) [OF assms(1)
        after_peers_effect(1) [OF assms(1) that]]]] .
  have cl: "(rc_frrClient (snd (after_ospf vt ord st s)) = None) = (rc_frrClient s = None)" for s
    using after_las(4) [of vt ord st s] unfolding las_def by (metis map_option_is_None)
  show "rec_ok (snd (Reconcile vt ord st sh r))"
    "(rc_frrClient (snd (Reconcile vt ord st sh r)) = None) = (rc_frrClient r = None)"
    using r1 en ok [of r1] cl [of r1] assms(2) Reconcile_unfold [of r vt r1 ord st sh] Reconcile_stops [of r vt _ r1 ord st sh]
    by (cases "rc_frrClient r = None"; cases e; auto simp: Reconcile_def)+
qed

lemma Reconcile_None:
  assumes "rc_frrClient r \<noteq> None" "Reconcile vt ord st sh r = (None, r')"
  shows "\<exists>r1. ensureBGPGlobal vt r = (None, r1) \<and> fst (after_peers vt ord st r1) = None \<and>
    fst (after_prefixes vt ord st r1) = None \<and> fst (after_bfd vt ord st r1) = None \<and> fst (after_ospf vt ord st r1) = None \<and>
    r' = monitorFRRState ord st sh (snd (after_ospf vt ord st r1))"
proof -
  obtain e r1 where r1: "ensureBGPGlobal vt r = (e, r1)" by (cases "ensureBGPGlobal vt r")
  have "e = None" using assms(2) r1 Reconcile_stops [OF assms(1)] by (cases e) auto
  with r1 have en: "ensureBGPGlobal vt r = (None, r1)" by simp
  show ?thesis
    using assms(2) unfolding Reconcile_unfold [OF assms(1) en] prod.inject no_errors using en by auto
qed

lemma Reconcile_sound:
  assumes "fair ord" "store_keyed st" "store_unshared st" "rec_ok r" "rc_frrClient r \<noteq> None"
    and "Reconcile vt ord st sh r = (None, r')"
  shows "converged st r'" "rc_bgpConfigured r'"
proof -
  obtain r1 where r1: "ensureBGPGlobal vt r = (None, r1)" and ok: "fst (after_peers vt ord st r1) = None"
    "fst (after_prefixes vt ord st r1) = None" "fst (after_bfd vt ord st r1) = None" "fst (after_ospf vt ord st r1) = None"
    and r': "r' = monitorFRRState ord st sh (snd (after_ospf vt ord st r1))"
    using Reconcile_None [OF assms(5,6)] by blast
  have 1: "rec_ok r1" "rc_bgpConfigured r1" using ensureBGPGlobal_ok [OF assms(4), of vt] r1 by simp_all
  note p = after_peers_effect [OF assms(1) 1(1), of vt st]
  note x = after_prefixes_effect [OF assms(1) p(1)]
  note b = after_bfd_effect [OF assms(1) x(1)]
  note i = after_ospf_effect [OF assms(1) b(1)]
  have "converged st (snd (after_ospf vt ord st r1))"
    unfolding converged_in_sync [OF assms(1-3)]
    using p(2) [OF ok(1)] x(2) [OF ok(2)] b(2) [OF ok(3)] i(2) [OF ok(4)]
    unfolding peers.in_sync_def prefixes.in_sync_def sessions.in_sync_def interfaces.in_sync_def after_frames by blast
  then show "converged st r'" unfolding r' by (simp add: converged_def)
  show "rc_bgpConfigured r'" unfolding r' using 1(2) by (simp add: after_frames)
qed

text \<open>The BGP instance is configured, or it can be.\<close>

definition bgp_ready :: "Reconciler \<Rightarrow> bool" where
  "bgp_ready r \<longleftrightarrow>
     (if rc_bgpConfigured r then \<exists>a. las r = Some a \<and> a \<noteq> 0
      else \<exists>a rid. rc_bgpGlobal r = Some (a, rid) \<and> a \<noteq> 0 \<and> sanitizeVTYParam rid = None)"

lemma ReconfigureBGPGlobal_accepted:
  assumes "accepts vt" "sanitizeVTYParam rid = None"
  shows "fst (ReconfigureBGPGlobal vt (cl_localAS c) a rid c) = None"
    "cl_localAS (snd (ReconfigureBGPGlobal vt (cl_localAS c) a rid c)) = a"
proof -
  have rc: "fst (runConfig vt cmds s) = None" for cmds s by (rule runConfig_accepted [OF assms(1)])
  have conf: "fst (ConfigureBGPGlobal vt a rid s) = None \<and> cl_localAS (snd (ConfigureBGPGlobal vt a rid s)) = a" for s
    using rc [of "bgp_global_commands a rid" s] assms(2)
    by (cases "runConfig vt (bgp_global_commands a rid) s") (simp add: ConfigureBGPGlobal_def checked_def and_then_def)
  have seq: "fst (and_then f (ConfigureBGPGlobal vt a rid) s) = None \<and> cl_localAS (snd (and_then f (ConfigureBGPGlobal vt a rid) s)) = a"
    if "fst (f s) = None" for f s
    using that conf by (cases "f s") (simp add: and_then_def)
  have "fst (ReconfigureBGPGlobal vt (cl_localAS c) a rid c) = None \<and> cl_localAS (snd (ReconfigureBGPGlobal vt (cl_localAS c) a rid c)) = a"
  proof (cases "cl_localAS c = a")
    case True
    with rc assms(2) show ?thesis by (simp add: ReconfigureBGPGlobal_def checked_def)
  next
    case False
    then show ?thesis using assms(2) seq rc by (simp add: ReconfigureBGPGlobal_def checked_def)
  qed
  then show "fst (ReconfigureBGPGlobal vt (cl_localAS c) a rid c) = None"
    "cl_localAS (snd (ReconfigureBGPGlobal vt (cl_localAS c) a rid c)) = a" by blast+
qed

lemma ensureBGPGlobal_ready:
  assumes "accepts vt" "bgp_ready r" "rc_frrClient r \<noteq> None"
  shows "fst (ensureBGPGlobal vt r) = None" "ready vt (snd (ensureBGPGlobal vt r))"
proof -
  have "fst (ensureBGPGlobal vt r) = None \<and> ready vt (snd (ensureBGPGlobal vt r))"
  proof (cases "rc_bgpConfigured r")
    case True
    then show ?thesis using assms(1,2) by (simp add: ensureBGPGlobal_def ready_def bgp_ready_def)
  next
    case False
    obtain c where c: "rc_frrClient r = Some c" using assms(3) by blast
    obtain a rid where g: "rc_bgpGlobal r = Some (a, rid)" "a \<noteq> 0" "sanitizeVTYParam rid = None"
      using assms(2) False by (auto simp: bgp_ready_def)
    let ?f = "ReconfigureBGPGlobal vt (cl_localAS c) a rid"
    have f: "frr ?f r = (None, r\<lparr>rc_frrClient := Some (snd (?f c))\<rparr>)"
      using ReconfigureBGPGlobal_accepted(1) [OF assms(1) g(3), of c a] c by (simp add: frr_def)
    have "las (r\<lparr>rc_frrClient := Some (snd (?f c))\<rparr>) = Some a"
      using ReconfigureBGPGlobal_accepted(2) [OF assms(1) g(3), of c a] by (simp add: las_def)
    then show ?thesis
      using False c g f assms(1) by (simp add: ensureBGPGlobal_def and_then_def Let_def ready_def)
  qed
  then show "fst (ensureBGPGlobal vt r) = None" "ready vt (snd (ensureBGPGlobal vt r))" by blast+
qed

definition intents_ok :: "IntentStore \<Rightarrow> bool" where
  "intents_ok st \<longleftrightarrow> (\<forall>o' oi. st o' = Some oi \<longrightarrow>
     (\<forall>p \<in> ran (ow_Peers oi). peer_ok p) \<and> (\<forall>p \<in> ran (ow_Prefixes oi). prefix_ok p) \<and>
     (\<forall>b \<in> ran (ow_BFD oi). bfd_ok b) \<and> (\<forall>i \<in> ran (ow_OSPF oi). ospf_ok i))"

lemma Reconcile_live:
  assumes "fair ord" "finite_store st" "rec_ok r" "rc_frrClient r \<noteq> None"
    and "accepts vt" "bgp_ready r" "intents_ok st"
  shows "fst (Reconcile vt ord st sh r) = None"
proof -
  obtain r1 where r1: "ensureBGPGlobal vt r = (None, r1)" and rd: "ready vt r1"
    using ensureBGPGlobal_ready [OF assms(5,6,4)] by (metis prod.collapse)
  have 1: "rec_ok r1" using ensureBGPGlobal_ok(1) [OF assms(3), of vt] r1 by simp
  have rds: "ready vt (snd (after_peers vt ord st r1))" "ready vt (snd (after_prefixes vt ord st r1))" "ready vt (snd (after_bfd vt ord st r1))"
    using rd by (simp_all add: ready_def after_las)
  note get = intent_getters [OF assms(1,2)]
  note p = after_peers_effect [OF assms(1) 1, of vt st]
  note x = after_prefixes_effect [OF assms(1) p(1)]
  note b = after_bfd_effect [OF assms(1) x(1)]
  note i = after_ospf_effect [OF assms(1) b(1)]
  have "peer_ok y" if "y \<in> set (GetPeerIntents ord st)" for y using that get assms(7) by (auto simp: intents_ok_def)
  moreover have "prefix_ok y" if "y \<in> set (GetPrefixIntents ord st)" for y using that get assms(7) by (auto simp: intents_ok_def)
  moreover have "bfd_ok y" if "y \<in> set (GetBFDIntents ord st)" for y using that get assms(7) by (auto simp: intents_ok_def)
  moreover have "ospf_ok y" if "y \<in> set (GetOSPFIntents ord st)" for y using that get assms(7) by (auto simp: intents_ok_def)
  ultimately show ?thesis
    unfolding Reconcile_unfold [OF assms(4) r1] fst_conv no_errors
    using p(3) [OF rd] x(3) [OF rds(1)] b(3) [OF rds(2)] i(3) [OF rds(3)] by blast
qed

lemma Reconcile_quiet:
  assumes "fair ord" "store_keyed st" "store_unshared st" "converged st r" "rc_bgpConfigured r" "rc_frrClient r \<noteq> None"
  shows "Reconcile vt ord st sh r = (None, monitorFRRState ord st sh r)"
proof -
  have en: "ensureBGPGlobal vt r = (None, r)" using assms(5) by (simp add: ensureBGPGlobal_def)
  note s = assms(4) [unfolded converged_in_sync [OF assms(1-3)]]
  have p: "after_peers vt ord st r = (None, r)"
    unfolding after_peers_def ReconcilePeers_def by (rule peers.sync_quiet) (use s in blast)
  have x: "after_prefixes vt ord st r = (None, r)"
    unfolding after_prefixes_def p snd_conv ReconcilePrefixes_def by (rule prefixes.sync_quiet) (use s in blast)
  have b: "after_bfd vt ord st r = (None, r)"
    unfolding after_bfd_def x snd_conv ReconcileBFD_def by (rule sessions.sync_quiet) (use s in blast)
  have i: "after_ospf vt ord st r = (None, r)"
    unfolding after_ospf_def b snd_conv ReconcileOSPF_def by (rule interfaces.sync_quiet) (use s in blast)
  show ?thesis unfolding Reconcile_unfold [OF assms(6) en] p x b i by (simp add: no_errors)
qed

end
