(* ===== verification/Routing_System.thy ===== *)
theory Routing_System
  imports Routing_Reconciler
begin

text \<open>
  The routing subsystem as a whole: the intent store that the owners change and the reconciler that
  brings FRR to it. A run is a sequence of the operations of both in any order, with any behaviour of
  \<open>vtysh\<close>, any answers of the show commands and any enumeration orders. The theorems hold in every state
  that a run reaches: a cycle that reports success has brought the applied state to the store and the
  next one sends nothing, a cycle whose commands FRR accepts succeeds, withdrawal leaves nothing behind,
  and FRR never gets a command line that the client did not compose.
\<close>

section \<open>Runs\<close>

inductive store_step :: "IntentStore \<Rightarrow> IntentStore \<Rightarrow> bool" where
  set_peer: "store_step st (snd (SetPeerIntent now owner peer st))"
| remove_peer: "store_step st (snd (RemovePeerIntent owner addr st))"
| set_prefix: "store_step st (snd (SetPrefixIntent now owner prefix st))"
| remove_prefix: "store_step st (snd (RemovePrefixIntent owner cidr protocol st))"
| set_bfd: "store_step st (snd (SetBFDIntent now owner session st))"
| remove_bfd: "store_step st (snd (RemoveBFDIntent owner addr st))"
| set_ospf: "store_step st (snd (SetOSPFIntent now owner iface st))"
| remove_ospf: "store_step st (snd (RemoveOSPFIntent owner name st))"
| remove_owner: "store_step st (RemoveAllByOwner owner st)"

inductive routing_step :: "IntentStore \<times> Reconciler \<Rightarrow> IntentStore \<times> Reconciler \<Rightarrow> bool" where
  intents: "store_step st st' \<Longrightarrow> routing_step (st, r) (st', r)"
| cycle: "fair ord \<Longrightarrow> routing_step (st, r) (st, snd (Reconcile vt ord st sh r))"
| apply_one: "routing_step (st, r) (st, snd (ApplyIntent vt kind v r))"
| remove_one: "routing_step (st, r) (st, snd (RemoveIntent vt kind key r))"
| withdraw: "fair ord \<Longrightarrow> routing_step (st, r) (st, snd (WithdrawAll vt ord r))"
| global: "routing_step (st, r) (st, UpdateBGPGlobal as rid r)"
| connected: "routing_step (st, r) (st, SetFRRClient (Some NewClient) r)"
| disconnected: "routing_step (st, r) (st, SetFRRClient None r)"
| publisher: "routing_step (st, r) (st, SetEventPublisher r)"
| trigger: "routing_step (st, r) (st, TriggerReconcile r)"

definition routing_start :: "(u32 \<times> string) option \<Rightarrow> IntentStore \<times> Reconciler" where
  "routing_start bgpGlobal = (Map.empty, NewReconciler (Some NewClient) bgpGlobal)"

section \<open>The store\<close>

text \<open>The intents of one owner are filed under their own keys.\<close>

definition owner_keyed :: "OwnerIntents \<Rightarrow> bool" where
  "owner_keyed oi \<longleftrightarrow>
     (\<forall>k i. ow_Peers oi k = Some i \<longrightarrow> peer_key i = k) \<and> (\<forall>k i. ow_Prefixes oi k = Some i \<longrightarrow> prefix_key i = k) \<and>
     (\<forall>k i. ow_BFD oi k = Some i \<longrightarrow> bfd_key i = k) \<and> (\<forall>k i. ow_OSPF oi k = Some i \<longrightarrow> ospf_key i = k)"

lemma store_keyed_owners: "store_keyed st \<longleftrightarrow> finite_store st \<and> (\<forall>o' oi. st o' = Some oi \<longrightarrow> owner_keyed oi)"
  unfolding store_keyed_def keyed_def owner_keyed_def by blast

lemma owner_keyed_new: "owner_keyed newOwnerIntents"
  by (simp add: owner_keyed_def newOwnerIntents_def)

lemma setIntent_keyed:
  assumes "\<forall>o' oi. st o' = Some oi \<longrightarrow> owner_keyed oi" "\<And>i oi. owner_keyed oi \<Longrightarrow> owner_keyed (execute i oi)"
    and "snd (setIntent owner intent validate execute st) o' = Some oi"
  shows "owner_keyed oi"
  using assms owner_keyed_new
  by (auto simp: setIntent_def ensureOwner_def split: option.splits if_splits)

lemma removeIntent_keyed:
  assumes "\<forall>o' oi. st o' = Some oi \<longrightarrow> owner_keyed oi" "\<And>oi. owner_keyed oi \<Longrightarrow> owner_keyed (put (map_del (get oi) key) oi)"
    and "snd (removeIntent owner em err key get put st) o' = Some oi"
  shows "owner_keyed oi"
  using assms by (auto simp: removeIntent_def split: option.splits if_splits)

lemma prefix_keys_agree: "prefixKey (protocolString p) x = rec_prefixKey p x"
  by (simp add: prefixKey_def rec_prefixKey_def protocolString_def lower_char_def)

lemma store_ops_keyed:
  assumes own: "\<forall>o' oi. st o' = Some oi \<longrightarrow> owner_keyed oi"
  shows "snd (SetPeerIntent now owner p st) o' = Some oi \<Longrightarrow> owner_keyed oi"
    "snd (RemovePeerIntent owner a st) o' = Some oi \<Longrightarrow> owner_keyed oi"
    "snd (SetPrefixIntent now owner x st) o' = Some oi \<Longrightarrow> owner_keyed oi"
    "snd (RemovePrefixIntent owner c proto st) o' = Some oi \<Longrightarrow> owner_keyed oi"
    "snd (SetBFDIntent now owner b st) o' = Some oi \<Longrightarrow> owner_keyed oi"
    "snd (RemoveBFDIntent owner a st) o' = Some oi \<Longrightarrow> owner_keyed oi"
    "snd (SetOSPFIntent now owner i st) o' = Some oi \<Longrightarrow> owner_keyed oi"
    "snd (RemoveOSPFIntent owner n st) o' = Some oi \<Longrightarrow> owner_keyed oi"
  unfolding store_ops
  by (erule setIntent_keyed [OF own, rotated] removeIntent_keyed [OF own, rotated];
      simp add: owner_keyed_def Let_def prefix_keys_agree)+

lemma store_step_keyed:
  assumes "store_step st st'" "store_keyed st"
  shows "store_keyed st'"
proof -
  have fin: "finite_store st" and own: "\<forall>o' oi. st o' = Some oi \<longrightarrow> owner_keyed oi"
    using assms(2) by (simp_all add: store_keyed_owners)
  have "finite_store st' \<and> (\<forall>o' oi. st' o' = Some oi \<longrightarrow> owner_keyed oi)"
    using assms(1)
  proof cases
    case (remove_owner owner)
    have st': "st' o' = Some oi \<Longrightarrow> st o' = Some oi" for o' oi
      unfolding remove_owner RemoveAllByOwner_def by (simp split: if_splits)
    then have "dom st' \<subseteq> dom st" by blast
    then have "finite (dom st')" using fin finite_subset by (auto simp: finite_store_def)
    moreover have "finite_owner oi \<and> owner_keyed oi" if "st' o' = Some oi" for o' oi
      using st' [OF that] fin own by (simp add: finite_store_def)
    ultimately show ?thesis by (auto simp: finite_store_def)
  qed (use store_ops_finite [OF fin] store_ops_keyed [OF own] in simp_all)
  then show ?thesis by (simp add: store_keyed_owners)
qed

section \<open>The applied state\<close>

text \<open>The applied intents, on which the invariant depends.\<close>

definition applied :: "Reconciler \<Rightarrow>
    (string \<rightharpoonup> PeerIntent) \<times> (string \<rightharpoonup> PrefixIntent) \<times> (string \<rightharpoonup> BFDIntent) \<times> (string \<rightharpoonup> OSPFIntent)" where
  "applied r = (rc_appliedPeers r, rc_appliedPrefixes r, rc_appliedBFD r, rc_appliedOSPF r)"

lemma rec_ok_view: "applied r = applied s \<Longrightarrow> rec_ok r = rec_ok s"
  by (simp add: rec_ok_def applied_def)

lemma frr_applied: "keeps applied (frr f)"
  by (rule keeps_frr) (simp add: applied_def)

lemmas preserves_applied = preserves_keeps [of applied _ rec_ok, OF _ rec_ok_view]

lemma calls_rec_ok:
  "preserves rec_ok (frr f)" "preserves rec_ok (applyPrefixIntent vt x)" "preserves rec_ok (removePrefixFromFRR vt x)"
  "preserves rec_ok (applyBFDIntent vt b)" "preserves rec_ok (applyOSPFIntent vt i)" "preserves rec_ok (removeOSPFFromFRR vt i)"
  by (rule preserves_applied, simp_all add: frr_applied keeps_prefix keeps_ospf applyBFDIntent_def)+

lemma apply_peer_rec_ok: "preserves rec_ok (applyPeerIntent vt p)"
  unfolding preserves_def
proof (intro allI impI)
  fix r assume r: "rec_ok r"
  let ?r = "snd (applyPeerIntent vt p r)"
  have "rc_appliedPeers ?r = rc_appliedPeers r" "rc_appliedPrefixes ?r = rc_appliedPrefixes r" "rc_appliedOSPF ?r = rc_appliedOSPF r"
    by (rule keepsD, rule keeps_peer; simp)+
  moreover have "bfd_inv r" using r by (simp add: rec_ok_def bfd_inv_def)
  then have "bfd_inv ?r" using apply_peer_bfd_inv [of vt p] by (simp add: preserves_def)
  ultimately show "rec_ok ?r" using r by (simp add: rec_ok_def bfd_inv_def)
qed

lemma ApplyIntent_rec_ok: "preserves rec_ok (ApplyIntent vt kind v)"
proof -
  have none: "preserves rec_ok (Pair e)" for e :: "RecErr option" by (simp add: preserves_def)
  have "preserves rec_ok (and_then (applyPeerIntent vt p)
      (\<lambda>r. (None, r\<lparr>rc_appliedPeers := (rc_appliedPeers r)(peerKey (pi_NeighborAddress p) \<mapsto> p)\<rparr>)))" for p
    by (rule preserves_then [OF apply_peer_rec_ok]) (auto simp: rec_ok_def dest: applied_peer_address)
  moreover have "preserves rec_ok (and_then (applyPrefixIntent vt p)
      (\<lambda>r. (None, r\<lparr>rc_appliedPrefixes := (rc_appliedPrefixes r)(rec_prefixKey (px_Protocol p) (px_Prefix p) \<mapsto> p)\<rparr>)))" for p
    using applied_prefix_removable [of vt None p]
    by (intro preserves_then [OF calls_rec_ok(2)]) (auto simp: rec_ok_def update_prefix_def)
  moreover have "preserves rec_ok (and_then (applyBFDIntent vt b)
      (\<lambda>r. (None, r\<lparr>rc_appliedBFD := (rc_appliedBFD r)(bfdKey (bi_PeerAddress b) \<mapsto> b)\<rparr>)))" for b
    by (rule preserves_then [OF calls_rec_ok(4)]) (auto simp: rec_ok_def dest: applied_bfd_ok)
  moreover have "preserves rec_ok (and_then (applyOSPFIntent vt i)
      (\<lambda>r. (None, r\<lparr>rc_appliedOSPF := (rc_appliedOSPF r)(ospfKey (oi_InterfaceName i) \<mapsto> i)\<rparr>)))" for i
    by (rule preserves_then [OF calls_rec_ok(5)]) (auto simp: rec_ok_def dest: applied_ospf_ok)
  ultimately show ?thesis using none
    by (cases v) (simp_all add: ApplyIntent_def)
qed

lemma RemoveIntent_rec_ok: "preserves rec_ok (RemoveIntent vt kind key)"
proof -
  have del: "preserves rec_ok (and_then f (\<lambda>r. (None, r\<lparr>rc_appliedPeers := map_del (rc_appliedPeers r) k\<rparr>)))"
    "preserves rec_ok (and_then f (\<lambda>r. (None, r\<lparr>rc_appliedPrefixes := map_del (rc_appliedPrefixes r) k\<rparr>)))"
    "preserves rec_ok (and_then f (\<lambda>r. (None, r\<lparr>rc_appliedBFD := map_del (rc_appliedBFD r) k\<rparr>)))"
    "preserves rec_ok (and_then f (\<lambda>r. (None, r\<lparr>rc_appliedOSPF := map_del (rc_appliedOSPF r) k\<rparr>)))"
    if "preserves rec_ok f" for f :: "(RecErr, Reconciler) call" and k
    by (rule preserves_then [OF that]; simp add: rec_ok_def)+
  show ?thesis
    unfolding preserves_def
  proof (intro allI impI)
    fix r assume "rec_ok r"
    then show "rec_ok (snd (RemoveIntent vt kind key r))"
      using del [OF calls_rec_ok(1)] del [OF calls_rec_ok(3)] del [OF calls_rec_ok(6)]
      by (simp add: RemoveIntent_def removePeerFromFRR_def removeBFDFromFRR_def preserves_def split: option.split)
  qed
qed

section \<open>Withdrawal\<close>

text \<open>What the withdrawal needs from a kind of intents: an intent that is not forgotten is reported.\<close>

locale withdraw_target =
  fixes get :: "'r \<Rightarrow> (string \<rightharpoonup> 'i)"
    and put :: "(string \<rightharpoonup> 'i) \<Rightarrow> 'r \<Rightarrow> 'r"
    and act :: "'i \<Rightarrow> 'r \<Rightarrow> bool \<times> 'e list \<times> 'r"
    and ready :: "'r \<Rightarrow> bool"
    and removable :: "'i \<Rightarrow> bool"
  assumes w_get_put: "get (put m r) = m"
    and w_act_get: "get (snd (snd (act a r))) = get r"
    and w_reported: "fst (act a r) \<or> fst (snd (act a r)) \<noteq> []"
    and w_ready_put: "ready r \<Longrightarrow> ready (put m r)"
    and w_ready_act: "ready r \<Longrightarrow> ready (snd (snd (act a r)))"
    and w_succeeds: "ready r \<Longrightarrow> removable a \<Longrightarrow> fst (snd (act a r)) = []"
begin

definition w_effect :: "string set \<Rightarrow> 'r \<Rightarrow> 'r \<Rightarrow> 'e list \<Rightarrow> bool" where
  "w_effect K r r' es \<longleftrightarrow>
     (\<forall>k v. get r' k = Some v \<longrightarrow> get r k = Some v) \<and> (es = [] \<longrightarrow> (\<forall>k \<in> K. get r' k = None)) \<and>
     (ready r \<longrightarrow> ready r') \<and> (ready r \<longrightarrow> (\<forall>k v. get r k = Some v \<longrightarrow> removable v) \<longrightarrow> es = [])"

lemma w_effect_trans:
  assumes 1: "w_effect K r r1 es1" and 2: "w_effect J r1 r2 es2"
  shows "w_effect (K \<union> J) r r2 (es1 @ es2)"
proof -
  have sub: "get r1 k = Some v \<Longrightarrow> get r k = Some v" "get r2 k = Some v \<Longrightarrow> get r1 k = Some v" for k v
    using 1 2 unfolding w_effect_def by blast+
  show ?thesis
    unfolding w_effect_def
  proof (intro conjI allI ballI impI)
    fix k v assume "get r2 k = Some v"
    then show "get r k = Some v" by (intro sub(1) sub(2))
  next
    fix k assume es: "es1 @ es2 = []" and k: "k \<in> K \<union> J"
    show "get r2 k = None"
    proof (cases "k \<in> J")
      case True
      with es 2 show ?thesis unfolding append_is_Nil_conv w_effect_def by blast
    next
      case False
      with es k 1 have "get r1 k = None" unfolding append_is_Nil_conv w_effect_def by blast
      with sub(2) [of k] show ?thesis by (cases "get r2 k") auto
    qed
  next
    assume "ready r"
    with 1 2 show "ready r2" unfolding w_effect_def by blast
  next
    assume r: "ready r" "\<forall>k v. get r k = Some v \<longrightarrow> removable v"
    then have e1: "es1 = []" "ready r1" using 1 unfolding w_effect_def by blast+
    have "\<forall>k v. get r1 k = Some v \<longrightarrow> removable v" using r(2) sub(1) by blast
    then have "es2 = []" using e1(2) 2 unfolding w_effect_def by blast
    with e1(1) show "es1 @ es2 = []" by simp
  qed
qed

lemma withdraw_step_effect:
  assumes "withdraw_step get put act k (errs, r) = (errs', r')"
  shows "\<exists>es. errs' = errs @ es \<and> w_effect {k} r r' es"
proof (cases "get r k")
  case None
  with assms have "errs' = errs @ []" "r' = r" by (simp_all add: withdraw_step_def)
  with None show ?thesis unfolding w_effect_def by auto
next
  case (Some a)
  obtain gone es s where s: "act a r = (gone, es, s)" by (cases "act a r")
  have g: "errs' = errs @ es" "r' = (if gone then put (map_del (get s) k) s else s)"
    using assms Some s by (simp_all add: withdraw_step_def)
  have h: "get s = get r" "gone \<or> es \<noteq> []" "ready r \<Longrightarrow> ready s" "ready r \<Longrightarrow> removable a \<Longrightarrow> es = []"
    using w_act_get [of a r] w_reported [of a r] w_ready_act [of r a] w_succeeds [of r a] s by auto
  have "get r' = (if gone then map_del (get r) k else get r)" "ready r \<Longrightarrow> ready r'"
    using g(2) h w_get_put w_ready_put by auto
  then have "w_effect {k} r r' es" unfolding w_effect_def using h Some by auto
  with g show ?thesis by blast
qed

lemma withdraw_loop_effect:
  "fold (withdraw_step get put act) ks (errs, r) = (errs', r') \<Longrightarrow>
    \<exists>es. errs' = errs @ es \<and> w_effect (set ks) r r' es"
proof (induction ks arbitrary: errs r)
  case Nil
  then show ?case by (simp add: w_effect_def)
next
  case (Cons k ks)
  obtain e1 r1 where s: "withdraw_step get put act k (errs, r) = (e1, r1)" by (cases "withdraw_step get put act k (errs, r)")
  obtain es1 where 1: "e1 = errs @ es1" "w_effect {k} r r1 es1" using withdraw_step_effect [OF s] by blast
  have "fold (withdraw_step get put act) ks (e1, r1) = (errs', r')" using Cons.prems s by simp
  from Cons.IH [OF this] obtain es2 where 2: "errs' = e1 @ es2" "w_effect (set ks) r1 r' es2" by blast
  show ?case using w_effect_trans [OF 1(2) 2(2)] 1(1) 2(1) by (intro exI [of _ "es1 @ es2"]) simp
qed

text \<open>The loop over all applied intents of the kind.\<close>

lemma withdraw_pass:
  fixes s :: "'e list \<times> 'r" and l :: string
  assumes "fair ord" "finite (dom (get (snd s)))"
  defines "s' \<equiv> fold (withdraw_step get put act) (ord l (dom (get (snd s)))) s"
  shows "fst s' = [] \<Longrightarrow> fst s = [] \<and> get (snd s') = Map.empty"
    and "fst s = [] \<Longrightarrow> ready (snd s) \<Longrightarrow> (\<And>k v. get (snd s) k = Some v \<Longrightarrow> removable v) \<Longrightarrow> fst s' = []"
    and "ready (snd s) \<Longrightarrow> ready (snd s')"
    and "get (snd s') k = Some v \<Longrightarrow> get (snd s) k = Some v"
proof -
  have "fold (withdraw_step get put act) (ord l (dom (get (snd s)))) (fst s, snd s) = (fst s', snd s')"
    by (simp add: s'_def)
  from withdraw_loop_effect [OF this] obtain es where es: "fst s' = fst s @ es"
    and w: "w_effect (set (ord l (dom (get (snd s))))) (snd s) (snd s') es" by blast
  have all: "set (ord l (dom (get (snd s)))) = dom (get (snd s))" using assms(1,2) by (simp add: fair_def)
  note w' = w [unfolded w_effect_def all]
  show "fst s = [] \<Longrightarrow> ready (snd s) \<Longrightarrow> (\<And>k v. get (snd s) k = Some v \<Longrightarrow> removable v) \<Longrightarrow> fst s' = []"
    using w' unfolding es by blast
  show "ready (snd s) \<Longrightarrow> ready (snd s')" "get (snd s') k = Some v \<Longrightarrow> get (snd s) k = Some v" using w' by blast+
  show "fst s' = [] \<Longrightarrow> fst s = [] \<and> get (snd s') = Map.empty"
  proof -
    assume "fst s' = []"
    then have e: "fst s = []" "es = []" using es by simp_all
    have "get (snd s') k = None" for k
    proof (cases "get (snd s') k")
      case (Some v)
      then have "k \<in> dom (get (snd s))" using w' by blast
      then show ?thesis using w' e(2) by blast
    qed simp
    then show ?thesis using e by blast
  qed
qed

end

lemma gone_if_ok_facts [simp]:
  "snd (snd (gone_if_ok f r)) = snd (f r)" "fst (gone_if_ok f r) \<longleftrightarrow> fst (f r) = None"
  "fst (snd (gone_if_ok f r)) = [] \<longleftrightarrow> fst (f r) = None"
  by (auto simp: gone_if_ok_def split: prod.split option.split)

lemma withdraw_prefix_view: "(\<And>f. keeps h (frr f)) \<Longrightarrow> h (snd (snd (withdraw_prefix vt p r))) = h r"
  by (auto simp: withdraw_prefix_def keeps_def split: prod.split option.split) (metis snd_conv)+

lemma frr_view: "(\<And>r c. h (r\<lparr>rc_frrClient := Some c\<rparr>) = h r) \<Longrightarrow> h (snd (frr f r)) = h r"
  by (rule keepsD) (rule keeps_frr)

lemma withdraw_prefix_succeeds:
  assumes "ready vt r" "prefix_removable p"
  shows "fst (snd (withdraw_prefix vt p r)) = []"
proof (cases "px_Protocol p = ProtocolBGP")
  case True
  then have p: "sanitizeVTYParam (px_Prefix p) = None" using assms(2) by (auto simp: prefix_removable_def protocol_defs)
  obtain n where n: "resolveAFICLI (detectAFI (px_Prefix p)) = Inr n" using detectAFI_known by blast
  have w: "succeeds vt (frr (WithdrawNetwork vt (px_Prefix p) (detectAFI (px_Prefix p))))"
    by (rule succeeds_frr) (use p n in \<open>simp_all add: frr_accepted\<close>)
  have m: "succeeds vt (frr (RemoveRouteMap vt (routeMapName p)))"
    by (rule succeeds_frr) (use routeMapName_clean [OF p] in \<open>simp_all add: RemoveRouteMap_def checked_def runConfig_accepted\<close>)
  obtain s where s: "frr (WithdrawNetwork vt (px_Prefix p) (detectAFI (px_Prefix p))) r = (None, s)" "ready vt s"
    using w assms(1) unfolding succeeds_def by (metis prod.collapse)
  obtain t where "frr (RemoveRouteMap vt (routeMapName p)) s = (None, t)"
    using m s(2) unfolding succeeds_def by (metis prod.collapse)
  with s True show ?thesis by (simp add: withdraw_prefix_def)
qed (simp add: withdraw_prefix_def)

lemma withdraw_ready:
  "ready vt r \<Longrightarrow> ready vt (snd (frr (RemoveBFDPeer vt a i) r))" "ready vt r \<Longrightarrow> ready vt (snd (frr (RemoveNeighbor vt a) r))"
  "ready vt r \<Longrightarrow> ready vt (snd (removeOSPFFromFRR vt os r))" "ready vt r \<Longrightarrow> ready vt (snd (snd (withdraw_prefix vt p r)))"
proof -
  show "ready vt r \<Longrightarrow> ready vt (snd (frr (RemoveBFDPeer vt a i) r))" "ready vt r \<Longrightarrow> ready vt (snd (frr (RemoveNeighbor vt a) r))"
    by (erule ready_keeps [rotated], rule keeps_las, simp)+
  show "ready vt r \<Longrightarrow> ready vt (snd (removeOSPFFromFRR vt os r))" by (rule ready_keeps) (rule keeps_ospf_las)
  have "las (snd (frr (WithdrawNetwork vt x y) r)) = las r" "las (snd (frr (RemoveRouteMap vt x) r)) = las r" for x y r
    by (rule keepsD, rule keeps_las, simp)+
  then have "las (snd (snd (withdraw_prefix vt p r))) = las r"
    by (auto simp: withdraw_prefix_def split: prod.split option.split) (metis snd_conv)+
  then show "ready vt r \<Longrightarrow> ready vt (snd (snd (withdraw_prefix vt p r)))" by (simp add: ready_def)
qed

interpretation w_prefixes: withdraw_target rc_appliedPrefixes "\<lambda>m r. r\<lparr>rc_appliedPrefixes := m\<rparr>"
  "withdraw_prefix vt" "ready vt" prefix_removable for vt
proof unfold_locales
  fix a r
  have "keeps rc_appliedPrefixes (frr f)" for f by (rule keeps_frr) simp
  then show "rc_appliedPrefixes (snd (snd (withdraw_prefix vt a r))) = rc_appliedPrefixes r" by (rule withdraw_prefix_view)
  show "fst (withdraw_prefix vt a r) \<or> fst (snd (withdraw_prefix vt a r)) \<noteq> []"
    by (auto simp: withdraw_prefix_def split: prod.split option.split)
qed (simp_all add: withdraw_prefix_succeeds withdraw_ready)

interpretation w_sessions: withdraw_target rc_appliedBFD "\<lambda>m r. r\<lparr>rc_appliedBFD := m\<rparr>"
  "\<lambda>b. gone_if_ok (frr (RemoveBFDPeer vt (bi_PeerAddress b) (bi_InterfaceName b)))" "ready vt" bfd_ok for vt
proof unfold_locales
  fix b r assume "ready vt r" "bfd_ok b"
  moreover have "succeeds vt (frr (RemoveBFDPeer vt (bi_PeerAddress b) (bi_InterfaceName b)))"
    by (rule succeeds_frr) (use \<open>bfd_ok b\<close> in \<open>simp_all add: frr_accepted bfd_ok_def\<close>)
  ultimately show "fst (snd (gone_if_ok (frr (RemoveBFDPeer vt (bi_PeerAddress b) (bi_InterfaceName b))) r)) = []"
    by (simp add: succeedsD)
qed (auto simp: withdraw_ready intro: frr_view)

interpretation w_interfaces: withdraw_target rc_appliedOSPF "\<lambda>m r. r\<lparr>rc_appliedOSPF := m\<rparr>"
  "\<lambda>i. gone_if_ok (removeOSPFFromFRR vt i)" "ready vt" ospf_ok for vt
proof unfold_locales
  fix i r
  show "rc_appliedOSPF (snd (snd (gone_if_ok (removeOSPFFromFRR vt i) r))) = rc_appliedOSPF r"
    by (simp add: removeOSPFFromFRR_def frr_view)
qed (auto simp: withdraw_ready intro: succeedsD [OF succeeds_ospf(2)])

interpretation w_peers: withdraw_target rc_appliedPeers "\<lambda>m r. r\<lparr>rc_appliedPeers := m\<rparr>"
  "\<lambda>p. gone_if_ok (frr (RemoveNeighbor vt (pi_NeighborAddress p)))" "ready vt"
  "\<lambda>p. validateIPAddress (pi_NeighborAddress p) = None" for vt
proof unfold_locales
  fix p :: PeerIntent and r assume "ready vt r" "validateIPAddress (pi_NeighborAddress p) = None"
  moreover have "succeeds vt (frr (RemoveNeighbor vt (pi_NeighborAddress p)))"
    by (rule succeeds_frr) (use \<open>validateIPAddress (pi_NeighborAddress p) = None\<close> in \<open>simp_all add: frr_accepted\<close>)
  ultimately show "fst (snd (gone_if_ok (frr (RemoveNeighbor vt (pi_NeighborAddress p))) r)) = []"
    by (simp add: succeedsD)
qed (auto simp: withdraw_ready intro: frr_view)

text \<open>A loop over one kind of intents leaves the other kinds alone.\<close>

lemma withdraw_fold_view:
  assumes "\<And>a r. h (snd (snd (act a r))) = h r" "\<And>m r. h (put m r) = h r"
  shows "h (snd (fold (withdraw_step get put act) ks s)) = h (snd s)"
proof -
  have "h (snd (withdraw_step get put act k s)) = h (snd s)" for k s
    using assms(1) [of "the (get (snd s) k)" "snd s"] assms(2)
    by (cases s) (auto simp: withdraw_step_def split: option.splits prod.splits)
  then show ?thesis by (induction ks arbitrary: s) auto
qed

text \<open>The four loops.\<close>

definition w1 :: "Vtysh \<Rightarrow> Order \<Rightarrow> Reconciler \<Rightarrow> RecErr list \<times> Reconciler" where
  "w1 vt ord r = fold (withdraw_step rc_appliedPrefixes (\<lambda>m r. r\<lparr>rc_appliedPrefixes := m\<rparr>) (withdraw_prefix vt))
     (ord ''withdraw prefixes'' (dom (rc_appliedPrefixes (snd ([] :: RecErr list, r))))) ([], r)"

definition w2 :: "Vtysh \<Rightarrow> Order \<Rightarrow> Reconciler \<Rightarrow> RecErr list \<times> Reconciler" where
  "w2 vt ord r = fold (withdraw_step rc_appliedBFD (\<lambda>m r. r\<lparr>rc_appliedBFD := m\<rparr>)
       (\<lambda>b. gone_if_ok (frr (RemoveBFDPeer vt (bi_PeerAddress b) (bi_InterfaceName b)))))
     (ord ''withdraw bfd'' (dom (rc_appliedBFD (snd (w1 vt ord r))))) (w1 vt ord r)"

definition w3 :: "Vtysh \<Rightarrow> Order \<Rightarrow> Reconciler \<Rightarrow> RecErr list \<times> Reconciler" where
  "w3 vt ord r = fold (withdraw_step rc_appliedOSPF (\<lambda>m r. r\<lparr>rc_appliedOSPF := m\<rparr>) (\<lambda>i. gone_if_ok (removeOSPFFromFRR vt i)))
     (ord ''withdraw ospf'' (dom (rc_appliedOSPF (snd (w2 vt ord r))))) (w2 vt ord r)"

definition w4 :: "Vtysh \<Rightarrow> Order \<Rightarrow> Reconciler \<Rightarrow> RecErr list \<times> Reconciler" where
  "w4 vt ord r = fold (withdraw_step rc_appliedPeers (\<lambda>m r. r\<lparr>rc_appliedPeers := m\<rparr>)
       (\<lambda>p. gone_if_ok (frr (RemoveNeighbor vt (pi_NeighborAddress p)))))
     (ord ''withdraw peers'' (dom (rc_appliedPeers (snd (w3 vt ord r))))) (w3 vt ord r)"

lemma WithdrawAll_loops:
  assumes "rc_frrClient r \<noteq> None"
  shows "fst (WithdrawAll vt ord r) = fst (w4 vt ord r)" "applied (snd (WithdrawAll vt ord r)) = applied (snd (w4 vt ord r))"
    "rc_frrClient (snd (WithdrawAll vt ord r)) = rc_frrClient (snd (w4 vt ord r))"
proof -
  have eq: "WithdrawAll vt ord r =
    (case w4 vt ord r of (errs, r') \<Rightarrow> if errs \<noteq> [] then (errs, r')
       else ([], r'\<lparr>rc_lastBGPStates := Map.empty, rc_lastBFDStates := Map.empty, rc_lastOSPFStates := Map.empty\<rparr>))"
    unfolding WithdrawAll_def if_not_P [OF assms] Let_def w1_def w2_def w3_def w4_def snd_conv by (rule refl)
  show "fst (WithdrawAll vt ord r) = fst (w4 vt ord r)" "applied (snd (WithdrawAll vt ord r)) = applied (snd (w4 vt ord r))"
    "rc_frrClient (snd (WithdrawAll vt ord r)) = rc_frrClient (snd (w4 vt ord r))"
    unfolding eq by (simp_all add: applied_def split: prod.split)
qed

lemma w_frames:
  "rc_appliedPeers (snd (w1 vt ord r)) = rc_appliedPeers r" "rc_appliedBFD (snd (w1 vt ord r)) = rc_appliedBFD r"
  "rc_appliedOSPF (snd (w1 vt ord r)) = rc_appliedOSPF r"
  "rc_appliedPeers (snd (w2 vt ord r)) = rc_appliedPeers r" "rc_appliedPrefixes (snd (w2 vt ord r)) = rc_appliedPrefixes (snd (w1 vt ord r))"
  "rc_appliedOSPF (snd (w2 vt ord r)) = rc_appliedOSPF r"
  "rc_appliedPeers (snd (w3 vt ord r)) = rc_appliedPeers r" "rc_appliedPrefixes (snd (w3 vt ord r)) = rc_appliedPrefixes (snd (w1 vt ord r))"
  "rc_appliedBFD (snd (w3 vt ord r)) = rc_appliedBFD (snd (w2 vt ord r))"
  "rc_appliedPrefixes (snd (w4 vt ord r)) = rc_appliedPrefixes (snd (w1 vt ord r))"
  "rc_appliedBFD (snd (w4 vt ord r)) = rc_appliedBFD (snd (w2 vt ord r))"
  "rc_appliedOSPF (snd (w4 vt ord r)) = rc_appliedOSPF (snd (w3 vt ord r))"
proof -
  have p: "h (snd (w1 vt ord r)) = h r"
    if "\<And>r c. h (r\<lparr>rc_frrClient := Some c\<rparr>) = h r" "\<And>r m. h (r\<lparr>rc_appliedPrefixes := m\<rparr>) = h r" for h :: "Reconciler \<Rightarrow> 'x"
    using withdraw_fold_view [of h "withdraw_prefix vt" "\<lambda>m r. r\<lparr>rc_appliedPrefixes := m\<rparr>"] that
    by (simp add: w1_def withdraw_prefix_view keeps_frr)
  have b: "h (snd (w2 vt ord r)) = h (snd (w1 vt ord r))"
    if "\<And>r c. h (r\<lparr>rc_frrClient := Some c\<rparr>) = h r" "\<And>r m. h (r\<lparr>rc_appliedBFD := m\<rparr>) = h r" for h :: "Reconciler \<Rightarrow> 'x"
    unfolding w2_def by (rule withdraw_fold_view) (simp_all add: frr_view that)
  have i: "h (snd (w3 vt ord r)) = h (snd (w2 vt ord r))"
    if "\<And>r c. h (r\<lparr>rc_frrClient := Some c\<rparr>) = h r" "\<And>r m. h (r\<lparr>rc_appliedOSPF := m\<rparr>) = h r" for h :: "Reconciler \<Rightarrow> 'x"
    unfolding w3_def by (rule withdraw_fold_view) (simp_all add: removeOSPFFromFRR_def frr_view that)
  have n: "h (snd (w4 vt ord r)) = h (snd (w3 vt ord r))"
    if "\<And>r c. h (r\<lparr>rc_frrClient := Some c\<rparr>) = h r" "\<And>r m. h (r\<lparr>rc_appliedPeers := m\<rparr>) = h r" for h :: "Reconciler \<Rightarrow> 'x"
    unfolding w4_def by (rule withdraw_fold_view) (simp_all add: frr_view that)
  show "rc_appliedPeers (snd (w1 vt ord r)) = rc_appliedPeers r" "rc_appliedBFD (snd (w1 vt ord r)) = rc_appliedBFD r"
    "rc_appliedOSPF (snd (w1 vt ord r)) = rc_appliedOSPF r"
    by (rule p; simp)+
  then show "rc_appliedPeers (snd (w2 vt ord r)) = rc_appliedPeers r" "rc_appliedOSPF (snd (w2 vt ord r)) = rc_appliedOSPF r"
    "rc_appliedPrefixes (snd (w2 vt ord r)) = rc_appliedPrefixes (snd (w1 vt ord r))"
    using b [of rc_appliedPeers] b [of rc_appliedOSPF] b [of rc_appliedPrefixes] by simp_all
  then show "rc_appliedPeers (snd (w3 vt ord r)) = rc_appliedPeers r"
    "rc_appliedPrefixes (snd (w3 vt ord r)) = rc_appliedPrefixes (snd (w1 vt ord r))"
    "rc_appliedBFD (snd (w3 vt ord r)) = rc_appliedBFD (snd (w2 vt ord r))"
    using i [of rc_appliedPeers] i [of rc_appliedPrefixes] i [of rc_appliedBFD] by simp_all
  then show "rc_appliedPrefixes (snd (w4 vt ord r)) = rc_appliedPrefixes (snd (w1 vt ord r))"
    "rc_appliedBFD (snd (w4 vt ord r)) = rc_appliedBFD (snd (w2 vt ord r))"
    "rc_appliedOSPF (snd (w4 vt ord r)) = rc_appliedOSPF (snd (w3 vt ord r))"
    using n [of rc_appliedPrefixes] n [of rc_appliedBFD] n [of rc_appliedOSPF] by simp_all
qed

lemma w_passes:
  assumes "fair ord" "rec_ok r"
  shows "rec_ok (snd (w4 vt ord r))"
    "fst (w4 vt ord r) = [] \<Longrightarrow> applied (snd (w4 vt ord r)) = (Map.empty, Map.empty, Map.empty, Map.empty)"
    "ready vt r \<Longrightarrow> fst (w4 vt ord r) = []"
proof -
  have fin: "finite (dom (rc_appliedPrefixes (snd ([] :: RecErr list, r))))" "finite (dom (rc_appliedBFD (snd (w1 vt ord r))))"
    "finite (dom (rc_appliedOSPF (snd (w2 vt ord r))))" "finite (dom (rc_appliedPeers (snd (w3 vt ord r))))"
    using assms(2) by (simp_all add: rec_ok_def w_frames)
  note p = w_prefixes.withdraw_pass [OF assms(1) fin(1), where l = "''withdraw prefixes''" and vt = vt, folded w1_def]
  note b = w_sessions.withdraw_pass [OF assms(1) fin(2), where l = "''withdraw bfd''" and vt = vt, folded w2_def]
  note i = w_interfaces.withdraw_pass [OF assms(1) fin(3), where l = "''withdraw ospf''" and vt = vt, folded w3_def]
  note n = w_peers.withdraw_pass [OF assms(1) fin(4), where l = "''withdraw peers''" and vt = vt, folded w4_def]
  have sub: "rc_appliedPrefixes (snd (w1 vt ord r)) k = Some x \<Longrightarrow> rc_appliedPrefixes r k = Some x"
    "rc_appliedBFD (snd (w2 vt ord r)) k = Some s \<Longrightarrow> rc_appliedBFD r k = Some s"
    "rc_appliedOSPF (snd (w3 vt ord r)) k = Some q \<Longrightarrow> rc_appliedOSPF r k = Some q"
    "rc_appliedPeers (snd (w4 vt ord r)) k = Some u \<Longrightarrow> rc_appliedPeers r k = Some u" for k x s q u
    using p(4) [of k x] b(4) [of k s] i(4) [of k q] n(4) [of k u] by (simp_all add: w_frames)
  have "dom (rc_appliedPrefixes (snd (w1 vt ord r))) \<subseteq> dom (rc_appliedPrefixes r)"
    "dom (rc_appliedBFD (snd (w2 vt ord r))) \<subseteq> dom (rc_appliedBFD r)"
    "dom (rc_appliedOSPF (snd (w3 vt ord r))) \<subseteq> dom (rc_appliedOSPF r)"
    "dom (rc_appliedPeers (snd (w4 vt ord r))) \<subseteq> dom (rc_appliedPeers r)"
    using sub by blast+
  then have fin4: "finite (dom (rc_appliedPrefixes (snd (w1 vt ord r))))" "finite (dom (rc_appliedBFD (snd (w2 vt ord r))))"
    "finite (dom (rc_appliedOSPF (snd (w3 vt ord r))))" "finite (dom (rc_appliedPeers (snd (w4 vt ord r))))"
    using assms(2) unfolding rec_ok_def by (blast intro: finite_subset)+
  show "rec_ok (snd (w4 vt ord r))"
    unfolding rec_ok_def w_frames using fin4 sub assms(2) unfolding rec_ok_def by blast
  show "fst (w4 vt ord r) = [] \<Longrightarrow> applied (snd (w4 vt ord r)) = (Map.empty, Map.empty, Map.empty, Map.empty)"
    using p(1) b(1) i(1) n(1) unfolding applied_def w_frames by simp
  have ok: "prefix_removable x" if "rc_appliedPrefixes r k = Some x" for k x using that assms(2) by (simp add: rec_ok_def)
  have ok2: "bfd_ok x" if "rc_appliedBFD (snd (w1 vt ord r)) k = Some x" for k x using that assms(2) by (simp add: rec_ok_def w_frames)
  have ok3: "ospf_ok x" if "rc_appliedOSPF (snd (w2 vt ord r)) k = Some x" for k x using that assms(2) by (simp add: rec_ok_def w_frames)
  have ok4: "validateIPAddress (pi_NeighborAddress x) = None" if "rc_appliedPeers (snd (w3 vt ord r)) k = Some x" for k x
    using that assms(2) by (simp add: rec_ok_def w_frames)
  show "ready vt r \<Longrightarrow> fst (w4 vt ord r) = []"
    using p(2,3) b(2,3) i(2,3) n(2,3) ok ok2 ok3 ok4 unfolding snd_conv fst_conv by blast
qed

lemma WithdrawAll_rec_ok:
  assumes "fair ord" "rec_ok r"
  shows "rec_ok (snd (WithdrawAll vt ord r))"
proof (cases "rc_frrClient r = None")
  case True
  then have "WithdrawAll vt ord r = ([], r)" unfolding WithdrawAll_def by (rule if_P)
  with assms(2) show ?thesis by simp
next
  case False
  then show ?thesis using w_passes(1) [OF assms] rec_ok_view [OF WithdrawAll_loops(2)] by blast
qed

section \<open>What FRR is sent\<close>

text \<open>Everything that the client of a state has written to \<open>vtysh\<close> consists of its own commands.\<close>

definition clean :: "Reconciler \<Rightarrow> bool" where
  "clean r \<longleftrightarrow> (\<forall>c. rc_frrClient r = Some c \<longrightarrow> sent_ok c)"

lemma clean_view: "rc_frrClient r = rc_frrClient s \<Longrightarrow> clean r = clean s"
  by (simp add: clean_def)

named_theorems clean_intros \<open>calls that send the client's own commands\<close>

lemma clean_frr [clean_intros]:
  assumes "sends_ok f"
  shows "preserves clean (frr f)"
proof -
  have "sent_ok (snd (f c))" if c: "sent_ok c" for c
  proof -
    obtain new where "cl_sent (snd (f c)) = cl_sent c @ new" "list_all input_ok new"
      using assms unfolding sends_ok_def by blast
    with c show ?thesis by (simp add: sent_ok_def)
  qed
  then show ?thesis by (auto simp: preserves_def clean_def frr_def split: option.split)
qed

lemma preserves_each [clean_intros]: "(\<And>x. preserves P (f x)) \<Longrightarrow> preserves P (each_call f xs)"
proof (induction xs)
  case (Cons x xs)
  have "preserves P (and_then (f x) (each_call f xs))" using Cons by (intro preserves_seq) auto
  then show ?case by (simp add: preserves_def)
qed (simp add: preserves_def)

lemma preserves_if [clean_intros]:
  "(b \<Longrightarrow> preserves P f) \<Longrightarrow> (\<not> b \<Longrightarrow> preserves P g) \<Longrightarrow> preserves P (if b then f else g)"
  by simp

lemma preserves_Pair [clean_intros]: "preserves P (Pair e)"
  by (simp add: preserves_def)

lemmas clean_seq [clean_intros] = preserves_seq [of clean]

lemma families_clean [clean_intros]: "(\<And>afi. sends_ok (f afi)) \<Longrightarrow> preserves clean (for_families f afs)"
  unfolding for_families_def by (intro clean_intros)

lemma apply_peer_bfd_clean: "preserves clean (applyPeerBFD vt p)"
proof -
  have upd: "clean (r\<lparr>rc_peerManagedBFD := m, rc_appliedBFD := b\<rparr>) = clean r" for r m b by (rule clean_view) simp
  have on: "preserves clean (\<lambda>r. frr f (r\<lparr>rc_peerManagedBFD := m r, rc_appliedBFD := b r\<rparr>))" if "sends_ok f" for f m b
    using clean_frr [OF that] by (simp add: preserves_def upd)
  have off: "preserves clean (\<lambda>r. if P r then and_then (frr f) (\<lambda>r. (None, r\<lparr>rc_peerManagedBFD := m r, rc_appliedBFD := b r\<rparr>)) r else (None, r))"
    if "sends_ok f" for f P m b
  proof -
    have "preserves clean (and_then (frr f) (\<lambda>r. (None, r\<lparr>rc_peerManagedBFD := m r, rc_appliedBFD := b r\<rparr>)))"
      by (rule preserves_seq [OF clean_frr [OF that]]) (simp add: preserves_def upd)
    then show ?thesis by (simp add: preserves_def)
  qed
  show ?thesis unfolding applyPeerBFD_def Let_def
    by (intro preserves_if preserves_seq clean_frr on off sends_intros)
qed

lemma apply_peer_clean: "preserves clean (applyPeerIntent vt p)"
  unfolding applyPeerIntent_def Let_def by (intro clean_intros apply_peer_bfd_clean sends_intros)

lemma drop_peer_clean: "preserves clean (drop_peer vt ap)"
proof -
  let ?a = "pi_NeighborAddress ap"
  have "preserves clean (frr (SetNeighborBFD vt ?a False))" "preserves clean (frr (RemoveBFDPeer vt ?a []))"
    "preserves clean (frr (RemoveNeighbor vt ?a))"
    by (intro clean_frr sends_intros)+
  note sends = this [unfolded preserves_def, rule_format]
  have "clean (drop_peer_session vt ?a r)" if "clean r" for r
    using sends(2) [OF sends(1) [OF that]] that
    by (simp add: drop_peer_session_def Let_def clean_def)
  moreover have "preserves clean (and_then (removePeerFromFRR vt ?a) (\<lambda>r. (None, r\<lparr>rc_lastBGPStates := s r\<rparr>)))" for s
    unfolding removePeerFromFRR_def by (rule preserves_seq) (use sends(3) in \<open>simp_all add: preserves_def clean_def\<close>)
  ultimately show ?thesis by (simp add: preserves_def drop_peer_def)
qed

lemma route_map_sets_set: "list_all (\<lambda>l. take 4 l = ''set '') (route_map_sets p)"
  by (simp add: route_map_sets_def)

lemma prefix_clean:
  "preserves clean (applyPrefixIntent vt p)" "preserves clean (update_prefix vt x p)" "preserves clean (removePrefixFromFRR vt p)"
proof -
  have rm: "preserves clean (frr (RemoveRouteMap vt n))" for n by (intro clean_intros sends_intros)
  show a: "preserves clean (applyPrefixIntent vt p)"
    unfolding applyPrefixIntent_def Let_def
    by (intro clean_intros sends_ok_route_map route_map_sets_set sends_intros)
  then show "preserves clean (update_prefix vt x p)"
    using rm by (simp add: preserves_def update_prefix_def split: option.split)
  have "preserves clean (\<lambda>r. (None, if b then snd (frr (RemoveRouteMap vt n) r) else r))" for b n
    using rm by (simp add: preserves_def)
  moreover have "preserves clean (frr (WithdrawNetwork vt y z))" for y z by (intro clean_intros sends_intros)
  ultimately show "preserves clean (removePrefixFromFRR vt p)"
    unfolding removePrefixFromFRR_def by (intro preserves_if preserves_seq preserves_Pair)
qed

lemma session_clean:
  "preserves clean (applyBFDIntent vt b)" "preserves clean (drop_bfd vt b)" "preserves clean (applyOSPFIntent vt i)"
  "preserves clean (removeOSPFFromFRR vt i)"
proof -
  have c: "preserves clean (frr (AddBFDPeer vt s t u v w))" "preserves clean (frr (RemoveBFDPeer vt s w))" for s t u v w
    by (intro clean_intros sends_intros)+
  then show "preserves clean (applyBFDIntent vt b)" by (simp add: applyBFDIntent_def)
  show "preserves clean (drop_bfd vt b)"
    unfolding drop_bfd_def removeBFDFromFRR_def by (rule preserves_seq [OF c(2)]) (simp add: preserves_def clean_def)
  show "preserves clean (applyOSPFIntent vt i)" "preserves clean (removeOSPFFromFRR vt i)"
    unfolding applyOSPFIntent_def removeOSPFFromFRR_def by (intro clean_intros sends_intros)+
qed

lemma sync_clean:
  assumes "\<And>x d. preserves clean (app x d)" "\<And>a. preserves clean (rem a)" "\<And>m r. rc_frrClient (put m r) = rc_frrClient r" "clean r"
  shows "clean (snd (sync ord l get put eq app skip rem desired r))"
proof (rule sync_keeps [where P = clean, OF assms(4)])
  show "clean (put m r)" if "clean r" for m r using clean_view [OF assms(3)] that by blast
qed (use assms(1,2) in \<open>simp_all add: preserves_def\<close>)

lemma passes_clean:
  assumes "clean r"
  shows "clean (snd (ReconcilePeers vt ord ps r))" "clean (snd (ReconcilePrefixes vt ord xs r))"
    "clean (snd (ReconcileBFD vt ord bs r))" "clean (snd (ReconcileOSPF vt ord is r))"
  unfolding ReconcilePeers_def ReconcilePrefixes_def ReconcileBFD_def ReconcileOSPF_def
  by (rule sync_clean; simp add: assms apply_peer_clean drop_peer_clean prefix_clean session_clean)+

lemma ensureBGPGlobal_clean:
  assumes "clean r"
  shows "clean (snd (ensureBGPGlobal vt r))"
proof -
  have "clean (snd (frr (ReconfigureBGPGlobal vt o' as rid) r))" for o' as rid
  proof -
    have "preserves clean (frr (ReconfigureBGPGlobal vt o' as rid))" by (intro clean_intros sends_intros)
    with assms show ?thesis by (simp add: preserves_def)
  qed
  then show ?thesis
    using assms by (auto simp: ensureBGPGlobal_def and_then_def Let_def clean_def split: option.splits prod.splits) (metis snd_conv)+
qed

lemma Reconcile_clean:
  assumes "clean r"
  shows "clean (snd (Reconcile vt ord st sh r))"
proof (cases "rc_frrClient r = None")
  case True
  then show ?thesis using assms by (simp add: Reconcile_def)
next
  case False
  obtain e r1 where r1: "ensureBGPGlobal vt r = (e, r1)" by (cases "ensureBGPGlobal vt r")
  have c: "clean r1" using ensureBGPGlobal_clean [OF assms, of vt] r1 by simp
  show ?thesis
  proof (cases e)
    case None
    have "clean (snd (after_ospf vt ord st r1))"
      unfolding after_ospf_def after_bfd_def after_prefixes_def after_peers_def
      by (rule passes_clean(4), rule passes_clean(3), rule passes_clean(2), rule passes_clean(1)) (rule c)
    moreover have "rc_frrClient (monitorFRRState ord st sh s) = rc_frrClient s" for s by simp
    ultimately have "clean (monitorFRRState ord st sh (snd (after_ospf vt ord st r1)))" using clean_view by blast
    then show ?thesis unfolding Reconcile_unfold [OF False r1 [unfolded None]] by simp
  next
    case (Some x)
    then show ?thesis using Reconcile_stops [OF False r1 [unfolded Some]] c by simp
  qed
qed

lemma clean_upd [simp]:
  "clean (r\<lparr>rc_appliedPeers := a\<rparr>) = clean r" "clean (r\<lparr>rc_appliedPrefixes := b\<rparr>) = clean r"
  "clean (r\<lparr>rc_appliedBFD := c\<rparr>) = clean r" "clean (r\<lparr>rc_appliedOSPF := d\<rparr>) = clean r"
  by (simp_all add: clean_def)

lemma clean_recorded:
  assumes "preserves clean f"
  shows "preserves clean (and_then f (\<lambda>r. (None, r\<lparr>rc_appliedPeers := a r\<rparr>)))"
    "preserves clean (and_then f (\<lambda>r. (None, r\<lparr>rc_appliedPrefixes := b r\<rparr>)))"
    "preserves clean (and_then f (\<lambda>r. (None, r\<lparr>rc_appliedBFD := c r\<rparr>)))"
    "preserves clean (and_then f (\<lambda>r. (None, r\<lparr>rc_appliedOSPF := d r\<rparr>)))"
  by (rule preserves_seq [OF assms], simp add: preserves_def)+

lemma ApplyIntent_clean: "preserves clean (ApplyIntent vt kind v)"
  by (cases v) (auto simp: ApplyIntent_def intro!: clean_recorded preserves_Pair apply_peer_clean prefix_clean session_clean)

lemma RemoveIntent_clean: "preserves clean (RemoveIntent vt kind key)"
proof -
  have nb: "preserves clean (removePeerFromFRR vt a)" "preserves clean (removeBFDFromFRR vt a i)" for a i
    unfolding removePeerFromFRR_def removeBFDFromFRR_def by (intro clean_intros sends_intros)+
  note rec = clean_recorded(1) [OF nb(1), unfolded preserves_def, rule_format]
    clean_recorded(2) [OF prefix_clean(3), unfolded preserves_def, rule_format]
    clean_recorded(3) [OF nb(2), unfolded preserves_def, rule_format]
    clean_recorded(4) [OF session_clean(4), unfolded preserves_def, rule_format]
  show ?thesis
    unfolding preserves_def
  proof (intro allI impI)
    fix r assume "clean r"
    then show "clean (snd (RemoveIntent vt kind key r))"
      by (simp add: RemoveIntent_def rec split: option.split)
  qed
qed

lemma withdraw_prefix_clean:
  assumes "clean r"
  shows "clean (snd (snd (withdraw_prefix vt p r)))"
proof -
  have f: "preserves clean (frr (WithdrawNetwork vt a i))" "preserves clean (frr (RemoveRouteMap vt a))" for a i
    by (intro clean_intros sends_intros)+
  obtain e s where s: "frr (WithdrawNetwork vt (px_Prefix p) (detectAFI (px_Prefix p))) r = (e, s)" by fastforce
  obtain e' t where t: "frr (RemoveRouteMap vt (routeMapName p)) s = (e', t)" by fastforce
  have "clean s" using f(1) assms s unfolding preserves_def by (metis snd_conv)
  moreover from this have "clean t" using f(2) t unfolding preserves_def by (metis snd_conv)
  ultimately show ?thesis using assms s t by (cases e; cases e') (simp_all add: withdraw_prefix_def)
qed

lemma withdraw_fold_clean:
  fixes s :: "'e list \<times> Reconciler"
  assumes "\<And>a r. clean r \<Longrightarrow> clean (snd (snd (act a r)))" "\<And>m r. clean (put m r) = clean r" "clean (snd s)"
  shows "clean (snd (fold (withdraw_step get put act) ks s))"
proof (rule fold_invariant' [where P = "\<lambda>s. clean (snd s)", OF assms(3)])
  fix k and s :: "'e list \<times> Reconciler" assume s: "clean (snd s)"
  have "snd (withdraw_step get put act k s) =
    (case get (snd s) k of None \<Rightarrow> snd s
     | Some a \<Rightarrow> (case act a (snd s) of (gone, es, r') \<Rightarrow> if gone then put (map_del (get r') k) r' else r'))"
    by (cases s) (simp add: withdraw_step_def split: option.split prod.split)
  moreover have "clean r'" if "act a (snd s) = (gone, es, r')" for a gone es r'
    using assms(1) [OF s, of a] that by simp
  ultimately show "clean (snd (withdraw_step get put act k s))"
    using assms(2) s by (simp split: option.split prod.split)
qed

lemma WithdrawAll_clean:
  assumes "clean r"
  shows "clean (snd (WithdrawAll vt ord r))"
proof (cases "rc_frrClient r = None")
  case True
  then have "WithdrawAll vt ord r = ([], r)" unfolding WithdrawAll_def by (rule if_P)
  with assms show ?thesis by simp
next
  case False
  have "preserves clean (frr (RemoveBFDPeer vt a i))" "preserves clean (frr (RemoveNeighbor vt a))" for a i
    by (intro clean_intros sends_intros)+
  note sends = this [unfolded preserves_def, rule_format] session_clean(4) [unfolded preserves_def, rule_format]
  have "clean (snd (w1 vt ord r))"
    unfolding w1_def by (rule withdraw_fold_clean) (simp_all add: assms withdraw_prefix_clean)
  then have "clean (snd (w2 vt ord r))" unfolding w2_def by (intro withdraw_fold_clean) (simp_all add: sends)
  then have "clean (snd (w3 vt ord r))" unfolding w3_def by (intro withdraw_fold_clean) (simp_all add: sends)
  then have "clean (snd (w4 vt ord r))" unfolding w4_def by (intro withdraw_fold_clean) (simp_all add: sends)
  then show ?thesis using clean_view [OF WithdrawAll_loops(3) [OF False]] by blast
qed

section \<open>Invariant of the runs\<close>

definition routing_ok :: "IntentStore \<times> Reconciler \<Rightarrow> bool" where
  "routing_ok = (\<lambda>(st, r). store_keyed st \<and> rec_ok r \<and> clean r)"

lemma routing_start_ok: "routing_ok (routing_start g)"
  by (simp add: routing_ok_def routing_start_def store_keyed_owners finite_store_def rec_ok_def NewReconciler_def
      clean_def NewClient_def sent_ok_def)

lemma routing_step_ok:
  assumes "routing_step a b" "routing_ok a"
  shows "routing_ok b"
  using assms
proof (induction rule: routing_step.induct)
  case (intents st st' r)
  then show ?case using store_step_keyed by (simp add: routing_ok_def)
next
  case (cycle ord st r vt sh)
  then show ?case using Reconcile_rec_ok(1) [OF cycle(1)] Reconcile_clean by (simp add: routing_ok_def)
next
  case (apply_one st r vt kind v)
  then show ?case using ApplyIntent_rec_ok [of vt kind v] ApplyIntent_clean [of vt kind v] by (simp add: routing_ok_def preserves_def)
next
  case (remove_one st r vt kind key)
  then show ?case using RemoveIntent_rec_ok [of vt kind key] RemoveIntent_clean [of vt kind key] by (simp add: routing_ok_def preserves_def)
next
  case (withdraw ord st r vt)
  then show ?case using WithdrawAll_rec_ok [OF withdraw(1)] WithdrawAll_clean by (simp add: routing_ok_def)
qed (simp_all add: routing_ok_def UpdateBGPGlobal_def SetFRRClient_def SetEventPublisher_def TriggerReconcile_def
    rec_ok_def clean_def NewClient_def sent_ok_def)

lemma routing_run_ok: "routing_step\<^sup>*\<^sup>* (routing_start g) s \<Longrightarrow> routing_ok s"
  by (induction rule: rtranclp_induct) (auto intro: routing_start_ok routing_step_ok)

lemma Reconcile_ready:
  assumes "accepts vt" "bgp_ready r" "rc_frrClient r \<noteq> None"
  shows "ready vt (snd (Reconcile vt ord st sh r))"
proof -
  obtain r1 where r1: "ensureBGPGlobal vt r = (None, r1)" and rd: "ready vt r1"
    using ensureBGPGlobal_ready [OF assms] by (metis prod.collapse)
  have "las (monitorFRRState ord st sh s) = las s" for s by (simp add: las_def)
  then show ?thesis unfolding Reconcile_unfold [OF assms(3) r1] using rd by (simp add: ready_def after_las)
qed

section \<open>Properties of the runs\<close>



text \<open>
  (C13) In every state that a run reaches, whatever texts the intents contain: each input that was written to
  \<open>vtysh\<close> is, line by line, one configuration block of commands that begin with one of the client's own
  verbs. No intent can add a configuration line.
\<close>

theorem frr_input_own_commands:
  assumes "routing_step\<^sup>*\<^sup>* (routing_start g) (st, r)" "rc_frrClient r = Some c" "i \<in> set (cl_sent c)"
  shows "\<exists>cmds. split_on newline i = ''configure terminal'' # cmds @ [''end'', []] \<and>
    (\<forall>l \<in> set cmds. list_ex (\<lambda>v. take (length v) l = v) verbs)"
proof -
  have "input_ok i"
    using routing_run_ok [OF assms(1)] assms(2,3) by (auto simp: routing_ok_def clean_def sent_ok_def list_all_iff)
  then show ?thesis by (auto simp: input_ok_def list_all_iff command_ok_def)
qed

text \<open>
  (C21) In every state that a run reaches: when the withdrawal reports no error, no applied intent is left,
  and when FRR accepts what it is sent and the BGP instance is configured, it reports no error.
\<close>

theorem withdraw_all_complete:
  assumes "routing_step\<^sup>*\<^sup>* (routing_start g) (st, r)" "rc_frrClient r \<noteq> None" "fair ord"
  shows "(fst (WithdrawAll vt ord r) = [] \<longrightarrow>
      applied (snd (WithdrawAll vt ord r)) = (Map.empty, Map.empty, Map.empty, Map.empty)) \<and>
    (ready vt r \<longrightarrow> fst (WithdrawAll vt ord r) = [])"
proof -
  have "rec_ok r" using routing_run_ok [OF assms(1)] by (simp add: routing_ok_def)
  then show ?thesis using w_passes(2,3) [OF assms(3), of r vt] WithdrawAll_loops(1,2) [OF assms(2)] by simp
qed

section \<open>An example\<close>

text \<open>A node with one peer, monitored by BFD, and one prefix with attributes.\<close>

definition rt_peer :: PeerIntent where
  "rt_peer =
     \<lparr>pi_Owner = [], pi_NeighborAddress = ''10.0.0.1'', pi_RemoteAS = 65001, pi_PeerType = 1, pi_Keepalive = 3,
      pi_HoldTime = 9, pi_BFDEnabled = True, pi_BFDMinRxMs = 300, pi_BFDMinTxMs = 300, pi_BFDDetectMultiplier = 3,
      pi_Description = ''tor'', pi_AddressFamilies = [1, 2], pi_SourceAddress = [], pi_EBGPMultihop = 0,
      pi_Password = ''secret'', pi_MaxPrefixes = 0, pi_CreatedAt = 0, pi_UpdatedAt = 0\<rparr>"

definition rt_prefix :: PrefixIntent where
  "rt_prefix =
     \<lparr>px_Owner = [], px_Prefix = ''10.1.0.0/16'', px_Protocol = ProtocolBGP, px_LocalPreference = 100,
      px_Communities = [''65000:1'', ''65000:2''], px_MED = 0, px_NextHop = [], px_CreatedAt = 0, px_UpdatedAt = 0\<rparr>"

definition rt_st :: IntentStore where
  "rt_st = snd (SetPrefixIntent 2 ''novanet'' (Some rt_prefix) (snd (SetPeerIntent 1 ''novanet'' (Some rt_peer) Map.empty)))"

definition rt_rec :: Reconciler where
  "rt_rec = NewReconciler (Some NewClient) (Some (65000, ''10.0.0.9''))"

definition rt_vtysh :: Vtysh where
  "rt_vtysh sent input = Some ''''"

definition rt_ord :: Order where
  "rt_ord l K = sorted_list_of_set K"

definition rt_shown :: Shown where
  "rt_shown = \<lparr>sh_bgp = Some [(''10.0.0.1'', ''Established'')], sh_bfd = None, sh_ospf = Some []\<rparr>"

lemma rt_ord_fair: "fair rt_ord"
  by (simp add: fair_def rt_ord_def)

lemma rt_vtysh_accepts: "accepts rt_vtysh"
  by (simp add: accepts_def rt_vtysh_def vtysh_complains_def)

lemma rt_run: "routing_step\<^sup>*\<^sup>* (routing_start (Some (65000, ''10.0.0.9''))) (rt_st, rt_rec)"
proof -
  have "routing_step (Map.empty, rt_rec) (snd (SetPeerIntent 1 ''novanet'' (Some rt_peer) Map.empty), rt_rec)"
    "routing_step (snd (SetPeerIntent 1 ''novanet'' (Some rt_peer) Map.empty), rt_rec) (rt_st, rt_rec)"
    unfolding rt_st_def by (intro routing_step.intents store_step.intros)+
  moreover have "routing_start (Some (65000, ''10.0.0.9'')) = (Map.empty, rt_rec)" by (simp add: routing_start_def rt_rec_def)
  ultimately show ?thesis by (simp add: rtranclp.rtrancl_into_rtrancl [OF r_into_rtranclp])
qed

lemma rt_st_eq:
  "rt_st = [''novanet'' \<mapsto> \<lparr>ow_Peers = [''peer:10.0.0.1'' \<mapsto> rt_peer\<lparr>pi_Owner := ''novanet'', pi_CreatedAt := 1, pi_UpdatedAt := 1\<rparr>],
     ow_Prefixes = [''prefix:bgp:10.1.0.0/16'' \<mapsto> rt_prefix\<lparr>px_Owner := ''novanet'', px_CreatedAt := 2, px_UpdatedAt := 2\<rparr>],
     ow_BFD = Map.empty, ow_OSPF = Map.empty\<rparr>]"
  by (simp add: rt_st_def SetPeerIntent_def SetPrefixIntent_def setIntent_def ensureOwner_def newOwnerIntents_def created_def
      rt_peer_def rt_prefix_def peerKey_def prefixKey_def lower_char_def protocolString_def Let_def)

lemma rt_st_unshared: "store_unshared rt_st"
  by (auto simp: store_unshared_def unshared_def rt_st_eq split: if_splits)

lemma rt_parse: "ParseIP ''10.0.0.1'' \<noteq> None"
  by (simp add: ParseIP_def ParseAddr_def dec_val_def Let_def)

lemma rt_address_ok: "validateIPAddress ''10.0.0.1'' = None"
  using rt_parse by (simp add: validateIPAddress_def)

lemma rt_intents_ok: "intents_ok rt_st"
  by (simp add: rt_address_ok intents_ok_def rt_st_eq rt_peer_def rt_prefix_def peer_ok_def prefix_ok_def neighbor_config_def AddNeighbor_check_def
      sanitizeVTYParam_def digit_char_def route_map_sets_def ctl_byte_def protocol_defs dec_str_def base_str.simps)

lemma rt_bgp_ready: "bgp_ready rt_rec" "rc_frrClient rt_rec \<noteq> None"
  by (simp_all add: bgp_ready_def rt_rec_def NewReconciler_def sanitizeVTYParam_def ctl_byte_def)

definition rt_bfd :: BFDIntent where
  "rt_bfd = \<lparr>bi_Owner = ''novanet'', bi_PeerAddress = ''10.0.0.1'', bi_MinRxMs = 300, bi_MinTxMs = 300,
     bi_DetectMultiplier = 3, bi_InterfaceName = ''eth0'', bi_CreatedAt = 1, bi_UpdatedAt = 1\<rparr>"

lemma rt_applied_peer:
  assumes "converged rt_st r"
  shows "\<exists>p. rc_appliedPeers r ''peer:10.0.0.1'' = Some p \<and> pi_RemoteAS p = 65001"
proof -
  let ?p = "rt_peer\<lparr>pi_Owner := ''novanet'', pi_CreatedAt := 1, pi_UpdatedAt := 1\<rparr>"
  obtain oi where "rt_st ''novanet'' = Some oi" "ow_Peers oi ''peer:10.0.0.1'' = Some ?p" by (simp add: rt_st_eq)
  moreover have "agrees ow_Peers peerEqual {} rt_st (rc_appliedPeers r)" using assms by (simp add: converged_def)
  ultimately have "\<exists>a. rc_appliedPeers r ''peer:10.0.0.1'' = Some a \<and> peerEqual a ?p" unfolding agrees_def by blast
  then obtain a where "rc_appliedPeers r ''peer:10.0.0.1'' = Some a" "peerEqual a ?p" by blast
  then show ?thesis by (simp add: peerEqual_def rt_peer_def)
qed

lemma rt_succeeds: "\<exists>r. Reconcile rt_vtysh rt_ord rt_st rt_shown rt_rec = (None, r)"
proof -
  have "store_keyed rt_st" "rec_ok rt_rec" using routing_run_ok [OF rt_run] by (simp_all add: routing_ok_def)
  then have "finite_store rt_st" "rec_ok rt_rec" by (simp_all add: store_keyed_def)
  from Reconcile_live [OF rt_ord_fair this rt_bgp_ready(2) rt_vtysh_accepts rt_bgp_ready(1) rt_intents_ok]
  show ?thesis by (metis prod.collapse)
qed

lemma rt_sent:
  "\<exists>c. rc_frrClient (snd (ApplyIntent rt_vtysh ''bfd'' (BFDV rt_bfd) rt_rec)) = Some c \<and> length (cl_sent c) = 1"
  by (simp add: ApplyIntent_def applyBFDIntent_def rt_bfd_def rt_rec_def NewReconciler_def NewClient_def frr_def AddBFDPeer_def
      bfd_check_def rt_address_ok sanitizeVTYParam_def ctl_byte_def checked_def runConfig_def rt_vtysh_def vtysh_complains_def
      and_then_def Let_def)



theorem frr_input_own_commands_witness:
  "\<exists>c i cmds. rc_frrClient (snd (ApplyIntent rt_vtysh ''bfd'' (BFDV rt_bfd) rt_rec)) = Some c \<and> cl_sent c = [i]
     \<and> split_on newline i = ''configure terminal'' # cmds @ [''end'', []]
     \<and> list_all (\<lambda>l. list_ex (\<lambda>v. take (length v) l = v) verbs) cmds"
proof -
  obtain c where c: "rc_frrClient (snd (ApplyIntent rt_vtysh ''bfd'' (BFDV rt_bfd) rt_rec)) = Some c" "length (cl_sent c) = 1"
    using rt_sent by blast
  then obtain i where i: "cl_sent c = [i]" by (cases "cl_sent c") auto
  have "routing_step\<^sup>*\<^sup>* (routing_start (Some (65000, ''10.0.0.9''))) (rt_st, snd (ApplyIntent rt_vtysh ''bfd'' (BFDV rt_bfd) rt_rec))"
    using rt_run by (rule rtranclp.rtrancl_into_rtrancl) (rule routing_step.apply_one)
  from frr_input_own_commands [OF this c(1), of i] i c(1) show ?thesis by (auto simp: list_all_iff)
qed

theorem withdraw_all_complete_witness:
  "\<exists>r. routing_step\<^sup>*\<^sup>* (routing_start (Some (65000, ''10.0.0.9''))) (rt_st, r) \<and> rc_appliedPeers r ''peer:10.0.0.1'' \<noteq> None
     \<and> fst (WithdrawAll rt_vtysh rt_ord r) = []
     \<and> applied (snd (WithdrawAll rt_vtysh rt_ord r)) = (Map.empty, Map.empty, Map.empty, Map.empty)"
proof -
  obtain r where r: "Reconcile rt_vtysh rt_ord rt_st rt_shown rt_rec = (None, r)" using rt_succeeds by blast
  have run: "routing_step\<^sup>*\<^sup>* (routing_start (Some (65000, ''10.0.0.9''))) (rt_st, r)"
    using rtranclp.rtrancl_into_rtrancl [OF rt_run routing_step.cycle [OF rt_ord_fair, of rt_st rt_rec rt_vtysh rt_shown]] r by simp
  have ok: "store_keyed rt_st" "rec_ok rt_rec" using routing_run_ok [OF rt_run] by (simp_all add: routing_ok_def)
  have "converged rt_st r" by (rule Reconcile_sound(1) [OF rt_ord_fair ok(1) rt_st_unshared ok(2) rt_bgp_ready(2) r])
  moreover have "ready rt_vtysh r"
    using Reconcile_ready [OF rt_vtysh_accepts rt_bgp_ready, of rt_ord rt_st rt_shown] r by simp
  moreover from this have "rc_frrClient r \<noteq> None" by (auto simp: ready_def las_def)
  ultimately show ?thesis
    using withdraw_all_complete [OF run _ rt_ord_fair, of rt_vtysh] rt_applied_peer run by (intro exI [of _ r]) auto
qed

end
