(* ===== verification/Spec2Isabelle.thy ===== *)
theory Spec2Isabelle
  imports Operator_IPAM LB_IPAM Agent_Pods Routing_System
begin

text \<open>
  Verification of NovaNet, a Kubernetes network plugin: a Go agent and operator (\<open>internal\<close>, \<open>cmd\<close>,
  \<open>api\<close>) and an eBPF dataplane in Rust (\<open>dataplane\<close>).

  The parts and their theories.

  \<^item> \<open>Prelude\<close>: words, maps with their enumeration orders, lists; \<open>Constants\<close>: \<open>internal/constants\<close>;
    \<open>GoNet\<close>: what the program uses of Go's \<open>net\<close>, \<open>net/netip\<close> and \<open>math/big\<close>.
  \<^item> \<open>IPBitmap\<close>: the two allocation bitmaps, both implementations of one interface \<open>bitset\<close>.
  \<^item> \<open>IPAM_Allocator\<close>: pod addresses of one node (\<open>internal/ipam/allocator.go\<close>) with the state directory
    on disk. The outcome of each file system call is an argument, so the theorems cover every
    pattern of failures: exactness of a restart, safety of a restart after failures, each operation
    on every branch, no panic in any reachable state.
  \<^item> \<open>IPAM_Pool\<close>, \<open>IPAM_Manager\<close>: pools, their manager and the gRPC service (\<open>internal/ipam\<close>). The
    interface \<open>address_pool\<close> says what a pool promises; no address has two owners.
  \<^item> \<open>Webhook\<close>: admission (\<open>internal/webhook\<close>); \<open>Operator_IPAM\<close>: the operator's controllers for pools
    and allocations. What the webhook admits is shown to be what the pool needs, with the
    exceptions where it is not.
  \<^item> \<open>LB_IPAM\<close>: addresses of load balancer services (\<open>internal/lbipam/allocator.go\<close>).
  \<^item> \<open>Service_Slots\<close>, \<open>Maglev\<close>, \<open>Service_Watcher\<close>: the load balancer control loop
    (\<open>internal/service\<close>). The free list of slots refines a set of slots (interface \<open>slot_pool\<close>); table
    generation ends and is balanced; the watcher keeps a partition of the slots and installs exactly
    the ready backends.
  \<^item> \<open>Identity\<close>: label sets as 64 bit identities (\<open>internal/identity/allocator.go\<close>).
  \<^item> \<open>Policy_Compiler\<close>, \<open>DNS_Cache\<close>, \<open>Policy_Extended\<close>: compilation of policies into rules over
    identities (\<open>internal/policy\<close>). Rules admit exactly what the policy, read on labels, allows.
  \<^item> \<open>Dataplane_Types\<close>: the keys, values and constants of the eBPF maps (\<open>dataplane/novanet-common\<close>) and
    the record \<open>Maps\<close> of all maps; \<open>Dataplane_Server\<close>: the handlers of the dataplane service on them
    (\<open>dataplane/novanet-dataplane/src/server.rs\<close> and \<open>maps.rs\<close>); \<open>Dataplane_Programs\<close>: the eBPF programs
    (\<open>dataplane/novanet-ebpf/src/main.rs\<close>), from the bytes of a packet to a verdict, with the answers of
    the kernel in the record \<open>Env\<close>.
  \<^item> \<open>Agent_Server\<close>: the agent's handlers for pods and policies and the egress manager
    (\<open>internal/agent/server.go\<close>, \<open>setup_dataplane.go\<close>, \<open>internal/egress\<close>), whose calls to the dataplane run
    on \<open>Maps\<close>; \<open>Enforcement\<close>: what the programs make of the rules that the agent sends. The theorems
    below join them: from a policy object and labels to the verdict on a packet.
  \<^item> \<open>Agent_Pods\<close>: runs of the agent, any sequence of pods added and removed and of policy changes with
    any failures. No two pods share an address, and the dataplane mirrors the pods.
  \<^item> \<open>FRR_Client\<close>: the operations that configure the routing daemon FRR (\<open>internal/routing/frr\<close>), down to the
    text that \<open>vtysh\<close> reads; \<open>vtysh\<close> itself is an argument. \<open>Routing_Intents\<close>: the intent store and the
    policy engine (\<open>internal/routing/intent\<close>, \<open>internal/routing/policy\<close>): an admitted prefix lies inside
    an allowed network, with the exception where it does not. \<open>Routing_Reconciler\<close>: the reconciler
    (\<open>internal/routing/reconciler\<close>). Its four passes are one loop, and the interface \<open>sync_target\<close> says
    what the loop needs from a kind of intents. \<open>Routing_System\<close>: runs of store and reconciler; what
    success of a cycle means, when a cycle succeeds, complete withdrawal (interface \<open>withdraw_target\<close>),
    and that no intent can smuggle a command line into FRR.

  Conventions. A Go struct is a record with its fields, without mutexes (exported methods hold their
  lock for their whole body; \<open>Reconciler.Reconcile\<close> takes it for each of its parts, and the model runs its
  parts without other calls in between) and loggers. A panic or a loop without end is \<^const>\<open>None\<close>, or the error
  \<open>RuntimePanic\<close> where the operation has an error result. Clocks, outcomes of system calls, answers
  of other services and enumeration orders of maps are arguments. Loops whose end depends on the data
  are partial functions; there is no fuel anywhere: a theorem says when they return.

  Maps of the kernel are finite maps with their capacity, per-CPU maps are functions of the CPU, and
  an LRU map may lose any entry on insertion. Words have the width of the source and wrap around.

  Not modelled: network, netlink and file configuration code, whose effects are outside the process; the
  parsers of FRR's show output and the routing manager around the reconciler; generated protobuf and deep
  copy code; the command line clients; set-up code; metrics and logging; the dataplane handlers for host policies, the IP cache and XDP, for which the eBPF object
  has neither maps nor programs; the mock maps of the dataplane's tests. The manifest lists each part.
\<close>

section \<open>Network policies from the object to the packet\<close>



lemma ex_low_bits:
  "inj_on (ucast :: u64 \<Rightarrow> u32) ({0, ex_web_id, ex_db_id} \<union> rule_identities (identity_rules (CompilePolicy ex_env (Some ex_np))))"
  by (auto simp: inj_on_def ex_compiled identity_rules_def rule_identities_def ex_compiled_rule_def ex_web_id_def ex_db_id_def)



text \<open>
  (C24) The dataplane keeps the low 32 bits of an identity. A pod labelled \<open>app=cxbkyih\<close> has another identity
  than the pods labelled \<open>app=web\<close>, which the compiled policy does not admit, but its low bits are the same,
  so that its packets pass although the default is to deny.
\<close>

theorem forged_label_admitted:
  "\<exists>lbls. lbls ''app'' = Some ''cxbkyih'' \<and> HashLabels lbls \<noteq> ex_web_id
     \<and> \<not> admitted (CompilePolicy ex_env (Some ex_np)) False (HashLabels lbls) ex_db_id ProtocolTCP 80
     \<and> fst (tc_egress ex_en (ex_skb 80)
             (snd (OnPolicyChange [] (\<lambda>_. []) (CompilePolicy ex_env (Some ex_np)) ex_server (ex_pods 1 (HashLabels lbls) ex_db_id)))) = TC_ACT_OK"
proof -
  let ?L = "[''app'' \<mapsto> ''cxbkyih'', ''novanet.io/namespace'' \<mapsto> ''ns'']" and ?rules = "CompilePolicy ex_env (Some ex_np)"
  let ?m = "ex_pods 1 ex_web_id ex_db_id"
  have "canonicalLabels ?L = ''app=cxbkyih,novanet.io/namespace=ns''" by (simp add: canonicalLabels_def)
  then have h: "HashLabels ?L = 10198994247208443400" by (simp add: HashLabels_def hashCanonical_def ex_hash_forged)
  have "ucast (HashLabels ?L) = (ucast ex_web_id :: u32)" by (simp add: h ex_web_id_def)
  then have m: "ex_pods 1 (HashLabels ?L) ex_db_id = ?m" by (simp add: ex_pods_def)
  have fits: "fits ?rules ?m" by (rule ex_fits) (simp add: ex_compiled MAX_POLICIES_def)
  have conn: "s_DpConnected ex_server" by (simp add: ex_server_def)
  have "cr_Action r = ActionAllow \<and> rule_shape r" if "r \<in> set (identity_rules ?rules)" for r
    using that by (simp add: ex_compiled identity_rules_def ex_compiled_rule_def rule_shape_def ex_id_facts WildcardIdentity_def const_defs)
  note pol = check_policy_rules [OF fits conn refl this ex_low_bits, of "[]" "\<lambda>_. []"]
  have "fst (tc_egress ex_en (ex_skb 80) (snd (OnPolicyChange [] (\<lambda>_. []) ?rules ex_server ?m))) = TC_ACT_OK"
    using tc_egress_after [OF conn refl ex_parse(1) ex_local, of ex_en "[]" "\<lambda>_. []" ?rules 1 ex_web_id ex_db_id] pol
    by (simp add: ex_deny ex_compiled ex_compiled_rule_def rule_admits_def ex_pkt_def const_defs)
  moreover have "\<not> admitted ?rules False (HashLabels ?L) ex_db_id ProtocolTCP 80"
    by (simp add: admitted_def ex_compiled ex_compiled_rule_def rule_admits_def h ex_web_id_def WildcardIdentity_def)
  moreover have "HashLabels ?L \<noteq> ex_web_id" by (simp add: h ex_web_id_def)
  ultimately show ?thesis using m by (intro exI [of _ ?L]) simp
qed



end
